(* ===== verification/Prelude.thy ===== *)
theory Prelude
  imports Main "HOL-Library.Word" "HOL-Library.Monad_Syntax"
begin

section \<open>Shared vocabulary and automation\<close>

text \<open>
  What every component uses: the names of the machine types, the conversions between C's
  signed and unsigned integers, the reading of a partial operation as an option value
  (\<open>None\<close> is an access outside an array, or a recursion cut off by its fuel: in both cases
  the C program has no defined result), and lemma collections for the proofs.
\<close>

named_theorems byte_array \<open>facts about the byte arrays that hold the bit sets\<close>
named_theorems clock_step \<open>what one calendar operation does to the instant it represents\<close>
named_theorems field_bounds \<open>ranges of the fields of a broken-down time\<close>

type_synonym u8 = "8 word"
type_synonym u32 = "32 word"
type_synonym time_t = int

text \<open>The conversion of an \<open>int\<close> to \<open>unsigned int\<close>, as the number it stands for.\<close>

definition u32_of_int :: "int \<Rightarrow> nat" where
  "u32_of_int x = nat (x mod 4294967296)"

lemma u32_of_int_small: "0 \<le> x \<Longrightarrow> x < 4294967296 \<Longrightarrow> u32_of_int x = nat x"
  by (simp add: u32_of_int_def)

lemma int_u32_of_int_small: "0 \<le> x \<Longrightarrow> x < 4294967296 \<Longrightarrow> int (u32_of_int x) = x"
  by (simp add: u32_of_int_def)

subsection \<open>Partial operations\<close>

text \<open>A list of partial steps, run in order.\<close>

fun fold_option :: "('a \<Rightarrow> 's \<Rightarrow> 's option) \<Rightarrow> 'a list \<Rightarrow> 's \<Rightarrow> 's option" where
  "fold_option f [] s = Some s"
| "fold_option f (x # xs) s = do { s' \<leftarrow> f x s; fold_option f xs s' }"

lemma fold_option_append:
  "fold_option f (xs @ ys) s = do { s' \<leftarrow> fold_option f xs s; fold_option f ys s' }"
  by (induction xs arbitrary: s) (auto split: Option.bind_splits)

lemma fold_option_invariant:
  assumes "\<And>x s. P s \<Longrightarrow> \<exists>s'. f x s = Some s' \<and> P s'" "P s"
  shows "\<exists>s'. fold_option f xs s = Some s' \<and> P s'"
  using assms(2)
proof (induction xs arbitrary: s)
  case (Cons x xs)
  then obtain s' where "f x s = Some s'" "P s'" using assms(1) by blast
  then show ?case using Cons.IH by simp
qed simp

lemma bind_Some_iff: "(do { x \<leftarrow> m; f x }) = Some y \<longleftrightarrow> (\<exists>x. m = Some x \<and> f x = Some y)"
  by (cases m) auto

subsection \<open>Residues\<close>

lemma mod_in_block:
  fixes k q i :: int
  assumes "k * q \<le> i" "i < k * q + k"
  shows "i mod k = i - k * q"
proof -
  have "i mod k = (k * q + (i - k * q)) mod k" by simp
  also have "\<dots> = (i - k * q) mod k" by (rule mod_mult_self4)
  also have "\<dots> = i - k * q" using assms by (intro mod_pos_pos_trivial) auto
  finally show ?thesis .
qed

end
