(* ===== verification/Cron_Bits.thy ===== *)
theory Cron_Bits
  imports Prelude
begin

unbundle bit_operations_syntax

section \<open>Bit sets in byte arrays, and the reset list\<close>

text \<open>
  \<open>cron_set_bit\<close>, \<open>cron_del_bit\<close>, \<open>cron_get_bit\<close>, \<open>next_set_bit\<close>, \<open>prev_set_bit\<close> and
  \<open>push_to_fields_arr\<close> of \<open>ccronexpr.c\<close>. A \<open>uint8_t*\<close> is the list of the bytes of its array;
  an access outside the array has no defined result (\<open>None\<close>). \<open>bits_of\<close> is the set of
  numbers an array holds; the locale \<open>bit_store\<close> is the contract its clients use.
\<close>

subsection \<open>Single bits\<close>

definition cron_set_bit :: "u8 list \<Rightarrow> nat \<Rightarrow> u8 list option" where
  "cron_set_bit rbyte idx =
     (let j = (idx div 8) mod 256; k = idx mod 8 in
      if j < length rbyte then Some (rbyte[j := rbyte ! j OR push_bit k 1]) else None)"

definition cron_del_bit :: "u8 list \<Rightarrow> nat \<Rightarrow> u8 list option" where
  "cron_del_bit rbyte idx =
     (let j = (idx div 8) mod 256; k = idx mod 8 in
      if j < length rbyte then Some (rbyte[j := rbyte ! j AND NOT (push_bit k 1)]) else None)"

definition cron_get_bit :: "u8 list \<Rightarrow> nat \<Rightarrow> bool option" where
  "cron_get_bit rbyte idx =
     (let j = (idx div 8) mod 256; k = idx mod 8 in
      if j < length rbyte then Some (rbyte ! j AND push_bit k 1 \<noteq> 0) else None)"

definition bits_of :: "u8 list \<Rightarrow> nat set" where
  "bits_of b = {i. i < 8 * length b \<and> bit (b ! (i div 8)) (i mod 8)}"

lemma and_power2_eq_0: "w AND 2 ^ k = (0::u8) \<longleftrightarrow> \<not> bit w k"
proof
  assume "w AND 2 ^ k = 0"
  then have "\<not> bit (w AND 2 ^ k) k" by simp
  then show "\<not> bit w k" by (auto simp: bit_and_iff bit_exp_iff dest: bit_imp_le_length)
next
  assume "\<not> bit w k"
  then show "w AND 2 ^ k = 0" by (intro bit_word_eqI) (auto simp: bit_and_iff bit_exp_iff)
qed

lemma bits_of_code [code]: "bits_of b = List.set (filter (\<lambda>i. bit (b ! (i div 8)) (i mod 8)) [0..<8 * length b])"
  by (auto simp: bits_of_def)

lemma bits_of_bound: "i \<in> bits_of b \<Longrightarrow> i < 8 * length b"
  by (simp add: bits_of_def)

lemma cron_get_bit_eq [byte_array]:
  "i < 8 * length b \<Longrightarrow> length b \<le> 256 \<Longrightarrow> cron_get_bit b i = Some (i \<in> bits_of b)"
  by (simp add: cron_get_bit_def bits_of_def and_power2_eq_0 Let_def)

lemma cron_set_bit_eq [byte_array]:
  assumes "i < 8 * length b" "length b \<le> 256"
  shows "\<exists>b'. cron_set_bit b i = Some b' \<and> length b' = length b \<and> bits_of b' = insert i (bits_of b)"
proof -
  let ?b = "b[i div 8 := b ! (i div 8) OR 2 ^ (i mod 8)]"
  have "bits_of ?b = insert i (bits_of b)"
    using assms
    by (auto simp: bits_of_def nth_list_update bit_or_iff bit_exp_iff split: if_splits)
      (metis div_mult_mod_eq)+
  moreover have "cron_set_bit b i = Some ?b"
    using assms by (simp add: cron_set_bit_def Let_def)
  ultimately show ?thesis by simp
qed

lemma cron_del_bit_eq [byte_array]:
  assumes "i < 8 * length b" "length b \<le> 256"
  shows "\<exists>b'. cron_del_bit b i = Some b' \<and> length b' = length b \<and> bits_of b' = bits_of b - {i}"
proof -
  let ?b = "b[i div 8 := b ! (i div 8) AND NOT (2 ^ (i mod 8))]"
  have "bits_of ?b = bits_of b - {i}"
    using assms
    by (auto simp: bits_of_def nth_list_update bit_and_iff bit_not_iff bit_exp_iff
        dest: bit_imp_le_length split: if_splits)
      (metis div_mult_mod_eq)+
  moreover have "cron_del_bit b i = Some ?b"
    using assms by (simp add: cron_del_bit_def Let_def)
  ultimately show ?thesis by simp
qed

subsection \<open>The contract of a bit store\<close>

locale bit_store =
  fixes get :: "'s \<Rightarrow> nat \<Rightarrow> bool option"
    and set_bit :: "'s \<Rightarrow> nat \<Rightarrow> 's option"
    and del_bit :: "'s \<Rightarrow> nat \<Rightarrow> 's option"
    and contents :: "'s \<Rightarrow> nat set"
    and capacity :: "'s \<Rightarrow> nat"
    and valid :: "'s \<Rightarrow> bool"
  assumes get: "valid s \<Longrightarrow> i < capacity s \<Longrightarrow> get s i = Some (i \<in> contents s)"
    and set_bit: "valid s \<Longrightarrow> i < capacity s \<Longrightarrow>
      \<exists>s'. set_bit s i = Some s' \<and> valid s' \<and> capacity s' = capacity s \<and> contents s' = insert i (contents s)"
    and del_bit: "valid s \<Longrightarrow> i < capacity s \<Longrightarrow>
      \<exists>s'. del_bit s i = Some s' \<and> valid s' \<and> capacity s' = capacity s \<and> contents s' = contents s - {i}"
begin

lemma set_all:
  "valid s \<Longrightarrow> \<forall>i \<in> set is. i < capacity s \<Longrightarrow>
   \<exists>s'. fold_option (\<lambda>i s. set_bit s i) is s = Some s' \<and> valid s' \<and> capacity s' = capacity s
     \<and> contents s' = contents s \<union> set is"
proof (induction "is" arbitrary: s)
  case Nil
  then show ?case by simp
next
  case (Cons i "is")
  then obtain t where t: "set_bit s i = Some t" "valid t" "capacity t = capacity s"
    "contents t = insert i (contents s)"
    using set_bit [of s i] by auto
  with Cons.IH [of t] Cons.prems show ?case by auto
qed

lemma move_bit:
  assumes "valid s" "i < capacity s" "j < capacity s" "i \<noteq> j"
  shows "\<exists>s1 s2. set_bit s j = Some s1 \<and> del_bit s1 i = Some s2 \<and> valid s2
    \<and> capacity s2 = capacity s \<and> contents s2 = insert j (contents s - {i})"
proof -
  obtain s1 where s1: "set_bit s j = Some s1" "valid s1" "capacity s1 = capacity s"
    "contents s1 = insert j (contents s)"
    using set_bit assms by blast
  with del_bit [of s1 i] assms show ?thesis by auto
qed

end

interpretation cron_bits: bit_store cron_get_bit cron_set_bit cron_del_bit bits_of
  "\<lambda>b. 8 * length b" "\<lambda>b. length b \<le> 256"
proof
  fix b :: "u8 list" and i :: nat
  assume b: "length b \<le> 256" "i < 8 * length b"
  show "cron_get_bit b i = Some (i \<in> bits_of b)" using b by (simp add: byte_array)
  show "\<exists>b'. cron_set_bit b i = Some b' \<and> length b' \<le> 256 \<and> 8 * length b' = 8 * length b
      \<and> bits_of b' = insert i (bits_of b)"
    using cron_set_bit_eq [OF b(2,1)] b(1) by auto
  show "\<exists>b'. cron_del_bit b i = Some b' \<and> length b' \<le> 256 \<and> 8 * length b' = 8 * length b
      \<and> bits_of b' = bits_of b - {i}"
    using cron_del_bit_eq [OF b(2,1)] b(1) by auto
qed

subsection \<open>Searching for a set bit\<close>

text \<open>The value found and the \<open>notfound\<close> flag. The result of a failed search is 0.\<close>

function next_set_bit :: "u8 list \<Rightarrow> nat \<Rightarrow> nat \<Rightarrow> (nat \<times> bool) option" where
  "next_set_bit bits mx i =
     (if i < mx
      then do { b \<leftarrow> cron_get_bit bits i;
                if b then Some (i, False) else next_set_bit bits mx (i + 1) }
      else Some (0, True))"
  by pat_completeness auto
termination by (relation "measure (\<lambda>(bits, mx, i). mx - i)") auto

declare next_set_bit.simps [simp del]

text \<open>\<open>for (i = from_index; i >= to_index; i--)\<close>: \<open>i\<close> is a signed \<open>int\<close>, so a search down
  to 0 ends when \<open>i\<close> becomes -1.\<close>

function prev_set_bit :: "u8 list \<Rightarrow> int \<Rightarrow> int \<Rightarrow> (nat \<times> bool) option" where
  "prev_set_bit bits i to =
     (if to \<le> i
      then (if i < 0 then None
            else do { b \<leftarrow> cron_get_bit bits (nat i);
                      if b then Some (nat i, False) else prev_set_bit bits (i - 1) to })
      else Some (0, True))"
  by pat_completeness auto
termination by (relation "measure (\<lambda>(bits, i, to). nat (i - to + 1))") auto

declare prev_set_bit.simps [simp del]

lemma next_set_bit_None:
  assumes "length b \<le> 256" "mx \<le> 8 * length b" "\<forall>j \<in> bits_of b. i \<le> j \<longrightarrow> mx \<le> j"
  shows "next_set_bit b mx i = Some (0, True)"
  using assms
proof (induction b mx i rule: next_set_bit.induct)
  case (1 bits mx i)
  show ?case
  proof (cases "i < mx")
    case True
    then have "i \<notin> bits_of bits" using "1.prems"(3) by force
    with True "1.prems" "1.IH" [of False] show ?thesis
      by (simp add: next_set_bit.simps [of bits mx i] byte_array)
  qed (simp add: next_set_bit.simps)
qed

lemma next_set_bit_Some:
  assumes "length b \<le> 256" "mx \<le> 8 * length b" "n \<in> bits_of b" "i \<le> n" "n < mx"
    "\<forall>j \<in> bits_of b. i \<le> j \<longrightarrow> n \<le> j"
  shows "next_set_bit b mx i = Some (n, False)"
  using assms
proof (induction b mx i rule: next_set_bit.induct)
  case (1 bits mx i)
  show ?case
  proof (cases "i = n")
    case True
    with "1.prems" show ?thesis
      by (simp add: next_set_bit.simps [of bits mx n] byte_array)
  next
    case False
    then have "i \<notin> bits_of bits" "i < mx" using "1.prems" by force+
    with False "1.prems" "1.IH" [of False] show ?thesis
      by (simp add: next_set_bit.simps [of bits mx i] byte_array)
  qed
qed

lemma prev_set_bit_None:
  assumes "length b \<le> 256" "i < int (8 * length b)" "0 \<le> to" "\<forall>j \<in> bits_of b. int j \<le> i \<longrightarrow> int j < to"
  shows "prev_set_bit b i to = Some (0, True)"
  using assms
proof (induction b i to rule: prev_set_bit.induct)
  case (1 bits i to)
  show ?case
  proof (cases "to \<le> i")
    case True
    then have "nat i \<notin> bits_of bits" using "1.prems"(3,4) by (metis int_nat_eq not_le order_refl order_trans)
    with True "1.prems" "1.IH" [of False] show ?thesis
      by (simp add: prev_set_bit.simps [of bits i to] byte_array nat_less_iff)
  qed (simp add: prev_set_bit.simps)
qed

lemma prev_set_bit_Some:
  assumes "length b \<le> 256" "i < int (8 * length b)" "0 \<le> to" "n \<in> bits_of b" "to \<le> int n" "int n \<le> i"
    "\<forall>j \<in> bits_of b. int j \<le> i \<longrightarrow> j \<le> n"
  shows "prev_set_bit b i to = Some (n, False)"
  using assms
proof (induction b i to rule: prev_set_bit.induct)
  case (1 bits i to)
  show ?case
  proof (cases "i = int n")
    case True
    with "1.prems" show ?thesis
      by (simp add: prev_set_bit.simps [of bits "int n" to] byte_array)
  next
    case False
    then have "nat i \<notin> bits_of bits" "to \<le> i" using "1.prems" by force+
    with False "1.prems" "1.IH" [of False] show ?thesis
      by (simp add: prev_set_bit.simps [of bits i to] byte_array nat_less_iff)
  qed
qed

subsection \<open>The list of fields to reset\<close>

text \<open>\<open>CRON_CF_ARR_LEN\<close> entries, -1 in the free ones; a field already there is not pushed.\<close>

fun push_first_free :: "int list \<Rightarrow> int \<Rightarrow> int list" where
  "push_first_free [] fi = []"
| "push_first_free (a # as) fi = (if a = - 1 then fi # as else a # push_first_free as fi)"

definition push_to_fields_arr :: "int list \<Rightarrow> int \<Rightarrow> int list" where
  "push_to_fields_arr arr fi =
     (if fi = - 1 then arr else if fi \<in> set arr then arr else push_first_free arr fi)"

definition no_fields :: "int list" where
  "no_fields = replicate 7 (- 1)"

end
