(* ===== verification/Civil_Time.thy ===== *)
theory Civil_Time
  imports Prelude
begin

section \<open>The proleptic Gregorian calendar\<close>

text \<open>
  The calendar arithmetic behind \<open>struct tm\<close>: day numbers (days since 1970-01-01), the year,
  month and day of the month of a day number, and the day number of a civil date. Both
  directions compute; \<open>civil_of_day_of\<close> and \<open>day_of_civil\<close> say that they are inverse.
  This is the C library's part of the model (\<open>timegm\<close>, \<open>gmtime_r\<close>), used by \<open>C_Time\<close>.
\<close>

subsection \<open>Years\<close>

definition leap_year :: "int \<Rightarrow> bool" where
  "leap_year y \<longleftrightarrow> y mod 4 = 0 \<and> (y mod 100 \<noteq> 0 \<or> y mod 400 = 0)"

definition days_before_year :: "int \<Rightarrow> int" where
  "days_before_year y =
     365 * (y - 1) + (y - 1) div 4 - (y - 1) div 100 + (y - 1) div 400 - 719162"

definition year_of_day :: "int \<Rightarrow> int" where
  "year_of_day d =
     (let z = d + 719162;
          r400 = z mod 146097;
          n100 = min 3 (r400 div 36524);
          r100 = r400 - 36524 * n100;
          r4 = r100 mod 1461
      in 400 * (z div 146097) + 100 * n100 + 4 * (r100 div 1461) + min 3 (r4 div 365) + 1)"

lemma div_pred_step: "0 < k \<Longrightarrow> (y::int) div k = (y - 1) div k + (if y mod k = 0 then 1 else 0)"
proof (cases "y mod k = 0")
  case True
  assume k: "0 < k"
  from True obtain q where y: "y = k * q" by auto
  have "(y - 1) div k = q - 1"
    using k unfolding y by (intro int_div_pos_eq [where r = "k - 1"]) (auto simp: algebra_simps)
  then show ?thesis using True k y by simp
next
  case False
  assume k: "0 < k"
  have "(y - 1) div k = y div k"
    using k False pos_mod_bound [of k y] pos_mod_sign [of k y] mult_div_mod_eq [of k y]
    by (intro int_div_pos_eq [where r = "y mod k - 1"]) linarith+
  then show ?thesis using False by simp
qed

lemma mod_eq_0_dvd_mono: "k dvd l \<Longrightarrow> (y::int) mod l = 0 \<Longrightarrow> y mod k = 0"
  by (meson dvd_imp_mod_0 dvd_trans mod_0_imp_dvd)

lemma days_before_year_Suc:
  "days_before_year (y + 1) = days_before_year y + (if leap_year y then 366 else 365)"
proof -
  define p4 where "p4 \<longleftrightarrow> y mod 4 = 0"
  define p100 where "p100 \<longleftrightarrow> y mod 100 = 0"
  define p400 where "p400 \<longleftrightarrow> y mod 400 = 0"
  define q4 where "q4 = (y - 1) div 4"
  define q100 where "q100 = (y - 1) div 100"
  define q400 where "q400 = (y - 1) div 400"
  have imp: "p400 \<Longrightarrow> p100" "p100 \<Longrightarrow> p4"
    unfolding p4_def p100_def p400_def
    by (rule mod_eq_0_dvd_mono [rotated], assumption, simp)+
  have "y div 4 = q4 + (if p4 then 1 else 0)" "y div 100 = q100 + (if p100 then 1 else 0)"
    "y div 400 = q400 + (if p400 then 1 else 0)"
    unfolding p4_def p100_def p400_def q4_def q100_def q400_def by (rule div_pred_step, simp)+
  then have A: "days_before_year (y + 1) = 365 * y + (q4 + (if p4 then 1 else 0))
      - (q100 + (if p100 then 1 else 0)) + (q400 + (if p400 then 1 else 0)) - 719162"
    by (simp only: days_before_year_def add_diff_cancel_right')
  have B: "days_before_year y = 365 * (y - 1) + q4 - q100 + q400 - 719162"
    by (simp only: days_before_year_def q4_def q100_def q400_def)
  have C: "leap_year y \<longleftrightarrow> p4 \<and> (\<not> p100 \<or> p400)"
    by (simp only: leap_year_def p4_def p100_def p400_def)
  consider "p4" "p100" "p400" | "p4" "p100" "\<not> p400" | "p4" "\<not> p100" "\<not> p400"
    | "\<not> p4" "\<not> p100" "\<not> p400" using imp by blast
  then show ?thesis by cases (simp_all only: A B C if_True if_False simp_thms, simp_all)
qed

lemma days_before_year_less: "y < y' \<Longrightarrow> days_before_year y + 365 \<le> days_before_year y'"
proof (induction y' rule: int_gr_induct)
  case base
  show ?case by (simp add: days_before_year_Suc)
next
  case (step i)
  then show ?case using days_before_year_Suc [of i] by (auto split: if_splits)
qed

lemma year_decomp:
  fixes a b c e :: int
  assumes "0 \<le> b" "b \<le> 3" "0 \<le> c" "c \<le> 24" "0 \<le> e" "e \<le> 3"
  shows "days_before_year (400 * a + 100 * b + 4 * c + e + 1) =
     146097 * a + 36524 * b + 1461 * c + 365 * e - 719162"
proof -
  have "(400 * a + 100 * b + 4 * c + e) div 4 = 100 * a + 25 * b + c"
    using assms by (intro int_div_pos_eq [where r = e]) auto
  moreover have "(400 * a + 100 * b + 4 * c + e) div 100 = 4 * a + b"
    using assms by (intro int_div_pos_eq [where r = "4 * c + e"]) auto
  moreover have "(400 * a + 100 * b + 4 * c + e) div 400 = a"
    using assms by (intro int_div_pos_eq [where r = "100 * b + 4 * c + e"]) auto
  ultimately show ?thesis unfolding days_before_year_def by simp
qed

lemma year_of_day_bounds:
  "days_before_year (year_of_day d) \<le> d \<and> d < days_before_year (year_of_day d + 1)"
proof -
  define a where "a = (d + 719162) div 146097"
  define r where "r = (d + 719162) mod 146097"
  define b where "b = min 3 (r div 36524)"
  define r100 where "r100 = r - 36524 * b"
  define c where "c = r100 div 1461"
  define r4 where "r4 = r100 mod 1461"
  define e where "e = min 3 (r4 div 365)"
  have d: "d + 719162 = 146097 * a + r" "0 \<le> r" "r < 146097"
    unfolding a_def r_def by auto
  have b: "0 \<le> b" "b \<le> 3" "36524 * b \<le> r" "b < 3 \<Longrightarrow> r < 36524 * (b + 1)"
    unfolding b_def using d by (auto simp: min_def)
  have r100: "0 \<le> r100" "b < 3 \<Longrightarrow> r100 < 36524" "r100 < 36525"
    using b d unfolding r100_def by (cases "b = 3"; auto)+
  have c: "r100 = 1461 * c + r4" "0 \<le> r4" "r4 < 1461"
    unfolding c_def r4_def by auto
  have c': "0 \<le> c" "c \<le> 24" using c r100 by linarith+
  have e: "0 \<le> e" "e \<le> 3" "365 * e \<le> r4" "e < 3 \<Longrightarrow> r4 < 365 * (e + 1)"
    unfolding e_def using c by (auto simp: min_def)
  have y: "year_of_day d = 400 * a + 100 * b + 4 * c + e + 1"
    by (simp add: year_of_day_def Let_def a_def r_def b_def r100_def c_def r4_def e_def)
  have start: "days_before_year (year_of_day d) = 146097 * a + 36524 * b + 1461 * c + 365 * e - 719162"
    unfolding y using b c' e by (intro year_decomp) auto
  have len: "r4 - 365 * e < (if leap_year (year_of_day d) then 366 else 365)"
  proof (cases "e < 3")
    case True
    then show ?thesis using e by auto
  next
    case False
    then have e3: "e = 3" using e by simp
    show ?thesis
    proof (cases "leap_year (year_of_day d)")
      case True
      then show ?thesis using e3 c by auto
    next
      case nl: False
      have y4: "year_of_day d = 4 * (100 * a + 25 * b + c + 1)"
        and y100: "year_of_day d = 100 * (4 * a + b) + (4 * c + 4)" unfolding y e3 by simp_all
      from y4 have "year_of_day d mod 4 = 0" by simp
      with nl have cent: "year_of_day d mod 100 = 0" and n400: "year_of_day d mod 400 \<noteq> 0"
        unfolding leap_year_def by simp_all
      from cent have "(4 * c + 4) mod 100 = 0" unfolding y100 by (simp only: mod_mult_self4)
      then have c24: "c = 24" using c' by (cases "c = 24") (simp_all add: mod_pos_pos_trivial)
      moreover have "b < 3"
      proof (rule ccontr)
        assume "\<not> b < 3"
        then have "year_of_day d = 400 * (a + 1)" using b c24 unfolding y e3 by simp
        then show False using n400 by simp
      qed
      ultimately show ?thesis using r100 c e3 by auto
    qed
  qed
  show ?thesis
    unfolding days_before_year_Suc start using d c e len r100_def by auto
qed

lemma year_of_day_eq:
  assumes "days_before_year y \<le> d" "d < days_before_year (y + 1)"
  shows "year_of_day d = y"
proof (rule ccontr)
  assume "year_of_day d \<noteq> y"
  then consider "year_of_day d + 1 \<le> y" | "y + 1 \<le> year_of_day d" by linarith
  then show False
  proof cases
    case 1
    then have "days_before_year (year_of_day d + 1) \<le> days_before_year y"
      using days_before_year_less [of "year_of_day d + 1" y] by (cases "year_of_day d + 1 = y") auto
    then show False using year_of_day_bounds [of d] assms by linarith
  next
    case 2
    then have "days_before_year (y + 1) \<le> days_before_year (year_of_day d)"
      using days_before_year_less [of "y + 1" "year_of_day d"] by (cases "year_of_day d = y + 1") auto
    then show False using year_of_day_bounds [of d] assms by linarith
  qed
qed


subsection \<open>Months\<close>

definition month_length :: "bool \<Rightarrow> int \<Rightarrow> int" where
  "month_length lp m =
     (if m = 1 then (if lp then 29 else 28)
      else if m = 3 \<or> m = 5 \<or> m = 8 \<or> m = 10 then 30 else 31)"

definition month_start :: "bool \<Rightarrow> int \<Rightarrow> int" where
  "month_start lp m =
     [0, 31, 59, 90, 120, 151, 181, 212, 243, 273, 304, 334, 365] ! nat m
       + (if lp \<and> 1 < m then 1 else 0)"

definition month_of_yday :: "bool \<Rightarrow> int \<Rightarrow> int" where
  "month_of_yday lp yd =
     (if yd < month_start lp 1 then 0 else if yd < month_start lp 2 then 1
      else if yd < month_start lp 3 then 2 else if yd < month_start lp 4 then 3
      else if yd < month_start lp 5 then 4 else if yd < month_start lp 6 then 5
      else if yd < month_start lp 7 then 6 else if yd < month_start lp 8 then 7
      else if yd < month_start lp 9 then 8 else if yd < month_start lp 10 then 9
      else if yd < month_start lp 11 then 10 else 11)"

lemma month_cases:
  assumes "0 \<le> (m::int)" "m < 12"
  obtains "m = 0" | "m = 1" | "m = 2" | "m = 3" | "m = 4" | "m = 5"
    | "m = 6" | "m = 7" | "m = 8" | "m = 9" | "m = 10" | "m = 11"
proof -
  have "m = 0 \<or> m = 1 \<or> m = 2 \<or> m = 3 \<or> m = 4 \<or> m = 5 \<or> m = 6 \<or> m = 7 \<or> m = 8 \<or> m = 9
      \<or> m = 10 \<or> m = 11"
    using assms by arith
  then show ?thesis using that by blast
qed

lemma month_start_values [simp]:
  "month_start lp 0 = 0"
  "month_start lp 1 = 31"
  "month_start lp 2 = 59 + (if lp then 1 else 0)"
  "month_start lp 3 = 90 + (if lp then 1 else 0)"
  "month_start lp 4 = 120 + (if lp then 1 else 0)"
  "month_start lp 5 = 151 + (if lp then 1 else 0)"
  "month_start lp 6 = 181 + (if lp then 1 else 0)"
  "month_start lp 7 = 212 + (if lp then 1 else 0)"
  "month_start lp 8 = 243 + (if lp then 1 else 0)"
  "month_start lp 9 = 273 + (if lp then 1 else 0)"
  "month_start lp 10 = 304 + (if lp then 1 else 0)"
  "month_start lp 11 = 334 + (if lp then 1 else 0)"
  "month_start lp 12 = 365 + (if lp then 1 else 0)"
  by (simp_all add: month_start_def)

lemma month_start_Suc:
  "0 \<le> m \<Longrightarrow> m < 12 \<Longrightarrow> month_start lp (m + 1) = month_start lp m + month_length lp m"
  by (elim month_cases) (simp_all add: month_length_def)

lemma month_length_bounds: "28 \<le> month_length lp m" "month_length lp m \<le> 31"
  by (simp_all add: month_length_def)

lemma month_of_yday_bounds:
  assumes "0 \<le> yd" "yd < (if lp then 366 else 365)"
  shows "0 \<le> month_of_yday lp yd \<and> month_of_yday lp yd < 12
    \<and> month_start lp (month_of_yday lp yd) \<le> yd
    \<and> yd < month_start lp (month_of_yday lp yd) + month_length lp (month_of_yday lp yd)"
  using assms unfolding month_of_yday_def by (cases lp) (simp_all add: month_length_def)

lemma month_of_yday_eq:
  assumes "0 \<le> m" "m < 12" "month_start lp m \<le> yd" "yd < month_start lp m + month_length lp m"
  shows "month_of_yday lp yd = m"
  using assms(1,2)
  by (rule month_cases) (use assms(3,4) in \<open>cases lp; simp add: month_of_yday_def month_length_def\<close>)+

subsection \<open>Days to civil dates and back\<close>

definition yday_of_day :: "int \<Rightarrow> int" where
  "yday_of_day d = d - days_before_year (year_of_day d)"

definition mon_of_day :: "int \<Rightarrow> int" where
  "mon_of_day d = month_of_yday (leap_year (year_of_day d)) (yday_of_day d)"

definition mday_of_day :: "int \<Rightarrow> int" where
  "mday_of_day d = yday_of_day d - month_start (leap_year (year_of_day d)) (mon_of_day d) + 1"

definition day_of :: "int \<Rightarrow> int \<Rightarrow> int \<Rightarrow> int" where
  "day_of y m dd = days_before_year y + month_start (leap_year y) m + dd - 1"

definition mlen :: "int \<Rightarrow> int \<Rightarrow> int" where
  "mlen y m = month_length (leap_year y) m"

lemma mlen_bounds: "28 \<le> mlen y m" "mlen y m \<le> 31"
  by (simp_all add: mlen_def month_length_bounds)

lemma yday_bounds: "0 \<le> yday_of_day d" "yday_of_day d < (if leap_year (year_of_day d) then 366 else 365)"
  using year_of_day_bounds [of d] by (auto simp: yday_of_day_def days_before_year_Suc)

lemma mon_of_day_bounds: "0 \<le> mon_of_day d" "mon_of_day d < 12"
  using month_of_yday_bounds [OF yday_bounds [of d]] by (simp_all add: mon_of_day_def)

lemma mday_of_day_bounds: "1 \<le> mday_of_day d" "mday_of_day d \<le> mlen (year_of_day d) (mon_of_day d)"
  using month_of_yday_bounds [OF yday_bounds [of d]]
  by (simp_all add: mday_of_day_def mon_of_day_def mlen_def)

lemma mday_le_31: "mday_of_day d \<le> 31"
  using mday_of_day_bounds(2) [of d] mlen_bounds(2) order_trans by blast

lemma day_of_civil: "day_of (year_of_day d) (mon_of_day d) (mday_of_day d) = d"
  by (simp add: day_of_def mday_of_day_def yday_of_day_def)

lemma civil_of_day_of:
  assumes "0 \<le> m" "m < 12" "1 \<le> dd" "dd \<le> mlen y m"
  shows "year_of_day (day_of y m dd) = y" "mon_of_day (day_of y m dd) = m"
    "mday_of_day (day_of y m dd) = dd"
proof -
  have ms: "0 \<le> month_start (leap_year y) m"
    "month_start (leap_year y) m + month_length (leap_year y) m \<le> (if leap_year y then 366 else 365)"
    using assms(1,2) by (auto elim!: month_cases simp: month_length_def)
  show y: "year_of_day (day_of y m dd) = y"
    using assms ms by (intro year_of_day_eq) (auto simp: day_of_def mlen_def days_before_year_Suc)
  show m: "mon_of_day (day_of y m dd) = m"
    unfolding mon_of_day_def yday_of_day_def y
    using assms by (intro month_of_yday_eq) (auto simp: day_of_def mlen_def)
  show "mday_of_day (day_of y m dd) = dd"
    unfolding mday_of_day_def yday_of_day_def y m by (simp add: day_of_def)
qed

lemma day_of_next_month:
  "0 \<le> m \<Longrightarrow> m < 11 \<Longrightarrow> day_of y (m + 1) 1 = day_of y m 1 + mlen y m"
  using month_start_Suc [of m "leap_year y"] by (simp add: day_of_def mlen_def)

lemma day_of_next_year: "day_of (y + 1) 0 1 = day_of y 11 1 + mlen y 11"
  by (simp add: day_of_def mlen_def month_length_def days_before_year_Suc)

lemma day_of_add: "day_of y m (dd + k) = day_of y m dd + k"
  by (simp add: day_of_def)

end
