(* ===== verification/C_Time.thy ===== *)
theory C_Time
  imports Civil_Time
begin

section \<open>struct tm and the time functions of the C library\<close>

text \<open>
  \<open>struct tm\<close> with the fields the sources touch, \<open>timegm\<close> and \<open>gmtime_r\<close> for UTC, and the
  zone-dependent functions \<open>mktime\<close> and \<open>localtime_r\<close> as a parameter: the time zone is the
  host's, so they are the fields of a record \<open>libc\<close> that every definition calling them takes
  as an argument. \<open>fixed_zone\<close> is that record for a zone of constant offset.
  A calendar that is the result of one of these functions is \<open>break_time\<close> of a number of
  seconds; \<open>tm_secs_break_time\<close> is the round trip.
\<close>

record tm =
  tm_sec :: int
  tm_min :: int
  tm_hour :: int
  tm_mday :: int
  tm_mon :: int
  tm_year :: int
  tm_wday :: int
  tm_yday :: int
  tm_isdst :: int
  tm_gmtoff :: int
  tm_zone :: string

text \<open>\<open>memset(&cal, 0, sizeof(struct tm))\<close>\<close>

definition tm_zero :: tm where
  "tm_zero = \<lparr>tm_sec = 0, tm_min = 0, tm_hour = 0, tm_mday = 0, tm_mon = 0, tm_year = 0,
     tm_wday = 0, tm_yday = 0, tm_isdst = 0, tm_gmtoff = 0, tm_zone = []\<rparr>"

subsection \<open>The fields of an instant\<close>

definition sec_of :: "int \<Rightarrow> int" where "sec_of s = s mod 60"
definition min_of :: "int \<Rightarrow> int" where "min_of s = s div 60 mod 60"
definition hour_of :: "int \<Rightarrow> int" where "hour_of s = s div 3600 mod 24"
definition daynum :: "int \<Rightarrow> int" where "daynum s = s div 86400"
definition wday_of :: "int \<Rightarrow> int" where "wday_of s = (daynum s + 4) mod 7"
definition mday_of :: "int \<Rightarrow> int" where "mday_of s = mday_of_day (daynum s)"
definition mon_of :: "int \<Rightarrow> int" where "mon_of s = mon_of_day (daynum s)"
definition year_of :: "int \<Rightarrow> int" where "year_of s = year_of_day (daynum s)"

lemma field_ranges [field_bounds]:
  "0 \<le> sec_of s" "sec_of s < 60" "0 \<le> min_of s" "min_of s < 60"
  "0 \<le> hour_of s" "hour_of s < 24" "0 \<le> wday_of s" "wday_of s < 7"
  "1 \<le> mday_of s" "mday_of s \<le> 31" "0 \<le> mon_of s" "mon_of s < 12"
  by (simp_all add: sec_of_def min_of_def hour_of_def wday_of_def mday_of_def mon_of_def
      mday_of_day_bounds(1) mday_le_31 mon_of_day_bounds)

lemma div_fields:
  "s = 60 * (s div 60) + sec_of s" "s div 60 = 60 * (s div 3600) + min_of s"
  "s div 3600 = 24 * daynum s + hour_of s"
  using zdiv_zmult2_eq [of 60 s 60] zdiv_zmult2_eq [of 24 s 3600]
  by (simp_all add: min_of_def sec_of_def daynum_def hour_of_def)

lemma secs_decompose: "s = 86400 * daynum s + 3600 * hour_of s + 60 * min_of s + sec_of s"
  using div_fields [of s] by linarith

lemma daynum_bounds: "86400 * daynum s \<le> s" "s < 86400 * daynum s + 86400"
  using secs_decompose [of s] field_ranges [of s] by linarith+

lemma daynum_eq: "86400 * d \<le> s \<Longrightarrow> s < 86400 * d + 86400 \<Longrightarrow> daynum s = d"
  using daynum_bounds [of s] by linarith

lemma fields_of_secs:
  assumes "0 \<le> h" "h < 24" "0 \<le> m" "m < 60" "0 \<le> c" "c < 60"
  shows "sec_of (86400 * d + 3600 * h + 60 * m + c) = c"
    "min_of (86400 * d + 3600 * h + 60 * m + c) = m"
    "hour_of (86400 * d + 3600 * h + 60 * m + c) = h"
    "daynum (86400 * d + 3600 * h + 60 * m + c) = d"
proof -
  let ?s = "86400 * d + 3600 * h + 60 * m + c"
  have "?s = 60 * (60 * (24 * d + h) + m) + c" by simp
  then show "sec_of ?s = c"
    using assms by (simp only: sec_of_def mod_mult_self4) simp
  have "?s div 60 = 60 * (24 * d + h) + m"
    using assms by (intro int_div_pos_eq [where r = c]) auto
  then show "min_of ?s = m"
    using assms by (simp only: min_of_def mod_mult_self4) simp
  have "?s div 3600 = 24 * d + h"
    using assms by (intro int_div_pos_eq [where r = "60 * m + c"]) auto
  then show "hour_of ?s = h"
    using assms by (simp only: hour_of_def mod_mult_self4) simp
  show "daynum ?s = d"
    unfolding daynum_def using assms by (intro int_div_pos_eq [where r = "3600 * h + 60 * m + c"]) auto
qed


subsection \<open>Normal form\<close>

definition break_time :: "int \<Rightarrow> int \<Rightarrow> string \<Rightarrow> int \<Rightarrow> tm" where
  "break_time dst off zone s =
     \<lparr>tm_sec = sec_of s, tm_min = min_of s, tm_hour = hour_of s,
      tm_mday = mday_of s, tm_mon = mon_of s, tm_year = year_of s - 1900,
      tm_wday = wday_of s, tm_yday = yday_of_day (daynum s),
      tm_isdst = dst, tm_gmtoff = off, tm_zone = zone\<rparr>"

text \<open>The seconds a calendar denotes: fields out of their range carry into the next ones.\<close>

definition tm_secs :: "tm \<Rightarrow> int" where
  "tm_secs c =
     86400 * day_of (tm_year c + 1900 + tm_mon c div 12) (tm_mon c mod 12) (tm_mday c)
       + 3600 * tm_hour c + 60 * tm_min c + tm_sec c"

lemma break_time_sel [simp]:
  "tm_sec (break_time dst off zone s) = sec_of s"
  "tm_min (break_time dst off zone s) = min_of s"
  "tm_hour (break_time dst off zone s) = hour_of s"
  "tm_mday (break_time dst off zone s) = mday_of s"
  "tm_mon (break_time dst off zone s) = mon_of s"
  "tm_year (break_time dst off zone s) = year_of s - 1900"
  "tm_wday (break_time dst off zone s) = wday_of s"
  by (simp_all add: break_time_def)

lemma tm_secs_break_time [simp]: "tm_secs (break_time dst off zone s) = s"
  using secs_decompose [of s] mon_of_day_bounds [of "daynum s"]
  by (simp add: tm_secs_def mday_of_def mon_of_def year_of_def day_of_civil)

text \<open>\<open>tm_year\<close> is an \<open>int\<close>: later and earlier years cannot be represented.\<close>

definition year_fits :: "int \<Rightarrow> bool" where
  "year_fits s \<longleftrightarrow> - 2147483648 \<le> year_of s - 1900 \<and> year_of s - 1900 \<le> 2147483647"

subsection \<open>UTC: timegm and gmtime_r\<close>

definition timegm :: "tm \<Rightarrow> tm \<times> time_t" where
  "timegm c = (let s = tm_secs c in
     if year_fits s then (break_time 0 0 ''GMT'' s, s) else (c, - 1))"

definition gmtime_r :: "time_t \<Rightarrow> tm option" where
  "gmtime_r t = (if year_fits t then Some (break_time 0 0 ''GMT'' t) else None)"

subsection \<open>Local time: a parameter\<close>

record libc =
  lc_mktime :: "tm \<Rightarrow> tm \<times> time_t"
  lc_localtime :: "time_t \<Rightarrow> tm option"

text \<open>A host whose zone has the constant offset \<open>off\<close> (seconds east of UTC), without
  daylight saving time.\<close>

definition fixed_zone :: "int \<Rightarrow> string \<Rightarrow> libc" where
  "fixed_zone off zone =
     \<lparr>lc_mktime = (\<lambda>c. let s = tm_secs c in
        if year_fits s then (break_time 0 off zone s, s - off) else (c, - 1)),
      lc_localtime = (\<lambda>t. if year_fits (t + off) then Some (break_time 0 off zone (t + off)) else None)\<rparr>"

lemma timegm_gmtime_r: "gmtime_r t = Some c \<Longrightarrow> timegm c = (c, t)"
  by (auto simp: gmtime_r_def timegm_def split: if_splits)

end
