(* ===== verification/Cron_Calendar.thy ===== *)
theory Cron_Calendar
  imports C_Time
begin

section \<open>Calendar operations of ccronexpr.c\<close>

text \<open>
  The time functions \<open>cron_mktime\<close> and \<open>cron_time\<close> of both builds (UTC, and local time with
  \<open>CRON_USE_LOCAL_TIME\<close>, which the Makefile uses), and the operations on a broken-down time:
  \<open>add_to_field\<close>, \<open>reset_min\<close>, \<open>reset_all_min\<close>, \<open>set_field\<close>, \<open>last_day_of_month\<close>,
  \<open>reset_max\<close>, \<open>reset_all_max\<close>. Each returns the calendar with the error code of the C function.
  The locale \<open>cron_clock\<close> is the contract the searches rely on: a calendar is the normal form
  of a number of seconds, and every operation moves it to another one.
\<close>

subsection \<open>Constants\<close>

abbreviation (input) CRON_MAX_SECONDS :: nat where "CRON_MAX_SECONDS \<equiv> 60"
abbreviation (input) CRON_MAX_MINUTES :: nat where "CRON_MAX_MINUTES \<equiv> 60"
abbreviation (input) CRON_MAX_HOURS :: nat where "CRON_MAX_HOURS \<equiv> 24"
abbreviation (input) CRON_MAX_MONTHS :: nat where "CRON_MAX_MONTHS \<equiv> 12"
abbreviation (input) CRON_MAX_YEARS_DIFF :: nat where "CRON_MAX_YEARS_DIFF \<equiv> 4"

abbreviation (input) CRON_CF_SECOND :: int where "CRON_CF_SECOND \<equiv> 0"
abbreviation (input) CRON_CF_MINUTE :: int where "CRON_CF_MINUTE \<equiv> 1"
abbreviation (input) CRON_CF_HOUR_OF_DAY :: int where "CRON_CF_HOUR_OF_DAY \<equiv> 2"
abbreviation (input) CRON_CF_DAY_OF_WEEK :: int where "CRON_CF_DAY_OF_WEEK \<equiv> 3"
abbreviation (input) CRON_CF_DAY_OF_MONTH :: int where "CRON_CF_DAY_OF_MONTH \<equiv> 4"
abbreviation (input) CRON_CF_MONTH :: int where "CRON_CF_MONTH \<equiv> 5"
abbreviation (input) CRON_CF_YEAR :: int where "CRON_CF_YEAR \<equiv> 6"

abbreviation (input) CRON_INVALID_INSTANT :: time_t where "CRON_INVALID_INSTANT \<equiv> - 1"

subsection \<open>The time functions of the two builds\<close>

text \<open>A build of the sources on a host: the host's \<open>mktime\<close> and \<open>localtime_r\<close>, and whether
  \<open>CRON_USE_LOCAL_TIME\<close> is defined.\<close>

record platform =
  pf_libc :: libc
  pf_use_local_time :: bool

definition utc_build :: "libc \<Rightarrow> platform" where
  "utc_build lc = \<lparr>pf_libc = lc, pf_use_local_time = False\<rparr>"

definition local_build :: "libc \<Rightarrow> platform" where
  "local_build lc = \<lparr>pf_libc = lc, pf_use_local_time = True\<rparr>"

definition cron_mktime_gm :: "tm \<Rightarrow> tm \<times> time_t" where
  "cron_mktime_gm c = timegm c"

definition cron_time_gm :: "time_t \<Rightarrow> tm option" where
  "cron_time_gm date = gmtime_r date"

definition cron_mktime_local :: "libc \<Rightarrow> tm \<Rightarrow> tm \<times> time_t" where
  "cron_mktime_local lc c = lc_mktime lc (c\<lparr>tm_isdst := - 1\<rparr>)"

definition cron_time_local :: "libc \<Rightarrow> time_t \<Rightarrow> tm option" where
  "cron_time_local lc date = lc_localtime lc date"

definition cron_mktime :: "platform \<Rightarrow> tm \<Rightarrow> tm \<times> time_t" where
  "cron_mktime pf c =
     (if pf_use_local_time pf then cron_mktime_local (pf_libc pf) c else cron_mktime_gm c)"

definition cron_time :: "platform \<Rightarrow> time_t \<Rightarrow> tm option" where
  "cron_time pf date =
     (if pf_use_local_time pf then cron_time_local (pf_libc pf) date else cron_time_gm date)"

subsection \<open>Operations on a calendar\<close>

text \<open>\<open>res = cron_mktime(calendar); if (CRON_INVALID_INSTANT == res) return 1; return 0;\<close>,
  the end of each operation.\<close>

definition renormalise :: "platform \<Rightarrow> tm \<Rightarrow> tm \<times> int" where
  "renormalise pf c =
     (let (c', res) = cron_mktime pf c in (c', if res = CRON_INVALID_INSTANT then 1 else 0))"

definition add_to_field :: "platform \<Rightarrow> tm \<Rightarrow> int \<Rightarrow> int \<Rightarrow> tm \<times> int" where
  "add_to_field pf c field val =
     (if field = - 1 then (c, 1)
      else if field = CRON_CF_SECOND then renormalise pf (c\<lparr>tm_sec := tm_sec c + val\<rparr>)
      else if field = CRON_CF_MINUTE then renormalise pf (c\<lparr>tm_min := tm_min c + val\<rparr>)
      else if field = CRON_CF_HOUR_OF_DAY then renormalise pf (c\<lparr>tm_hour := tm_hour c + val\<rparr>)
      else if field = CRON_CF_DAY_OF_WEEK \<or> field = CRON_CF_DAY_OF_MONTH
        then renormalise pf (c\<lparr>tm_mday := tm_mday c + val\<rparr>)
      else if field = CRON_CF_MONTH then renormalise pf (c\<lparr>tm_mon := tm_mon c + val\<rparr>)
      else if field = CRON_CF_YEAR then renormalise pf (c\<lparr>tm_year := tm_year c + val\<rparr>)
      else (c, 1))"

definition reset_min :: "platform \<Rightarrow> tm \<Rightarrow> int \<Rightarrow> tm \<times> int" where
  "reset_min pf c field =
     (if field = - 1 then (c, 1)
      else if field = CRON_CF_SECOND then renormalise pf (c\<lparr>tm_sec := 0\<rparr>)
      else if field = CRON_CF_MINUTE then renormalise pf (c\<lparr>tm_min := 0\<rparr>)
      else if field = CRON_CF_HOUR_OF_DAY then renormalise pf (c\<lparr>tm_hour := 0\<rparr>)
      else if field = CRON_CF_DAY_OF_WEEK then renormalise pf (c\<lparr>tm_wday := 0\<rparr>)
      else if field = CRON_CF_DAY_OF_MONTH then renormalise pf (c\<lparr>tm_mday := 1\<rparr>)
      else if field = CRON_CF_MONTH then renormalise pf (c\<lparr>tm_mon := 0\<rparr>)
      else if field = CRON_CF_YEAR then renormalise pf (c\<lparr>tm_year := 0\<rparr>)
      else (c, 1))"

fun reset_all_min :: "platform \<Rightarrow> tm \<Rightarrow> int list \<Rightarrow> tm \<times> int" where
  "reset_all_min pf c [] = (c, 0)"
| "reset_all_min pf c (f # fs) =
     (if f \<noteq> - 1
      then (let (c', res) = reset_min pf c f in
            if res \<noteq> 0 then (c', res) else reset_all_min pf c' fs)
      else reset_all_min pf c fs)"

definition set_field :: "platform \<Rightarrow> tm \<Rightarrow> int \<Rightarrow> int \<Rightarrow> tm \<times> int" where
  "set_field pf c field val =
     (if field = - 1 then (c, 1)
      else if field = CRON_CF_SECOND then renormalise pf (c\<lparr>tm_sec := val\<rparr>)
      else if field = CRON_CF_MINUTE then renormalise pf (c\<lparr>tm_min := val\<rparr>)
      else if field = CRON_CF_HOUR_OF_DAY then renormalise pf (c\<lparr>tm_hour := val\<rparr>)
      else if field = CRON_CF_DAY_OF_WEEK then renormalise pf (c\<lparr>tm_wday := val\<rparr>)
      else if field = CRON_CF_DAY_OF_MONTH then renormalise pf (c\<lparr>tm_mday := val\<rparr>)
      else if field = CRON_CF_MONTH then renormalise pf (c\<lparr>tm_mon := val\<rparr>)
      else if field = CRON_CF_YEAR then renormalise pf (c\<lparr>tm_year := val\<rparr>)
      else (c, 1))"

text \<open>\<open>last_day_of_month\<close> calls \<open>mktime\<close> (the host's zone, in either build) and reads the
  result back with \<open>gmtime\<close>; dereferencing a null result has no defined value.\<close>

definition last_day_of_month :: "platform \<Rightarrow> int \<Rightarrow> int \<Rightarrow> int option" where
  "last_day_of_month pf month year =
     (let t = snd (lc_mktime (pf_libc pf)
                (tm_zero\<lparr>tm_mon := month + 1, tm_mday := 0, tm_year := year\<rparr>))
      in map_option tm_mday (gmtime_r t))"

definition reset_max :: "platform \<Rightarrow> tm \<Rightarrow> int \<Rightarrow> (tm \<times> int) option" where
  "reset_max pf c field =
     (if field = - 1 then Some (c, 1)
      else if field = CRON_CF_SECOND then Some (renormalise pf (c\<lparr>tm_sec := 59\<rparr>))
      else if field = CRON_CF_MINUTE then Some (renormalise pf (c\<lparr>tm_min := 59\<rparr>))
      else if field = CRON_CF_HOUR_OF_DAY then Some (renormalise pf (c\<lparr>tm_hour := 23\<rparr>))
      else if field = CRON_CF_DAY_OF_WEEK then Some (renormalise pf (c\<lparr>tm_wday := 6\<rparr>))
      else if field = CRON_CF_DAY_OF_MONTH
        then do { d \<leftarrow> last_day_of_month pf (tm_mon c) (tm_year c);
                  Some (renormalise pf (c\<lparr>tm_mday := d\<rparr>)) }
      else if field = CRON_CF_MONTH then Some (renormalise pf (c\<lparr>tm_mon := 11\<rparr>))
      else if field = CRON_CF_YEAR then Some (renormalise pf c)
      else Some (c, 1))"

fun reset_all_max :: "platform \<Rightarrow> tm \<Rightarrow> int list \<Rightarrow> (tm \<times> int) option" where
  "reset_all_max pf c [] = Some (c, 0)"
| "reset_all_max pf c (f # fs) =
     (if f \<noteq> - 1
      then do { (c', res) \<leftarrow> reset_max pf c f;
                if res \<noteq> 0 then Some (c', res) else reset_all_max pf c' fs }
      else reset_all_max pf c fs)"

subsection \<open>What an update does to the seconds denoted\<close>

lemma tm_secs_upd [simp]:
  "tm_secs (c\<lparr>tm_sec := v\<rparr>) = tm_secs c + (v - tm_sec c)"
  "tm_secs (c\<lparr>tm_min := v\<rparr>) = tm_secs c + 60 * (v - tm_min c)"
  "tm_secs (c\<lparr>tm_hour := v\<rparr>) = tm_secs c + 3600 * (v - tm_hour c)"
  "tm_secs (c\<lparr>tm_mday := v\<rparr>) = tm_secs c + 86400 * (v - tm_mday c)"
  "tm_secs (c\<lparr>tm_wday := v\<rparr>) = tm_secs c"
  "tm_secs (c\<lparr>tm_isdst := v\<rparr>) = tm_secs c"
  by (simp_all add: tm_secs_def day_of_def algebra_simps)

lemma tm_secs_month:
  assumes "0 \<le> m" "m < 12"
  shows "tm_secs ((break_time dst off zone s)\<lparr>tm_mon := m\<rparr>) =
    s + 86400 * (day_of (year_of s) m (mday_of s) - daynum s)"
  using assms tm_secs_break_time [of dst off zone s] mon_of_day_bounds [of "daynum s"]
  by (simp add: tm_secs_def mday_of_def mon_of_def year_of_def day_of_civil)

lemma tm_secs_year:
  "tm_secs ((break_time dst off zone s)\<lparr>tm_year := y\<rparr>) =
    s + 86400 * (day_of (y + 1900) (mon_of s) (mday_of s) - daynum s)"
  using tm_secs_break_time [of dst off zone s] mon_of_day_bounds [of "daynum s"]
  by (simp add: tm_secs_def mday_of_def mon_of_def year_of_def day_of_civil)

subsection \<open>The contract of a clock\<close>

locale cron_clock =
  fixes pf :: platform and dst off :: int and zone :: string
  assumes mktime: "year_fits (tm_secs c) \<Longrightarrow>
      cron_mktime pf c = (break_time dst off zone (tm_secs c), tm_secs c - off)"
    and time: "year_fits (t + off) \<Longrightarrow>
      cron_time pf t = Some (break_time dst off zone (t + off))"
begin

abbreviation brk :: "int \<Rightarrow> tm" where "brk \<equiv> break_time dst off zone"

text \<open>Seconds that are representable and are not the instant -1, which the code reads as an error.\<close>

abbreviation good :: "int \<Rightarrow> bool" where "good s \<equiv> year_fits s \<and> s - off \<noteq> - 1"

lemma renormalise_ok: "good (tm_secs c) \<Longrightarrow> renormalise pf c = (brk (tm_secs c), 0)"
  by (simp add: renormalise_def mktime)

lemma add_field [clock_step]:
  "good (s + v) \<Longrightarrow> add_to_field pf (brk s) CRON_CF_SECOND v = (brk (s + v), 0)"
  "good (s + 60 * v) \<Longrightarrow> add_to_field pf (brk s) CRON_CF_MINUTE v = (brk (s + 60 * v), 0)"
  "good (s + 3600 * v) \<Longrightarrow> add_to_field pf (brk s) CRON_CF_HOUR_OF_DAY v = (brk (s + 3600 * v), 0)"
  "good (s + 86400 * v) \<Longrightarrow> add_to_field pf (brk s) CRON_CF_DAY_OF_WEEK v = (brk (s + 86400 * v), 0)"
  "good (s + 86400 * v) \<Longrightarrow> add_to_field pf (brk s) CRON_CF_DAY_OF_MONTH v = (brk (s + 86400 * v), 0)"
  by (simp_all add: add_to_field_def renormalise_ok)

lemma set_field_ok [clock_step]:
  "good (s + (v - sec_of s)) \<Longrightarrow>
     set_field pf (brk s) CRON_CF_SECOND v = (brk (s + (v - sec_of s)), 0)"
  "good (s + 60 * (v - min_of s)) \<Longrightarrow>
     set_field pf (brk s) CRON_CF_MINUTE v = (brk (s + 60 * (v - min_of s)), 0)"
  "good (s + 3600 * (v - hour_of s)) \<Longrightarrow>
     set_field pf (brk s) CRON_CF_HOUR_OF_DAY v = (brk (s + 3600 * (v - hour_of s)), 0)"
  by (simp_all add: set_field_def renormalise_ok)

lemma set_field_month [clock_step]:
  assumes "0 \<le> m" "m < 12" "good (s + 86400 * (day_of (year_of s) m (mday_of s) - daynum s))"
  shows "set_field pf (brk s) CRON_CF_MONTH m =
    (brk (s + 86400 * (day_of (year_of s) m (mday_of s) - daynum s)), 0)"
  using assms by (simp add: set_field_def renormalise_ok tm_secs_month)

lemma reset_min_ok [clock_step]:
  "good (s - sec_of s) \<Longrightarrow> reset_min pf (brk s) CRON_CF_SECOND = (brk (s - sec_of s), 0)"
  "good (s - 60 * min_of s) \<Longrightarrow> reset_min pf (brk s) CRON_CF_MINUTE = (brk (s - 60 * min_of s), 0)"
  "good (s - 3600 * hour_of s) \<Longrightarrow>
     reset_min pf (brk s) CRON_CF_HOUR_OF_DAY = (brk (s - 3600 * hour_of s), 0)"
  "good (s - 86400 * (mday_of s - 1)) \<Longrightarrow>
     reset_min pf (brk s) CRON_CF_DAY_OF_MONTH = (brk (s - 86400 * (mday_of s - 1)), 0)"
  by (simp_all add: reset_min_def renormalise_ok algebra_simps)

lemma reset_min_month [clock_step]:
  assumes "good (s + 86400 * (day_of (year_of s) 0 (mday_of s) - daynum s))"
  shows "reset_min pf (brk s) CRON_CF_MONTH =
    (brk (s + 86400 * (day_of (year_of s) 0 (mday_of s) - daynum s)), 0)"
  using assms by (simp add: reset_min_def renormalise_ok tm_secs_month)

lemma add_year [clock_step]:
  assumes "good (s + 86400 * (day_of (year_of s + v) (mon_of s) (mday_of s) - daynum s))"
  shows "add_to_field pf (brk s) CRON_CF_YEAR v =
    (brk (s + 86400 * (day_of (year_of s + v) (mon_of s) (mday_of s) - daynum s)), 0)"
  using assms by (simp add: add_to_field_def renormalise_ok tm_secs_year algebra_simps)

end

text \<open>A clock whose host zone, the one \<open>last_day_of_month\<close> consults, has a constant offset.\<close>

locale cron_clock_zone = cron_clock +
  fixes loff :: int
  assumes host_mktime: "year_fits (tm_secs c) \<Longrightarrow> snd (lc_mktime (pf_libc pf) c) = tm_secs c - loff"

subsection \<open>The clocks of the program\<close>

interpretation utc: cron_clock "utc_build lc" 0 0 "''GMT''" for lc
  by unfold_locales
    (simp_all add: cron_mktime_def cron_time_def utc_build_def cron_mktime_gm_def cron_time_gm_def
      timegm_def gmtime_r_def Let_def)

interpretation utc_zone: cron_clock_zone "utc_build (fixed_zone loff zone)" 0 0 "''GMT''" loff for loff zone
  by unfold_locales (simp add: utc_build_def fixed_zone_def Let_def)

interpretation fixed: cron_clock_zone "local_build (fixed_zone off zone)" 0 off zone off for off zone
  by unfold_locales
    (simp_all add: cron_mktime_def cron_time_def local_build_def cron_mktime_local_def
      cron_time_local_def fixed_zone_def Let_def)

end
