(* ===== verification/Cron_Match.thy ===== *)
theory Cron_Match
  imports Cron_Bits Cron_Calendar
begin

section \<open>What a cron expression means\<close>

text \<open>
  The parsed expression \<open>cron_expr\<close> of \<open>ccronexpr.h\<close>, and the abstract specification of the
  searches: \<open>matches expr s\<close> says that every field of the instant \<open>s\<close> (seconds of local time)
  is set in the expression. \<open>skip expr a b\<close> says that no instant from \<open>a\<close> up to \<open>b\<close> matches.
  The lemmas on days and months are what the searches need of the calendar.
\<close>

record cron_expr =
  seconds :: "u8 list"
  minutes :: "u8 list"
  hours :: "u8 list"
  days_of_week :: "u8 list"
  days_of_month :: "u8 list"
  months :: "u8 list"

text \<open>What the parser establishes: arrays of the declared sizes, every value in the range of
  its field, and at least one value per field.\<close>

definition wf_expr :: "cron_expr \<Rightarrow> bool" where
  "wf_expr e \<longleftrightarrow>
     length (seconds e) = 8 \<and> length (minutes e) = 8 \<and> length (hours e) = 3
     \<and> length (days_of_week e) = 1 \<and> length (days_of_month e) = 4 \<and> length (months e) = 2
     \<and> bits_of (seconds e) \<subseteq> {..<60} \<and> bits_of (minutes e) \<subseteq> {..<60} \<and> bits_of (hours e) \<subseteq> {..<24}
     \<and> bits_of (days_of_week e) \<subseteq> {..<7} \<and> bits_of (days_of_month e) \<subseteq> {1..31}
     \<and> bits_of (months e) \<subseteq> {..<12}
     \<and> bits_of (seconds e) \<noteq> {} \<and> bits_of (minutes e) \<noteq> {} \<and> bits_of (hours e) \<noteq> {}
     \<and> bits_of (days_of_week e) \<noteq> {} \<and> bits_of (days_of_month e) \<noteq> {} \<and> bits_of (months e) \<noteq> {}"

definition day_matches :: "cron_expr \<Rightarrow> int \<Rightarrow> bool" where
  "day_matches e d \<longleftrightarrow>
     nat (mday_of_day d) \<in> bits_of (days_of_month e) \<and> nat ((d + 4) mod 7) \<in> bits_of (days_of_week e)"

definition matches :: "cron_expr \<Rightarrow> int \<Rightarrow> bool" where
  "matches e s \<longleftrightarrow>
     nat (sec_of s) \<in> bits_of (seconds e) \<and> nat (min_of s) \<in> bits_of (minutes e)
     \<and> nat (hour_of s) \<in> bits_of (hours e) \<and> day_matches e (daynum s)
     \<and> nat (mon_of s) \<in> bits_of (months e)"

definition skip :: "cron_expr \<Rightarrow> int \<Rightarrow> int \<Rightarrow> bool" where
  "skip e a b \<longleftrightarrow> (\<forall>t. a \<le> t \<and> t < b \<longrightarrow> \<not> matches e t)"

text \<open>\<open>r\<close> is the least match after \<open>s\<close>, the greatest one before \<open>s\<close>.\<close>

definition next_match :: "cron_expr \<Rightarrow> int \<Rightarrow> int \<Rightarrow> bool" where
  "next_match e s r \<longleftrightarrow> s < r \<and> matches e r \<and> (\<forall>t. s < t \<and> t < r \<longrightarrow> \<not> matches e t)"

definition prev_match :: "cron_expr \<Rightarrow> int \<Rightarrow> int \<Rightarrow> bool" where
  "prev_match e s r \<longleftrightarrow> r < s \<and> matches e r \<and> (\<forall>t. r < t \<and> t < s \<longrightarrow> \<not> matches e t)"

lemma skip_refl [simp]: "skip e a a"
  by (auto simp: skip_def)

lemma skip_trans: "skip e a b \<Longrightarrow> skip e b c \<Longrightarrow> skip e a c"
  unfolding skip_def by (metis linorder_not_le)

lemma skip_matches_le: "skip e a b \<Longrightarrow> matches e t \<Longrightarrow> a \<le> t \<Longrightarrow> b \<le> t"
  by (force simp: skip_def)

subsection \<open>Successive months\<close>

text \<open>The first day of the month after the one \<open>d\<close> is in.\<close>

definition next_first :: "int \<Rightarrow> int" where
  "next_first d = day_of (year_of_day d) (mon_of_day d) 1 + mlen (year_of_day d) (mon_of_day d)"

definition month_index :: "int \<Rightarrow> int" where
  "month_index d = 12 * year_of_day d + mon_of_day d"

lemma day_decomp: "d = day_of (year_of_day d) (mon_of_day d) 1 + (mday_of_day d - 1)"
  using day_of_civil [of d] day_of_add [of _ _ 1 "mday_of_day d - 1"] by simp

lemma next_first_civil:
  "next_first d = (if mon_of_day d = 11 then day_of (year_of_day d + 1) 0 1
     else day_of (year_of_day d) (mon_of_day d + 1) 1)"
  using mon_of_day_bounds [of d] by (auto simp: next_first_def day_of_next_month day_of_next_year)

lemma civil_first:
  assumes "0 \<le> m" "m < 12"
  shows "year_of_day (day_of y m 1) = y" "mon_of_day (day_of y m 1) = m" "mday_of_day (day_of y m 1) = 1"
  using civil_of_day_of [OF assms, of 1 y] mlen_bounds(1) [of y m] by simp_all

lemma month_index_day_of:
  assumes "0 \<le> m" "m < 12" "1 \<le> dd" "dd \<le> mlen y m"
  shows "month_index (day_of y m dd) = 12 * y + m"
  using civil_of_day_of [OF assms] by (simp add: month_index_def)

lemma next_first_facts:
  "month_index (next_first d) = month_index d + 1" "mday_of_day (next_first d) = 1"
  "d < next_first d" "next_first d \<le> d + 31"
proof -
  have m: "0 \<le> mon_of_day d" "mon_of_day d < 12" by (rule mon_of_day_bounds)+
  show "month_index (next_first d) = month_index d + 1" "mday_of_day (next_first d) = 1"
    unfolding next_first_civil using m by (auto simp: month_index_def civil_first)
  have "d = day_of (year_of_day d) (mon_of_day d) 1 + (mday_of_day d - 1)" by (rule day_decomp)
  then show "d < next_first d" "next_first d \<le> d + 31"
    using mday_of_day_bounds [of d] mlen_bounds [of "year_of_day d" "mon_of_day d"]
    by (auto simp: next_first_def)
qed

text \<open>Within the month the day of the month counts up; the month index is monotone.\<close>

lemma same_month:
  assumes "d \<le> t" "t < next_first d"
  shows "year_of_day t = year_of_day d" "mon_of_day t = mon_of_day d"
    "mday_of_day t = mday_of_day d + (t - d)" "next_first t = next_first d"
proof -
  have d: "d = day_of (year_of_day d) (mon_of_day d) 1 + (mday_of_day d - 1)" by (rule day_decomp)
  have t: "t = day_of (year_of_day d) (mon_of_day d) (mday_of_day d + (t - d))"
    using d day_of_add [of "year_of_day d" "mon_of_day d" 1 "mday_of_day d - 1 + (t - d)"] by simp
  have b: "1 \<le> mday_of_day d + (t - d)" "mday_of_day d + (t - d) \<le> mlen (year_of_day d) (mon_of_day d)"
    using assms d mday_of_day_bounds [of d] by (auto simp: next_first_def)
  note c = civil_of_day_of [OF mon_of_day_bounds [of d] b, folded t]
  then show "year_of_day t = year_of_day d" "mon_of_day t = mon_of_day d"
    "mday_of_day t = mday_of_day d + (t - d)" "next_first t = next_first d"
    by (auto simp: next_first_def)
qed

lemma month_index_step: "month_index d \<le> month_index (d + 1)"
proof (cases "d + 1 < next_first d")
  case True
  then show ?thesis using same_month [of d "d + 1"] by (simp add: month_index_def)
next
  case False
  then have "d + 1 = next_first d" using next_first_facts(3) [of d] by simp
  then show ?thesis using next_first_facts(1) [of d] by simp
qed

lemma month_index_mono: "d \<le> t \<Longrightarrow> month_index d \<le> month_index t"
proof (induction t rule: int_ge_induct)
  case (step t)
  then show ?case using month_index_step [of t] by simp
qed simp

lemma year_of_day_mono: "d \<le> t \<Longrightarrow> year_of_day d \<le> year_of_day t"
  using month_index_mono [of d t] mon_of_day_bounds [of d] mon_of_day_bounds [of t]
  by (simp add: month_index_def)

lemma year_of_mono: "s \<le> t \<Longrightarrow> year_of s \<le> year_of t"
  by (simp add: year_of_def daynum_def zdiv_mono1 year_of_day_mono)

lemma mon_of_day_index: "mon_of_day d = month_index d mod 12"
  using mon_of_day_bounds [of d] by (simp add: month_index_def)

lemma month_index_less:
  assumes "0 \<le> m" "m < 12" "t < day_of y m 1"
  shows "month_index t < 12 * y + m"
proof (rule ccontr)
  assume "\<not> month_index t < 12 * y + m"
  moreover have "next_first t \<le> day_of y m 1 \<or> day_of y m 1 < next_first t" by linarith
  moreover have "month_index t \<le> month_index (day_of y m 1)" using assms by (intro month_index_mono) simp
  ultimately have eq: "month_index t = 12 * y + m" and lt: "day_of y m 1 < next_first t"
    using month_index_mono [of "next_first t" "day_of y m 1"] next_first_facts(1) [of t]
      month_index_day_of [of m 1 y] mlen_bounds(1) [of y m] assms by auto
  then have "mday_of_day (day_of y m 1) = mday_of_day t + (day_of y m 1 - t)"
    using assms by (intro same_month(3)) auto
  then show False using civil_first(3) [OF assms(1,2), of y] mday_of_day_bounds(1) [of t] assms(3) by simp
qed

lemma day_of_later:
  assumes "0 \<le> m" "m < 12" "month_index d < 12 * y + m"
  shows "d < day_of y m 1"
proof (rule ccontr)
  assume "\<not> d < day_of y m 1"
  then have "month_index (day_of y m 1) \<le> month_index d" by (intro month_index_mono) simp
  then show False using assms month_index_day_of [of m 1 y] mlen_bounds(1) [of y m] by simp
qed

lemma day_of_next_year_bound:
  assumes "0 \<le> m" "m < 12" "1 \<le> dd" "dd \<le> 31" "y \<le> year_of_day d + 1"
  shows "day_of y m dd \<le> d + 732"
proof -
  have "days_before_year y \<le> days_before_year (year_of_day d + 1)"
    using days_before_year_less [of y "year_of_day d + 1"] assms(5) by (cases "y = year_of_day d + 1") auto
  moreover have "days_before_year (year_of_day d + 1) \<le> d + 366"
    using year_of_day_bounds [of d] by (simp add: days_before_year_Suc)
  moreover have "month_start (leap_year y) m \<le> 335" using assms(1,2) by (elim month_cases) simp_all
  ultimately show ?thesis using assms by (simp add: day_of_def)
qed

lemma mday_changes:
  assumes "0 < k" "k < 28"
  shows "mday_of_day (d + k) \<noteq> mday_of_day d"
proof (cases "d + k < next_first d")
  case True
  then show ?thesis using assms same_month(3) [of d "d + k"] by simp
next
  case False
  define F where "F = next_first d"
  have F: "mday_of_day F = 1" "d < F" using next_first_facts [of d] by (simp_all add: F_def)
  have d: "F - d = mlen (year_of_day d) (mon_of_day d) - mday_of_day d + 1"
    using day_decomp [of d] by (simp add: F_def next_first_def)
  have "F + 28 \<le> next_first F"
    using mlen_bounds(1) [of "year_of_day F" "mon_of_day F"] day_decomp [of F] F by (simp add: next_first_def)
  then have "mday_of_day (d + k) = 1 + (d + k - F)"
    using False assms F same_month(3) [of F "d + k"] by (simp add: F_def)
  then show ?thesis using d assms mlen_bounds(1) [of "year_of_day d" "mon_of_day d"] by linarith
qed


subsection \<open>Expressions the searches are exact for\<close>

text \<open>
  The searches do not return the nearest match for every expression (see the findings of the
  root theory). They do when the set of seconds is an interval (a crontab line has the single
  second 0), at most one of the two day fields is restricted, and the months are either all
  set or the days of the month are ones that every month has.
\<close>

definition second_interval :: "cron_expr \<Rightarrow> bool" where
  "second_interval e \<longleftrightarrow> (\<exists>a b. bits_of (seconds e) = {a..b})"

definition one_day_field :: "cron_expr \<Rightarrow> bool" where
  "one_day_field e \<longleftrightarrow> bits_of (days_of_week e) = {..<7} \<or> bits_of (days_of_month e) = {1..31}"

definition months_safe :: "nat \<Rightarrow> cron_expr \<Rightarrow> bool" where
  "months_safe ld e \<longleftrightarrow> bits_of (months e) = {..<12}
     \<or> (bits_of (days_of_month e) \<subseteq> {..ld} \<and> bits_of (days_of_week e) = {..<7})"

definition regular :: "nat \<Rightarrow> cron_expr \<Rightarrow> bool" where
  "regular ld e \<longleftrightarrow> wf_expr e \<and> second_interval e \<and> one_day_field e \<and> months_safe ld e"

lemma second_interval_code [code]:
  "second_interval e \<longleftrightarrow> (let S = bits_of (seconds e) in S = {} \<or> S = {Min S..Max S})"
proof
  assume "second_interval e"
  then obtain a b where S: "bits_of (seconds e) = {a..b}" by (auto simp: second_interval_def)
  show "let S = bits_of (seconds e) in S = {} \<or> S = {Min S..Max S}"
  proof (cases "a \<le> b")
    case True
    then have "Min {a..b} = a" "Max {a..b} = b" by (intro Min_eqI Max_eqI; auto)+
    then show ?thesis unfolding Let_def S by simp
  qed (simp add: S)
next
  assume "let S = bits_of (seconds e) in S = {} \<or> S = {Min S..Max S}"
  then have "bits_of (seconds e) = {1..0} \<or> (\<exists>a b. bits_of (seconds e) = {a..b})" by (auto simp: Let_def)
  then show "second_interval e" unfolding second_interval_def by blast
qed

lemma day_full_nat: "w \<in> bits_of (days_of_week e) \<Longrightarrow> bits_of (days_of_month e) = {1..31} \<Longrightarrow>
    nat ((d + 4) mod 7) = w \<Longrightarrow> day_matches e d"
  using mday_of_day_bounds(1) [of d] mday_le_31 [of d] by (simp add: day_matches_def nat_le_iff le_nat_iff)

lemma weekday_full: "bits_of (days_of_week e) = {..<7} \<Longrightarrow>
    day_matches e d \<longleftrightarrow> nat (mday_of_day d) \<in> bits_of (days_of_month e)"
  by (simp add: day_matches_def nat_less_iff)

text \<open>A month of 31 days comes at least every second month.\<close>

lemma long_month: "mlen (year_of_day d) (mon_of_day d) < 31 \<Longrightarrow>
    mlen (year_of_day (next_first d)) (mon_of_day (next_first d)) = 31"
  using mon_of_day_bounds [of d]
  by (auto simp: next_first_civil civil_first mlen_def month_length_def split: if_splits)

lemma reach_mday:
  assumes "1 \<le> k" "k \<le> 31"
  shows "\<exists>t. d < t \<and> t \<le> d + 93 \<and> mday_of_day t = k"
proof -
  define F where "F = next_first d"
  define G where "G = next_first F"
  have F: "d < F" "F \<le> d + 31" "mday_of_day F = 1" using next_first_facts [of d] by (simp_all add: F_def)
  have G: "F < G" "G \<le> F + 31" "mday_of_day G = 1" using next_first_facts [of F] by (simp_all add: G_def)
  have len: "next_first x = x + mlen (year_of_day x) (mon_of_day x)" if "mday_of_day x = 1" for x
    using day_decomp [of x] that by (simp add: next_first_def)
  show ?thesis
  proof (cases "k \<le> mlen (year_of_day F) (mon_of_day F)")
    case True
    then have "mday_of_day (F + (k - 1)) = k"
      using same_month(3) [of F "F + (k - 1)"] assms F len [of F] by simp
    then show ?thesis using F assms by (intro exI [of _ "F + (k - 1)"]) simp
  next
    case False
    then have "mlen (year_of_day G) (mon_of_day G) = 31"
      using long_month [of F] assms by (simp add: G_def)
    then have "mday_of_day (G + (k - 1)) = k"
      using same_month(3) [of G "G + (k - 1)"] assms G len [of G] by simp
    then show ?thesis using F G assms by (intro exI [of _ "G + (k - 1)"]) simp
  qed
qed

lemma reach_wday:
  fixes w d :: int
  assumes "0 \<le> w" "w < 7"
  shows "\<exists>t. d < t \<and> t \<le> d + 7 \<and> (t + 4) mod 7 = w"
proof -
  define k where "k = (w - (d + 5)) mod 7"
  have "(d + 1 + k + 4) mod 7 = ((d + 5) + (w - (d + 5)) mod 7) mod 7"
    by (simp add: k_def algebra_simps)
  also have "\<dots> = w mod 7" by (simp only: mod_add_right_eq) simp
  finally have "(d + 1 + k + 4) mod 7 = w mod 7" .
  then have "(d + 1 + k + 4) mod 7 = w" using assms by simp
  moreover have "0 \<le> k" "k < 7" by (simp_all add: k_def)
  ultimately show ?thesis by (intro exI [of _ "d + 1 + k"]) auto
qed

lemma wf_day_members:
  assumes "wf_expr e"
  obtains w k where "w \<in> bits_of (days_of_week e)" "w < 7"
    "k \<in> bits_of (days_of_month e)" "1 \<le> k" "k \<le> 31"
proof -
  have "\<exists>w. w \<in> bits_of (days_of_week e)" "\<exists>k. k \<in> bits_of (days_of_month e)"
    using assms by (auto simp: wf_expr_def)
  moreover have "bits_of (days_of_week e) \<subseteq> {..<7}" "bits_of (days_of_month e) \<subseteq> {1..31}"
    using assms by (simp_all add: wf_expr_def)
  ultimately show thesis using that by fastforce
qed

text \<open>The nearest matching day is less than 94 days away; if the weekday is the only
  restriction, at most 7.\<close>

lemma nearest_day:
  assumes "wf_expr e" "one_day_field e"
  obtains t where "d < t" "t \<le> d + 93" "day_matches e t" "\<forall>u. d < u \<and> u < t \<longrightarrow> \<not> day_matches e u"
    "bits_of (days_of_month e) = {1..31} \<Longrightarrow> t \<le> d + 7"
proof -
  have "\<exists>t. d < t \<and> t \<le> d + 93 \<and> day_matches e t \<and> (bits_of (days_of_month e) = {1..31} \<longrightarrow> t \<le> d + 7)"
  proof (cases "bits_of (days_of_month e) = {1..31}")
    case True
    obtain w where w: "w \<in> bits_of (days_of_week e)" "w < 7"
      using assms(1) by (rule wf_day_members)
    obtain t where "d < t" "t \<le> d + 7" "(t + 4) mod 7 = int w" using reach_wday [of "int w" d] w by auto
    then show ?thesis using day_full_nat [OF w(1) True, of t] by (intro exI [of _ t]) auto
  next
    case False
    then have full: "bits_of (days_of_week e) = {..<7}" using assms(2) by (simp add: one_day_field_def)
    obtain k where k: "k \<in> bits_of (days_of_month e)" "1 \<le> k" "k \<le> 31"
      using assms(1) by (rule wf_day_members)
    obtain t where "d < t" "t \<le> d + 93" "mday_of_day t = int k" using reach_mday [of "int k" d] k by auto
    then show ?thesis using k False by (intro exI [of _ t]) (simp add: weekday_full [OF full])
  qed
  then obtain t0 where t0: "d < t0" "t0 \<le> d + 93" "day_matches e t0"
    "bits_of (days_of_month e) = {1..31} \<longrightarrow> t0 \<le> d + 7" by blast
  define n where "n = (LEAST n. day_matches e (d + 1 + int n))"
  have ex: "day_matches e (d + 1 + int (nat (t0 - d - 1)))" using t0 by simp
  have n: "day_matches e (d + 1 + int n)" unfolding n_def using ex by (rule LeastI)
  have le: "n \<le> nat (t0 - d - 1)" unfolding n_def using ex by (rule Least_le)
  show thesis
  proof (rule that [of "d + 1 + int n"])
    show "\<forall>u. d < u \<and> u < d + 1 + int n \<longrightarrow> \<not> day_matches e u"
    proof (intro allI impI)
      fix u assume u: "d < u \<and> u < d + 1 + int n"
      then have "nat (u - d - 1) < n" by linarith
      then have "\<not> day_matches e (d + 1 + int (nat (u - d - 1)))" unfolding n_def by (rule not_less_Least)
      then show "\<not> day_matches e u" using u by simp
    qed
  qed (use n le t0 in auto)
qed


subsection \<open>An example\<close>

text \<open>12:30:00 on the 15th of every month.\<close>

definition mid_month :: cron_expr where
  "mid_month = \<lparr>seconds = [1, 0, 0, 0, 0, 0, 0, 0], minutes = [0, 0, 0, 64, 0, 0, 0, 0], hours = [0, 16, 0],
     days_of_week = [127], days_of_month = [0, 128, 0, 0], months = [255, 15]\<rparr>"

lemma regular_mid_month: "regular 28 mid_month" "regular 27 mid_month"
  by code_simp+

end
