(* ===== verification/Cron_Next.thy ===== *)
theory Cron_Next
  imports Cron_Match
begin

section \<open>cron_next: the next matching instant\<close>

text \<open>
  \<open>find_next\<close>, \<open>find_next_day\<close>, \<open>do_next\<close> and \<open>cron_next\<close> of \<open>ccronexpr.c\<close>. The recursion
  of \<open>do_next\<close> takes fuel; \<open>None\<close> means that the fuel did not suffice or that a bit outside
  an array was read.
\<close>

subsection \<open>find_next\<close>

text \<open>The result: the value found, the calendar, and what is written to \<open>*res_out\<close>
  (1 on an error, otherwise it keeps the 0 the callers pass).\<close>

definition find_next_set ::
    "platform \<Rightarrow> nat \<Rightarrow> tm \<Rightarrow> int \<Rightarrow> int list \<Rightarrow> nat \<Rightarrow> bool \<Rightarrow> nat \<times> tm \<times> int" where
  "find_next_set pf val cal field lower_orders next_value notfound =
     (if notfound \<or> next_value \<noteq> val then
        (let (cal, err) = set_field pf cal field (int next_value) in
         if err \<noteq> 0 then (0, cal, 1)
         else (let (cal, err) = reset_all_min pf cal lower_orders in
               if err \<noteq> 0 then (0, cal, 1) else (next_value, cal, 0)))
      else (next_value, cal, 0))"

definition find_next ::
    "platform \<Rightarrow> u8 list \<Rightarrow> nat \<Rightarrow> nat \<Rightarrow> tm \<Rightarrow> int \<Rightarrow> int \<Rightarrow> int list \<Rightarrow> (nat \<times> tm \<times> int) option" where
  "find_next pf bits mx val cal field next_field lower_orders =
     do { (next_value, notfound) \<leftarrow> next_set_bit bits mx val;
          if notfound then
            (let (cal, err) = add_to_field pf cal next_field 1 in
             if err \<noteq> 0 then Some (0, cal, 1)
             else (let (cal, err) = reset_min pf cal field in
                   if err \<noteq> 0 then Some (0, cal, 1)
                   else do { (next_value, notfound) \<leftarrow> next_set_bit bits mx 0;
                             Some (find_next_set pf val cal field lower_orders next_value notfound) }))
          else Some (find_next_set pf val cal field lower_orders next_value notfound) }"

subsection \<open>find_next_day\<close>

text \<open>The loop condition \<open>(!get(doms) || !get(dows)) && count++ < max\<close>: the second bit is read
  only when the first is set.\<close>

definition day_mismatch :: "u8 list \<Rightarrow> nat \<Rightarrow> u8 list \<Rightarrow> nat \<Rightarrow> bool option" where
  "day_mismatch doms day_of_month dows day_of_week =
     do { b \<leftarrow> cron_get_bit doms day_of_month;
          if \<not> b then Some True else map_option Not (cron_get_bit dows day_of_week) }"

function find_next_day ::
    "platform \<Rightarrow> tm \<Rightarrow> u8 list \<Rightarrow> nat \<Rightarrow> u8 list \<Rightarrow> nat \<Rightarrow> int list \<Rightarrow> nat \<Rightarrow> (nat \<times> tm \<times> int) option" where
  "find_next_day pf cal doms day_of_month dows day_of_week resets count =
     do { mismatch \<leftarrow> day_mismatch doms day_of_month dows day_of_week;
          if mismatch \<and> count < 366 then
            (let (cal, err) = add_to_field pf cal CRON_CF_DAY_OF_MONTH 1 in
             if err \<noteq> 0 then Some (0, cal, 1)
             else (let day_of_month = u32_of_int (tm_mday cal);
                       day_of_week = u32_of_int (tm_wday cal);
                       (cal, ignored) = reset_all_min pf cal resets
                   in find_next_day pf cal doms day_of_month dows day_of_week resets (count + 1)))
          else Some (day_of_month, cal, 0) }"
  by pat_completeness auto
termination by (relation "measure (\<lambda>(pf, cal, doms, d, dows, w, resets, count). 366 - count)") auto

declare find_next_day.simps [simp del]

subsection \<open>do_next\<close>

text \<open>The stages of \<open>do_next\<close>, from the last to the first; \<open>rec\<close> is the recursive call
  \<open>do_next(expr, calendar, dot)\<close>. The result is the calendar with the return code.\<close>

definition do_next_month ::
    "platform \<Rightarrow> cron_expr \<Rightarrow> (tm \<Rightarrow> (tm \<times> int) option) \<Rightarrow> nat \<Rightarrow> int list \<Rightarrow> tm \<Rightarrow> (tm \<times> int) option" where
  "do_next_month pf expr rec dot resets cal =
     (let month = u32_of_int (tm_mon cal) in
      do { (update_month, cal, res) \<leftarrow>
             find_next pf (months expr) CRON_MAX_MONTHS month cal CRON_CF_MONTH CRON_CF_YEAR resets;
           if res \<noteq> 0 then Some (cal, res)
           else if month \<noteq> update_month then
             (if u32_of_int (tm_year cal - int dot) > 4 then Some (cal, - 1) else rec cal)
           else Some (cal, 0) })"

definition do_next_day ::
    "platform \<Rightarrow> cron_expr \<Rightarrow> (tm \<Rightarrow> (tm \<times> int) option) \<Rightarrow> nat \<Rightarrow> int list \<Rightarrow> tm \<Rightarrow> (tm \<times> int) option" where
  "do_next_day pf expr rec dot resets cal =
     (let day_of_week = u32_of_int (tm_wday cal);
          day_of_month = u32_of_int (tm_mday cal) in
      do { (update_day_of_month, cal, res) \<leftarrow>
             find_next_day pf cal (days_of_month expr) day_of_month (days_of_week expr) day_of_week resets 0;
           if res \<noteq> 0 then Some (cal, res)
           else if day_of_month = update_day_of_month then
             do_next_month pf expr rec dot (push_to_fields_arr resets CRON_CF_DAY_OF_MONTH) cal
           else do { (cal, res) \<leftarrow> rec cal;
                     if res \<noteq> 0 then Some (cal, res) else do_next_month pf expr rec dot resets cal } })"

definition do_next_hour ::
    "platform \<Rightarrow> cron_expr \<Rightarrow> (tm \<Rightarrow> (tm \<times> int) option) \<Rightarrow> nat \<Rightarrow> int list \<Rightarrow> tm \<Rightarrow> (tm \<times> int) option" where
  "do_next_hour pf expr rec dot resets cal =
     (let hour = u32_of_int (tm_hour cal) in
      do { (update_hour, cal, res) \<leftarrow>
             find_next pf (hours expr) CRON_MAX_HOURS hour cal CRON_CF_HOUR_OF_DAY CRON_CF_DAY_OF_WEEK resets;
           if res \<noteq> 0 then Some (cal, res)
           else if hour = update_hour then
             do_next_day pf expr rec dot (push_to_fields_arr resets CRON_CF_HOUR_OF_DAY) cal
           else do { (cal, res) \<leftarrow> rec cal;
                     if res \<noteq> 0 then Some (cal, res) else do_next_day pf expr rec dot resets cal } })"

definition do_next_minute ::
    "platform \<Rightarrow> cron_expr \<Rightarrow> (tm \<Rightarrow> (tm \<times> int) option) \<Rightarrow> nat \<Rightarrow> int list \<Rightarrow> tm \<Rightarrow> (tm \<times> int) option" where
  "do_next_minute pf expr rec dot resets cal =
     (let minute = u32_of_int (tm_min cal) in
      do { (update_minute, cal, res) \<leftarrow>
             find_next pf (minutes expr) CRON_MAX_MINUTES minute cal CRON_CF_MINUTE CRON_CF_HOUR_OF_DAY resets;
           if res \<noteq> 0 then Some (cal, res)
           else if minute = update_minute then
             do_next_hour pf expr rec dot (push_to_fields_arr resets CRON_CF_MINUTE) cal
           else do { (cal, res) \<leftarrow> rec cal;
                     if res \<noteq> 0 then Some (cal, res) else do_next_hour pf expr rec dot resets cal } })"

definition do_next_second ::
    "platform \<Rightarrow> cron_expr \<Rightarrow> (tm \<Rightarrow> (tm \<times> int) option) \<Rightarrow> nat \<Rightarrow> tm \<Rightarrow> (tm \<times> int) option" where
  "do_next_second pf expr rec dot cal =
     (let resets = no_fields; empty_list = no_fields; second = u32_of_int (tm_sec cal) in
      do { (update_second, cal, res) \<leftarrow>
             find_next pf (seconds expr) CRON_MAX_SECONDS second cal CRON_CF_SECOND CRON_CF_MINUTE empty_list;
           if res \<noteq> 0 then Some (cal, res)
           else do_next_minute pf expr rec dot
             (if second = update_second then push_to_fields_arr resets CRON_CF_SECOND else resets) cal })"

primrec do_next :: "platform \<Rightarrow> nat \<Rightarrow> cron_expr \<Rightarrow> nat \<Rightarrow> tm \<Rightarrow> (tm \<times> int) option" where
  "do_next pf 0 expr dot cal = None"
| "do_next pf (Suc fuel) expr dot cal =
     do_next_second pf expr (\<lambda>cal. do_next pf fuel expr dot cal) dot cal"

subsection \<open>cron_next\<close>

definition cron_next :: "platform \<Rightarrow> nat \<Rightarrow> cron_expr \<Rightarrow> time_t \<Rightarrow> time_t option" where
  "cron_next pf fuel expr date =
     (case cron_time pf date of
        None \<Rightarrow> Some CRON_INVALID_INSTANT
      | Some cal \<Rightarrow>
          (let (cal, original) = cron_mktime pf cal in
           if original = CRON_INVALID_INSTANT then Some CRON_INVALID_INSTANT
           else do { (cal, res) \<leftarrow> do_next pf fuel expr (u32_of_int (tm_year cal)) cal;
                     if res \<noteq> 0 then Some CRON_INVALID_INSTANT
                     else (let (cal, calculated) = cron_mktime pf cal in
                       if calculated = CRON_INVALID_INSTANT then Some CRON_INVALID_INSTANT
                       else if calculated = original then
                         (let (cal, res) = add_to_field pf cal CRON_CF_SECOND 1 in
                          if res \<noteq> 0 then Some CRON_INVALID_INSTANT
                          else do { (cal, res) \<leftarrow> do_next pf fuel expr (u32_of_int (tm_year cal)) cal;
                                    if res \<noteq> 0 then Some CRON_INVALID_INSTANT
                                    else Some (snd (cron_mktime pf cal)) })
                       else Some (snd (cron_mktime pf cal))) }))"

end
