(* ===== verification/Cron_Find.thy ===== *)
theory Cron_Find
  imports Cron_Next
begin

section \<open>The searches of do_next, one field at a time\<close>

text \<open>
  What the stages of \<open>do_next\<close> do to the instant a calendar stands for: the reset lists
  (\<open>reset_minute\<close>, \<open>reset_hour\<close>, \<open>reset_day\<close>, \<open>reset_month\<close>), \<open>find_next\<close> on a clock field
  (\<open>find_next_field\<close>, proved once for second, minute and hour) and on the month
  (\<open>find_next_month\<close>), and the stages on an instant that already matches.
\<close>

subsection \<open>The reset lists\<close>

text \<open>The lists \<open>do_next\<close> builds: the second if it was pushed, then \<open>k\<close> of minute, hour, day.\<close>

definition rlist :: "bool \<Rightarrow> nat \<Rightarrow> int list" where
  "rlist b k = take 7 ((if b then [0] else []) @ take k [1, 2, 4] @ replicate 7 (- 1))"

lemma rlist_push:
  "push_to_fields_arr no_fields CRON_CF_SECOND = rlist True 0" "no_fields = rlist False 0"
  "push_to_fields_arr (rlist b 0) CRON_CF_MINUTE = rlist b 1"
  "push_to_fields_arr (rlist b 1) CRON_CF_HOUR_OF_DAY = rlist b 2"
  "push_to_fields_arr (rlist b 2) CRON_CF_DAY_OF_MONTH = rlist b 3"
  by (cases b; simp add: rlist_def no_fields_def push_to_fields_arr_def numeral_eq_Suc)+

lemma rlist_expand:
  "rlist b 0 = (if b then 0 # replicate 6 (- 1) else replicate 7 (- 1))"
  "rlist b 1 = (if b then 0 # 1 # replicate 5 (- 1) else 1 # replicate 6 (- 1))"
  "rlist b 2 = (if b then 0 # 1 # 2 # replicate 4 (- 1) else 1 # 2 # replicate 5 (- 1))"
  "rlist b 3 = (if b then 0 # 1 # 2 # 4 # replicate 3 (- 1) else 1 # 2 # 4 # replicate 4 (- 1))"
  by (cases b; simp add: rlist_def numeral_eq_Suc)+

lemma reset_all_min_free [simp]: "reset_all_min pf c (replicate n (- 1)) = (c, 0)"
  by (induction n) simp_all

text \<open>A field that already is set is left alone.\<close>

lemma find_next_same:
  assumes "length b \<le> 256" "mx \<le> 8 * length b" "val \<in> bits_of b" "val < mx"
  shows "find_next pf b mx val cal f g L = Some (val, cal, 0)"
proof -
  have "next_set_bit b mx val = Some (val, False)"
    using assms by (intro next_set_bit_Some) auto
  then show ?thesis by (simp add: find_next_def find_next_set_def)
qed

text \<open>The outcome proved of the search from \<open>x\<close>: with enough fuel it stops, without an error,
  at the least match from \<open>x\<close> on.\<close>

definition finds :: "cron_expr \<Rightarrow> (int \<Rightarrow> tm) \<Rightarrow> int \<Rightarrow> (nat \<Rightarrow> (tm \<times> int) option) \<Rightarrow> bool" where
  "finds e norm x F \<longleftrightarrow>
     (\<exists>s' n. x \<le> s' \<and> matches e s' \<and> skip e x s' \<and> (\<forall>k \<ge> n. F k = Some (norm s', 0)))"

lemma finds_here: "matches e x \<Longrightarrow> (\<And>k. F k = Some (norm x, 0)) \<Longrightarrow> finds e norm x F"
  unfolding finds_def by (intro exI [of _ x]) auto

lemma finds_skip: "skip e x y \<Longrightarrow> x \<le> y \<Longrightarrow> finds e norm y F \<Longrightarrow> finds e norm x F"
  unfolding finds_def by (meson order_trans skip_trans)

lemma finds_cong: "finds e norm x F \<Longrightarrow> (\<And>k. G k = F k) \<Longrightarrow> finds e norm x G"
  by (simp add: finds_def)

lemma finds_then:
  assumes "finds e norm x F"
    and "\<And>k. G k = do { (cal, res) \<leftarrow> F k; if res \<noteq> 0 then Some (cal, res) else H k cal }"
    and "\<And>k y. matches e y \<Longrightarrow> H k (norm y) = Some (norm y, 0)"
  shows "finds e norm x G"
proof -
  obtain s' n where s': "x \<le> s'" "matches e s'" "skip e x s'" "\<forall>k \<ge> n. F k = Some (norm s', 0)"
    using assms(1) by (auto simp: finds_def)
  then have "\<forall>k \<ge> n. G k = Some (norm s', 0)" using assms(2,3) by simp
  with s' show ?thesis unfolding finds_def by blast
qed

text \<open>The seconds that remain after the resets.\<close>

definition low :: "bool \<Rightarrow> int \<Rightarrow> int" where
  "low b s = (if b then 0 else sec_of s)"

lemma low_bounds: "0 \<le> low b s" "low b s \<le> sec_of s" "low b s < 60"
  using field_ranges [of s] by (auto simp: low_def)

text \<open>Nothing matches between a full minute and the seconds left over it, when those are the
  least ones of the expression.\<close>

lemma skip_low:
  assumes "b \<or> (\<forall>c \<in> bits_of (seconds e). sec_of x \<le> int c)"
  shows "skip e (60 * q) (60 * q + low b x)"
  unfolding skip_def
proof (intro allI impI)
  fix t assume t: "60 * q \<le> t \<and> t < 60 * q + low b x"
  then have "\<not> b" by (auto simp: low_def)
  have "t = 60 * q + (t - 60 * q)" by simp
  then have "sec_of t = t - 60 * q"
    unfolding sec_of_def using t low_bounds(3) [of b x] by (metis mod_mult_self4 mod_pos_pos_trivial diff_ge_0_iff_ge diff_less_eq add.commute less_trans order_less_le_trans)
  then show "\<not> matches e t" using assms \<open>\<not> b\<close> t by (force simp: matches_def low_def)
qed

context cron_clock
begin

lemma reset_minute:
  assumes "\<forall>y. 60 * (s div 60) \<le> y \<and> y \<le> s \<longrightarrow> good y"
  shows "reset_all_min pf (brk s) (rlist b 0) = (brk (60 * (s div 60) + low b s), 0)"
proof -
  have e: "s - sec_of s = 60 * (s div 60)" "s = 60 * (s div 60) + sec_of s"
    using div_fields(1) [of s] by simp_all
  have "good (s - sec_of s)" using assms e field_ranges [of s] by simp
  then have "reset_min pf (brk s) CRON_CF_SECOND = (brk (60 * (s div 60)), 0)"
    using reset_min_ok(1) [of s] e(1) by simp
  then show ?thesis using e(2) by (simp add: rlist_expand low_def)
qed

lemma reset_hour:
  assumes "\<forall>y. 3600 * (s div 3600) \<le> y \<and> y \<le> s \<longrightarrow> good y"
  shows "reset_all_min pf (brk s) (rlist b 1) = (brk (3600 * (s div 3600) + low b s), 0)"
proof -
  have s: "s = 3600 * (s div 3600) + 60 * min_of s + sec_of s"
    using div_fields [of s] by linarith
  have "s - sec_of s = 86400 * daynum s + 3600 * hour_of s + 60 * min_of s + 0"
    using secs_decompose [of s] by linarith
  then have m: "min_of (s - sec_of s) = min_of s"
    using fields_of_secs [of "hour_of s" "min_of s" 0 "daynum s"] field_ranges [of s] by simp
  have e: "s - sec_of s - 60 * min_of s = 3600 * (s div 3600)" "s - 60 * min_of s = 3600 * (s div 3600) + sec_of s"
    using s by linarith+
  have g: "good (s - sec_of s)" "good (s - 60 * min_of s)" "good (s - sec_of s - 60 * min_of s)"
    using assms s field_ranges [of s] by auto
  have "reset_min pf (brk s) CRON_CF_SECOND = (brk (s - sec_of s), 0)"
    using reset_min_ok(1) [of s] g(1) by simp
  moreover have "reset_min pf (brk (s - sec_of s)) CRON_CF_MINUTE = (brk (3600 * (s div 3600)), 0)"
    using reset_min_ok(2) [of "s - sec_of s"] g(3) m e(1) by simp
  moreover have "reset_min pf (brk s) CRON_CF_MINUTE = (brk (3600 * (s div 3600) + sec_of s), 0)"
    using reset_min_ok(2) [of s] g(2) e(2) by simp
  ultimately show ?thesis by (cases b) (simp_all add: rlist_expand low_def del: One_nat_def)
qed

lemma reset_day:
  assumes "\<forall>y. 86400 * daynum s \<le> y \<and> y \<le> s \<longrightarrow> good y"
  shows "reset_all_min pf (brk s) (rlist b 2) = (brk (86400 * daynum s + low b s), 0)"
proof -
  note s = secs_decompose [of s] and ranges = field_ranges [of s]
  have g: "good (86400 * daynum s + 3600 * hour_of s + 60 * min_of s)"
    "good (86400 * daynum s + 3600 * hour_of s + sec_of s)"
    "good (86400 * daynum s + 3600 * hour_of s)" "good (86400 * daynum s + sec_of s)" "good (86400 * daynum s)"
    using assms s ranges by auto
  have f: "min_of (86400 * daynum s + 3600 * hour_of s + 60 * min_of s) = min_of s"
    "hour_of (86400 * daynum s + 3600 * hour_of s) = hour_of s"
    "hour_of (86400 * daynum s + 3600 * hour_of s + sec_of s) = hour_of s"
    using fields_of_secs [of "hour_of s" "min_of s" 0 "daynum s"] fields_of_secs [of "hour_of s" 0 0 "daynum s"]
      fields_of_secs [of "hour_of s" 0 "sec_of s" "daynum s"] ranges by simp_all
  have e: "s - sec_of s = 86400 * daynum s + 3600 * hour_of s + 60 * min_of s"
    "s - 60 * min_of s = 86400 * daynum s + 3600 * hour_of s + sec_of s" using s by linarith+
  show ?thesis
  proof (cases b)
    case True
    have "reset_min pf (brk s) CRON_CF_SECOND = (brk (86400 * daynum s + 3600 * hour_of s + 60 * min_of s), 0)"
      using reset_min_ok(1) [of s] g(1) e(1) by simp
    moreover have "reset_min pf (brk (86400 * daynum s + 3600 * hour_of s + 60 * min_of s)) CRON_CF_MINUTE
        = (brk (86400 * daynum s + 3600 * hour_of s), 0)"
      using reset_min_ok(2) [of "86400 * daynum s + 3600 * hour_of s + 60 * min_of s"] g(3) f(1) by simp
    moreover have "reset_min pf (brk (86400 * daynum s + 3600 * hour_of s)) CRON_CF_HOUR_OF_DAY
        = (brk (86400 * daynum s), 0)"
      using reset_min_ok(3) [of "86400 * daynum s + 3600 * hour_of s"] g(5) f(2) by simp
    ultimately show ?thesis using True by (simp add: rlist_expand low_def)
  next
    case False
    have "reset_min pf (brk s) CRON_CF_MINUTE = (brk (86400 * daynum s + 3600 * hour_of s + sec_of s), 0)"
      using reset_min_ok(2) [of s] g(2) e(2) by simp
    moreover have "reset_min pf (brk (86400 * daynum s + 3600 * hour_of s + sec_of s)) CRON_CF_HOUR_OF_DAY
        = (brk (86400 * daynum s + sec_of s), 0)"
      using reset_min_ok(3) [of "86400 * daynum s + 3600 * hour_of s + sec_of s"] g(4) f(3) by simp
    ultimately show ?thesis using False by (simp add: rlist_expand low_def)
  qed
qed

subsection \<open>find_next on a clock field\<close>

text \<open>
  A field \<open>s div u mod n\<close> that carries into the next one after \<open>n\<close> steps of \<open>u\<close> seconds: the
  search moves to the least quotient \<open>q > s div u\<close> whose residue is set.
\<close>

lemma find_next_field:
  fixes u n :: int
  assumes u: "0 < u" "0 < n"
    and add: "\<And>x. good (x + u * n) \<Longrightarrow> add_to_field pf (brk x) g 1 = (brk (x + u * n), 0)"
    and res: "\<And>x. good (x - u * (x div u mod n)) \<Longrightarrow>
      reset_min pf (brk x) f = (brk (x - u * (x div u mod n)), 0)"
    and set: "\<And>x v. good (x + u * (v - x div u mod n)) \<Longrightarrow>
      set_field pf (brk x) f v = (brk (x + u * (v - x div u mod n)), 0)"
    and b: "length b \<le> 256" "nat n \<le> 8 * length b" "bits_of b \<subseteq> {..<nat n}" "bits_of b \<noteq> {}"
    and notin: "nat (s div u mod n) \<notin> bits_of b"
    and win: "\<forall>y. s \<le> y \<and> y \<le> s + 2 * u * n \<longrightarrow> good y"
  obtains q where "s div u < q" "q \<le> s div u + 2 * n" "nat (q mod n) \<in> bits_of b"
    "q mod n \<noteq> s div u mod n" "\<forall>p. s div u \<le> p \<and> p < q \<longrightarrow> nat (p mod n) \<notin> bits_of b"
    "\<And>c L. reset_all_min pf (brk (s + u * (q - s div u))) L = (c, 0) \<Longrightarrow>
       find_next pf b (nat n) (nat (s div u mod n)) (brk s) f g L = Some (nat (q mod n), c, 0)"
proof -
  define a where "a = s div u mod n"
  define K where "K = s div u div n"
  have a: "0 \<le> a" "a < n" "s div u = n * K + a" using u by (simp_all add: a_def K_def)
  have na: "nat a \<notin> bits_of b" using notin by (simp add: a_def)
  have res_mod: "(n * k + v) mod n = v" if "0 \<le> v" "v < n" for k v using that by simp
  show thesis
  proof (cases "\<exists>x \<in> bits_of b. nat a \<le> x")
    case True
    define v where "v = (LEAST x. x \<in> bits_of b \<and> nat a \<le> x)"
    have v: "v \<in> bits_of b" "nat a \<le> v" and vle: "\<And>x. x \<in> bits_of b \<Longrightarrow> nat a \<le> x \<Longrightarrow> v \<le> x"
      using LeastI_ex [of "\<lambda>x. x \<in> bits_of b \<and> nat a \<le> x"] True
      by (auto simp: v_def intro: Least_le)
    have "v \<noteq> nat a" "v < nat n" using v(1) na b(3) by (metis, blast)
    then have vn: "a < int v" "int v < n" using v(2) by linarith+
    have nsb: "next_set_bit b (nat n) (nat a) = Some (v, False)"
      using b v vn vle by (intro next_set_bit_Some) auto
    have "u * (int v - a) \<le> u * n" using vn a u by simp
    then have g: "good (s + u * (int v - a))"
      using win u vn mult_nonneg_nonneg [of u "int v - a"] mult_pos_pos [of u n] by auto
    show thesis
    proof (rule that [of "n * K + int v"])
      show "\<forall>p. s div u \<le> p \<and> p < n * K + int v \<longrightarrow> nat (p mod n) \<notin> bits_of b"
      proof (intro allI impI notI)
        fix p assume p: "s div u \<le> p \<and> p < n * K + int v" "nat (p mod n) \<in> bits_of b"
        then have "p mod n = p - n * K" using res_mod [of "p - n * K" K] a vn by simp
        then show False using vle [OF p(2)] p(1) a by linarith
      qed
      fix c L assume "reset_all_min pf (brk (s + u * (n * K + int v - s div u))) L = (c, 0)"
      then show "find_next pf b (nat n) (nat (s div u mod n)) (brk s) f g L
          = Some (nat ((n * K + int v) mod n), c, 0)"
        using set [of s "int v"] g a nsb vn res_mod [of "int v" K]
        by (simp add: find_next_def find_next_set_def a_def [symmetric])
    qed (use v vn a res_mod [of "int v" K] in \<open>auto simp: a_def [symmetric]\<close>)
  next
    case False
    define v where "v = (LEAST x. x \<in> bits_of b)"
    have v: "v \<in> bits_of b" and vle: "\<And>x. x \<in> bits_of b \<Longrightarrow> v \<le> x"
      using LeastI_ex [of "\<lambda>x. x \<in> bits_of b"] b(4) by (auto simp: v_def intro: Least_le)
    have "v < nat a" using False v by force
    then have vn: "int v < a" by linarith
    have nsb1: "next_set_bit b (nat n) (nat a) = Some (0, True)"
      using b(1,2) False by (intro next_set_bit_None) auto
    have nsb2: "next_set_bit b (nat n) 0 = Some (v, False)"
      using b(1,2) v vle vn a by (intro next_set_bit_Some) auto
    note nsb = nsb1 nsb2
    have f1: "(s + u * n) div u = n * (K + 1) + a" using u a by (simp add: algebra_simps)
    have f2: "(s + u * n) div u mod n = a" unfolding f1 using a by (intro res_mod)
    have f3: "(s + u * n - u * a) div u mod n = 0"
    proof -
      have "(s + u * n + u * (- a)) div u = (s + u * n) div u + - a"
        using u by (intro div_mult_self2 [THEN trans]) auto
      then have "(s + u * n - u * a) div u = n * (K + 1) + 0" unfolding f1 by simp
      then show ?thesis using u by (simp only: res_mod)
    qed
    have pos: "0 \<le> u * n" "0 \<le> u * a" "u * a \<le> u * n" "0 \<le> u * int v" "u * int v \<le> u * n"
      using u a vn by (simp_all add: mult_le_cancel_left)
    have w: "good y" if "s \<le> y" "y \<le> s + 2 * (u * n)" for y using win that by simp
    have g: "good (s + u * n)" "good (s + u * n - u * a)" "good (s + u * n - u * a + u * int v)"
      using pos by (intro w; linarith)+
    show thesis
    proof (rule that [of "n * (K + 1) + int v"])
      show "\<forall>p. s div u \<le> p \<and> p < n * (K + 1) + int v \<longrightarrow> nat (p mod n) \<notin> bits_of b"
      proof (intro allI impI notI)
        fix p assume p: "s div u \<le> p \<and> p < n * (K + 1) + int v" "nat (p mod n) \<in> bits_of b"
        show False
        proof (cases "p < n * K + n")
          case True
          then have "p mod n = p - n * K" using res_mod [of "p - n * K" K] a p by simp
          then have "a \<le> p mod n" using p(1) a(3) by linarith
          then have "nat a \<le> nat (p mod n)" by (rule nat_mono)
          then show False using False p by blast
        next
          case ge: False
          then have "p mod n = p - n * (K + 1)"
            using res_mod [of "p - n * (K + 1)" "K + 1"] a vn p by (simp add: algebra_simps)
          then show False using vle [OF p(2)] p(1) ge by (simp add: algebra_simps) linarith
        qed
      qed
      fix c L assume r: "reset_all_min pf (brk (s + u * (n * (K + 1) + int v - s div u))) L = (c, 0)"
      have T: "s + u * n - u * a + u * int v = s + u * (n * (K + 1) + int v - s div u)"
        using a by (simp add: algebra_simps)
      have "set_field pf (brk (s + u * n - u * a)) f (int v) = (brk (s + u * n - u * a + u * int v), 0)"
        using set [of "s + u * n - u * a" "int v"] g(3) f3 by simp
      then have st: "set_field pf (brk (s + u * n - u * a)) f (int v)
          = (brk (s + u * (n * (K + 1) + int v - s div u)), 0)" by (simp only: T)
      have "next_set_bit b (nat n) (nat (s div u mod n)) = Some (0, True)" using nsb by (simp add: a_def)
      moreover have "reset_min pf (brk (s + u * n)) f = (brk (s + u * n - u * a), 0)"
        using res [of "s + u * n"] g(2) f2 by simp
      moreover have "v \<noteq> nat (s div u mod n)" using vn by (simp add: a_def [symmetric])
      moreover have "(n * (K + 1) + int v) mod n = int v" using vn a by (intro res_mod) auto
      ultimately show "find_next pf b (nat n) (nat (s div u mod n)) (brk s) f g L
          = Some (nat ((n * (K + 1) + int v) mod n), c, 0)"
        using add [OF g(1)] nsb(2) st r unfolding find_next_def find_next_set_def by simp
    qed (use v vn a res_mod [of "int v" "K + 1"] u in \<open>auto simp: a_def [symmetric] algebra_simps\<close>)
  qed
qed

end

subsection \<open>The stages on a matching instant\<close>

lemma wf_sizes:
  assumes "wf_expr e"
  shows "length (seconds e) \<le> 256" "length (minutes e) \<le> 256" "length (hours e) \<le> 256"
    "length (days_of_week e) \<le> 256" "length (days_of_month e) \<le> 256" "length (months e) \<le> 256"
    "8 * length (seconds e) = 64" "8 * length (minutes e) = 64" "8 * length (hours e) = 24"
    "8 * length (days_of_week e) = 8" "8 * length (days_of_month e) = 32" "8 * length (months e) = 16"
  using assms by (simp_all add: wf_expr_def)

lemma u32_field [simp]:
  "u32_of_int (sec_of s) = nat (sec_of s)" "u32_of_int (min_of s) = nat (min_of s)"
  "u32_of_int (hour_of s) = nat (hour_of s)" "u32_of_int (wday_of s) = nat (wday_of s)"
  "u32_of_int (mday_of s) = nat (mday_of s)" "u32_of_int (mon_of s) = nat (mon_of s)"
  using field_ranges [of s] by (simp_all add: u32_of_int_small)

lemma day_mismatch_eq:
  assumes "wf_expr e"
  shows "day_mismatch (days_of_month e) (nat (mday_of s)) (days_of_week e) (nat (wday_of s))
    = Some (\<not> day_matches e (daynum s))"
proof -
  have "nat (mday_of s) < 32" "nat (wday_of s) < 8"
    using field_ranges [of s] by (simp_all add: nat_less_iff)
  then show ?thesis
    using wf_sizes [OF assms]
    by (simp add: day_mismatch_def byte_array day_matches_def mday_of_def wday_of_def)
qed

context cron_clock
begin

lemma next_month_same:
  assumes "wf_expr e" "matches e y"
  shows "do_next_month pf e rc dot R (brk y) = Some (brk y, 0)"
proof -
  have "nat (mon_of y) < 12" using field_ranges [of y] by (simp add: nat_less_iff)
  then show ?thesis
    using assms(2) wf_sizes [OF assms(1)]
    by (simp add: do_next_month_def matches_def find_next_same)
qed

lemma next_day_here:
  assumes "wf_expr e" "day_matches e (daynum y)"
  shows "do_next_day pf e rc dot R (brk y)
    = do_next_month pf e rc dot (push_to_fields_arr R CRON_CF_DAY_OF_MONTH) (brk y)"
  using assms day_mismatch_eq [OF assms(1), of y]
  by (simp add: do_next_day_def find_next_day.simps)

lemma next_day_same:
  "wf_expr e \<Longrightarrow> matches e y \<Longrightarrow> do_next_day pf e rc dot R (brk y) = Some (brk y, 0)"
  by (subst next_day_here) (auto simp: next_month_same matches_def)

lemma next_hour_here:
  assumes "wf_expr e" "nat (hour_of y) \<in> bits_of (hours e)"
  shows "do_next_hour pf e rc dot R (brk y)
    = do_next_day pf e rc dot (push_to_fields_arr R CRON_CF_HOUR_OF_DAY) (brk y)"
proof -
  have "nat (hour_of y) < 24" using field_ranges [of y] by (simp add: nat_less_iff)
  then show ?thesis
    using assms(2) wf_sizes [OF assms(1)] by (simp add: do_next_hour_def find_next_same)
qed

lemma next_hour_same:
  "wf_expr e \<Longrightarrow> matches e y \<Longrightarrow> do_next_hour pf e rc dot R (brk y) = Some (brk y, 0)"
  by (subst next_hour_here) (auto simp: next_day_same matches_def)

lemma next_minute_here:
  assumes "wf_expr e" "nat (min_of y) \<in> bits_of (minutes e)"
  shows "do_next_minute pf e rc dot R (brk y)
    = do_next_hour pf e rc dot (push_to_fields_arr R CRON_CF_MINUTE) (brk y)"
proof -
  have "nat (min_of y) < 60" using field_ranges [of y] by (simp add: nat_less_iff)
  then show ?thesis
    using assms(2) wf_sizes [OF assms(1)] by (simp add: do_next_minute_def find_next_same)
qed

end

subsection \<open>Moving to the next month\<close>

text \<open>The least set month after month \<open>m\<close>: in the same year, or else in the next one.\<close>

lemma next_set_month:
  fixes m :: int
  assumes "0 \<le> m" "m < 12" "nat m \<notin> Mo" "Mo \<noteq> {}" "Mo \<subseteq> {..<12}"
  obtains v where "v \<in> Mo" "m < int v" "\<forall>j \<in> Mo. nat m \<le> j \<longrightarrow> v \<le> j"
    | v where "v \<in> Mo" "int v < m" "\<forall>j \<in> Mo. v \<le> j" "\<forall>j \<in> Mo. \<not> nat m \<le> j"
proof (cases "\<exists>j \<in> Mo. nat m \<le> j")
  case True
  define v where "v = (LEAST j. j \<in> Mo \<and> nat m \<le> j)"
  have v: "v \<in> Mo" "nat m \<le> v" and le: "\<And>j. j \<in> Mo \<Longrightarrow> nat m \<le> j \<Longrightarrow> v \<le> j"
    using LeastI_ex [of "\<lambda>j. j \<in> Mo \<and> nat m \<le> j"] True by (auto simp: v_def intro: Least_le)
  then have "v \<noteq> nat m" using assms(3) by metis
  then show ?thesis using v le that(1) [of v] by force
next
  case False
  define v where "v = (LEAST j. j \<in> Mo)"
  have v: "v \<in> Mo" and le: "\<And>j. j \<in> Mo \<Longrightarrow> v \<le> j"
    using LeastI_ex [of "\<lambda>j. j \<in> Mo"] assms(4) by (auto simp: v_def intro: Least_le)
  then have "int v < m" using False by force
  then show ?thesis using v le False that(2) [of v] by blast
qed

text \<open>Between an instant and the first day of the next set month no month is set.\<close>

lemma skip_to_month:
  assumes d: "nat (mon_of s) \<notin> bits_of (months e)" and y: "0 \<le> v" "v < 12"
    and idx: "\<forall>i. 12 * year_of s + mon_of s \<le> i \<and> i < 12 * y + v \<longrightarrow> nat (i mod 12) \<notin> bits_of (months e)"
  shows "skip e s (86400 * day_of y v 1)"
  unfolding skip_def
proof (intro allI impI)
  fix t assume t: "s \<le> t \<and> t < 86400 * day_of y v 1"
  have "daynum s \<le> daynum t" using t by (simp add: daynum_def zdiv_mono1)
  then have "12 * year_of s + mon_of s \<le> month_index (daynum t)"
    using month_index_mono by (fastforce simp: month_index_def year_of_def mon_of_def)
  moreover have "daynum t < day_of y v 1" using t daynum_bounds [of t] by linarith
  then have "month_index (daynum t) < 12 * y + v" using y by (intro month_index_less) auto
  ultimately have "nat (mon_of t) \<notin> bits_of (months e)"
    using idx by (simp add: mon_of_def mon_of_day_index)
  then show "\<not> matches e t" by (simp add: matches_def)
qed

lemma reset_all_min_append:
  "reset_all_min pf c (xs @ ys) =
     (let (c', r) = reset_all_min pf c xs in if r \<noteq> 0 then (c', r) else reset_all_min pf c' ys)"
  by (induction xs arbitrary: c) (auto split: prod.splits)

context cron_clock
begin

lemma reset_month:
  assumes s: "daynum s = day_of y m dd" and m: "0 \<le> m" "m < 12" "1 \<le> dd" "dd \<le> 28"
    and win: "\<forall>x. 86400 * day_of y m 1 \<le> x \<and> x \<le> s \<longrightarrow> good x"
  shows "reset_all_min pf (brk s) (rlist b 3) = (brk (86400 * day_of y m 1 + low b s), 0)"
proof -
  define pre where "pre = (if b then [0, 1, 2] else [1, 2 :: int])"
  have split: "rlist b 3 = pre @ [4] @ replicate (6 - length pre) (- 1)"
    "rlist b 2 = pre @ replicate (7 - length pre) (- 1)"
    by (cases b; simp add: rlist_def pre_def numeral_eq_Suc)+
  have first: "day_of y m dd = day_of y m 1 + (dd - 1)" using day_of_add [of y m 1 "dd - 1"] by simp
  define x where "x = 86400 * daynum s + low b s"
  have x: "x \<le> s" "daynum x = day_of y m dd"
    using low_bounds [of b s] secs_decompose [of s] field_ranges [of s] s
    by (auto simp: x_def intro: daynum_eq)
  have "reset_all_min pf (brk s) (rlist b 2) = (brk x, 0)"
    unfolding x_def using win s first m by (intro reset_day) auto
  then have pre: "reset_all_min pf (brk s) pre = (brk x, 0)"
    unfolding split(2) reset_all_min_append by (auto simp: Let_def split: prod.splits if_splits)
  have "mday_of x = dd" using x(2) m mlen_bounds(1) [of y m] by (simp add: mday_of_def civil_of_day_of)
  then have e: "x - 86400 * (mday_of x - 1) = 86400 * day_of y m 1 + low b s"
    using s first by (simp add: x_def)
  moreover have "good (86400 * day_of y m 1 + low b s)"
    using win x(1) low_bounds(1) [of b s] s first m by (auto simp: x_def)
  ultimately have "reset_min pf (brk x) CRON_CF_DAY_OF_MONTH = (brk (86400 * day_of y m 1 + low b s), 0)"
    using reset_min_ok(4) [of x] by simp
  then show ?thesis unfolding split(1) reset_all_min_append by (simp add: pre)
qed

text \<open>The instant of the same time of day as \<open>s\<close> on another date, and the calendar updates that
  lead there.\<close>

lemma same_time:
  fixes s y m dd :: int
  assumes "0 \<le> m" "m < 12" "1 \<le> dd" "dd \<le> 28"
  defines "x \<equiv> s + 86400 * (day_of y m dd - daynum s)"
  shows "daynum x = day_of y m dd" "year_of x = y" "mon_of x = m" "mday_of x = dd" "low b x = low b s"
proof -
  have x: "x = 86400 * day_of y m dd + 3600 * hour_of s + 60 * min_of s + sec_of s"
    using secs_decompose [of s] by (simp add: x_def)
  note f = fields_of_secs [of "hour_of s" "min_of s" "sec_of s" "day_of y m dd", folded x]
  then show d: "daynum x = day_of y m dd" "low b x = low b s"
    using field_ranges [of s] by (simp_all add: low_def)
  then show "year_of x = y" "mon_of x = m" "mday_of x = dd"
    using civil_of_day_of [OF assms(1,2,3)] assms(4) mlen_bounds(1) [of y m]
    by (simp_all add: year_of_def mon_of_def mday_of_def)
qed

lemma find_next_month:
  assumes wf: "wf_expr e" and dd: "mday_of s \<le> 28" and m: "nat (mon_of s) \<notin> bits_of (months e)"
    and win: "\<forall>y. s \<le> y \<and> y \<le> s + 80000000 \<longrightarrow> good y"
  obtains y v where "year_of s \<le> y" "v \<in> bits_of (months e)" "v \<noteq> nat (mon_of s)"
    "s < 86400 * day_of y (int v) 1" "skip e s (86400 * day_of y (int v) 1)"
    "find_next pf (months e) 12 (nat (mon_of s)) (brk s) CRON_CF_MONTH CRON_CF_YEAR (rlist b 3)
      = Some (v, brk (86400 * day_of y (int v) 1 + low b s), 0)"
proof -
  define Y where "Y = year_of s"
  define D where "D = mday_of s"
  define M where "M = mon_of s"
  have r: "0 \<le> M" "M < 12" "1 \<le> D" "D \<le> 28" using field_ranges [of s] dd by (simp_all add: M_def D_def)
  have idx: "month_index (daynum s) = 12 * Y + M" by (simp add: month_index_def Y_def M_def year_of_def mon_of_def)
  have Mo: "length (months e) \<le> 256" "12 \<le> 8 * length (months e)" "bits_of (months e) \<noteq> {}"
    "bits_of (months e) \<subseteq> {..<12}" using wf by (simp_all add: wf_expr_def)
  define at where "at y mm dd' = s + 86400 * (day_of y mm dd' - daynum s)" for y mm dd'
  have at_good: "good x"
    if "y = Y \<or> y = Y + 1" "0 \<le> mm" "mm < 12" "12 * Y + M < 12 * y + mm"
      "86400 * day_of y mm 1 \<le> x" "x \<le> at y mm D" for y mm x
  proof -
    have "daynum s < day_of y mm 1" using that idx by (intro day_of_later) auto
    moreover have "day_of y mm D \<le> daynum s + 732"
      using that r by (intro day_of_next_year_bound) (auto simp: Y_def year_of_def)
    ultimately show ?thesis using win that daynum_bounds [of s] by (auto simp: at_def)
  qed
  have at_ge: "86400 * day_of y mm 1 \<le> at y mm D" for y mm
    using day_of_add [of y mm 1 "D - 1"] daynum_bounds(1) [of s] r by (simp add: at_def)
  have later: "s < 86400 * day_of y mm 1"
    if "0 \<le> mm" "mm < 12" "12 * Y + M < 12 * y + mm" for y mm
    using day_of_later [of mm "daynum s" y] that idx daynum_bounds(2) [of s] by simp
  have reset: "reset_all_min pf (brk (at y mm D)) (rlist b 3) = (brk (86400 * day_of y mm 1 + low b s), 0)"
    if "y = Y \<or> y = Y + 1" "0 \<le> mm" "mm < 12" "12 * Y + M < 12 * y + mm" for y mm
    using reset_month [of "at y mm D" y mm D b] same_time(1) [of mm D s y, folded at_def]
      same_time(5) [where b = b and m = mm and dd = D and s = s and y = y, folded at_def] at_good [OF that] that r
    by simp
  have nM: "nat M \<notin> bits_of (months e)" using m by (simp add: M_def)
  from next_set_month [OF r(1,2) nM Mo(3,4)] show thesis
  proof cases
    case (1 v)
    then have v: "0 \<le> int v" "int v < 12" "12 * Y + M < 12 * Y + int v" using Mo(4) by auto
    have ne: "v \<noteq> nat M" using 1(2) r(1) by auto
    have nsb: "next_set_bit (months e) 12 (nat M) = Some (v, False)"
      using Mo 1 by (intro next_set_bit_Some) auto
    have "set_field pf (brk s) CRON_CF_MONTH (int v) = (brk (at Y (int v) D), 0)"
      using set_field_month [of "int v" s] at_good [of Y "int v"] at_ge [of Y "int v"] v
      by (simp add: at_def Y_def D_def)
    moreover have "v \<noteq> nat M" by (rule ne)
    moreover have "reset_all_min pf (brk (at Y (int v) D)) (rlist b 3)
        = (brk (86400 * day_of Y (int v) 1 + low b s), 0)" using reset [of Y "int v"] v by simp
    ultimately have "find_next pf (months e) 12 (nat M) (brk s) CRON_CF_MONTH CRON_CF_YEAR (rlist b 3)
        = Some (v, brk (86400 * day_of Y (int v) 1 + low b s), 0)"
      using nsb by (simp add: find_next_def find_next_set_def)
    moreover have "skip e s (86400 * day_of Y (int v) 1)"
    proof (rule skip_to_month [OF m v(1,2)], intro allI impI)
      fix i assume i: "12 * year_of s + mon_of s \<le> i \<and> i < 12 * Y + int v"
      then have "i mod 12 = i - 12 * Y"
        using v r by (intro mod_in_block) (auto simp: Y_def M_def)
      then show "nat (i mod 12) \<notin> bits_of (months e)"
        using i 1(3) by (force simp: Y_def M_def)
    qed
    ultimately show thesis using later [OF v] 1 ne by (intro that [of Y v]) (auto simp: Y_def M_def)
  next
    case (2 v)
    then have v: "0 \<le> int v" "int v < 12" "12 * Y + M < 12 * (Y + 1) + int v" using Mo(4) r by auto
    have nsb1: "next_set_bit (months e) 12 (nat M) = Some (0, True)"
      using Mo(1,2) 2(4) by (intro next_set_bit_None) auto
    have nsb2: "next_set_bit (months e) 12 0 = Some (v, False)"
      using Mo(1,2) 2(1,3) v(2) by (intro next_set_bit_Some) auto
    note nsb = nsb1 nsb2
    have ne: "v \<noteq> nat M" using 2(2) by auto
    have g: "good (at (Y + 1) mm D)" if "0 \<le> mm" "mm < 12" for mm
      using at_good [of "Y + 1" mm] at_ge [of "Y + 1" mm] that r by simp
    have "add_to_field pf (brk s) CRON_CF_YEAR 1 = (brk (at (Y + 1) M D), 0)"
      using add_year [of s 1] g [of M] r by (simp add: at_def Y_def D_def M_def)
    moreover have "reset_min pf (brk (at (Y + 1) M D)) CRON_CF_MONTH = (brk (at (Y + 1) 0 D), 0)"
      using reset_min_month [of "at (Y + 1) M D"] same_time(1,2,4) [of M D s "Y + 1", folded at_def] g [of 0] r
      by (simp add: at_def)
    moreover have "set_field pf (brk (at (Y + 1) 0 D)) CRON_CF_MONTH (int v) = (brk (at (Y + 1) (int v) D), 0)"
      using set_field_month [of "int v" "at (Y + 1) 0 D"] same_time(1,2,4) [of 0 D s "Y + 1", folded at_def]
        g [of "int v"] v r by (simp add: at_def)
    moreover have "reset_all_min pf (brk (at (Y + 1) (int v) D)) (rlist b 3)
        = (brk (86400 * day_of (Y + 1) (int v) 1 + low b s), 0)" using reset [of "Y + 1" "int v"] v by simp
    ultimately have "find_next pf (months e) 12 (nat M) (brk s) CRON_CF_MONTH CRON_CF_YEAR (rlist b 3)
        = Some (v, brk (86400 * day_of (Y + 1) (int v) 1 + low b s), 0)"
      using nsb ne by (simp add: find_next_def find_next_set_def)
    moreover have "skip e s (86400 * day_of (Y + 1) (int v) 1)"
    proof (rule skip_to_month [OF m v(1,2)], intro allI impI)
      fix i assume i: "12 * year_of s + mon_of s \<le> i \<and> i < 12 * (Y + 1) + int v"
      show "nat (i mod 12) \<notin> bits_of (months e)"
      proof (cases "i < 12 * (Y + 1)")
        case True
        then have "i mod 12 = i - 12 * Y" using i r by (intro mod_in_block) (auto simp: Y_def M_def)
        then have "nat M \<le> nat (i mod 12)" using i by (intro nat_mono) (simp add: Y_def M_def)
        then show ?thesis using 2(4) by blast
      next
        case False
        then have "i mod 12 = i - 12 * (Y + 1)" using i v by (intro mod_in_block) auto
        then show ?thesis using i False 2(3) by fastforce
      qed
    qed
    ultimately show thesis using later [OF v] 2 ne by (intro that [of "Y + 1" v]) (auto simp: Y_def M_def)
  qed
qed

end

end
