(* ===== verification/Cron_Next_Correct.thy ===== *)
theory Cron_Next_Correct
  imports Cron_Find
begin

section \<open>cron_next returns the least later match\<close>

text \<open>
  For a regular expression (\<open>Cron_Match\<close>) the search returns, with enough fuel, the least
  matching instant after the given one. The recursion of \<open>do_next\<close> is an induction on the
  distance to a matching instant \<open>B\<close>, which no stage passes.
\<close>

text \<open>A regular expression has a match within two years.\<close>

lemma year_of_day_soon:
  assumes "t \<le> d + 365"
  shows "year_of_day t \<le> year_of_day d + 1"
proof (rule ccontr)
  assume "\<not> ?thesis"
  then have "days_before_year (year_of_day d + 2) \<le> days_before_year (year_of_day t)"
    using days_before_year_less [of "year_of_day d + 2" "year_of_day t"]
    by (cases "year_of_day d + 2 = year_of_day t") auto
  then show False
    using assms year_of_day_bounds [of d] year_of_day_bounds [of t] days_before_year_less [of "year_of_day d + 1" "year_of_day d + 2"]
    by auto
qed

lemma later_match_day:
  assumes "regular 28 e"
  obtains t where "d < t" "t \<le> d + 732" "day_matches e t" "nat (mon_of_day t) \<in> bits_of (months e)"
    "year_of_day t \<le> year_of_day d + 1"
proof (cases "bits_of (months e) = {..<12}")
  case True
  obtain t where "d < t" "t \<le> d + 93" "day_matches e t"
    using assms nearest_day [of e d] by (auto simp: regular_def)
  then show thesis
    using True mon_of_day_bounds [of t] by (intro that [of t] year_of_day_soon) auto
next
  case False
  then have D: "bits_of (days_of_month e) \<subseteq> {..28}" and W: "bits_of (days_of_week e) = {..<7}"
    using assms by (auto simp: regular_def months_safe_def)
  obtain k where k: "k \<in> bits_of (days_of_month e)" "1 \<le> k" "k \<le> 31"
    using assms wf_day_members by (metis regular_def)
  have "\<exists>m. m \<in> bits_of (months e)" "bits_of (months e) \<subseteq> {..<12}" using assms by (auto simp: regular_def wf_expr_def)
  then obtain m where m: "m \<in> bits_of (months e)" "m < 12" by blast
  define t where "t = day_of (year_of_day d + 1) (int m) (int k)"
  have "int k \<le> mlen (year_of_day d + 1) (int m)"
    using D k(1) mlen_bounds(1) [of "year_of_day d + 1" "int m"] by force
  then have c: "year_of_day t = year_of_day d + 1" "mon_of_day t = int m" "mday_of_day t = int k"
    unfolding t_def using m k by (simp_all add: civil_of_day_of)
  then have "d < t" using year_of_day_mono [of t d] by force
  moreover have "t \<le> d + 732" unfolding t_def using m k by (intro day_of_next_year_bound) auto
  ultimately show thesis using c k m W by (intro that [of t]) (auto simp: weekday_full)
qed

lemma later_match:
  assumes reg: "regular 28 e"
  obtains B where "matches e B" "x \<le> B" "B \<le> x + 70000000" "year_of B \<le> year_of x + 1"
proof -
  obtain t where t: "daynum x < t" "t \<le> daynum x + 732" "day_matches e t" "nat (mon_of_day t) \<in> bits_of (months e)"
    "year_of_day t \<le> year_of_day (daynum x) + 1"
    using later_match_day [OF reg] .
  obtain h m c where hmc: "h \<in> bits_of (hours e)" "m \<in> bits_of (minutes e)" "c \<in> bits_of (seconds e)"
    "h < 24" "m < 60" "c < 60"
    using reg unfolding regular_def wf_expr_def by blast
  define B where "B = 86400 * t + 3600 * int h + 60 * int m + int c"
  have f: "sec_of B = int c" "min_of B = int m" "hour_of B = int h" "daynum B = t"
    unfolding B_def using hmc by (simp_all add: fields_of_secs)
  then have "matches e B" using t hmc by (simp add: matches_def mon_of_def)
  moreover have "x \<le> B" "B \<le> x + 70000000"
    using daynum_bounds [of x] t(1,2) hmc by (auto simp: B_def)
  moreover have "year_of B \<le> year_of x + 1" using t(5) f by (simp add: year_of_def)
  ultimately show thesis by (rule that)
qed

context cron_clock
begin

subsection \<open>The stages\<close>

lemma next_month_stage:
  assumes wf: "wf_expr e" "months_safe 28 e"
    and x: "nat (sec_of x) \<in> bits_of (seconds e)" "nat (min_of x) \<in> bits_of (minutes e)"
      "nat (hour_of x) \<in> bits_of (hours e)" "day_matches e (daynum x)"
    and lo: "b \<or> (\<forall>c \<in> bits_of (seconds e). sec_of x \<le> int c)"
    and B: "matches e B" "x \<le> B" "\<forall>y. x \<le> y \<and> y \<le> B + 80000000 \<longrightarrow> good y"
    and yr: "int dot + 1900 \<le> year_of x" "year_of B \<le> int dot + 1904"
    and IH: "\<And>y. x < y \<Longrightarrow> y \<le> B \<Longrightarrow> finds e brk y (\<lambda>k. do_next pf k e dot (brk y))"
  shows "finds e brk x (\<lambda>k. do_next_month pf e (do_next pf k e dot) dot (rlist b 3) (brk x))"
proof (cases "nat (mon_of x) \<in> bits_of (months e)")
  case True
  then have "matches e x" using x by (simp add: matches_def)
  then show ?thesis by (intro finds_here) (simp_all add: next_month_same [OF wf(1)])
next
  case False
  have "nat (mon_of x) < 12" using field_ranges [of x] by (simp add: nat_less_iff)
  then have "bits_of (days_of_month e) \<subseteq> {..28}" using wf(2) False by (auto simp: months_safe_def)
  then have "nat (mday_of x) \<le> 28" using x(4) by (auto simp: day_matches_def mday_of_def)
  then have "mday_of x \<le> 28" by simp
  moreover have "\<forall>y. x \<le> y \<and> y \<le> x + 80000000 \<longrightarrow> good y" using B(2,3) by simp
  ultimately obtain y v where y: "year_of x \<le> y" "v \<in> bits_of (months e)" "v \<noteq> nat (mon_of x)"
    "x < 86400 * day_of y (int v) 1" "skip e x (86400 * day_of y (int v) 1)"
    and fn: "find_next pf (months e) 12 (nat (mon_of x)) (brk x) CRON_CF_MONTH CRON_CF_YEAR (rlist b 3)
      = Some (v, brk (86400 * day_of y (int v) 1 + low b x), 0)"
    by (rule find_next_month [OF wf(1) _ False])
  define z where "z = 86400 * day_of y (int v) 1 + low b x"
  have "skip e (86400 * day_of y (int v) 1) z"
    unfolding z_def using skip_low [OF lo, of "1440 * day_of y (int v) 1"] by simp
  then have sk: "skip e x z" using y(5) skip_trans by blast
  have z: "x < z" "z \<le> B" using y(4) low_bounds(1) [of b x] skip_matches_le [OF sk B(1,2)] by (auto simp: z_def)
  have "daynum z = day_of y (int v) 1"
    using low_bounds [of b x] by (intro daynum_eq) (auto simp: z_def)
  moreover have "v < 12" using y(2) wf(1) by (auto simp: wf_expr_def)
  ultimately have "year_of z = y" by (simp add: year_of_def civil_first)
  then have "u32_of_int (year_of z - 1900 - int dot) \<le> 4"
    using yr y(1) year_of_mono [OF z(2)] by (simp add: u32_of_int_small)
  then have "do_next_month pf e (do_next pf k e dot) dot (rlist b 3) (brk x) = do_next pf k e dot (brk z)" for k
    using fn y(3) by (simp add: do_next_month_def z_def)
  then show ?thesis using IH [OF z] sk z by (intro finds_skip [OF sk]) auto
qed

lemma find_next_day_search:
  assumes wf: "wf_expr e"
    and t: "daynum x \<le> t" "day_matches e t" "\<forall>u. daynum x \<le> u \<and> u < t \<longrightarrow> \<not> day_matches e u"
    and count: "count + nat (t - daynum x) \<le> 366"
    and win: "\<forall>y. x \<le> y \<and> y \<le> 86400 * t + 86400 \<longrightarrow> good y"
  shows "find_next_day pf (brk x) (days_of_month e) (nat (mday_of x)) (days_of_week e) (nat (wday_of x)) (rlist b 2) count
    = Some (nat (mday_of_day t), brk (if t = daynum x then x else 86400 * t + low b x), 0)"
  using t count win
proof (induction "nat (t - daynum x)" arbitrary: x count)
  case 0
  then have "t = daynum x" by simp
  then show ?case using 0 day_mismatch_eq [OF wf, of x] by (simp add: find_next_day.simps mday_of_def)
next
  case (Suc n)
  have lt: "daynum x < t" using Suc.hyps(2) by simp
  define y where "y = x + 86400"
  define z where "z = 86400 * daynum y + low b x"
  have y: "daynum y = daynum x + 1" unfolding y_def using daynum_bounds [of x] by (intro daynum_eq) auto
  have "y = 60 * 1440 + x" by (simp add: y_def)
  then have sec: "sec_of y = sec_of x" by (simp only: sec_of_def mod_mult_self4)
  have "86400 * daynum y \<le> z" "z < 86400 * daynum y + 60" using low_bounds [of b x] by (auto simp: z_def)
  then have z: "daynum z = daynum y" "x \<le> z"
    using daynum_bounds [of x] y by (auto intro: daynum_eq)
  have "sec_of z = low b x"
  proof -
    have "z = 60 * (1440 * daynum y) + low b x" by (simp add: z_def)
    then show ?thesis
      using low_bounds [of b x] unfolding sec_of_def by (simp only: mod_mult_self4) simp
  qed
  then have low: "low b z = low b x" by (simp add: low_def)
  have day: "mday_of y = mday_of z" "wday_of y = wday_of z" by (simp_all add: mday_of_def wday_of_def z)
  have bounds: "y \<le> 86400 * t + 86400" "x < 86400 * daynum y" using daynum_bounds [of x] y lt by (auto simp: y_def)
  have "add_to_field pf (brk x) CRON_CF_DAY_OF_MONTH 1 = (brk y, 0)"
  proof -
    have "good y" using Suc.prems(5) bounds(1) by (simp add: y_def)
    then show ?thesis using add_field(5) [of x 1] by (simp add: y_def)
  qed
  moreover have "reset_all_min pf (brk y) (rlist b 2) = (brk z, 0)"
    using reset_day [of y b] Suc.prems(5) bounds sec by (simp add: z_def low_def)
  moreover have "day_mismatch (days_of_month e) (nat (mday_of x)) (days_of_week e) (nat (wday_of x)) = Some True"
    using day_mismatch_eq [OF wf, of x] Suc.prems(3) lt by simp
  moreover have "count < 366" using Suc.prems(4) lt by linarith
  ultimately have "find_next_day pf (brk x) (days_of_month e) (nat (mday_of x)) (days_of_week e) (nat (wday_of x)) (rlist b 2) count
    = find_next_day pf (brk z) (days_of_month e) (nat (mday_of z)) (days_of_week e) (nat (wday_of z)) (rlist b 2) (count + 1)"
    using day by (subst find_next_day.simps) simp
  also have "\<dots> = Some (nat (mday_of_day t), brk (if t = daynum z then z else 86400 * t + low b z), 0)"
    using Suc.hyps(2) Suc.prems lt y z low by (intro Suc.hyps(1)) auto
  also have "(if t = daynum z then z else 86400 * t + low b z) = 86400 * t + low b x"
    using z low by (auto simp: z_def)
  finally show ?case using lt by simp
qed

lemma next_day_stage:
  assumes wf: "wf_expr e" "months_safe 28 e" "one_day_field e"
    and x: "nat (sec_of x) \<in> bits_of (seconds e)" "nat (min_of x) \<in> bits_of (minutes e)"
      "nat (hour_of x) \<in> bits_of (hours e)"
    and lo: "b \<or> (\<forall>c \<in> bits_of (seconds e). sec_of x \<le> int c)"
    and B: "matches e B" "x \<le> B" "\<forall>y. x \<le> y \<and> y \<le> B + 80000000 \<longrightarrow> good y"
    and yr: "int dot + 1900 \<le> year_of x" "year_of B \<le> int dot + 1904"
    and IH: "\<And>y. x < y \<Longrightarrow> y \<le> B \<Longrightarrow> finds e brk y (\<lambda>k. do_next pf k e dot (brk y))"
  shows "finds e brk x (\<lambda>k. do_next_day pf e (do_next pf k e dot) dot (rlist b 2) (brk x))"
proof (cases "day_matches e (daynum x)")
  case True
  show ?thesis
    using next_month_stage [OF wf(1,2) x True lo B yr IH]
    by (simp add: next_day_here [OF wf(1) True] rlist_push)
next
  case False
  obtain t where t: "daynum x < t" "t \<le> daynum x + 93" "day_matches e t"
    "\<forall>u. daynum x < u \<and> u < t \<longrightarrow> \<not> day_matches e u"
    "bits_of (days_of_month e) = {1..31} \<Longrightarrow> t \<le> daynum x + 7"
    using nearest_day [OF wf(1,3), of "daynum x"] by blast
  have none: "\<not> day_matches e u" if "daynum x \<le> u" "u < t" for u
    using that False t(4) by (cases "u = daynum x") auto
  define z where "z = 86400 * t + low b x"
  have "skip e x (86400 * t)"
    unfolding skip_def
  proof (intro allI impI)
    fix u assume u: "x \<le> u \<and> u < 86400 * t"
    then have "daynum x \<le> daynum u" "daynum u < t"
      using daynum_bounds [of x] daynum_bounds [of u] by linarith+
    then show "\<not> matches e u" using none by (simp add: matches_def)
  qed
  moreover have "skip e (86400 * t) z" unfolding z_def using skip_low [OF lo, of "1440 * t"] by simp
  ultimately have sk: "skip e x z" by (rule skip_trans)
  have z: "x < z" "z \<le> B"
    using t(1) daynum_bounds [of x] low_bounds(1) [of b x] skip_matches_le [OF sk B(1,2)] by (auto simp: z_def)
  have "86400 * t \<le> B" using z low_bounds(1) [of b x] by (simp add: z_def)
  then have "find_next_day pf (brk x) (days_of_month e) (nat (mday_of x)) (days_of_week e) (nat (wday_of x)) (rlist b 2) 0
      = Some (nat (mday_of_day t), brk z, 0)"
    using find_next_day_search [OF wf(1), of x t 0 b] t(1,2,3) none B(3) by (simp add: z_def)
  moreover have "mday_of_day t \<noteq> mday_of x"
  proof (cases "bits_of (days_of_month e) = {1..31}")
    case True
    then show ?thesis using mday_changes [of "t - daynum x" "daynum x"] t by (simp add: mday_of_def)
  next
    case nD: False
    then have "bits_of (days_of_week e) = {..<7}" using wf(3) by (simp add: one_day_field_def)
    then have "nat (mday_of_day (daynum x)) \<notin> bits_of (days_of_month e)"
      "nat (mday_of_day t) \<in> bits_of (days_of_month e)"
      using False t(3) by (simp_all add: weekday_full)
    then show ?thesis unfolding mday_of_def by metis
  qed
  then have "nat (mday_of x) \<noteq> nat (mday_of_day t)"
    using mday_of_day_bounds(1) [of t] field_ranges(9) [of x] by (simp add: eq_nat_nat_iff)
  ultimately have run: "do_next_day pf e rc dot (rlist b 2) (brk x)
      = do { (cal, res) \<leftarrow> rc (brk z);
             if res \<noteq> 0 then Some (cal, res) else do_next_month pf e rc dot (rlist b 2) cal }" for rc
    by (simp add: do_next_day_def)
  have "finds e brk z (\<lambda>k. do_next_day pf e (do_next pf k e dot) dot (rlist b 2) (brk x))"
    by (rule finds_then [OF IH [OF z],
          where H = "\<lambda>k. do_next_month pf e (do_next pf k e dot) dot (rlist b 2)"])
      (simp_all only: run next_month_same [OF wf(1)])
  then show ?thesis using sk z by (intro finds_skip [OF sk]) auto
qed

lemma skip_quotient:
  assumes "0 < u" "\<forall>p. x div u \<le> p \<and> p < q \<longrightarrow> nat (p mod n) \<notin> X"
    "\<And>t. matches e t \<Longrightarrow> nat (t div u mod n) \<in> X"
  shows "skip e x (u * q)"
  unfolding skip_def
proof (intro allI impI notI)
  fix t assume t: "x \<le> t \<and> t < u * q" "matches e t"
  have "u * (t div u) \<le> t" using pos_mod_sign [of u t] assms(1) mult_div_mod_eq [of u t] by linarith
  then have "u * (t div u) < u * q" using t(1) by linarith
  then have "t div u < q" using assms(1) by simp
  moreover have "x div u \<le> t div u" using t(1) assms(1) by (simp add: zdiv_mono1)
  ultimately show False using assms(2,3) t(2) by blast
qed

lemma finds_Suc: "finds e norm x (\<lambda>k. F (Suc k)) \<Longrightarrow> finds e norm x F"
  unfolding finds_def by (metis Suc_le_D Suc_le_mono)

text \<open>Moving the minute (\<open>u = 60\<close>) or the hour (\<open>u = 3600\<close>) forward.\<close>

lemma clock_move:
  fixes u n :: int
  assumes u: "u = 60 * u'" "0 < u'" "0 < n" "u * n \<le> 86400"
    and ops: "\<And>x. good (x + u * n) \<Longrightarrow> add_to_field pf (brk x) g 1 = (brk (x + u * n), 0)"
      "\<And>x. good (x - u * (x div u mod n)) \<Longrightarrow>
        reset_min pf (brk x) f = (brk (x - u * (x div u mod n)), 0)"
      "\<And>x v. good (x + u * (v - x div u mod n)) \<Longrightarrow>
        set_field pf (brk x) f v = (brk (x + u * (v - x div u mod n)), 0)"
      "\<And>y. \<forall>w. u * (y div u) \<le> w \<and> w \<le> y \<longrightarrow> good w \<Longrightarrow>
        reset_all_min pf (brk y) (rlist b j) = (brk (u * (y div u) + low b y), 0)"
    and bits: "length X \<le> 256" "nat n \<le> 8 * length X" "bits_of X \<subseteq> {..<nat n}" "bits_of X \<noteq> {}"
      "nat (x div u mod n) \<notin> bits_of X" "\<And>t. matches e t \<Longrightarrow> nat (t div u mod n) \<in> bits_of X"
    and lo: "b \<or> (\<forall>c \<in> bits_of (seconds e). sec_of x \<le> int c)"
    and B: "matches e B" "x \<le> B" "\<forall>y. x \<le> y \<and> y \<le> B + 80000000 \<longrightarrow> good y"
  obtains v z where "v \<noteq> nat (x div u mod n)" "x < z" "z \<le> B" "skip e x z"
    "find_next pf X (nat n) (nat (x div u mod n)) (brk x) f g (rlist b j) = Some (v, brk z, 0)"
proof -
  have u0: "0 < u" using u by simp
  have un: "2 * u * n = 2 * (u * n)" by (rule mult.assoc)
  have w: "\<forall>y. x \<le> y \<and> y \<le> x + 2 * u * n \<longrightarrow> good y"
  proof (intro allI impI)
    fix y assume "x \<le> y \<and> y \<le> x + 2 * u * n"
    then have "x \<le> y \<and> y \<le> B + 80000000" using B(2) u(4) unfolding un by linarith
    then show "good y" using B(3) by blast
  qed
  obtain q where q: "x div u < q" "q \<le> x div u + 2 * n" "nat (q mod n) \<in> bits_of X"
    "q mod n \<noteq> x div u mod n" "\<forall>p. x div u \<le> p \<and> p < q \<longrightarrow> nat (p mod n) \<notin> bits_of X"
    "\<And>c L. reset_all_min pf (brk (x + u * (q - x div u))) L = (c, 0) \<Longrightarrow>
       find_next pf X (nat n) (nat (x div u mod n)) (brk x) f g L = Some (nat (q mod n), c, 0)"
    by (rule find_next_field [OF u0 u(3) ops(1,2,3) bits(1-5) w], assumption, assumption, assumption, rule that)
  define y where "y = x + u * (q - x div u)"
  define z where "z = u * q + low b x"
  have y: "y div u = q" using u0 by (simp add: y_def)
  have "u * 1 \<le> u * (q - x div u)" "u * (q - x div u) \<le> u * (2 * n)"
    using u0 q(1,2) by (intro mult_left_mono; simp)+
  then have xy: "x + u \<le> y" "y \<le> x + 200000" using u(4) by (auto simp: y_def algebra_simps)
  have "u * (x div u + 1) \<le> u * q" using u0 q(1) by (intro mult_left_mono) simp_all
  moreover have "x mod u < u" "u * (x div u) + x mod u = x" using u0 by simp_all
  ultimately have "x < u * q" unfolding distrib_left mult_1_right by linarith
  have "sec_of y = sec_of x"
    by (simp only: sec_of_def y_def u(1) mult.assoc mod_mult_self2)
  then have "reset_all_min pf (brk y) (rlist b j) = (brk z, 0)"
    using ops(4) [of y] y xy \<open>x < u * q\<close> B(2,3) by (simp add: z_def low_def)
  then have fn: "find_next pf X (nat n) (nat (x div u mod n)) (brk x) f g (rlist b j)
      = Some (nat (q mod n), brk z, 0)"
    using q(6) by (simp add: y_def)
  have "skip e x (u * q)" using skip_quotient [OF u0 q(5) bits(6)] .
  moreover have "skip e (u * q) z" unfolding z_def u(1) mult.assoc by (rule skip_low [OF lo])
  ultimately have sk: "skip e x z" by (rule skip_trans)
  have "x < z" "z \<le> B"
    using \<open>x < u * q\<close> low_bounds(1) [of b x] skip_matches_le [OF sk B(1,2)] by (auto simp: z_def)
  moreover have "nat (q mod n) \<noteq> nat (x div u mod n)" using q(4) u(3) by (simp add: eq_nat_nat_iff)
  ultimately show thesis using that fn sk by blast
qed

lemma next_hour_stage:
  assumes wf: "wf_expr e" "months_safe 28 e" "one_day_field e"
    and x: "nat (sec_of x) \<in> bits_of (seconds e)" "nat (min_of x) \<in> bits_of (minutes e)"
    and lo: "b \<or> (\<forall>c \<in> bits_of (seconds e). sec_of x \<le> int c)"
    and B: "matches e B" "x \<le> B" "\<forall>y. x \<le> y \<and> y \<le> B + 80000000 \<longrightarrow> good y"
    and yr: "int dot + 1900 \<le> year_of x" "year_of B \<le> int dot + 1904"
    and IH: "\<And>y. x < y \<Longrightarrow> y \<le> B \<Longrightarrow> finds e brk y (\<lambda>k. do_next pf k e dot (brk y))"
  shows "finds e brk x (\<lambda>k. do_next_hour pf e (do_next pf k e dot) dot (rlist b 1) (brk x))"
proof (cases "nat (hour_of x) \<in> bits_of (hours e)")
  case True
  show ?thesis
    using next_day_stage [OF wf x True lo B yr IH] next_hour_here [OF wf(1) True]
    by (simp add: rlist_push del: One_nat_def)
next
  case False
  obtain v z where z: "v \<noteq> nat (hour_of x)" "x < z" "z \<le> B" "skip e x z"
    "find_next pf (hours e) 24 (nat (hour_of x)) (brk x) CRON_CF_HOUR_OF_DAY CRON_CF_DAY_OF_WEEK (rlist b 1)
       = Some (v, brk z, 0)"
    by (rule clock_move [where u = 3600 and u' = 60 and n = 24 and X = "hours e" and x = x and b = b and j = 1
          and f = CRON_CF_HOUR_OF_DAY and g = CRON_CF_DAY_OF_WEEK, OF _ _ _ _ _ _ _ _ _ _ _ _ _ _ lo B])
      (use wf(1) False add_field(4) [where v = 1] reset_min_ok(3) set_field_ok(3) reset_hour
        in \<open>simp_all add: wf_expr_def matches_def hour_of_def del: One_nat_def\<close>)
  have run: "do_next_hour pf e rc dot (rlist b 1) (brk x)
      = do { (cal, res) \<leftarrow> rc (brk z);
             if res \<noteq> 0 then Some (cal, res) else do_next_day pf e rc dot (rlist b 1) cal }" for rc
    using z(1,5) by (simp add: do_next_hour_def del: One_nat_def)
  have "finds e brk z (\<lambda>k. do_next_hour pf e (do_next pf k e dot) dot (rlist b 1) (brk x))"
    by (rule finds_then [OF IH [OF z(2,3)],
          where H = "\<lambda>k. do_next_day pf e (do_next pf k e dot) dot (rlist b 1)"])
      (simp_all only: run next_day_same [OF wf(1)])
  then show ?thesis using z by (intro finds_skip [OF z(4)]) auto
qed

lemma next_minute_stage:
  assumes wf: "wf_expr e" "months_safe 28 e" "one_day_field e"
    and x: "nat (sec_of x) \<in> bits_of (seconds e)"
    and lo: "b \<or> (\<forall>c \<in> bits_of (seconds e). sec_of x \<le> int c)"
    and B: "matches e B" "x \<le> B" "\<forall>y. x \<le> y \<and> y \<le> B + 80000000 \<longrightarrow> good y"
    and yr: "int dot + 1900 \<le> year_of x" "year_of B \<le> int dot + 1904"
    and IH: "\<And>y. x < y \<Longrightarrow> y \<le> B \<Longrightarrow> finds e brk y (\<lambda>k. do_next pf k e dot (brk y))"
  shows "finds e brk x (\<lambda>k. do_next_minute pf e (do_next pf k e dot) dot (rlist b 0) (brk x))"
proof (cases "nat (min_of x) \<in> bits_of (minutes e)")
  case True
  show ?thesis
    using next_hour_stage [OF wf x True lo B yr IH] next_minute_here [OF wf(1) True]
    by (simp add: rlist_push del: One_nat_def)
next
  case False
  obtain v z where z: "v \<noteq> nat (min_of x)" "x < z" "z \<le> B" "skip e x z"
    "find_next pf (minutes e) 60 (nat (min_of x)) (brk x) CRON_CF_MINUTE CRON_CF_HOUR_OF_DAY (rlist b 0)
       = Some (v, brk z, 0)"
    by (rule clock_move [where u = 60 and u' = 1 and n = 60 and X = "minutes e" and x = x and b = b and j = 0
          and f = CRON_CF_MINUTE and g = CRON_CF_HOUR_OF_DAY, OF _ _ _ _ _ _ _ _ _ _ _ _ _ _ lo B])
      (use wf(1) False add_field(3) [where v = 1] reset_min_ok(2) set_field_ok(2) reset_minute
        in \<open>simp_all add: wf_expr_def matches_def min_of_def\<close>)
  have run: "do_next_minute pf e rc dot (rlist b 0) (brk x)
      = do { (cal, res) \<leftarrow> rc (brk z);
             if res \<noteq> 0 then Some (cal, res) else do_next_hour pf e rc dot (rlist b 0) cal }" for rc
    using z(1,5) by (simp add: do_next_minute_def)
  have "finds e brk z (\<lambda>k. do_next_minute pf e (do_next pf k e dot) dot (rlist b 0) (brk x))"
    by (rule finds_then [OF IH [OF z(2,3)],
          where H = "\<lambda>k. do_next_hour pf e (do_next pf k e dot) dot (rlist b 0)"])
      (simp_all only: run next_hour_same [OF wf(1)])
  then show ?thesis using z by (intro finds_skip [OF z(4)]) auto
qed

text \<open>The least second of an interval is where the search for the second stops.\<close>

lemma first_second:
  assumes "second_interval e" "nat (q mod 60) \<in> bits_of (seconds e)"
    and "nat ((q - 1) mod 60) \<notin> bits_of (seconds e)"
  shows "\<forall>c \<in> bits_of (seconds e). q mod 60 \<le> int c"
proof -
  obtain a b where S: "bits_of (seconds e) = {a..b}" using assms(1) by (auto simp: second_interval_def)
  have "q mod 60 \<le> int a"
  proof (rule ccontr)
    assume less: "\<not> q mod 60 \<le> int a"
    have "60 * (q div 60) + q mod 60 = q" "q mod 60 < 60" by simp_all
    then have "(q - 1) mod 60 = q - 1 - 60 * (q div 60)" using less by (intro mod_in_block) linarith+
    then have "(q - 1) mod 60 = q mod 60 - 1" by (simp add: minus_mult_div_eq_mod [symmetric])
    then show False using assms(2,3) less unfolding S by auto
  qed
  then show ?thesis unfolding S by auto
qed

lemma next_second_stage:
  assumes reg: "regular 28 e"
    and B: "matches e B" "x \<le> B" "\<forall>y. x \<le> y \<and> y \<le> B + 80000000 \<longrightarrow> good y"
    and yr: "int dot + 1900 \<le> year_of x" "year_of B \<le> int dot + 1904"
    and IH: "\<And>y. x < y \<Longrightarrow> y \<le> B \<Longrightarrow> finds e brk y (\<lambda>k. do_next pf k e dot (brk y))"
  shows "finds e brk x (\<lambda>k. do_next pf (Suc k) e dot (brk x))"
proof (cases "nat (sec_of x) \<in> bits_of (seconds e)")
  case True
  have wf: "wf_expr e" "months_safe 28 e" "one_day_field e" using reg by (simp_all add: regular_def)
  have "find_next pf (seconds e) 60 (nat (sec_of x)) (brk x) CRON_CF_SECOND CRON_CF_MINUTE no_fields
      = Some (nat (sec_of x), brk x, 0)"
    using wf(1) True by (intro find_next_same) (auto simp: wf_expr_def)
  then show ?thesis
    using next_minute_stage [OF wf True _ B yr IH, where b = True]
    by (simp add: do_next_second_def rlist_push(1))
next
  case False
  have wf: "wf_expr e" "months_safe 28 e" "one_day_field e" "second_interval e"
    using reg by (simp_all add: regular_def)
  obtain q where q: "x div 1 < q" "q \<le> x div 1 + 2 * 60" "nat (q mod 60) \<in> bits_of (seconds e)"
    "q mod 60 \<noteq> x div 1 mod 60" "\<forall>p. x div 1 \<le> p \<and> p < q \<longrightarrow> nat (p mod 60) \<notin> bits_of (seconds e)"
    "find_next pf (seconds e) (nat 60) (nat (x div 1 mod 60)) (brk x) CRON_CF_SECOND CRON_CF_MINUTE no_fields
      = Some (nat (q mod 60), brk q, 0)"
  proof (rule find_next_field [where u = 1 and n = 60 and s = x and b = "seconds e"
        and f = CRON_CF_SECOND and g = CRON_CF_MINUTE])
    show "\<forall>y. x \<le> y \<and> y \<le> x + 2 * 1 * 60 \<longrightarrow> good y" using B(2,3) by simp
  qed (use wf(1) False add_field(2) [where v = 1] reset_min_ok(1) set_field_ok(1)
      in \<open>simp_all add: wf_expr_def sec_of_def no_fields_def\<close>)
  have sec: "nat (sec_of q) \<in> bits_of (seconds e)" "x < q" using q(1,3) by (simp_all add: sec_of_def)
  have "nat ((q - 1) mod 60) \<notin> bits_of (seconds e)" using q(1,5) by simp
  then have lo: "False \<or> (\<forall>c \<in> bits_of (seconds e). sec_of q \<le> int c)"
    using first_second [OF wf(4) q(3)] by (simp add: sec_of_def)
  have sk: "skip e x q" using q(5) by (simp add: skip_def matches_def sec_of_def)
  have qB: "q \<le> B" using skip_matches_le [OF sk B(1,2)] .
  have run: "do_next pf (Suc k) e dot (brk x) = do_next_minute pf e (do_next pf k e dot) dot (rlist False 0) (brk q)" for k
  proof -
    have "nat (sec_of x) \<noteq> nat (q mod 60)" using q(4) by (simp add: sec_of_def eq_nat_nat_iff)
    moreover have "find_next pf (seconds e) 60 (nat (sec_of x)) (brk x) CRON_CF_SECOND CRON_CF_MINUTE (rlist False 0)
        = Some (nat (q mod 60), brk q, 0)"
      using q(6) by (simp add: sec_of_def rlist_push(2))
    ultimately show ?thesis by (simp add: do_next_second_def rlist_push(2))
  qed
  have "finds e brk q (\<lambda>k. do_next pf (Suc k) e dot (brk x))"
    unfolding run
    using year_of_mono [of x q] B(3) sec(2) yr IH
    by (intro next_minute_stage [OF wf(1-3) sec(1) lo B(1) qB]) auto
  then show ?thesis using sec(2) by (intro finds_skip [OF sk]) auto
qed

subsection \<open>The search\<close>

lemma do_next_least:
  assumes "regular 28 e" "matches e B" "x \<le> B" "\<forall>y. x \<le> y \<and> y \<le> B + 80000000 \<longrightarrow> good y"
    "int dot + 1900 \<le> year_of x" "year_of B \<le> int dot + 1904"
  shows "finds e brk x (\<lambda>k. do_next pf k e dot (brk x))"
  using assms(3-5)
proof (induction "nat (B - x)" arbitrary: x rule: less_induct)
  case less
  have "finds e brk x (\<lambda>k. do_next pf (Suc k) e dot (brk x))"
  proof (rule next_second_stage [OF assms(1,2) less.prems assms(6)])
    fix y assume "x < y" "y \<le> B"
    then show "finds e brk y (\<lambda>k. do_next pf k e dot (brk y))"
      using less.prems year_of_mono [of x y] by (intro less.hyps) auto
  qed
  then show ?case by (rule finds_Suc)
qed

lemma cron_next_least:
  assumes reg: "regular 28 e" and win: "\<forall>y. date + off \<le> y \<and> y \<le> date + off + 200000000 \<longrightarrow> good y"
    and yr: "1900 \<le> year_of (date + off)"
  shows "\<exists>n r. (\<forall>k \<ge> n. cron_next pf k e date = Some (r - off)) \<and> next_match e (date + off) r"
proof -
  define s where "s = date + off"
  have good: "good s" "good (s + 1)" using spec [OF win, of s] spec [OF win, of "s + 1"] by (simp_all add: s_def)
  have search: "finds e brk x (\<lambda>k. do_next pf k e (u32_of_int (year_of x - 1900)) (brk x))"
    if x: "s \<le> x" "x \<le> s + 1" for x
  proof -
    obtain B where B: "matches e B" "x \<le> B" "B \<le> x + 70000000" "year_of B \<le> year_of x + 1"
      using later_match [OF reg] by blast
    have "year_of x - 1900 \<le> 2147483647" using win x by (simp add: s_def year_fits_def)
    moreover have "1900 \<le> year_of x" using yr year_of_mono [OF x(1)] by (simp add: s_def)
    ultimately have "int (u32_of_int (year_of x - 1900)) = year_of x - 1900" by (simp add: u32_of_int_small)
    moreover have "\<forall>y. x \<le> y \<and> y \<le> B + 80000000 \<longrightarrow> good y" using win x B(3) by (auto simp: s_def)
    ultimately show ?thesis using B by (intro do_next_least [OF reg B(1,2)]) auto
  qed
  obtain r1 n1 where r1: "s \<le> r1" "matches e r1" "skip e s r1"
    "\<forall>k \<ge> n1. do_next pf k e (u32_of_int (year_of s - 1900)) (brk s) = Some (brk r1, 0)"
    using search [of s] by (auto simp: finds_def)
  obtain r2 n2 where r2: "s + 1 \<le> r2" "matches e r2" "skip e (s + 1) r2"
    "\<forall>k \<ge> n2. do_next pf k e (u32_of_int (year_of (s + 1) - 1900)) (brk (s + 1)) = Some (brk r2, 0)"
    using search [of "s + 1"] by (auto simp: finds_def)
  obtain B where B: "matches e B" "s + 1 \<le> B" "B \<le> s + 1 + 70000000"
    using later_match [OF reg] by blast
  have "r2 \<le> B" "r1 \<le> B"
    using skip_matches_le [OF r2(3) B(1)] skip_matches_le [OF r1(3) B(1)] B(2) by simp_all
  then have "r2 \<le> s + 70000001" "r1 \<le> s + 70000001" using B(3) by simp_all
  then have g: "good r1" "good r2" using win r1(1) r2(1) by (auto simp: s_def)
  have mk: "cron_mktime pf (brk y) = (brk y, y - off)" if "good y" for y using that mktime by simp
  have "\<forall>k \<ge> max n1 n2. cron_next pf k e date = Some ((if r1 = s then r2 else r1) - off)"
  proof (intro allI impI)
    fix k assume k: "max n1 n2 \<le> k"
    have "add_to_field pf (brk s) CRON_CF_SECOND 1 = (brk (s + 1), 0)" using add_field(1) good(2) by simp
    then show "cron_next pf k e date = Some ((if r1 = s then r2 else r1) - off)"
      using k r1(4) r2(4) g good(1) time [of date] mk [of s] mk [of r1] mk [of r2]
      by (auto simp: cron_next_def s_def)
  qed
  moreover have "next_match e s (if r1 = s then r2 else r1)"
    using r1 r2 by (auto simp: next_match_def skip_def)
  ultimately show ?thesis unfolding s_def by blast
qed

end

subsection \<open>The window of the clock\<close>

lemma days_before_year_ge: "1970 \<le> y \<Longrightarrow> 365 * (y - 1970) \<le> days_before_year y"
proof (induction y rule: int_ge_induct)
  case base
  show ?case by (simp add: days_before_year_def)
next
  case (step y)
  then show ?case using days_before_year_less [of y "y + 1"] by simp
qed

lemma year_of_day_le: "0 \<le> d \<Longrightarrow> year_of_day d \<le> 1970 + d div 365"
  using days_before_year_ge [of "year_of_day d"] year_of_day_bounds [of d]
  by (cases "1970 \<le> year_of_day d") (auto simp: less_eq_div_iff_mult_less_eq)

lemma year_of_window:
  assumes "- 86400 \<le> s" "s \<le> 2 ^ 51"
  shows "1969 \<le> year_of s" "year_fits s"
proof -
  have e: "year_of_day (- 1) = 1969" by code_simp
  have "- 1 \<le> daynum s" using assms(1) daynum_bounds [of s] by linarith
  then show lo: "1969 \<le> year_of s" using year_of_day_mono [of "- 1" "daynum s"] e by (simp add: year_of_def)
  have "daynum s \<le> 30000000000" using assms(2) daynum_bounds(1) [of s] by simp
  then have "year_of_day (daynum s) \<le> 1970 + 30000000000 div 365"
    using year_of_day_mono [of "daynum s" 30000000000] year_of_day_le [of 30000000000] by simp
  then show "year_fits s" using lo by (simp add: year_fits_def year_of_def)
qed

lemma local_next_least:
  assumes "regular 28 e" "0 \<le> date" "date \<le> 2 ^ 50" "- 86400 \<le> off" "off \<le> 86400"
  shows "\<exists>n r. (\<forall>k \<ge> n. cron_next (local_build (fixed_zone off zone)) k e date = Some (r - off))
    \<and> next_match e (date + off) r"
proof (rule fixed.cron_next_least [OF assms(1)])
  show "\<forall>y. date + off \<le> y \<and> y \<le> date + off + 200000000 \<longrightarrow> year_fits y \<and> y - off \<noteq> - 1"
  proof (intro allI impI conjI)
    fix y assume y: "date + off \<le> y \<and> y \<le> date + off + 200000000"
    then show "year_fits y" using assms(2-5) by (intro year_of_window) auto
    show "y - off \<noteq> - 1" using y assms(2) by simp
  qed
  show "1900 \<le> year_of (date + off)" using year_of_window(1) [of "date + off"] assms(2-5) by simp
qed

text \<open>C1: On a host whose zone has a constant offset of at most a day, the build with
  \<open>CRON_USE_LOCAL_TIME\<close> (the one the Makefile makes) returns, for an expression that is regular up to
  day 28 and a date between 0 and \<open>2 ^ 50\<close>, with enough fuel and from then on, the least instant after
  the given date that matches the expression in local time.\<close>

theorem cron_next_local_least:
  assumes "regular 28 e" "0 \<le> date" "date \<le> 2 ^ 50" "- 86400 \<le> off" "off \<le> 86400"
  shows "\<exists>n r. (\<forall>k \<ge> n. cron_next (local_build (fixed_zone off zone)) k e date = Some (r - off))
    \<and> next_match e (date + off) r"
  using assms by (rule local_next_least)

theorem cron_next_local_least_witness:
  "\<exists>n r. (\<forall>k \<ge> n. cron_next (local_build (fixed_zone (- 28800) ''PST'')) k mid_month 1612051200 = Some (r - (- 28800)))
    \<and> next_match mid_month (1612051200 + - 28800) r"
  by (rule cron_next_local_least) (simp_all add: regular_mid_month)

text \<open>C9: The default build computes in UTC: for an expression that is regular up to day 28 and a date
  between 0 and \<open>2 ^ 50\<close> it returns the least later instant that matches in UTC, whatever the zone of
  the host.\<close>

theorem cron_next_utc_least:
  assumes "regular 28 e" "0 \<le> date" "date \<le> 2 ^ 50"
  shows "\<exists>n r. (\<forall>k \<ge> n. cron_next (utc_build lc) k e date = Some r) \<and> next_match e date r"
proof -
  have "\<forall>y. date + 0 \<le> y \<and> y \<le> date + 0 + 200000000 \<longrightarrow> year_fits y \<and> y - 0 \<noteq> - 1"
    using assms(2,3) year_of_window(2) by simp
  moreover have "1900 \<le> year_of (date + 0)" using year_of_window(1) [of date] assms(2,3) by simp
  ultimately show ?thesis using utc.cron_next_least [OF assms(1), of date] by simp
qed

theorem cron_next_utc_least_witness:
  "\<exists>n r. (\<forall>k \<ge> n. cron_next (utc_build (fixed_zone 3600 ''CET'')) k mid_month 1612051200 = Some r)
    \<and> next_match mid_month 1612051200 r"
  by (rule cron_next_utc_least) (simp_all add: regular_mid_month)

end
