(* ===== verification/C_String.thy ===== *)
theory C_String
  imports Prelude
begin

section \<open>Strings of the C library\<close>

text \<open>
  The functions of \<open>ctype.h\<close>, \<open>stdlib.h\<close> and \<open>string.h\<close> that the sources call, in the C
  locale. A C string is the list of its characters before the terminating NUL.
\<close>

subsection \<open>Characters\<close>

definition code :: "char \<Rightarrow> nat" where
  "code c = of_char c"

definition isspace :: "char \<Rightarrow> bool" where
  "isspace c \<longleftrightarrow> code c = 32 \<or> (9 \<le> code c \<and> code c \<le> 13)"

definition toupper :: "char \<Rightarrow> char" where
  "toupper c = (if 97 \<le> code c \<and> code c \<le> 122 then char_of (code c - 32) else c)"

text \<open>The value of a digit in the bases up to 36.\<close>

definition digit_val :: "char \<Rightarrow> nat option" where
  "digit_val c =
     (if 48 \<le> code c \<and> code c \<le> 57 then Some (code c - 48)
      else if 97 \<le> code c \<and> code c \<le> 122 then Some (code c - 87)
      else if 65 \<le> code c \<and> code c \<le> 90 then Some (code c - 55)
      else None)"

definition is_digit :: "nat \<Rightarrow> char \<Rightarrow> bool" where
  "is_digit base c \<longleftrightarrow> (case digit_val c of None \<Rightarrow> False | Some v \<Rightarrow> v < base)"

definition digits_value :: "nat \<Rightarrow> string \<Rightarrow> nat" where
  "digits_value base s = foldl (\<lambda>v c. v * base + the (digit_val c)) 0 s"

subsection \<open>strtol and atoi\<close>

text \<open>The base \<open>strtol\<close> uses for base 0, and the digits that follow the prefix.\<close>

fun strtol_prefix :: "string \<Rightarrow> nat \<times> string" where
  "strtol_prefix (CHR ''0'' # x # d # s) =
     (if x \<in> {CHR ''x'', CHR ''X''} \<and> is_digit 16 d then (16, d # s) else (8, CHR ''0'' # x # d # s))"
| "strtol_prefix (CHR ''0'' # s) = (8, CHR ''0'' # s)"
| "strtol_prefix s = (10, s)"

definition strtol_sign :: "string \<Rightarrow> bool \<times> string" where
  "strtol_sign s = (case s of [] \<Rightarrow> (False, [])
     | c # cs \<Rightarrow> if c = CHR ''-'' then (True, cs) else if c = CHR ''+'' then (False, cs) else (False, s))"

text \<open>The value, the characters from \<open>*endptr\<close> on, and whether \<open>errno\<close> is set to \<open>ERANGE\<close>;
  \<open>long\<close> has 64 bits. Without digits \<open>*endptr\<close> is the start of the string.\<close>

definition strtol :: "nat \<Rightarrow> string \<Rightarrow> int \<times> string \<times> bool" where
  "strtol base str =
     (let (neg, s) = strtol_sign (dropWhile isspace str);
          (b, s) = (if base = 0 then strtol_prefix s else (base, s));
          ds = takeWhile (is_digit b) s;
          v = (if neg then - int (digits_value b ds) else int (digits_value b ds))
      in if ds = [] then (0, str, False)
         else if v < - (2 ^ 63) then (- (2 ^ 63), dropWhile (is_digit b) s, True)
         else if v \<ge> 2 ^ 63 then (2 ^ 63 - 1, dropWhile (is_digit b) s, True)
         else (v, dropWhile (is_digit b) s, False))"

text \<open>\<open>atoi\<close> is \<open>(int) strtol(s, NULL, 10)\<close>.\<close>

definition atoi :: "string \<Rightarrow> int" where
  "atoi s = sint (word_of_int (fst (strtol 10 s)) :: 32 word)"

subsection \<open>Decimal output\<close>

definition digit_char :: "nat \<Rightarrow> char" where
  "digit_char d = char_of (48 + d)"

fun dec_nat :: "nat \<Rightarrow> string" where
  "dec_nat n = (if n < 10 then [digit_char n] else dec_nat (n div 10) @ [digit_char (n mod 10)])"

declare dec_nat.simps [simp del]

definition dec :: "int \<Rightarrow> string" where
  "dec i = (if i < 0 then CHR ''-'' # dec_nat (nat (- i)) else dec_nat (nat i))"

subsection \<open>Searching\<close>

definition starts_with :: "string \<Rightarrow> string \<Rightarrow> bool" where
  "starts_with p s \<longleftrightarrow> take (length p) s = p"

text \<open>\<open>strstr\<close> and \<open>strchr\<close> return an index into the string.\<close>

fun strstr :: "string \<Rightarrow> string \<Rightarrow> nat option" where
  "strstr [] p = (if p = [] then Some 0 else None)"
| "strstr (c # s) p = (if starts_with p (c # s) then Some 0 else map_option Suc (strstr s p))"

primrec strchr :: "string \<Rightarrow> char \<Rightarrow> nat option" where
  "strchr [] x = None"
| "strchr (c # s) x = (if c = x then Some 0 else map_option Suc (strchr s x))"

subsection \<open>Lemmas\<close>

lemma code_char_of [simp]: "n < 256 \<Longrightarrow> code (char_of n) = n"
  by (simp add: code_def)

lemma code_less [simp]: "code c < 256"
  unfolding code_def by (rule nat_of_char_less_256)

lemma code_eq_iff: "code c = code d \<longleftrightarrow> c = d"
  by (simp add: code_def)

lemma toupper_not_lower: "\<not> (97 \<le> code (toupper c) \<and> code (toupper c) \<le> 122)"
  using code_less [of c] by (auto simp: toupper_def)

lemma toupper_idem [simp]: "toupper (toupper c) = toupper c"
  using toupper_not_lower [of c] by (auto simp: toupper_def [of "toupper c"])

lemma digit_char_val [simp]: "d < 10 \<Longrightarrow> digit_val (digit_char d) = Some d"
  by (simp add: digit_val_def digit_char_def)

lemma digits_value_snoc [simp]: "digits_value b (s @ [c]) = digits_value b s * b + the (digit_val c)"
  by (simp add: digits_value_def)

lemma dec_nat_value [simp]: "digits_value 10 (dec_nat n) = n"
proof (induction n rule: dec_nat.induct)
  case (1 n)
  then show ?case by (subst dec_nat.simps) (simp add: digits_value_def)
qed

lemma dec_nat_digits: "c \<in> List.set (dec_nat n) \<Longrightarrow> \<exists>d < 10. c = digit_char d"
proof (induction n rule: dec_nat.induct)
  case (1 n)
  show ?case
  proof (cases "n < 10")
    case True
    then show ?thesis using 1(2) by (subst (asm) dec_nat.simps) auto
  next
    case False
    have "\<exists>d < 10. digit_char (n mod 10) = digit_char d" by (intro exI [of _ "n mod 10"]) simp
    then show ?thesis using False 1 by (subst (asm) (2) dec_nat.simps) auto
  qed
qed

lemma dec_nat_not_Nil [simp]: "dec_nat n \<noteq> []"
  by (subst dec_nat.simps) simp

text \<open>Only zero starts with the digit 0: a printed number is never read as octal.\<close>

lemma dec_nat_head: "0 < n \<Longrightarrow> hd (dec_nat n) \<noteq> CHR ''0''"
proof (induction n rule: dec_nat.induct)
  case (1 n)
  have "digit_char n \<noteq> CHR ''0''" if "n < 10"
    using that 1(2) code_eq_iff [of "digit_char n" "CHR ''0''"] by (simp add: digit_char_def code_def)
  then show ?case using 1 by (subst dec_nat.simps) auto
qed

lemma strstr_Some:
  "strstr s p = Some k \<Longrightarrow> k + length p \<le> length s \<and> s = take k s @ p @ drop (k + length p) s"
proof (induction s arbitrary: k)
  case (Cons c s)
  show ?case
  proof (cases "starts_with p (c # s)")
    case True
    have "length (take (length p) (c # s)) = length p" using True by (simp only: starts_with_def)
    then have "length p \<le> length (c # s)" by simp
    moreover have "c # s = p @ drop (length p) (c # s)"
      using True by (metis append_take_drop_id starts_with_def)
    ultimately show ?thesis using Cons.prems True by simp
  next
    case False
    then obtain j where "strstr s p = Some j" "k = Suc j" using Cons.prems by auto
    then show ?thesis using Cons.IH [of j] by simp
  qed
qed (auto split: if_splits)

subsection \<open>Numbers in decimal\<close>

lemma code_digit_char [simp]: "d < 10 \<Longrightarrow> code (digit_char d) = 48 + d"
  by (simp add: digit_char_def)

lemma dec_nat_code: "c \<in> List.set (dec_nat n) \<Longrightarrow> 48 \<le> code c \<and> code c \<le> 57"
  using dec_nat_digits [of c n] by auto

lemma strtol_prefix_decimal: "s = [] \<or> hd s \<noteq> CHR ''0'' \<Longrightarrow> strtol_prefix s = (10, s)"
  by (cases s rule: strtol_prefix.cases) auto

lemma strtol_dec:
  assumes "n < 2 ^ 63"
  shows "strtol 0 (dec_nat n) = (int n, [], False)"
proof -
  obtain c cs where s: "dec_nat n = c # cs" using dec_nat_not_Nil [of n] by (meson neq_Nil_conv)
  have c: "48 \<le> code c \<and> code c \<le> 57" using s by (intro dec_nat_code [of c n]) simp
  have "dropWhile isspace (dec_nat n) = dec_nat n" using s c by (simp add: isspace_def)
  moreover have "strtol_sign (dec_nat n) = (False, dec_nat n)" using s c by (auto simp: strtol_sign_def code_def)
  moreover obtain b where b: "strtol_prefix (dec_nat n) = (b, dec_nat n)" "digits_value b (dec_nat n) = n"
    "\<forall>x \<in> List.set (dec_nat n). is_digit b x"
  proof (cases "n = 0")
    case True
    moreover have "digit_char 0 = CHR ''0''"
      using code_eq_iff [of "digit_char 0" "CHR ''0''"] by (simp add: code_def digit_char_def)
    ultimately have "dec_nat n = ''0''" by (subst dec_nat.simps) simp
    then show thesis using that [of 8] True by (simp add: digits_value_def digit_val_def is_digit_def code_def)
  next
    case False
    have "is_digit 10 x" if "x \<in> List.set (dec_nat n)" for x
      using dec_nat_code [OF that] by (auto simp: is_digit_def digit_val_def)
    then show thesis using that [of 10] False dec_nat_head [of n] by (simp add: strtol_prefix_decimal)
  qed
  moreover have t: "takeWhile (is_digit b) (dec_nat n) = dec_nat n" "dropWhile (is_digit b) (dec_nat n) = []"
    using b(3) by (simp_all add: takeWhile_eq_all_conv dropWhile_eq_Nil_conv)
  ultimately show ?thesis using assms by (simp add: strtol_def Let_def t)
qed

subsection \<open>Evaluation on large numbers\<close>

text \<open>The same functions on \<open>int\<close>, for the evaluation of concrete inputs.\<close>

function dec_int :: "int \<Rightarrow> string" where
  "dec_int i = (if i < 10 then [digit_char (nat i)] else dec_int (i div 10) @ [digit_char (nat (i mod 10))])"
  by pat_completeness auto
termination by (relation "measure nat") auto

declare dec_int.simps [simp del]

lemma dec_int_eq: "0 \<le> i \<Longrightarrow> dec_int i = dec_nat (nat i)"
proof (induction i rule: dec_int.induct)
  case (1 i)
  have "nat i div 10 = nat (i div 10)" "nat i mod 10 = nat (i mod 10)"
    using 1(2) by (simp_all add: nat_div_distrib nat_mod_distrib)
  moreover have "dec_int (i div 10) = dec_nat (nat (i div 10))" if "\<not> i < 10"
    using 1(1) that by (simp add: div_int_pos_iff)
  ultimately show ?case
    using 1(2) by (subst dec_int.simps, subst dec_nat.simps) auto
qed

lemma dec_code [code]: "dec i = (if i < 0 then CHR ''-'' # dec_int (- i) else dec_int i)"
  by (simp add: dec_def dec_int_eq)

definition digits_value_int :: "nat \<Rightarrow> string \<Rightarrow> int" where
  "digits_value_int base s = foldl (\<lambda>v c. v * int base + int (the (digit_val c))) 0 s"

lemma digits_value_code [code_unfold]: "int (digits_value b s) = digits_value_int b s"
  by (induction s rule: rev_induct) (simp_all add: digits_value_int_def digits_value_def)

end
