(* ===== verification/Cron_Text.thy ===== *)
theory Cron_Text
  imports C_String
begin

section \<open>Text operations of ccronexpr.c\<close>

text \<open>
  \<open>to_upper\<close>, \<open>to_string\<close>, \<open>str_replace\<close>, \<open>parse_uint\<close>, \<open>split_str\<close>, \<open>replace_ordinals\<close>
  and \<open>has_char\<close>. Buffers keep their size: a write past the end of an allocated block, and a
  loop that does not end, are \<open>None\<close>. Failing allocations are not modelled.
\<close>

definition to_upper :: "string \<Rightarrow> string" where
  "to_upper str = map toupper str"

subsection \<open>to_string\<close>

definition CRON_NUM_OF_DIGITS :: "int \<Rightarrow> nat" where
  "CRON_NUM_OF_DIGITS num =
     (if \<bar>num\<bar> < 10 then 1 else if \<bar>num\<bar> < 100 then 2 else if \<bar>num\<bar> < 1000 then 3
      else if \<bar>num\<bar> < 10000 then 4 else if \<bar>num\<bar> < 100000 then 5 else if \<bar>num\<bar> < 1000000 then 6
      else if \<bar>num\<bar> < 10000000 then 7 else if \<bar>num\<bar> < 100000000 then 8
      else if \<bar>num\<bar> < 1000000000 then 9 else 10)"

text \<open>The result \<open>Some None\<close> is the null pointer.\<close>

definition to_string :: "int \<Rightarrow> string option option" where
  "to_string num =
     (if \<bar>num\<bar> \<ge> 1000000000 then Some None
      else if length (dec num) + 1 \<le> CRON_NUM_OF_DIGITS num + 1 then Some (Some (dec num)) else None)"

subsection \<open>str_replace\<close>

text \<open>The loop that counts the occurrences; it would not end on an empty \<open>rep\<close>.\<close>

partial_function (option) count_occurrences :: "string \<Rightarrow> string \<Rightarrow> nat option" where
  "count_occurrences ins rep =
     (case strstr ins rep of
        None \<Rightarrow> Some 0
      | Some k \<Rightarrow> do { n \<leftarrow> count_occurrences (drop (k + length rep) ins) rep; Some (Suc n) })"

declare count_occurrences.simps [code]

text \<open>The loop that copies, into a block of \<open>sz\<close> characters of which \<open>out\<close> is written.\<close>

fun replace_loop :: "nat \<Rightarrow> nat \<Rightarrow> string \<Rightarrow> string \<Rightarrow> string \<Rightarrow> string \<Rightarrow> string option" where
  "replace_loop 0 sz orig rep w out =
     (if length out + length orig + 1 \<le> sz then Some (out @ orig) else None)"
| "replace_loop (Suc count) sz orig rep w out =
     (case strstr orig rep of
        None \<Rightarrow> None
      | Some len_front \<Rightarrow>
          if length out + len_front + length w + 1 \<le> sz
          then replace_loop count sz (drop (len_front + length rep) orig) rep w (out @ take len_front orig @ w)
          else None)"

text \<open>The size passed to \<open>malloc\<close> is computed in \<open>size_t\<close>, where \<open>len_with - len_rep\<close> may wrap.\<close>

definition replace_size :: "nat \<Rightarrow> nat \<Rightarrow> nat \<Rightarrow> nat \<Rightarrow> nat" where
  "replace_size n len_with len_rep count =
     unat (of_nat n + (of_nat len_with - of_nat len_rep) * of_nat count + 1 :: 64 word)"

definition str_replace :: "string \<Rightarrow> string \<Rightarrow> string \<Rightarrow> string option" where
  "str_replace orig rep w =
     do { count \<leftarrow> count_occurrences orig rep;
          replace_loop count (replace_size (length orig) (length w) (length rep) count) orig rep w [] }"

subsection \<open>parse_uint\<close>

definition parse_uint :: "string \<Rightarrow> nat option" where
  "parse_uint str =
     (let (l, endptr, erange) = strtol 0 str in
      if erange \<or> endptr \<noteq> [] \<or> l < 0 \<or> l > 2147483647 then None else Some (nat l))"

subsection \<open>split_str\<close>

text \<open>The first pass counts the fields, with the number \<open>accum\<close> of characters of the current one.\<close>

fun split_count :: "string \<Rightarrow> char \<Rightarrow> nat \<Rightarrow> nat \<Rightarrow> nat" where
  "split_count [] dl accum len = (if accum > 0 then len + 1 else len)"
| "split_count (c # str) dl accum len =
     (if dl = c then (if accum > 0 then split_count str dl 0 (len + 1) else split_count str dl accum len)
      else if \<not> isspace c then split_count str dl (accum + 1) len
      else split_count str dl accum len)"

text \<open>The second pass copies the fields into the \<open>len\<close> entries of \<open>res\<close>, through a buffer of
  \<open>cap\<close> characters.\<close>

definition push_field :: "nat \<Rightarrow> string list \<Rightarrow> string \<Rightarrow> string list option" where
  "push_field len res tmp = (if length res < len then Some (res @ [tmp]) else None)"

fun split_copy :: "string \<Rightarrow> char \<Rightarrow> nat \<Rightarrow> nat \<Rightarrow> string \<Rightarrow> string list \<Rightarrow> string list option" where
  "split_copy [] dl cap len buf res = (if length buf > 0 then push_field len res buf else Some res)"
| "split_copy (c # str) dl cap len buf res =
     (if dl = c then
        (if length buf > 0 then do { res \<leftarrow> push_field len res buf; split_copy str dl cap len [] res }
         else split_copy str dl cap len buf res)
      else if \<not> isspace c then
        (if length buf < cap then split_copy str dl cap len (buf @ [c]) res else None)
      else split_copy str dl cap len buf res)"

text \<open>\<open>Some None\<close> is the null pointer, with the length 0. An entry of \<open>res\<close> that the second pass
  does not fill is a null pointer the callers would follow.\<close>

definition split_str :: "string \<Rightarrow> char \<Rightarrow> string list option option" where
  "split_str str dl =
     (if length str \<ge> 256 then Some None
      else (let len = split_count str dl 0 0 in
            if len = 0 then Some None
            else do { res \<leftarrow> split_copy str dl (length str + 1) len [] [];
                      if length res = len then Some (Some res) else None }))"

subsection \<open>replace_ordinals and has_char\<close>

fun replace_from :: "string \<Rightarrow> string list \<Rightarrow> int \<Rightarrow> string option option" where
  "replace_from cur [] i = Some (Some cur)"
| "replace_from cur (a # arr) i =
     do { strnum \<leftarrow> to_string i;
          case strnum of None \<Rightarrow> Some None
          | Some num \<Rightarrow> do { res \<leftarrow> str_replace cur a num; replace_from res arr (i + 1) } }"

definition replace_ordinals :: "string \<Rightarrow> string list \<Rightarrow> string option option" where
  "replace_ordinals value arr = replace_from value arr 0"

primrec has_char :: "string \<Rightarrow> char \<Rightarrow> bool" where
  "has_char [] ch = False"
| "has_char (c # str) ch = (if c = ch then True else has_char str ch)"

definition DAYS_ARR :: "string list" where
  "DAYS_ARR = [''SUN'', ''MON'', ''TUE'', ''WED'', ''THU'', ''FRI'', ''SAT'']"

definition MONTHS_ARR :: "string list" where
  "MONTHS_ARR = [''FOO'', ''JAN'', ''FEB'', ''MAR'', ''APR'', ''MAY'', ''JUN'', ''JUL'', ''AUG'',
     ''SEP'', ''OCT'', ''NOV'', ''DEC'']"

subsection \<open>Lemmas: splitting\<close>

text \<open>What \<open>split_str\<close> is for: the stretches between delimiters, without their white space,
  leaving out empty ones.\<close>

fun split_on :: "char \<Rightarrow> string \<Rightarrow> string list" where
  "split_on dl [] = [[]]"
| "split_on dl (c # s) =
     (if c = dl then [] # split_on dl s
      else (case split_on dl s of [] \<Rightarrow> [[c]] | w # ws \<Rightarrow> (c # w) # ws))"

definition tokens :: "char \<Rightarrow> string \<Rightarrow> string list" where
  "tokens dl s = filter (\<lambda>w. w \<noteq> []) (map (filter (\<lambda>c. \<not> isspace c)) (split_on dl s))"

lemma has_char_iff [simp]: "has_char s c \<longleftrightarrow> c \<in> List.set s"
  by (induction s) auto

text \<open>The fields that a scan still produces, \<open>buf\<close> being the current one.\<close>

fun scan :: "char \<Rightarrow> string \<Rightarrow> string \<Rightarrow> string list" where
  "scan dl buf [] = (if buf = [] then [] else [buf])"
| "scan dl buf (c # s) =
     (if c = dl then (if buf = [] then [] else [buf]) @ scan dl [] s
      else if isspace c then scan dl buf s
      else scan dl (buf @ [c]) s)"

lemma split_count_scan: "split_count s dl (length buf) len = len + length (scan dl buf s)"
proof (induction dl buf s arbitrary: len rule: scan.induct)
  case (2 dl buf c s)
  then show ?case using "2.IH"(1) "2.IH"(2) "2.IH"(3) by (cases buf) auto
qed simp

lemma split_copy_scan:
  "length buf + length s \<le> cap \<Longrightarrow> length res + length (scan dl buf s) \<le> len \<Longrightarrow>
   split_copy s dl cap len buf res = Some (res @ scan dl buf s)"
  by (induction dl buf s arbitrary: res rule: scan.induct) (auto simp: push_field_def split: if_splits)

lemma split_on_not_Nil [simp]: "split_on dl s \<noteq> []"
  by (induction s) (auto split: list.splits)

lemma scan_tokens:
  "scan dl buf s = filter (\<lambda>w. w \<noteq> [])
     (let ws = map (filter (\<lambda>c. \<not> isspace c)) (split_on dl s) in (buf @ hd ws) # tl ws)"
proof (induction dl buf s rule: scan.induct)
  case (2 dl buf c s)
  obtain w ws where "split_on dl s = w # ws" using split_on_not_Nil by (metis neq_Nil_conv)
  with 2 show ?case by (auto simp: Let_def)
qed (simp add: Let_def)

lemma scan_is_tokens: "scan dl [] s = tokens dl s"
proof -
  obtain w ws where "split_on dl s = w # ws" using split_on_not_Nil by (metis neq_Nil_conv)
  then show ?thesis by (simp add: scan_tokens tokens_def)
qed

lemma split_str_eq:
  "split_str s dl = Some (if length s < 256 \<and> tokens dl s \<noteq> [] then Some (tokens dl s) else None)"
  using split_count_scan [of s dl "[]" 0] split_copy_scan [of "[]" s "length s + 1" "[]" dl]
  by (simp add: split_str_def scan_is_tokens)

subsection \<open>Lemmas: replacing\<close>

lemma strstr_shrinks: "strstr s p = Some k \<Longrightarrow> p \<noteq> [] \<Longrightarrow> length s - (k + length p) < length s"
  using strstr_Some [of s p k] by (cases p) auto

lemma count_occurrences_total:
  assumes "rep \<noteq> []"
  shows "\<exists>n. count_occurrences s rep = Some n \<and> n * length rep \<le> length s"
proof (induction "length s" arbitrary: s rule: less_induct)
  case less
  show ?case
  proof (cases "strstr s rep")
    case None
    then show ?thesis by (subst count_occurrences.simps) simp
  next
    case (Some k)
    have k: "k + length rep \<le> length s" using strstr_Some [OF Some] by simp
    then have "length (drop (k + length rep) s) < length s" using strstr_shrinks [OF Some assms] by simp
    from less [OF this] obtain n where n: "count_occurrences (drop (k + length rep) s) rep = Some n"
      "n * length rep \<le> length s - (k + length rep)" by auto
    then show ?thesis using Some k by (subst count_occurrences.simps) auto
  qed
qed

text \<open>The text with every occurrence of \<open>rep\<close> replaced, from the left.\<close>

function replace_all :: "string \<Rightarrow> string \<Rightarrow> string \<Rightarrow> string" where
  "replace_all rep w s =
     (case strstr s rep of
        None \<Rightarrow> s
      | Some k \<Rightarrow> if rep = [] then s else take k s @ w @ replace_all rep w (drop (k + length rep) s))"
  by pat_completeness auto
termination
proof (relation "measure (\<lambda>(rep, w, s). length s)")
  fix rep w s :: string and k
  assume k: "strstr s rep = Some k" "rep \<noteq> []"
  then show "((rep, w, drop (k + length rep) s), rep, w, s) \<in> measure (\<lambda>(rep, w, s). length s)"
    using strstr_shrinks by simp
qed simp

declare replace_all.simps [simp del]

lemma replace_loop_eq:
  assumes "rep \<noteq> []"
  shows "count_occurrences s rep = Some n \<Longrightarrow> length out + length s + n * length w + 1 \<le> sz + n * length rep \<Longrightarrow>
    replace_loop n sz s rep w out = Some (out @ replace_all rep w s)"
proof (induction n arbitrary: s out)
  case 0
  then have "strstr s rep = None"
    by (subst (asm) count_occurrences.simps) (auto split: option.splits Option.bind_splits)
  then show ?case using 0 by (subst replace_all.simps) simp
next
  case (Suc n)
  obtain k where k: "strstr s rep = Some k" "count_occurrences (drop (k + length rep) s) rep = Some n"
    using Suc.prems(1) by (subst (asm) count_occurrences.simps) (auto split: option.splits Option.bind_splits)
  have len: "k + length rep \<le> length s" using strstr_Some [OF k(1)] by simp
  have "n * length rep \<le> length s - (k + length rep)"
    using count_occurrences_total [OF assms, of "drop (k + length rep) s"] k(2) by simp
  then have "length out + k + length w + 1 \<le> sz" using Suc.prems(2) len by simp
  moreover have "replace_loop n sz (drop (k + length rep) s) rep w (out @ take k s @ w)
      = Some ((out @ take k s @ w) @ replace_all rep w (drop (k + length rep) s))"
    using Suc.prems(2) len by (intro Suc.IH [OF k(2)]) simp
  ultimately show ?case using k(1) assms by (subst replace_all.simps) simp
qed

lemma replace_size_eq:
  assumes "c * r \<le> n" "n + c * w + 1 < 2 ^ 64"
  shows "replace_size n w r c + c * r = n + c * w + 1"
proof -
  have "word_of_nat (n - c * r + c * w + 1)
      = (of_nat n + (of_nat w - of_nat r) * of_nat c + 1 :: 64 word)"
    using assms(1) by (simp add: of_nat_diff algebra_simps)
  moreover have "n - c * r + c * w + 1 < 2 ^ LENGTH(64)" using assms by simp
  ultimately have "replace_size n w r c = n - c * r + c * w + 1"
    unfolding replace_size_def by (rule of_nat_inverse)
  then show ?thesis using assms(1) by simp
qed

lemma str_replace_eq:
  assumes "rep \<noteq> []" "length s + length s * length w + 1 < 2 ^ 64"
  shows "str_replace s rep w = Some (replace_all rep w s)"
proof -
  obtain n where n: "count_occurrences s rep = Some n" "n * length rep \<le> length s"
    using count_occurrences_total [OF assms(1)] by blast
  have "n \<le> n * length rep" using assms(1) by (cases rep) simp_all
  then have "n \<le> length s" using n(2) by (rule order_trans)
  then have "n * length w \<le> length s * length w" by (intro mult_right_mono) simp_all
  then have "length s + n * length w + 1 < 2 ^ 64" using assms(2) by linarith
  then show ?thesis
    using replace_loop_eq [OF assms(1) n(1), of "[]" w] replace_size_eq [OF n(2), of "length w"] n(1)
    by (simp add: str_replace_def)
qed

lemma length_replace_all: "length w \<le> length rep \<Longrightarrow> length (replace_all rep w s) \<le> length s"
proof (induction rep w s rule: replace_all.induct)
  case (1 rep w s)
  show ?case
  proof (cases "strstr s rep")
    case (Some k)
    have "k + length rep \<le> length s" using strstr_Some [OF Some] by simp
    then show ?thesis using 1 Some by (subst replace_all.simps) force
  qed (subst replace_all.simps, simp)
qed

subsection \<open>Lemmas: to_string and replace_ordinals\<close>

lemma length_dec_nat: "0 < k \<Longrightarrow> n < 10 ^ k \<Longrightarrow> length (dec_nat n) \<le> k"
proof (induction n arbitrary: k rule: dec_nat.induct)
  case (1 n)
  show ?case
  proof (cases "n < 10")
    case False
    moreover have "k \<noteq> 1" using False 1(3) by auto
    ultimately obtain j where j: "k = Suc j" "0 < j" using 1(2) by (cases k) auto
    then have "n div 10 < 10 ^ j" using 1(3) by (simp add: less_mult_imp_div_less mult.commute)
    then have "length (dec_nat (n div 10)) \<le> j" using 1(1) [OF False j(2)] by simp
    then show ?thesis using False j by (subst dec_nat.simps) simp
  qed (use 1 in \<open>subst dec_nat.simps, simp\<close>)
qed

lemma to_string_eq: "0 \<le> i \<Longrightarrow> i < 1000000000 \<Longrightarrow> to_string i = Some (Some (dec i))"
proof -
  assume i: "0 \<le> i" "i < 1000000000"
  then have "nat i < 10 ^ CRON_NUM_OF_DIGITS i" by (simp add: CRON_NUM_OF_DIGITS_def)
  moreover have "0 < CRON_NUM_OF_DIGITS i" by (simp add: CRON_NUM_OF_DIGITS_def)
  ultimately have "length (dec_nat (nat i)) \<le> CRON_NUM_OF_DIGITS i" by (intro length_dec_nat)
  then show ?thesis using i by (simp add: to_string_def dec_def)
qed

text \<open>The text with the \<open>i\<close>-th name replaced by the number \<open>i\<close>, one name after the other.\<close>

fun ordinals_text :: "string list \<Rightarrow> int \<Rightarrow> string \<Rightarrow> string" where
  "ordinals_text [] i s = s"
| "ordinals_text (a # arr) i s = ordinals_text arr (i + 1) (replace_all a (dec i) s)"

lemma replace_from_eq:
  assumes "\<forall>a \<in> List.set arr. length a = 3" "0 \<le> i" "i + int (length arr) \<le> 1000" "length s < 2 ^ 32"
  shows "replace_from s arr i = Some (Some (ordinals_text arr i s))"
    and "length (ordinals_text arr i s) \<le> length s"
proof -
  have "replace_from s arr i = Some (Some (ordinals_text arr i s)) \<and> length (ordinals_text arr i s) \<le> length s"
    using assms
  proof (induction arr arbitrary: i s)
    case (Cons a arr)
    have "length (dec i) \<le> 3" using Cons.prems(2,3) length_dec_nat [of 3 "nat i"] by (simp add: dec_def)
    then have d: "length (dec i) \<le> length a" "a \<noteq> []" using Cons.prems(1) by auto
    have "length s * length (dec i) \<le> 2 ^ 32 * 3"
      using Cons.prems(4) \<open>length (dec i) \<le> 3\<close> by (intro mult_le_mono) simp_all
    then have "str_replace s a (dec i) = Some (replace_all a (dec i) s)"
      using d(2) Cons.prems(4) by (intro str_replace_eq) simp_all
    moreover have len: "length (replace_all a (dec i) s) \<le> length s" using d(1) by (rule length_replace_all)
    moreover have "to_string i = Some (Some (dec i))" using Cons.prems(2,3) by (intro to_string_eq) simp_all
    ultimately show ?case
      using Cons.IH [of "i + 1" "replace_all a (dec i) s"] Cons.prems by simp
  qed simp
  then show "replace_from s arr i = Some (Some (ordinals_text arr i s))"
    "length (ordinals_text arr i s) \<le> length s" by simp_all
qed

end
