(* ===== verification/Cron_Parse.thy ===== *)
theory Cron_Parse
  imports Cron_Text Cron_Match
begin

section \<open>cron_parse_expr\<close>

text \<open>
  The parser of \<open>ccronexpr.c\<close>: \<open>get_range\<close>, \<open>set_number_hits\<close>, \<open>set_months\<close>,
  \<open>set_days_of_week\<close>, \<open>set_days_of_month\<close>, \<open>cron_parse_expr\<close>. An outer \<open>None\<close> is an access
  outside a buffer or an endless loop. What is written to \<open>*error\<close> is a \<open>parse_error\<close>.
\<close>

datatype parse_error =
    Null_Expression | Null_Target | Field_Count | Comma_Split
  | Uint_1 | Uint_2 | Uint_3 | Uint_4
  | Range_Fields | Range_Max | Range_Min | Range_Order
  | Incr_Fields | Incr_Zero | Month_Format | Day_Format

fun error_text :: "parse_error \<Rightarrow> string" where
  "error_text Null_Expression = ''Invalid NULL expression''"
| "error_text Null_Target = ''Invalid NULL target''"
| "error_text Field_Count = ''Invalid number of fields, expression must consist of 6 fields''"
| "error_text Comma_Split = ''Comma split error''"
| "error_text Uint_1 = ''Unsigned integer parse error 1''"
| "error_text Uint_2 = ''Unsigned integer parse error 2''"
| "error_text Uint_3 = ''Unsigned integer parse error 3''"
| "error_text Uint_4 = ''Unsigned integer parse error 4''"
| "error_text Range_Fields = ''Specified range requires two fields''"
| "error_text Range_Max = ''Specified range exceeds maximum''"
| "error_text Range_Min = ''Specified range is less than minimum''"
| "error_text Range_Order = ''Specified range start exceeds range end''"
| "error_text Incr_Fields = ''Incrementer must have two fields''"
| "error_text Incr_Zero = ''Incrementer may not be zero''"
| "error_text Month_Format = ''Invalid month format''"
| "error_text Day_Format = ''Invalid day format''"

subsection \<open>get_range\<close>

definition check_range :: "nat \<Rightarrow> nat \<Rightarrow> nat \<Rightarrow> nat \<Rightarrow> parse_error + nat \<times> nat" where
  "check_range mn mx r0 r1 =
     (if r0 \<ge> mx \<or> r1 \<ge> mx then Inl Range_Max
      else if r0 < mn \<or> r1 < mn then Inl Range_Min
      else if r0 > r1 then Inl Range_Order
      else Inr (r0, r1))"

definition get_range :: "string \<Rightarrow> nat \<Rightarrow> nat \<Rightarrow> (parse_error + nat \<times> nat) option" where
  "get_range field mn mx =
     (if length field = 1 \<and> field ! 0 = CHR ''*'' then Some (check_range mn mx mn (mx - 1))
      else if \<not> has_char field CHR ''-'' then
        (case parse_uint field of
           None \<Rightarrow> Some (Inl Uint_1)
         | Some val \<Rightarrow> Some (check_range mn mx val val))
      else do { parts \<leftarrow> split_str field CHR ''-'';
        case parts of
          Some [p0, p1] \<Rightarrow>
            (case parse_uint p0 of None \<Rightarrow> Some (Inl Uint_2)
             | Some r0 \<Rightarrow> (case parse_uint p1 of None \<Rightarrow> Some (Inl Uint_3)
                          | Some r1 \<Rightarrow> Some (check_range mn mx r0 r1)))
        | _ \<Rightarrow> Some (Inl Range_Fields) })"

subsection \<open>set_number_hits\<close>

text \<open>\<open>for (i1 = from; i1 <= to; i1 += delta) cron_set_bit(target, i1)\<close>, on \<open>unsigned int\<close>.\<close>

partial_function (option) set_bits :: "u8 list \<Rightarrow> u32 \<Rightarrow> u32 \<Rightarrow> u32 \<Rightarrow> u8 list option" where
  "set_bits target i1 to delta =
     (if i1 \<le> to
      then do { target \<leftarrow> cron_set_bit target (unat i1); set_bits target (i1 + delta) to delta }
      else Some target)"

declare set_bits.simps [code]

text \<open>The body of the loop over the fields: the target, and the error it ends the loop with.\<close>

definition set_field_hits ::
    "string \<Rightarrow> u8 list \<Rightarrow> nat \<Rightarrow> nat \<Rightarrow> (u8 list \<times> parse_error option) option" where
  "set_field_hits field target mn mx =
     (if \<not> has_char field CHR ''/'' then
        do { range \<leftarrow> get_range field mn mx;
             case range of
               Inl e \<Rightarrow> Some (target, Some e)
             | Inr (r0, r1) \<Rightarrow> do { target \<leftarrow> set_bits target (of_nat r0) (of_nat r1) 1; Some (target, None) } }
      else
        do { split \<leftarrow> split_str field CHR ''/'';
             case split of
               Some [s0, s1] \<Rightarrow>
                 do { range \<leftarrow> get_range s0 mn mx;
                      case range of
                        Inl e \<Rightarrow> Some (target, Some e)
                      | Inr (r0, r1) \<Rightarrow>
                          (let r1 = (if \<not> has_char s0 CHR ''-'' then mx - 1 else r1) in
                           case parse_uint s1 of
                             None \<Rightarrow> Some (target, Some Uint_4)
                           | Some delta \<Rightarrow>
                               if delta = 0 then Some (target, Some Incr_Zero)
                               else do { target \<leftarrow> set_bits target (of_nat r0) (of_nat r1) (of_nat delta); Some (target, None) }) }
             | _ \<Rightarrow> Some (target, Some Incr_Fields) })"

fun set_fields_hits ::
    "string list \<Rightarrow> u8 list \<Rightarrow> nat \<Rightarrow> nat \<Rightarrow> (u8 list \<times> parse_error option) option" where
  "set_fields_hits [] target mn mx = Some (target, None)"
| "set_fields_hits (f # fs) target mn mx =
     do { (target, err) \<leftarrow> set_field_hits f target mn mx;
          case err of Some e \<Rightarrow> Some (target, Some e) | None \<Rightarrow> set_fields_hits fs target mn mx }"

definition set_number_hits ::
    "string \<Rightarrow> u8 list \<Rightarrow> nat \<Rightarrow> nat \<Rightarrow> (u8 list \<times> parse_error option) option" where
  "set_number_hits value target mn mx =
     do { split \<leftarrow> split_str value (CHR '','');
          case split of
            None \<Rightarrow> Some (target, Some Comma_Split)
          | Some fs \<Rightarrow> set_fields_hits fs target mn mx }"

subsection \<open>The fields of an expression\<close>

definition rotate_month :: "nat \<Rightarrow> u8 list \<Rightarrow> u8 list option" where
  "rotate_month i targ =
     do { b \<leftarrow> cron_get_bit targ i;
          if b then do { targ \<leftarrow> cron_set_bit targ (i - 1); cron_del_bit targ i } else Some targ }"

definition set_months :: "string \<Rightarrow> u8 list \<Rightarrow> (u8 list \<times> parse_error option) option" where
  "set_months value targ =
     (let mx = 12 in
      do { replaced \<leftarrow> replace_ordinals (to_upper value) MONTHS_ARR;
           case replaced of
             None \<Rightarrow> Some (targ, Some Month_Format)
           | Some text \<Rightarrow>
               do { (targ, err) \<leftarrow> set_number_hits text targ 1 (mx + 1);
                    targ \<leftarrow> fold_option rotate_month [1..<mx + 1] targ;
                    Some (targ, err) } })"

definition question_mark :: "string \<Rightarrow> string" where
  "question_mark field = (if length field = 1 \<and> field ! 0 = CHR ''?'' then field[0 := CHR ''*''] else field)"

definition set_days_of_week :: "string \<Rightarrow> u8 list \<Rightarrow> (u8 list \<times> parse_error option) option" where
  "set_days_of_week field targ =
     (let mx = 7 in
      do { replaced \<leftarrow> replace_ordinals (to_upper (question_mark field)) DAYS_ARR;
           case replaced of
             None \<Rightarrow> Some (targ, Some Day_Format)
           | Some text \<Rightarrow>
               do { (targ, err) \<leftarrow> set_number_hits text targ 0 (mx + 1);
                    b \<leftarrow> cron_get_bit targ 7;
                    if b then do { targ \<leftarrow> cron_set_bit targ 0; targ \<leftarrow> cron_del_bit targ 7; Some (targ, err) }
                    else Some (targ, err) } })"

definition set_days_of_month :: "string \<Rightarrow> u8 list \<Rightarrow> (u8 list \<times> parse_error option) option" where
  "set_days_of_month field targ = set_number_hits (question_mark field) targ 1 32"

subsection \<open>The expression\<close>

definition zero_expr :: cron_expr where
  "zero_expr = \<lparr>seconds = replicate 8 0, minutes = replicate 8 0, hours = replicate 3 0,
     days_of_week = replicate 1 0, days_of_month = replicate 4 0, months = replicate 2 0\<rparr>"

text \<open>One field after the other, stopping at the first error; each step is a field's parser
  with the update of the target.\<close>

definition parse_six :: "string list \<Rightarrow> cron_expr \<Rightarrow> (cron_expr \<times> parse_error option) option" where
  "parse_six fs t =
     do { (b, e) \<leftarrow> set_number_hits (fs ! 0) (seconds t) 0 60;
          let t = t\<lparr>seconds := b\<rparr>;
          if e \<noteq> None then Some (t, e) else
     do { (b, e) \<leftarrow> set_number_hits (fs ! 1) (minutes t) 0 60;
          let t = t\<lparr>minutes := b\<rparr>;
          if e \<noteq> None then Some (t, e) else
     do { (b, e) \<leftarrow> set_number_hits (fs ! 2) (hours t) 0 24;
          let t = t\<lparr>hours := b\<rparr>;
          if e \<noteq> None then Some (t, e) else
     do { (b, e) \<leftarrow> set_days_of_month (fs ! 3) (days_of_month t);
          let t = t\<lparr>days_of_month := b\<rparr>;
          if e \<noteq> None then Some (t, e) else
     do { (b, e) \<leftarrow> set_months (fs ! 4) (months t);
          let t = t\<lparr>months := b\<rparr>;
          if e \<noteq> None then Some (t, e) else
     do { (b, e) \<leftarrow> set_days_of_week (fs ! 5) (days_of_week t);
          Some (t\<lparr>days_of_week := b\<rparr>, e) } } } } } }"

text \<open>The expression and the target are pointers (\<open>None\<close> the null pointer); the result is the
  target afterwards and \<open>*error\<close>.\<close>

definition cron_parse_expr ::
    "string option \<Rightarrow> cron_expr option \<Rightarrow> (cron_expr option \<times> parse_error option) option" where
  "cron_parse_expr expression target =
     (case expression of
        None \<Rightarrow> Some (target, Some Null_Expression)
      | Some str \<Rightarrow>
          (case target of
             None \<Rightarrow> Some (None, Some Null_Target)
           | Some targ \<Rightarrow>
               do { split \<leftarrow> split_str str CHR '' '';
                    case split of
                      None \<Rightarrow> Some (Some targ, Some Field_Count)
                    | Some fs \<Rightarrow>
                        if length fs \<noteq> 6 then Some (Some targ, Some Field_Count)
                        else do { (t, e) \<leftarrow> parse_six fs zero_expr; Some (Some t, e) } }))"

end
