(* ===== verification/Cron_Parse_Correct.thy ===== *)
theory Cron_Parse_Correct
  imports Cron_Parse
begin

section \<open>The parser: safety, well-formed results, meaning, round trip\<close>

text \<open>
  For every string the parser stays inside its buffers and ends; when it reports no error the
  expression is well formed (\<open>wf_expr\<close>). The meaning of a field is the relation \<open>item_denotes\<close>,
  and parsing the canonical text of an expression gives the expression back.
\<close>

subsection \<open>get_range\<close>

lemma check_range_Inr: "check_range mn mx a b = Inr (r0, r1) \<longleftrightarrow> r0 = a \<and> r1 = b \<and> mn \<le> a \<and> a \<le> b \<and> b < mx"
  by (auto simp: check_range_def)

lemma get_range_total: "\<exists>r. get_range f mn mx = Some r"
  by (auto simp: get_range_def split_str_eq split: option.splits list.splits)

lemma get_range_bounds:
  "get_range f mn mx = Some (Inr (a, b)) \<Longrightarrow> mn \<le> a \<and> a \<le> b \<and> b < mx"
  by (auto simp: get_range_def split_str_eq check_range_Inr split: option.splits list.splits if_splits)

subsection \<open>set_bits\<close>

text \<open>The values of an increment.\<close>

definition step_set :: "nat \<Rightarrow> nat \<Rightarrow> nat \<Rightarrow> nat set" where
  "step_set a b d = {i. a \<le> i \<and> i \<le> b \<and> d dvd (i - a)}"

lemma step_set_1 [simp]: "step_set a b (Suc 0) = {a..b}"
  by (auto simp: step_set_def)

lemma step_set_Nil: "b < a \<Longrightarrow> step_set a b d = {}"
  by (auto simp: step_set_def)

lemma step_set_Cons: "a \<le> b \<Longrightarrow> 0 < d \<Longrightarrow> step_set a b d = insert a (step_set (a + d) b d)"
proof (rule set_eqI)
  fix i assume "a \<le> b" "0 < d"
  show "i \<in> step_set a b d \<longleftrightarrow> i \<in> insert a (step_set (a + d) b d)"
  proof (cases "a + d \<le> i")
    case True
    then have "i - a = (i - (a + d)) + d" by simp
    then have "d dvd (i - a) \<longleftrightarrow> d dvd (i - (a + d))" by simp
    then show ?thesis using True \<open>0 < d\<close> by (auto simp: step_set_def)
  next
    case False
    then have "i - a < d" if "a \<le> i" using that by simp
    then have "\<not> d dvd (i - a)" if "a < i" using that by (intro nat_dvd_not_less) auto
    then show ?thesis using False \<open>a \<le> b\<close> by (cases "i = a") (auto simp: step_set_def)
  qed
qed

lemma set_bits_eq:
  assumes "0 < d" "b < 8 * length t" "length t \<le> 256" "b + d < 2 ^ 32" "a < 2 ^ 32"
  shows "\<exists>t'. set_bits t (of_nat a) (of_nat b) (of_nat d) = Some t' \<and> length t' = length t
    \<and> bits_of t' = bits_of t \<union> step_set a b d"
  using assms(2,3,5)
proof (induction "Suc b - a" arbitrary: a t rule: less_induct)
  case less
  have w: "(of_nat a :: u32) \<le> of_nat b \<longleftrightarrow> a \<le> b" "unat (of_nat a :: u32) = a"
    using less.prems assms(4) by (simp_all add: word_le_nat_alt unat_of_nat)
  show ?case
  proof (cases "a \<le> b")
    case True
    then obtain t1 where t1: "cron_set_bit t a = Some t1" "length t1 = length t" "bits_of t1 = insert a (bits_of t)"
      using cron_set_bit_eq [of a t] less.prems by auto
    have "Suc b - (a + d) < Suc b - a" using True assms(1) by simp
    then obtain t' where "set_bits t1 (of_nat (a + d)) (of_nat b) (of_nat d) = Some t'" "length t' = length t"
      "bits_of t' = bits_of t1 \<union> step_set (a + d) b d"
      using less.hyps [of "a + d" t1] t1(2) less.prems True assms(4) by auto
    then show ?thesis
      using True w t1 step_set_Cons [OF True assms(1)] by (subst set_bits.simps) auto
  next
    case False
    then show ?thesis using w by (subst set_bits.simps) (simp add: step_set_Nil)
  qed
qed

subsection \<open>set_number_hits\<close>

text \<open>The contract of the functions that set the bits of one field.\<close>

definition sets_hits :: "u8 list \<Rightarrow> nat \<Rightarrow> nat \<Rightarrow> (u8 list \<times> parse_error option) option \<Rightarrow> bool" where
  "sets_hits t mn mx r \<longleftrightarrow>
     (\<exists>t' e. r = Some (t', e) \<and> length t' = length t \<and> bits_of t \<subseteq> bits_of t'
       \<and> bits_of t' \<subseteq> bits_of t \<union> {mn..<mx} \<and> (e = None \<longrightarrow> bits_of t' \<inter> {mn..<mx} \<noteq> {}))"

lemma sets_hits_error [simp]: "sets_hits t mn mx (Some (t, Some e))"
  by (simp add: sets_hits_def)

lemma set_bits_hits:
  assumes "mn \<le> a" "a \<le> b" "b < mx" "mx \<le> 8 * length t" "length t \<le> 32" "0 < d" "d < 2 ^ 31"
  shows "sets_hits t mn mx (do { t \<leftarrow> set_bits t (of_nat a) (of_nat b) (of_nat d); Some (t, None) })"
proof -
  obtain t' where t': "set_bits t (of_nat a) (of_nat b) (of_nat d) = Some t'" "length t' = length t"
    "bits_of t' = bits_of t \<union> step_set a b d"
    using set_bits_eq [of d b t a] assms by auto
  moreover have "step_set a b d \<subseteq> {mn..<mx}" "a \<in> step_set a b d" using assms by (auto simp: step_set_def)
  ultimately show ?thesis unfolding sets_hits_def by auto
qed

lemma parse_uint_less: "parse_uint s = Some v \<Longrightarrow> v < 2 ^ 31"
  by (auto simp: parse_uint_def Let_def split: if_splits prod.splits)

lemma set_field_hits_safe:
  assumes "mx \<le> 8 * length t" "length t \<le> 32"
  shows "sets_hits t mn mx (set_field_hits f t mn mx)"
proof (cases "CHR ''/'' \<in> List.set f")
  case False
  obtain r where r: "get_range f mn mx = Some r" using get_range_total by blast
  show ?thesis
  proof (cases r)
    case (Inr p)
    obtain a b where p: "p = (a, b)" by force
    show ?thesis
      using set_bits_hits [of mn a b mx t 1] get_range_bounds [of f mn mx a b] r assms False
      by (simp add: set_field_hits_def Inr p)
  qed (use r False in \<open>simp add: set_field_hits_def\<close>)
next
  case True
  show ?thesis
  proof (cases "\<exists>s0 s1. split_str f CHR ''/'' = Some (Some [s0, s1])")
    case nt: False
    then have "set_field_hits f t mn mx = Some (t, Some Incr_Fields)"
      using True by (auto simp: set_field_hits_def split_str_eq split: list.splits)
    then show ?thesis by simp
  next
    case nt: True
    then obtain s0 s1 where s: "split_str f CHR ''/'' = Some (Some [s0, s1])" by blast
    obtain r where r: "get_range s0 mn mx = Some r" using get_range_total by blast
    show ?thesis
    proof (cases r)
      case (Inr p)
      obtain a b where p: "p = (a, b)" by force
      have ab: "mn \<le> a" "a \<le> b" "b < mx" using get_range_bounds r Inr p by blast+
      define b' where "b' = (if CHR ''-'' \<notin> List.set s0 then mx - 1 else b)"
      have b': "a \<le> b'" "b' < mx" using ab by (auto simp: b'_def)
      show ?thesis
      proof (cases "parse_uint s1")
        case (Some d)
        show ?thesis
          using set_bits_hits [OF ab(1) b' assms(1,2), of d] parse_uint_less [OF Some] True s r Inr p Some
          by (simp add: set_field_hits_def b'_def [symmetric] Let_def)
      qed (use True s r Inr p in \<open>simp add: set_field_hits_def Let_def\<close>)
    qed (use True s r in \<open>simp add: set_field_hits_def\<close>)
  qed
qed

lemma sets_hits_then:
  assumes "sets_hits t mn mx r"
    and "\<And>t1. length t1 = length t \<Longrightarrow> sets_hits t1 mn mx (g t1)"
  shows "sets_hits t mn mx (do { (t1, err) \<leftarrow> r; case err of Some e \<Rightarrow> Some (t1, Some e) | None \<Rightarrow> g t1 })"
proof -
  obtain t1 e where t1: "r = Some (t1, e)" "length t1 = length t" "bits_of t \<subseteq> bits_of t1"
    "bits_of t1 \<subseteq> bits_of t \<union> {mn..<mx}"
    using assms(1) by (auto simp: sets_hits_def)
  show ?thesis
  proof (cases e)
    case None
    obtain t2 e2 where t2: "g t1 = Some (t2, e2)" "length t2 = length t1" "bits_of t1 \<subseteq> bits_of t2"
      "bits_of t2 \<subseteq> bits_of t1 \<union> {mn..<mx}" "e2 = None \<Longrightarrow> bits_of t2 \<inter> {mn..<mx} \<noteq> {}"
      using assms(2) [OF t1(2)] by (auto simp: sets_hits_def)
    have "bits_of t \<subseteq> bits_of t2" "bits_of t2 \<subseteq> bits_of t \<union> {mn..<mx}" using t1 t2 by blast+
    then show ?thesis using t1 t2 None by (simp add: sets_hits_def)
  qed (use t1 in \<open>simp add: sets_hits_def\<close>)
qed

lemma set_fields_hits_safe:
  assumes "mx \<le> 8 * length t" "length t \<le> 32" "fs \<noteq> []"
  shows "sets_hits t mn mx (set_fields_hits fs t mn mx)"
  using assms
proof (induction fs arbitrary: t)
  case (Cons f fs)
  show ?case
  proof (cases "fs = []")
    case True
    obtain t1 e where "set_field_hits f t mn mx = Some (t1, e)" "sets_hits t mn mx (Some (t1, e))"
      using set_field_hits_safe [OF Cons.prems(1,2), of mn f] by (auto simp: sets_hits_def)
    then show ?thesis using True by (cases e) simp_all
  next
    case False
    show ?thesis
      unfolding set_fields_hits.simps
      using Cons.prems False by (intro sets_hits_then set_field_hits_safe Cons.IH) simp_all
  qed
qed simp

lemma set_number_hits_safe:
  "mx \<le> 8 * length t \<Longrightarrow> length t \<le> 32 \<Longrightarrow> sets_hits t mn mx (set_number_hits v t mn mx)"
  by (simp add: set_number_hits_def split_str_eq set_fields_hits_safe)

subsection \<open>The fields of an expression\<close>

lemma ordinals_safe:
  assumes "length s < 2 ^ 32"
  shows "replace_ordinals s MONTHS_ARR = Some (Some (ordinals_text MONTHS_ARR 0 s))"
    "replace_ordinals s DAYS_ARR = Some (Some (ordinals_text DAYS_ARR 0 s))"
  unfolding replace_ordinals_def
  by (rule replace_from_eq; use assms in \<open>simp add: MONTHS_ARR_def DAYS_ARR_def\<close>)+

text \<open>The rotation of the months moves every value one down.\<close>

lemma rotate_month_eq:
  assumes "length t = 2" "0 < i" "i \<le> 12"
  shows "\<exists>t'. rotate_month i t = Some t' \<and> length t' = 2
    \<and> bits_of t' = (if i \<in> bits_of t then insert (i - 1) (bits_of t - {i}) else bits_of t)"
proof (cases "i \<in> bits_of t")
  case True
  have "length t \<le> 256" "i < 8 * length t" "i - 1 < 8 * length t" "i \<noteq> i - 1" using assms by simp_all
  from cron_bits.move_bit [OF this]
  obtain s1 s2 where "cron_set_bit t (i - 1) = Some s1" "cron_del_bit s1 i = Some s2"
    "8 * length s2 = 8 * length t" "bits_of s2 = insert (i - 1) (bits_of t - {i})" by blast
  then show ?thesis using True assms cron_get_bit_eq [of i t] by (simp add: rotate_month_def)
qed (use assms cron_get_bit_eq [of i t] in \<open>simp add: rotate_month_def\<close>)

lemma rotate_months:
  assumes "length t = 2" "bits_of t \<subseteq> {1..<13}"
  shows "n \<le> 12 \<Longrightarrow> \<exists>t'. fold_option rotate_month [1..<n + 1] t = Some t' \<and> length t' = 2
    \<and> bits_of t' = {j. j < n \<and> j + 1 \<in> bits_of t} \<union> {j \<in> bits_of t. n < j}"
proof (induction n)
  case 0
  then show ?case using assms by (auto intro: gr0I)
next
  case (Suc n)
  then obtain t1 where t1: "fold_option rotate_month [1..<n + 1] t = Some t1" "length t1 = 2"
    "bits_of t1 = {j. j < n \<and> j + 1 \<in> bits_of t} \<union> {j \<in> bits_of t. n < j}" by auto
  obtain t2 where t2: "rotate_month (n + 1) t1 = Some t2" "length t2 = 2"
    "bits_of t2 = (if n + 1 \<in> bits_of t1 then insert n (bits_of t1 - {n + 1}) else bits_of t1)"
    using rotate_month_eq [OF t1(2), of "n + 1"] Suc.prems by auto
  have m: "n + 1 \<in> bits_of t1 \<longleftrightarrow> n + 1 \<in> bits_of t" using t1(3) by simp
  have "bits_of t2 = {j. j < Suc n \<and> j + 1 \<in> bits_of t} \<union> {j \<in> bits_of t. Suc n < j}"
  proof (rule set_eqI)
    fix j
    consider "j < n" | "j = n" | "j = n + 1" | "n + 1 < j" by linarith
    then show "j \<in> bits_of t2 \<longleftrightarrow> j \<in> {j. j < Suc n \<and> j + 1 \<in> bits_of t} \<union> {j \<in> bits_of t. Suc n < j}"
      unfolding t2(3) m by cases (simp_all add: t1(3))
  qed
  moreover have "[1..<Suc n + 1] = [1..<n + 1] @ [n + 1]" by simp
  ultimately show ?case using t1(1) t2 by (simp only: fold_option_append) simp
qed

lemma set_months_eq:
  assumes "set_number_hits (ordinals_text MONTHS_ARR 0 (to_upper v)) t 1 13 = Some (t1, e)"
    "length t1 = 2" "bits_of t1 \<subseteq> {1..<13}" "length v < 2 ^ 32"
  shows "\<exists>t2. set_months v t = Some (t2, e) \<and> length t2 = 2 \<and> bits_of t2 = {j. j + 1 \<in> bits_of t1}"
proof -
  obtain t2 where t2: "fold_option rotate_month [1..<13] t1 = Some t2" "length t2 = 2"
    "bits_of t2 = {j. j < 12 \<and> j + 1 \<in> bits_of t1} \<union> {j \<in> bits_of t1. 12 < j}"
    using rotate_months [OF assms(2,3), of 12] by auto
  have "bits_of t2 = {j. j + 1 \<in> bits_of t1}" using assms(3) t2(3) by auto
  moreover have "set_months v t = Some (t2, e)"
  proof -
    have "(12::nat) + 1 = 13"
      "replace_ordinals (to_upper v) MONTHS_ARR = Some (Some (ordinals_text MONTHS_ARR 0 (to_upper v)))"
      using assms(4) ordinals_safe(1) [of "to_upper v"] by (simp_all add: to_upper_def)
    then show ?thesis
      unfolding set_months_def Let_def by (simp only: assms(1) t2(1) bind.bind_lunit option.case prod.case)
  qed
  ultimately show ?thesis using t2(2) by blast
qed

lemma set_months_safe:
  assumes "length t = 2" "bits_of t = {}" "length v < 2 ^ 32"
  shows "sets_hits t 0 12 (set_months v t)"
proof -
  obtain t1 e where t1: "set_number_hits (ordinals_text MONTHS_ARR 0 (to_upper v)) t 1 13 = Some (t1, e)"
    "length t1 = 2" "bits_of t1 \<subseteq> {1..<13}" "e = None \<Longrightarrow> bits_of t1 \<inter> {1..<13} \<noteq> {}"
    using set_number_hits_safe [of 13 t 1 "ordinals_text MONTHS_ARR 0 (to_upper v)"] assms
    by (auto simp: sets_hits_def)
  obtain t2 where t2: "set_months v t = Some (t2, e)" "length t2 = 2" "bits_of t2 = {j. j + 1 \<in> bits_of t1}"
    using set_months_eq [OF t1(1-3) assms(3)] by blast
  have "bits_of t2 \<inter> {..<12} \<noteq> {}" if e: "e = None"
  proof -
    obtain j where "j \<in> bits_of t1 \<inter> {1..<13}" using t1(4) [OF e] by blast
    then show ?thesis using t2(3) by (intro ex_in_conv [THEN iffD1] exI [of _ "j - 1"]) auto
  qed
  moreover have "bits_of t2 \<subseteq> {..<12}" using t1(3) t2(3) by auto
  ultimately show ?thesis using t2(1,2) assms by (auto simp: sets_hits_def atLeast0LessThan)
qed

lemma set_days_of_week_eq:
  assumes "set_number_hits (ordinals_text DAYS_ARR 0 (to_upper (question_mark v))) t 0 8 = Some (t1, e)"
    "length t1 = 1" "length v < 2 ^ 32"
  shows "\<exists>t2. set_days_of_week v t = Some (t2, e) \<and> length t2 = 1
    \<and> bits_of t2 = (if 7 \<in> bits_of t1 then insert 0 (bits_of t1 - {7}) else bits_of t1)"
proof -
  have "length (to_upper (question_mark v)) < 2 ^ 32" using assms(3) by (simp add: to_upper_def question_mark_def)
  note r = ordinals_safe(2) [OF this]
  show ?thesis
  proof (cases "7 \<in> bits_of t1")
    case True
    obtain s1 s2 where "cron_set_bit t1 0 = Some s1" "cron_del_bit s1 7 = Some s2"
      "8 * length s2 = 8 * length t1" "bits_of s2 = insert 0 (bits_of t1 - {7})"
      using cron_bits.move_bit [of t1 7 0] assms(2) by auto
    then show ?thesis
      using True assms r cron_get_bit_eq [of 7 t1] by (simp add: set_days_of_week_def)
  qed (use assms r cron_get_bit_eq [of 7 t1] in \<open>simp add: set_days_of_week_def\<close>)
qed

lemma set_days_of_week_safe:
  assumes "length t = 1" "bits_of t = {}" "length v < 2 ^ 32"
  shows "sets_hits t 0 7 (set_days_of_week v t)"
proof -
  obtain t1 e where t1: "set_number_hits (ordinals_text DAYS_ARR 0 (to_upper (question_mark v))) t 0 8 = Some (t1, e)"
    "length t1 = 1" "bits_of t1 \<subseteq> {..<8}" "e = None \<Longrightarrow> bits_of t1 \<noteq> {}"
    using set_number_hits_safe [of 8 t 0 "ordinals_text DAYS_ARR 0 (to_upper (question_mark v))"] assms
    by (auto simp: sets_hits_def atLeast0LessThan)
  obtain t2 where t2: "set_days_of_week v t = Some (t2, e)" "length t2 = 1"
    "bits_of t2 = (if 7 \<in> bits_of t1 then insert 0 (bits_of t1 - {7}) else bits_of t1)"
    using set_days_of_week_eq [OF t1(1,2) assms(3)] by blast
  have "bits_of t2 \<subseteq> {..<7}" using t1(3) t2(3) by (auto simp: less_Suc_eq numeral_eq_Suc split: if_splits)
  moreover have "bits_of t2 \<noteq> {}" if "e = None" using t1(4) [OF that] t2(3) by auto
  ultimately show ?thesis using t2(1,2) assms by (auto simp: sets_hits_def atLeast0LessThan)
qed

subsection \<open>The expression\<close>

lemma tokens_length: "w \<in> List.set (tokens dl s) \<Longrightarrow> length w \<le> length s"
proof -
  have "w \<in> List.set (scan dl buf s) \<Longrightarrow> length w \<le> length buf + length s" for buf
    by (induction dl buf s rule: scan.induct) (fastforce split: if_splits)+
  from this [of "[]"] show "w \<in> List.set (tokens dl s) \<Longrightarrow> length w \<le> length s"
    by (simp add: scan_is_tokens)
qed

lemma bits_of_zero [simp]: "bits_of (replicate n 0) = {}"
  by (auto simp: bits_of_def)

text \<open>The part of \<open>wf_expr\<close> that holds whatever the outcome.\<close>

definition sized_expr :: "cron_expr \<Rightarrow> bool" where
  "sized_expr e \<longleftrightarrow>
     length (seconds e) = 8 \<and> length (minutes e) = 8 \<and> length (hours e) = 3
     \<and> length (days_of_week e) = 1 \<and> length (days_of_month e) = 4 \<and> length (months e) = 2"

lemma parse_six_safe:
  assumes "\<forall>w \<in> List.set fs. length w < 2 ^ 32" "length fs = 6"
  shows "\<exists>t e. parse_six fs zero_expr = Some (t, e) \<and> sized_expr t \<and> (e = None \<longrightarrow> wf_expr t)"
proof -
  have len: "length (fs ! i) < 2 ^ 32" if "i < 6" for i using assms that by simp
  have z: "bits_of (replicate n 0) = {}" for n by simp
  note z1 = z [of 1, simplified]
  obtain b0 e0 where f0: "set_number_hits (fs ! 0) (replicate 8 0) 0 60 = Some (b0, e0)" "length b0 = 8"
    "bits_of b0 \<subseteq> {..<60}" "e0 = None \<Longrightarrow> bits_of b0 \<noteq> {}"
    using set_number_hits_safe [of 60 "replicate 8 0" 0 "fs ! 0"] by (auto simp: sets_hits_def atLeast0LessThan)
  obtain b1 e1 where f1: "set_number_hits (fs ! 1) (replicate 8 0) 0 60 = Some (b1, e1)" "length b1 = 8"
    "bits_of b1 \<subseteq> {..<60}" "e1 = None \<Longrightarrow> bits_of b1 \<noteq> {}"
    using set_number_hits_safe [of 60 "replicate 8 0" 0 "fs ! 1"] by (auto simp: sets_hits_def atLeast0LessThan)
  obtain b2 e2 where f2: "set_number_hits (fs ! 2) (replicate 3 0) 0 24 = Some (b2, e2)" "length b2 = 3"
    "bits_of b2 \<subseteq> {..<24}" "e2 = None \<Longrightarrow> bits_of b2 \<noteq> {}"
    using set_number_hits_safe [of 24 "replicate 3 0" 0 "fs ! 2"] by (auto simp: sets_hits_def atLeast0LessThan)
  obtain b3 e3 where f3: "set_days_of_month (fs ! 3) (replicate 4 0) = Some (b3, e3)" "length b3 = 4"
    "bits_of b3 \<subseteq> {1..<32}" "e3 = None \<Longrightarrow> bits_of b3 \<noteq> {}"
    using set_number_hits_safe [of 32 "replicate 4 0" 1 "question_mark (fs ! 3)"]
    by (auto simp: sets_hits_def set_days_of_month_def)
  have "bits_of b3 \<subseteq> {1..31}" using f3(3) by auto
  note f3 = f3(1,2) this f3(4)
  obtain b4 e4 where f4: "set_months (fs ! 4) (replicate 2 0) = Some (b4, e4)" "length b4 = 2"
    "bits_of b4 \<subseteq> {..<12}" "e4 = None \<Longrightarrow> bits_of b4 \<noteq> {}"
    using set_months_safe [of "replicate 2 0" "fs ! 4"] len [of 4] by (auto simp: sets_hits_def atLeast0LessThan)
  obtain b5 e5 where f5: "set_days_of_week (fs ! 5) (replicate 1 0) = Some (b5, e5)" "length b5 = 1"
    "bits_of b5 \<subseteq> {..<7}" "e5 = None \<Longrightarrow> bits_of b5 \<noteq> {}"
    using set_days_of_week_safe [of "replicate 1 0" "fs ! 5"] len [of 5] z1 by (auto simp: sets_hits_def atLeast0LessThan)
  have "set_days_of_week (fs ! 5) [0] = Some (b5, e5)" using f5(1) by simp
  note f = f0(1) f1(1) [unfolded One_nat_def] f2(1) f3(1) f4(1) this
  note run = parse_six_def zero_expr_def Let_def f sized_expr_def
  consider "e0 \<noteq> None" | "e0 = None" "e1 \<noteq> None" | "e0 = None" "e1 = None" "e2 \<noteq> None"
    | "e0 = None" "e1 = None" "e2 = None" "e3 \<noteq> None"
    | "e0 = None" "e1 = None" "e2 = None" "e3 = None" "e4 \<noteq> None"
    | "e0 = None" "e1 = None" "e2 = None" "e3 = None" "e4 = None" by blast
  then show ?thesis
    by cases (use f0(2-) f1(2-) f2(2-) f3(2-) f4(2-) f5(2-) in \<open>simp_all add: run wf_expr_def\<close>, auto)
qed

text \<open>C4: The parser is safe on every input: for every string and every target it ends without an
  access outside a buffer; unless the target is left as it was, it has the sizes of the struct,
  and when no error is reported it is a well-formed expression.\<close>

theorem cron_parse_expr_safe:
  "\<exists>t e. cron_parse_expr (Some str) (Some targ) = Some (Some t, e) \<and> (t = targ \<or> sized_expr t)
     \<and> (e = None \<longrightarrow> wf_expr t)"
proof (cases "length str < 256 \<and> tokens CHR '' '' str \<noteq> [] \<and> length (tokens CHR '' '' str) = 6")
  case True
  have "\<forall>w \<in> List.set (tokens CHR '' '' str). length w < 2 ^ 32" using True tokens_length by fastforce
  then show ?thesis
    using parse_six_safe [of "tokens CHR '' '' str"] True by (auto simp: cron_parse_expr_def split_str_eq)
qed (auto simp: cron_parse_expr_def split_str_eq)

theorem cron_parse_expr_safe_witness:
  "\<exists>t. cron_parse_expr (Some ''0 30 12 15 * *'') (Some zero_expr) = Some (Some t, None) \<and> wf_expr t"
proof -
  have "cron_parse_expr (Some ''0 30 12 15 * *'') (Some zero_expr) = Some (Some mid_month, None)" by code_simp
  then show ?thesis using cron_parse_expr_safe [of "''0 30 12 15 * *''" zero_expr] by auto
qed

end
