(* ===== verification/Cron_Meaning.thy ===== *)
theory Cron_Meaning
  imports Cron_Parse_Correct
begin

section \<open>What a field means, and the canonical text of an expression\<close>

text \<open>
  \<open>item_denotes\<close> gives the items of a field (\<open>*\<close>, \<open>5\<close>, \<open>1-5\<close>, \<open>*/10\<close>, \<open>5/10\<close>, \<open>1-30/2\<close>) their
  sets of values, independently of the parser's code; \<open>set_number_hits\<close> sets exactly their
  union. \<open>print_expr\<close> writes an expression, and the parser reads it back.
\<close>

subsection \<open>Joined texts\<close>

fun join :: "char \<Rightarrow> string list \<Rightarrow> string" where
  "join dl [] = []"
| "join dl [w] = w"
| "join dl (w # ws) = w @ dl # join dl ws"

lemma split_on_append [simp]:
  "dl \<notin> List.set w \<Longrightarrow> split_on dl (w @ dl # s) = w # split_on dl s"
  "dl \<notin> List.set w \<Longrightarrow> split_on dl w = [w]"
  by (induction w) auto

definition word :: "char \<Rightarrow> string \<Rightarrow> bool" where
  "word dl w \<longleftrightarrow> w \<noteq> [] \<and> dl \<notin> List.set w \<and> (\<forall>c \<in> List.set w. \<not> isspace c)"

lemma tokens_append:
  "word dl w \<Longrightarrow> tokens dl (w @ dl # s) = w # tokens dl s"
  "word dl w \<Longrightarrow> tokens dl w = [w]"
  by (simp_all add: word_def tokens_def filter_id_conv)

lemma tokens_join: "\<forall>w \<in> List.set ws. word dl w \<Longrightarrow> tokens dl (join dl ws) = ws"
  by (induction dl ws rule: join.induct) (simp_all add: tokens_append, simp add: tokens_def)

lemma set_join: "List.set (join dl ws) \<subseteq> insert dl (\<Union>w \<in> List.set ws. List.set w)"
  by (induction dl ws rule: join.induct) auto

lemma length_join: "w \<in> List.set ws \<Longrightarrow> length w \<le> length (join dl ws)"
  by (induction dl ws rule: join.induct) auto

lemma split_str_two:
  assumes "word dl a" "word dl b" "length a + length b < 255"
  shows "split_str (a @ dl # b) dl = Some (Some [a, b])"
  using assms by (simp add: split_str_eq tokens_append)

subsection \<open>Items\<close>

definition plain :: "string \<Rightarrow> bool" where
  "plain s \<longleftrightarrow> s \<noteq> [] \<and> (\<forall>c \<in> List.set s. c \<notin> {CHR '','', CHR ''/'', CHR ''-''} \<and> \<not> isspace c)"

inductive range_denotes :: "nat \<Rightarrow> nat \<Rightarrow> string \<Rightarrow> nat \<Rightarrow> nat \<Rightarrow> bool" for mn mx where
  range_all: "mn < mx \<Longrightarrow> range_denotes mn mx ''*'' mn (mx - 1)"
| range_value: "plain s \<Longrightarrow> parse_uint s = Some v \<Longrightarrow> mn \<le> v \<Longrightarrow> v < mx \<Longrightarrow> range_denotes mn mx s v v"
| range_pair: "plain s \<Longrightarrow> plain t \<Longrightarrow> parse_uint s = Some v \<Longrightarrow> parse_uint t = Some w
    \<Longrightarrow> mn \<le> v \<Longrightarrow> v \<le> w \<Longrightarrow> w < mx \<Longrightarrow> range_denotes mn mx (s @ CHR ''-'' # t) v w"

inductive item_denotes :: "nat \<Rightarrow> nat \<Rightarrow> string \<Rightarrow> nat set \<Rightarrow> bool" for mn mx where
  item_range: "range_denotes mn mx s v w \<Longrightarrow> item_denotes mn mx s {v..w}"
| item_open: "range_denotes mn mx s v w \<Longrightarrow> CHR ''-'' \<notin> List.set s \<Longrightarrow> plain d \<Longrightarrow> parse_uint d = Some k \<Longrightarrow> 0 < k
    \<Longrightarrow> item_denotes mn mx (s @ CHR ''/'' # d) (step_set v (mx - 1) k)"
| item_step: "range_denotes mn mx s v w \<Longrightarrow> CHR ''-'' \<in> List.set s \<Longrightarrow> plain d \<Longrightarrow> parse_uint d = Some k \<Longrightarrow> 0 < k
    \<Longrightarrow> item_denotes mn mx (s @ CHR ''/'' # d) (step_set v w k)"

lemma isspace_separators [simp]:
  "\<not> isspace CHR '',''" "\<not> isspace CHR ''/''" "\<not> isspace CHR ''-''" "\<not> isspace CHR ''*''"
  "isspace CHR '' ''"
  by (simp_all add: isspace_def code_def)

lemma plain_star [simp]: "plain ''*''"
  by (simp add: plain_def)

lemma plain_word: "plain s \<Longrightarrow> dl \<in> {CHR '','', CHR ''/'', CHR ''-''} \<Longrightarrow> word dl s"
  by (simp add: plain_def word_def) blast

lemma word_append: "word dl s \<Longrightarrow> word dl t \<Longrightarrow> c \<noteq> dl \<Longrightarrow> \<not> isspace c \<Longrightarrow> word dl (s @ c # t)"
  by (auto simp: word_def)

lemma range_chars: "range_denotes mn mx s v w \<Longrightarrow> word CHR '','' s \<and> word CHR ''/'' s"
  by (induction rule: range_denotes.induct) (simp_all add: plain_word word_append)

lemma item_chars: "item_denotes mn mx s S \<Longrightarrow> word CHR '','' s"
  by (induction rule: item_denotes.induct) (simp_all add: range_chars plain_word word_append)

lemma get_range_denotes:
  "range_denotes mn mx s v w \<Longrightarrow> length s < 256 \<Longrightarrow> get_range s mn mx = Some (Inr (v, w))"
proof (induction rule: range_denotes.induct)
  case range_all
  then show ?case by (auto simp: get_range_def check_range_Inr)
next
  case (range_value s v)
  then have "CHR ''-'' \<notin> List.set s" by (auto simp: plain_def)
  moreover have "parse_uint ''*'' = None"
    by (simp add: parse_uint_def strtol_def strtol_sign_def is_digit_def digit_val_def code_def)
  then have "s \<noteq> ''*''" using range_value.hyps(2) by auto
  then have "\<not> (length s = 1 \<and> s ! 0 = CHR ''*'')" by (cases s) auto
  ultimately show ?case using range_value by (auto simp: get_range_def check_range_Inr)
next
  case (range_pair s t v w)
  have "s \<noteq> []" using range_pair.hyps(1) by (simp add: plain_def)
  then show ?case
    using range_pair split_str_two [of "CHR ''-''" s t]
    by (simp add: get_range_def check_range_Inr plain_word)
qed

lemma set_field_hits_denotes:
  assumes "item_denotes mn mx s S" "length s < 256" "mx \<le> 8 * length t" "length t \<le> 32"
  shows "\<exists>t'. set_field_hits s t mn mx = Some (t', None) \<and> length t' = length t \<and> bits_of t' = bits_of t \<union> S"
  using assms(1,2)
proof (induction rule: item_denotes.induct)
  case (item_range s v w)
  have r: "get_range s mn mx = Some (Inr (v, w))" using get_range_denotes item_range by blast
  moreover have "CHR ''/'' \<notin> List.set s" using range_chars [OF item_range.hyps] by (simp add: word_def)
  moreover have "w < mx" using get_range_bounds [OF r] by simp
  moreover obtain t' where "set_bits t (of_nat v) (of_nat w) (of_nat 1) = Some t'" "length t' = length t"
    "bits_of t' = bits_of t \<union> {v..w}"
    using set_bits_eq [of 1 w t v] get_range_bounds [OF r] assms(3,4) by auto
  ultimately show ?case by (simp add: set_field_hits_def)
next
  case (item_open s v w d k)
  have r: "get_range s mn mx = Some (Inr (v, w))" using get_range_denotes item_open by auto
  obtain m where m: "mx = Suc m" using get_range_bounds [OF r] by (cases mx) simp_all
  obtain t' where "set_bits t (of_nat v) (of_nat m) (of_nat k) = Some t'" "length t' = length t"
    "bits_of t' = bits_of t \<union> step_set v m k"
    using set_bits_eq [of k m t v] m get_range_bounds [OF r] parse_uint_less [OF item_open.hyps(4)]
      item_open.hyps(5) assms(3,4) by auto
  then show ?case
    using r item_open split_str_two [of "CHR ''/''" s d] range_chars [OF item_open.hyps(1)]
    by (simp add: set_field_hits_def plain_word m)
next
  case (item_step s v w d k)
  have r: "get_range s mn mx = Some (Inr (v, w))" using get_range_denotes item_step by auto
  moreover obtain t' where "set_bits t (of_nat v) (of_nat w) (of_nat k) = Some t'" "length t' = length t"
    "bits_of t' = bits_of t \<union> step_set v w k"
    using set_bits_eq [of k w t v] get_range_bounds [OF r] parse_uint_less [OF item_step.hyps(4)]
      item_step.hyps(5) assms(3,4) by auto
  ultimately show ?case
    using item_step split_str_two [of "CHR ''/''" s d] range_chars [OF item_step.hyps(1)]
    by (simp add: set_field_hits_def plain_word)
qed

lemma set_fields_hits_denotes:
  assumes "list_all2 (item_denotes mn mx) fs Ss" "\<forall>f \<in> List.set fs. length f < 256"
    "mx \<le> 8 * length t" "length t \<le> 32"
  shows "\<exists>t'. set_fields_hits fs t mn mx = Some (t', None) \<and> length t' = length t
    \<and> bits_of t' = bits_of t \<union> \<Union> (List.set Ss)"
  using assms
proof (induction fs Ss arbitrary: t rule: list_all2_induct)
  case (Cons f fs S Ss)
  obtain t1 where t1: "set_field_hits f t mn mx = Some (t1, None)" "length t1 = length t" "bits_of t1 = bits_of t \<union> S"
    using set_field_hits_denotes [OF Cons.hyps(1), of t] Cons.prems by auto
  then obtain t2 where "set_fields_hits fs t1 mn mx = Some (t2, None)" "length t2 = length t1"
    "bits_of t2 = bits_of t1 \<union> \<Union> (List.set Ss)"
    using Cons.IH [of t1] Cons.prems by auto
  with t1 show ?case by auto
qed simp

text \<open>C10: A field that is a comma-separated list of items, each denoting a set of values, sets exactly
  the union of these values and reports no error. The list is not empty, its text is shorter than 256
  characters, and the array has the bits for the values and at most 32 bytes.\<close>

theorem set_number_hits_denotes:
  assumes "list_all2 (item_denotes mn mx) fs Ss" "fs \<noteq> []" "length (join CHR '','' fs) < 256"
    "mx \<le> 8 * length t" "length t \<le> 32"
  shows "\<exists>t'. set_number_hits (join CHR '','' fs) t mn mx = Some (t', None) \<and> length t' = length t
    \<and> bits_of t' = bits_of t \<union> \<Union> (List.set Ss)"
proof -
  have w: "\<forall>f \<in> List.set fs. word CHR '','' f"
    using assms(1) item_chars by (metis in_set_conv_nth list_all2_conv_all_nth)
  have "\<forall>f \<in> List.set fs. length f < 256" using length_join assms(3) by (meson le_less_trans)
  then show ?thesis
    using set_fields_hits_denotes [OF assms(1) _ assms(4,5)] assms(2,3) tokens_join [OF w]
    by (simp add: set_number_hits_def split_str_eq)
qed

theorem set_number_hits_denotes_witness:
  "\<exists>t'. set_number_hits (join CHR '','' [''5'', ''1-3'', ''*/20'']) (replicate 8 0) 0 60 = Some (t', None)
    \<and> length t' = length (replicate 8 0 :: u8 list)
    \<and> bits_of t' = bits_of (replicate 8 0) \<union> \<Union> (List.set [{5..5}, {1..3}, step_set 0 (60 - 1) 20])"
proof (rule set_number_hits_denotes)
  have p: "plain ''5''" "plain ''1''" "plain ''3''" "plain ''20''" by code_simp+
  have v: "parse_uint ''5'' = Some 5" "parse_uint ''1'' = Some 1" "parse_uint ''3'' = Some 3"
    "parse_uint ''20'' = Some 20" by code_simp+
  have "item_denotes 0 60 ''5'' {5..5}" by (rule item_range, rule range_value) (simp_all add: p v)
  moreover have "item_denotes 0 60 (''1'' @ CHR ''-'' # ''3'') {1..3}"
    by (rule item_range, rule range_pair) (simp_all add: p v)
  moreover have "item_denotes 0 60 (''*'' @ CHR ''/'' # ''20'') (step_set 0 (60 - 1) 20)"
    by (rule item_open, rule range_all) (simp_all add: p v)
  ultimately show "list_all2 (item_denotes 0 60) [''5'', ''1-3'', ''*/20''] [{5..5}, {1..3}, step_set 0 (60 - 1) 20]"
    by simp
qed simp_all

subsection \<open>The canonical text\<close>

definition print_set :: "nat set \<Rightarrow> nat set \<Rightarrow> string" where
  "print_set full S = (if S = full then ''*'' else join CHR '','' (map dec_nat (sorted_list_of_set S)))"

definition print_expr :: "cron_expr \<Rightarrow> string" where
  "print_expr e = join CHR '' ''
     [print_set {0..<60} (bits_of (seconds e)), print_set {0..<60} (bits_of (minutes e)),
      print_set {0..<24} (bits_of (hours e)), print_set {1..<32} (bits_of (days_of_month e)),
      print_set {1..<13} (Suc ` bits_of (months e)), print_set {0..<7} (bits_of (days_of_week e))]"

lemma parse_uint_dec: "n < 2 ^ 31 \<Longrightarrow> parse_uint (dec_nat n) = Some n"
  using strtol_dec [of n] by (simp add: parse_uint_def)

lemma plain_dec: "plain (dec_nat n)"
proof -
  have "c \<notin> {CHR '','', CHR ''/'', CHR ''-''} \<and> \<not> isspace c" if "c \<in> List.set (dec_nat n)" for c
    using dec_nat_code [OF that] by (auto simp: isspace_def code_def)
  then show ?thesis by (simp add: plain_def)
qed

text \<open>The characters of a printed set: neither letters nor white space.\<close>

lemma print_set_chars:
  assumes "c \<in> List.set (print_set full S)"
  shows "code c < 63 \<and> \<not> isspace c"
proof -
  have "c \<in> {CHR ''*'', CHR '',''} \<or> (\<exists>n. c \<in> List.set (dec_nat n))"
    using assms set_join [of "CHR '',''" "map dec_nat (sorted_list_of_set S)"]
    by (auto simp: print_set_def split: if_splits)
  then show ?thesis
  proof
    assume "\<exists>n. c \<in> List.set (dec_nat n)"
    then obtain n where "c \<in> List.set (dec_nat n)" ..
    from dec_nat_code [OF this] show ?thesis by (simp add: isspace_def)
  qed (auto simp: isspace_def code_def)
qed

lemma print_set_hits:
  assumes "S \<noteq> {}" "S \<subseteq> {mn..<mx'}" "mx' \<le> mx" "length (print_set {mn..<mx'} S) < 256"
    "mx \<le> 8 * length t" "length t \<le> 32" "bits_of t = {}"
  shows "\<exists>t'. set_number_hits (print_set {mn..<mx'} S) t mn mx = Some (t', None) \<and> length t' = length t
    \<and> bits_of t' = (if S = {mn..<mx'} then {mn..<mx} else S)"
proof (cases "S = {mn..<mx'}")
  case True
  then have "mn < mx" using assms(1,3) by auto
  then have "list_all2 (item_denotes mn mx) [''*''] [{mn..mx - 1}]" using item_range [OF range_all] by simp
  moreover have "{mn..mx - 1} = {mn..<mx}" using \<open>mn < mx\<close> by auto
  ultimately show ?thesis
    using set_number_hits_denotes [of mn mx "[''*'']" "[{mn..mx - 1}]" t] assms True by (simp add: print_set_def)
next
  case False
  define xs where "xs = sorted_list_of_set S"
  have fin: "finite S" using assms(2) finite_subset by blast
  then have xs: "List.set xs = S" "xs \<noteq> []" using assms(1) by (simp_all add: xs_def sorted_list_of_set_eq_Nil_iff)
  have small: "mx < 2 ^ 31" using assms(5,6) by simp
  have "item_denotes mn mx (dec_nat v) {v..v}" if "v \<in> List.set xs" for v
  proof -
    have "mn \<le> v" "v < mx" using that assms(2,3) xs(1) by auto
    then show ?thesis using small by (intro item_range range_value plain_dec parse_uint_dec) auto
  qed
  then have "list_all2 (item_denotes mn mx) (map dec_nat xs) (map (\<lambda>v. {v..v}) xs)"
    by (auto simp: list_all2_conv_all_nth)
  then show ?thesis
    using set_number_hits_denotes [of mn mx "map dec_nat xs" "map (\<lambda>v. {v..v}) xs" t] assms xs False
    by (simp add: print_set_def xs_def [symmetric])
qed

text \<open>A printed set is not changed on the way to \<open>set_number_hits\<close>.\<close>

lemma print_set_not_Nil: "S \<noteq> {} \<Longrightarrow> finite S \<Longrightarrow> print_set full S \<noteq> []"
proof -
  assume "S \<noteq> {}" "finite S"
  then obtain n where "dec_nat n \<in> List.set (map dec_nat (sorted_list_of_set S))" by fastforce
  then have "length (dec_nat n) \<le> length (join CHR '','' (map dec_nat (sorted_list_of_set S)))" by (rule length_join)
  then show ?thesis using dec_nat_not_Nil [of n] by (auto simp: print_set_def)
qed

lemma print_set_word: "S \<noteq> {} \<Longrightarrow> finite S \<Longrightarrow> word CHR '' '' (print_set full S)"
  using print_set_chars [of _ full S] isspace_separators(5) print_set_not_Nil [of S full]
  unfolding word_def by blast

lemma strstr_absent: "p \<noteq> [] \<Longrightarrow> hd p \<notin> List.set s \<Longrightarrow> strstr s p = None"
  by (induction s) (auto simp: starts_with_def neq_Nil_conv)

lemma ordinals_text_absent: "\<forall>a \<in> List.set arr. a \<noteq> [] \<and> hd a \<notin> List.set s \<Longrightarrow> ordinals_text arr i s = s"
proof (induction arr arbitrary: i)
  case (Cons a arr)
  then have "replace_all a (dec i) s = s" by (subst replace_all.simps) (simp add: strstr_absent)
  then show ?case using Cons by simp
qed simp

lemma print_set_ordinals:
  "ordinals_text MONTHS_ARR 0 (to_upper (print_set full S)) = print_set full S"
  "ordinals_text DAYS_ARR 0 (to_upper (print_set full S)) = print_set full S"
proof -
  have c: "toupper c = c \<and> code c < 65" if "c \<in> List.set (print_set full S)" for c
    using print_set_chars [OF that] by (simp add: toupper_def)
  then have u: "to_upper (print_set full S) = print_set full S" by (simp add: to_upper_def map_idI)
  have "\<forall>a \<in> List.set MONTHS_ARR \<union> List.set DAYS_ARR. a \<noteq> [] \<and> 65 \<le> code (hd a)"
    by (simp add: MONTHS_ARR_def DAYS_ARR_def code_def)
  then have "\<forall>a \<in> List.set MONTHS_ARR \<union> List.set DAYS_ARR. a \<noteq> [] \<and> hd a \<notin> List.set (print_set full S)"
    using c by (metis not_le)
  then show "ordinals_text MONTHS_ARR 0 (to_upper (print_set full S)) = print_set full S"
    "ordinals_text DAYS_ARR 0 (to_upper (print_set full S)) = print_set full S"
    unfolding u by (intro ordinals_text_absent; simp)+
qed

lemma print_set_question: "question_mark (print_set full S) = print_set full S"
  using print_set_chars [of "CHR ''?''" full S]
  by (cases "print_set full S") (auto simp: question_mark_def code_def)

lemma bits_of_inject:
  assumes "length a = length b" "bits_of a = bits_of b"
  shows "a = b"
proof (rule nth_equalityI [OF assms(1)])
  fix i assume i: "i < length a"
  show "a ! i = b ! i"
  proof (rule bit_word_eqI)
    fix n assume n: "n < LENGTH(8)"
    have "(8 * i + n) div 8 = i" "(8 * i + n) mod 8 = n" "8 * i + n < 8 * length a"
      using i n by simp_all
    then have "8 * i + n \<in> bits_of a \<longleftrightarrow> bit (a ! i) n" "8 * i + n \<in> bits_of b \<longleftrightarrow> bit (b ! i) n"
      using assms(1) by (simp_all add: bits_of_def)
    then show "bit (a ! i) n \<longleftrightarrow> bit (b ! i) n" using assms(2) by simp
  qed
qed

text \<open>One field of the expression: the printed set sets exactly the bits of \<open>b\<close>.\<close>

lemma print_field:
  assumes "bits_of b \<noteq> {}" "bits_of b \<subseteq> {mn..<mx}" "length (print_set {mn..<mx} (bits_of b)) < 256"
    "mx \<le> 8 * length b" "length b \<le> 32"
  shows "set_number_hits (print_set {mn..<mx} (bits_of b)) (replicate (length b) 0) mn mx = Some (b, None)"
proof -
  obtain t' where "set_number_hits (print_set {mn..<mx} (bits_of b)) (replicate (length b) 0) mn mx = Some (t', None)"
    "length t' = length b" "bits_of t' = bits_of b"
    using print_set_hits [OF assms(1,2) le_refl assms(3), of "replicate (length b) 0"] assms(4,5)
    by (auto split: if_splits)
  then show ?thesis using bits_of_inject [of t' b] by simp
qed

lemma print_months:
  assumes "bits_of b \<noteq> {}" "bits_of b \<subseteq> {..<12}" "length (print_set {1..<13} (Suc ` bits_of b)) < 256" "length b = 2"
  shows "set_months (print_set {1..<13} (Suc ` bits_of b)) (replicate 2 0) = Some (b, None)"
proof -
  have S: "Suc ` bits_of b \<noteq> {}" "Suc ` bits_of b \<subseteq> {1..<13}" using assms(1,2) by auto
  obtain t1 where t1: "set_number_hits (print_set {1..<13} (Suc ` bits_of b)) (replicate 2 0) 1 13 = Some (t1, None)"
    "length t1 = 2" "bits_of t1 = Suc ` bits_of b"
    using print_set_hits [OF S le_refl assms(3), of "replicate 2 0"] by (auto split: if_splits)
  obtain t2 where "set_months (print_set {1..<13} (Suc ` bits_of b)) (replicate 2 0) = Some (t2, None)"
    "length t2 = 2" "bits_of t2 = {j. j + 1 \<in> bits_of t1}"
    using set_months_eq [of "print_set {1..<13} (Suc ` bits_of b)" "replicate 2 0" t1 None] t1 S(2) assms(3)
    by (auto simp: print_set_ordinals)
  moreover have "{j. j + 1 \<in> bits_of t1} = bits_of b" using t1(3) by auto
  ultimately show ?thesis using bits_of_inject [of t2 b] assms(4) by simp
qed

lemma print_days_of_week:
  assumes "bits_of b \<noteq> {}" "bits_of b \<subseteq> {..<7}" "length (print_set {0..<7} (bits_of b)) < 256" "length b = 1"
  shows "set_days_of_week (print_set {0..<7} (bits_of b)) (replicate 1 0) = Some (b, None)"
proof -
  obtain t1 where t1: "set_number_hits (print_set {0..<7} (bits_of b)) (replicate 1 0) 0 8 = Some (t1, None)"
    "length t1 = 1" "bits_of t1 = (if bits_of b = {0..<7} then {0..<8} else bits_of b)"
    using print_set_hits [OF assms(1) _ _ assms(3), of 8 "replicate 1 0"] assms(2) bits_of_zero [of 1]
    by (auto simp: atLeast0LessThan)
  obtain t2 where "set_days_of_week (print_set {0..<7} (bits_of b)) (replicate 1 0) = Some (t2, None)"
    "length t2 = 1" "bits_of t2 = (if 7 \<in> bits_of t1 then insert 0 (bits_of t1 - {7}) else bits_of t1)"
    using set_days_of_week_eq [of "print_set {0..<7} (bits_of b)" "replicate 1 0" t1 None] t1 assms(3)
    by (auto simp: print_set_ordinals print_set_question)
  moreover have "(if 7 \<in> bits_of t1 then insert 0 (bits_of t1 - {7}) else bits_of t1) = bits_of b"
    using t1(3) assms(2) by auto
  ultimately show ?thesis using bits_of_inject [of t2 b] assms(4) by simp
qed

lemma parse_printed:
  assumes "wf_expr e" "length (print_expr e) < 256"
  shows "cron_parse_expr (Some (print_expr e)) (Some targ) = Some (Some e, None)"
proof -
  define fs where "fs = [print_set {0..<60} (bits_of (seconds e)), print_set {0..<60} (bits_of (minutes e)),
      print_set {0..<24} (bits_of (hours e)), print_set {1..<32} (bits_of (days_of_month e)),
      print_set {1..<13} (Suc ` bits_of (months e)), print_set {0..<7} (bits_of (days_of_week e))]"
  note wf = assms(1) [unfolded wf_expr_def]
  have len: "length w < 256" if "w \<in> List.set fs" for w
    using length_join [OF that, of "CHR '' ''"] assms(2) by (simp add: print_expr_def fs_def)
  have fin: "finite (bits_of b)" for b by (rule finite_subset [of _ "{..<8 * length b}"]) (auto simp: bits_of_def)
  have "word CHR '' '' w" if "w \<in> List.set fs" for w
    using that wf fin by (auto simp: fs_def intro!: print_set_word)
  then have tokens: "tokens CHR '' '' (print_expr e) = fs"
    unfolding print_expr_def fs_def [symmetric] by (intro tokens_join) blast
  have "bits_of (days_of_month e) \<subseteq> {1..<32}" using wf by fastforce
  then have f: "set_number_hits (fs ! 0) (replicate 8 0) 0 60 = Some (seconds e, None)"
    "set_number_hits (fs ! 1) (replicate 8 0) 0 60 = Some (minutes e, None)"
    "set_number_hits (fs ! 2) (replicate 3 0) 0 24 = Some (hours e, None)"
    "set_number_hits (fs ! 3) (replicate 4 0) 1 32 = Some (days_of_month e, None)"
    using print_field [of "seconds e" 0 60] print_field [of "minutes e" 0 60] print_field [of "hours e" 0 24]
      print_field [of "days_of_month e" 1 32] wf len [of "fs ! 0"] len [of "fs ! 1"] len [of "fs ! 2"] len [of "fs ! 3"]
    by (simp_all add: fs_def atLeast0LessThan)
  have g: "set_days_of_month (fs ! 3) (replicate 4 0) = Some (days_of_month e, None)"
    "set_months (fs ! 4) (replicate 2 0) = Some (months e, None)"
    "set_days_of_week (fs ! 5) (replicate 1 0) = Some (days_of_week e, None)"
    using f(4) print_months [of "months e"] print_days_of_week [of "days_of_week e"] wf len [of "fs ! 4"] len [of "fs ! 5"]
    by (simp_all add: fs_def set_days_of_month_def print_set_question)
  have "parse_six fs zero_expr = Some (e, None)"
    using f(1-3) g by (simp add: parse_six_def zero_expr_def Let_def)
  then show ?thesis
    using tokens assms(2) by (simp add: cron_parse_expr_def split_str_eq fs_def)
qed

text \<open>C3: Round trip: a well-formed expression whose canonical text fits into the 255 characters the
  parser accepts is read back exactly, whatever the target held before.\<close>

theorem cron_parse_print:
  assumes "wf_expr e" "length (print_expr e) < 256"
  shows "cron_parse_expr (Some (print_expr e)) (Some targ) = Some (Some e, None)"
  using assms by (rule parse_printed)

theorem cron_parse_print_witness:
  "cron_parse_expr (Some (print_expr mid_month)) (Some zero_expr) = Some (Some mid_month, None)"
proof (rule cron_parse_print)
  show "wf_expr mid_month" by code_simp
  have "print_expr mid_month = ''0 30 12 15 * *''" by code_simp
  then show "length (print_expr mid_month) < 256" by simp
qed

end
