(* ===== verification/Cron_Tool_Last.thy ===== *)
theory Cron_Tool_Last
  imports Cron_Parse Cron_Prev
begin

section \<open>The program cron_last_epoch_time_this_line_was_supposedly_executed\<close>

text \<open>
  The command-line tool for the previous execution of a crontab line. A C string is read at an
  index up to its terminator; a read behind it, a write behind the end of an allocated block, a
  null pointer followed and a function that ends without its return value are \<open>None\<close>. The state
  of the host is the clock \<open>now\<close> and the time functions of \<open>platform\<close>.
\<close>

subsection \<open>Reading a C string\<close>

definition char_at :: "string \<Rightarrow> nat \<Rightarrow> char option" where
  "char_at s i = (if i < length s then Some (s ! i) else if i = length s then Some (CHR 0x00) else None)"

text \<open>The C string at the start of a buffer.\<close>

definition c_str :: "char list \<Rightarrow> string" where
  "c_str buf = takeWhile (\<lambda>c. c \<noteq> CHR 0x00) buf"

definition chars_at :: "string \<Rightarrow> nat list \<Rightarrow> string option" where
  "chars_at s is = fold_option (\<lambda>i acc. map_option (\<lambda>c. acc @ [c]) (char_at s i)) is []"

subsection \<open>Word boundaries\<close>

text \<open>The loops over \<open>string[pos]\<close>: up to a blank or the end, and over blanks.\<close>

function skip_word :: "string \<Rightarrow> nat \<Rightarrow> nat" where
  "skip_word s pos = (if pos < length s \<and> s ! pos \<noteq> CHR '' '' then skip_word s (pos + 1) else pos)"
  by pat_completeness auto
termination by (relation "measure (\<lambda>(s, pos). length s - pos)") auto

function skip_blanks :: "string \<Rightarrow> nat \<Rightarrow> nat" where
  "skip_blanks s pos = (if pos < length s \<and> s ! pos = CHR '' '' then skip_blanks s (pos + 1) else pos)"
  by pat_completeness auto
termination by (relation "measure (\<lambda>(s, pos). length s - pos)") auto

declare skip_word.simps [simp del] skip_blanks.simps [simp del]

definition position_of_beginning_of_next_word_boundary :: "string \<Rightarrow> nat \<Rightarrow> int option" where
  "position_of_beginning_of_next_word_boundary s initial_pos =
     (if initial_pos > length s then None
      else (let pos = skip_word s initial_pos in
            if pos = length s then Some (- 1) else Some (int (skip_blanks s pos))))"

definition position_of_end_of_next_word_boundary :: "string \<Rightarrow> nat \<Rightarrow> nat option" where
  "position_of_end_of_next_word_boundary s initial_pos =
     (if initial_pos > length s then None else Some (skip_word s initial_pos))"

subsection \<open>Dates\<close>

text \<open>\<open>*localtime(&t)\<close>, or \<open>*gmtime(&t)\<close> without \<open>CRON_USE_LOCAL_TIME\<close>.\<close>

definition broken_down :: "platform \<Rightarrow> time_t \<Rightarrow> tm option" where
  "broken_down pf t = (if pf_use_local_time pf then lc_localtime (pf_libc pf) t else gmtime_r t)"

text \<open>The characters \<open>is\<close> of the string, copied to \<open>tmp_element\<close> and read by \<open>atoi\<close>.\<close>

definition atoi_at :: "string \<Rightarrow> nat list \<Rightarrow> int option" where
  "atoi_at s is = map_option (\<lambda>buf. atoi (c_str buf)) (chars_at s is)"

definition try_to_parse_string_by_iso8601 :: "platform \<Rightarrow> time_t \<Rightarrow> string \<Rightarrow> tm \<Rightarrow> (int \<times> tm) option" where
  "try_to_parse_string_by_iso8601 pf now s ts =
     (let time_delimiter_pos = (case strchr s CHR '' '' of None \<Rightarrow> strchr s CHR ''T'' | Some i \<Rightarrow> Some i) in
      case time_delimiter_pos of
        None \<Rightarrow> Some (- 1, ts)
      | Some idx \<Rightarrow>
          if (idx = 8 \<or> idx = 10) \<and> int (length s) - int idx \<ge> 4 then
            (let off = (if idx = 10 then 1 else 0 :: nat) in
             do { year \<leftarrow> atoi_at s [0, 1, 2, 3];
                  month \<leftarrow> atoi_at s [4 + off, 5 + off];
                  day \<leftarrow> atoi_at s [6 + off * 2, 7 + off * 2];
                  hour \<leftarrow> atoi_at s [9 + off * 2, 10 + off * 2];
                  colon \<leftarrow> char_at s (11 + off * 2);
                  minute \<leftarrow> (if colon = CHR '':'' then atoi_at s [12 + off * 2, 13 + off * 2]
                            else atoi_at s [11 + off * 2, 12 + off * 2]);
                  if year \<ge> 1900 \<and> year \<le> 2038 \<and> month \<ge> 1 \<and> month \<le> 12 \<and> day \<ge> 1 \<and> day \<le> 31
                     \<and> hour \<ge> 0 \<and> hour \<le> 23
                  then do { current_time \<leftarrow> broken_down pf now;
                            Some (1, ts\<lparr>tm_gmtoff := tm_gmtoff current_time, tm_zone := tm_zone current_time,
                              tm_isdst := tm_isdst current_time, tm_year := year - 1900, tm_mon := month - 1,
                              tm_mday := day, tm_hour := hour, tm_min := minute, tm_sec := 0\<rparr>) }
                  else Some (0, ts) })
          else None)"

text \<open>\<open>(time_t) atof(s)\<close> for a number without fraction and exponent of at most 15 digits, which
  a \<open>double\<close> represents exactly; \<open>None\<close> for other numbers, and for the words for infinity and NaN.\<close>

definition time_of_atof :: "string \<Rightarrow> time_t option" where
  "time_of_atof str =
     (let (neg, s) = strtol_sign (dropWhile isspace str);
          ds = takeWhile (is_digit 10) s;
          rest = dropWhile (is_digit 10) s
      in if length ds > 15 \<or> (rest \<noteq> [] \<and> hd rest \<in> List.set ''.eExXiInN'') then None
         else Some (if neg then - int (digits_value 10 ds) else int (digits_value 10 ds)))"

subsection \<open>The crontab line\<close>

text \<open>The loop over the six word boundaries: \<open>exit(1)\<close> is the inner \<open>None\<close>, otherwise
  \<open>beginning_of_next_word_boundary\<close> and \<open>last_word_boundary_pos\<close>.\<close>

fun word_loop :: "string \<Rightarrow> nat list \<Rightarrow> int \<Rightarrow> nat \<Rightarrow> nat \<Rightarrow> (int \<times> nat) option option" where
  "word_loop s [] beginning last_pos pos = Some (Some (beginning, last_pos))"
| "word_loop s (i # is) beginning last_pos pos =
     do { b \<leftarrow> position_of_beginning_of_next_word_boundary s pos;
          if b \<noteq> - 1 then word_loop s is b pos (nat b)
          else if i < 5 then Some None
          else word_loop s is b last_pos pos }"

text \<open>The schedule with the seconds field and the rest of the line (\<open>None\<close>: no rest), in blocks of
  1000 characters. The inner \<open>None\<close> is \<open>exit(1)\<close>.\<close>

definition split_line :: "string \<Rightarrow> (string \<times> string option) option option" where
  "split_line arg =
     (let schedule = ''0 '' @ arg in
      if length schedule + 1 > 1000 then None
      else do { r \<leftarrow> word_loop schedule [0..<6] 0 0 0;
                case r of
                  None \<Rightarrow> Some None
                | Some (beginning, last_pos) \<Rightarrow>
                    if beginning \<noteq> - 1 then
                      do { e \<leftarrow> position_of_end_of_next_word_boundary schedule last_pos;
                           if e + 1 > length schedule then None
                           else Some (Some (take e schedule, Some (drop (e + 1) schedule))) }
                    else Some (Some (schedule, None)) })"

subsection \<open>The start time\<close>

text \<open>The current time without its seconds.\<close>

definition now_in_minutes :: "platform \<Rightarrow> time_t \<Rightarrow> int \<Rightarrow> time_t option" where
  "now_in_minutes pf now daylight_savings =
     do { ts \<leftarrow> broken_down pf now;
          Some (snd (lc_mktime (pf_libc pf) (ts\<lparr>tm_sec := 0, tm_isdst := daylight_savings\<rparr>))) }"

text \<open>The start time, and whether to print an ISO 8601 date; \<open>ts0\<close> is what the uninitialised
  \<open>ts\<close> holds.\<close>

definition start_time ::
    "platform \<Rightarrow> time_t \<Rightarrow> int \<Rightarrow> tm \<Rightarrow> string option \<Rightarrow> (time_t \<times> bool) option" where
  "start_time pf now daylight_savings ts0 arg =
     (case arg of
        None \<Rightarrow> map_option (\<lambda>cur. (cur, False)) (now_in_minutes pf now daylight_savings)
      | Some s \<Rightarrow>
          do { (r, ts) \<leftarrow> try_to_parse_string_by_iso8601 pf now s ts0;
               if r = - 1 then map_option (\<lambda>cur. (cur, False)) (time_of_atof s)
               else if r = 0 then map_option (\<lambda>cur. (cur, True)) (now_in_minutes pf now daylight_savings)
               else Some (snd (lc_mktime (pf_libc pf) ts), True) })"

subsection \<open>Output\<close>

text \<open>What the process does: the text it prints and its exit status.\<close>

record outcome =
  out_text :: string
  out_status :: nat

definition newline :: string where
  "newline = [CHR 0x0A]"

definition pad2 :: "int \<Rightarrow> string" where
  "pad2 n = (if 0 \<le> n \<and> n < 10 then CHR ''0'' # dec n else dec n)"

text \<open>\<open>strftime\<close> with \<open>%FT%H:%M:00\<close>, for years of four digits.\<close>

definition iso_text :: "tm \<Rightarrow> string" where
  "iso_text ts = dec (tm_year ts + 1900) @ ''-'' @ pad2 (tm_mon ts + 1) @ ''-'' @ pad2 (tm_mday ts) @ ''T''
     @ pad2 (tm_hour ts) @ '':'' @ pad2 (tm_min ts) @ '':00''"

definition result_text :: "bool \<Rightarrow> time_t \<Rightarrow> tm \<Rightarrow> string option \<Rightarrow> string" where
  "result_text isofmt t ts disposition =
     (if isofmt then iso_text ts else dec t)
       @ (case disposition of None \<Rightarrow> [] | Some d \<Rightarrow> '' '' @ d) @ newline"

definition help_text :: "string list" where
  "help_text = [
     '''',
     ''     This program outputs to stdio the epoch time at which a given user'',
     ''     crontab expression was supposedly last executed, in addition to'',
     ''     the disposition element of the cron expression, if present.  The'',
     ''     expression should be comprised of one line from a user crontab'',
     ''     delimited by double quotes, passed as an argument.  Optionally, a'',
     ''     second argument may be supplied specifying the epoch time from'',
     ''     which to start.  BTW user crontab expressions dont have seconds fields.'',
     ''     Also, if the starting time is a malformed iso8601 datetime, such as'',
     ''     9999-99-99T99:99, then current time is assumed, but the prev time'',
     ''     outputted to stdio will be in iso8601 format.'',
     ''     All times are local, not GMT'',
     '''',
     ''     Example:'',
     ''        ./cron_last_epoch_time_this_line_was_supposedly_executed '' @ [CHR 0x22] @
       ''0 22 * * mon,tue,wed,thu,fri disable_wifi.sh'' @ [CHR 0x22] @ '' 1569016800'',
     ''        This outputs: 1568948400 disable_wifi.sh'',
     '''',
     ''        ./cron_last_epoch_time_this_line_was_supposedly_executed '' @ [CHR 0x22] @
       ''0 22 * * mon,tue,wed,thu,fri disable_wifi.sh'' @ [CHR 0x22] @ '' 2019-02-08T12:11'',
     ''        This outputs: 2019-02-07T21:00:00 disable_wifi.sh'']"

definition usage_text :: string where
  "usage_text = ''A single cron expression is required: one line from a user crontab delimited by double quotes.  '' @
     ''Optionally, a second argument may be supplied specifying the epoch time from which to start.'' @ newline @
     ''For help see the -h option.'' @ newline"

subsection \<open>main\<close>

definition asks_for_help :: "string list \<Rightarrow> bool" where
  "asks_for_help argv \<longleftrightarrow> length argv = 2 \<and> argv ! 1 \<noteq> [] \<and> argv ! 1 ! 0 \<in> {CHR ''-'', CHR ''h''}"

text \<open>The errors of \<open>cron_parse_expr\<close> are not looked at: the target is used as it is.\<close>

definition main_last :: "platform \<Rightarrow> nat \<Rightarrow> time_t \<Rightarrow> tm \<Rightarrow> string list \<Rightarrow> outcome option" where
  "main_last pf fuel now ts0 argv =
     do { current_time \<leftarrow> broken_down pf now;
          let daylight_savings = tm_isdst current_time;
          if asks_for_help argv then Some \<lparr>out_text = concat (map (\<lambda>l. l @ newline) help_text), out_status = 0\<rparr>
          else if length argv = 2 \<or> length argv = 3 then
            do { line \<leftarrow> split_line (argv ! 1);
                 case line of
                   None \<Rightarrow> Some \<lparr>out_text = [], out_status = 1\<rparr>
                 | Some (schedule, disposition) \<Rightarrow>
                     do { (cur, isofmt) \<leftarrow> start_time pf now daylight_savings ts0
                            (if length argv = 3 then Some (argv ! 2) else None);
                          (target, err) \<leftarrow> cron_parse_expr (Some schedule) (Some zero_expr);
                          prev \<leftarrow> cron_prev pf fuel (the target) cur;
                          ts \<leftarrow> broken_down pf prev;
                          Some \<lparr>out_text = result_text isofmt prev ts disposition, out_status = 0\<rparr> } }
          else Some \<lparr>out_text = usage_text, out_status = 1\<rparr> }"

end
