(* ===== verification/Cron_Tool_Next.thy ===== *)
theory Cron_Tool_Next
  imports Cron_Tool_Last Cron_Next
begin

section \<open>The program cron_next_epoch_time_this_line_should_execute\<close>

text \<open>
  The command-line tool for the next execution of a crontab line: a second program with its own
  copies of the functions of \<open>Cron_Tool_Last\<close>. It always asks \<open>localtime\<close>, and calls
  \<open>cron_next\<close>. The copies agree with the originals (\<open>Cron_Tool_Correct\<close>).
\<close>

subsection \<open>Word boundaries\<close>

definition position_of_beginning_of_next_word_boundary_next :: "string \<Rightarrow> nat \<Rightarrow> int option" where
  "position_of_beginning_of_next_word_boundary_next s initial_pos =
     (if initial_pos > length s then None
      else (let pos = skip_word s initial_pos in
            if pos = length s then Some (- 1) else Some (int (skip_blanks s pos))))"

definition position_of_end_of_next_word_boundary_next :: "string \<Rightarrow> nat \<Rightarrow> nat option" where
  "position_of_end_of_next_word_boundary_next s initial_pos =
     (if initial_pos > length s then None else Some (skip_word s initial_pos))"

subsection \<open>Dates\<close>

definition try_to_parse_string_by_iso8601_next :: "platform \<Rightarrow> time_t \<Rightarrow> string \<Rightarrow> tm \<Rightarrow> (int \<times> tm) option" where
  "try_to_parse_string_by_iso8601_next pf now s ts =
     (let time_delimiter_pos = (case strchr s CHR '' '' of None \<Rightarrow> strchr s CHR ''T'' | Some i \<Rightarrow> Some i) in
      case time_delimiter_pos of
        None \<Rightarrow> Some (- 1, ts)
      | Some idx \<Rightarrow>
          if (idx = 8 \<or> idx = 10) \<and> int (length s) - int idx \<ge> 4 then
            (let off = (if idx = 10 then 1 else 0 :: nat) in
             do { year \<leftarrow> atoi_at s [0, 1, 2, 3];
                  month \<leftarrow> atoi_at s [4 + off, 5 + off];
                  day \<leftarrow> atoi_at s [6 + off * 2, 7 + off * 2];
                  hour \<leftarrow> atoi_at s [9 + off * 2, 10 + off * 2];
                  colon \<leftarrow> char_at s (11 + off * 2);
                  minute \<leftarrow> (if colon = CHR '':'' then atoi_at s [12 + off * 2, 13 + off * 2]
                            else atoi_at s [11 + off * 2, 12 + off * 2]);
                  if year \<ge> 1900 \<and> year \<le> 2038 \<and> month \<ge> 1 \<and> month \<le> 12 \<and> day \<ge> 1 \<and> day \<le> 31
                     \<and> hour \<ge> 0 \<and> hour \<le> 23
                  then do { current_time \<leftarrow> lc_localtime (pf_libc pf) now;
                            Some (1, ts\<lparr>tm_gmtoff := tm_gmtoff current_time, tm_zone := tm_zone current_time,
                              tm_isdst := tm_isdst current_time, tm_year := year - 1900, tm_mon := month - 1,
                              tm_mday := day, tm_hour := hour, tm_min := minute, tm_sec := 0\<rparr>) }
                  else Some (0, ts) })
          else None)"

subsection \<open>The crontab line\<close>

text \<open>The loop over the six word boundaries: \<open>exit(1)\<close> is the inner \<open>None\<close>, otherwise
  \<open>beginning_of_next_word_boundary\<close> and \<open>last_word_boundary_pos\<close>.\<close>

fun word_loop_next :: "string \<Rightarrow> nat list \<Rightarrow> int \<Rightarrow> nat \<Rightarrow> nat \<Rightarrow> (int \<times> nat) option option" where
  "word_loop_next s [] beginning last_pos pos = Some (Some (beginning, last_pos))"
| "word_loop_next s (i # is) beginning last_pos pos =
     do { b \<leftarrow> position_of_beginning_of_next_word_boundary_next s pos;
          if b \<noteq> - 1 then word_loop_next s is b pos (nat b)
          else if i < 5 then Some None
          else word_loop_next s is b last_pos pos }"

text \<open>The schedule with the seconds field and the rest of the line (\<open>None\<close>: no rest), in blocks of
  1000 characters. The inner \<open>None\<close> is \<open>exit(1)\<close>.\<close>

definition split_line_next :: "string \<Rightarrow> (string \<times> string option) option option" where
  "split_line_next arg =
     (let schedule = ''0 '' @ arg in
      if length schedule + 1 > 1000 then None
      else do { r \<leftarrow> word_loop_next schedule [0..<6] 0 0 0;
                case r of
                  None \<Rightarrow> Some None
                | Some (beginning, last_pos) \<Rightarrow>
                    if beginning \<noteq> - 1 then
                      do { e \<leftarrow> position_of_end_of_next_word_boundary_next schedule last_pos;
                           if e + 1 > length schedule then None
                           else Some (Some (take e schedule, Some (drop (e + 1) schedule))) }
                    else Some (Some (schedule, None)) })"

subsection \<open>The start time\<close>

text \<open>The current time without its seconds.\<close>

definition now_in_minutes_next :: "platform \<Rightarrow> time_t \<Rightarrow> int \<Rightarrow> time_t option" where
  "now_in_minutes_next pf now daylight_savings =
     do { ts \<leftarrow> lc_localtime (pf_libc pf) now;
          Some (snd (lc_mktime (pf_libc pf) (ts\<lparr>tm_sec := 0, tm_isdst := daylight_savings\<rparr>))) }"

text \<open>The start time, and whether to print an ISO 8601 date; \<open>ts0\<close> is what the uninitialised
  \<open>ts\<close> holds.\<close>

definition start_time_next ::
    "platform \<Rightarrow> time_t \<Rightarrow> int \<Rightarrow> tm \<Rightarrow> string option \<Rightarrow> (time_t \<times> bool) option" where
  "start_time_next pf now daylight_savings ts0 arg =
     (case arg of
        None \<Rightarrow> map_option (\<lambda>cur. (cur, False)) (now_in_minutes_next pf now daylight_savings)
      | Some s \<Rightarrow>
          do { (r, ts) \<leftarrow> try_to_parse_string_by_iso8601_next pf now s ts0;
               if r = - 1 then map_option (\<lambda>cur. (cur, False)) (time_of_atof s)
               else if r = 0 then map_option (\<lambda>cur. (cur, True)) (now_in_minutes_next pf now daylight_savings)
               else Some (snd (lc_mktime (pf_libc pf) ts), True) })"

subsection \<open>Output\<close>

definition help_text_next :: "string list" where
  "help_text_next = [
     '''',
     ''     This program outputs to stdio the epoch time at which a given user'',
     ''     crontab expression was supposedly last executed, in addition to'',
     ''     the disposition element of the cron expression, if present.  The'',
     ''     expression should be comprised of one line from a user crontab'',
     ''     delimited by double quotes, passed as an argument.  Optionally, a'',
     ''     second argument may be supplied specifying the epoch time from'',
     ''     which to start.  BTW user crontab expressions dont have seconds fields.'',
     ''     Also, if the starting time is a malformed iso8601 datetime, such as'',
     ''     9999-99-99T99:99, then current time is assumed, but the prev time'',
     ''     outputted to stdio will be in iso8601 format.'',
     ''     All times are local, not GMT'',
     '''',
     ''     Example:'',
     ''        ./cron_last_epoch_time_this_line_was_supposedly_executed '' @ [CHR 0x22] @
       ''0 22 * * mon,tue,wed,thu,fri disable_wifi.sh'' @ [CHR 0x22] @ '' 1569016800'',
     ''        This outputs: 1569034800 disable_wifi.sh'',
     '''',
     ''        ./cron_last_epoch_time_this_line_was_supposedly_executed '' @ [CHR 0x22] @
       ''0 22 * * mon,tue,wed,thu,fri disable_wifi.sh'' @ [CHR 0x22] @ '' 2019-02-08T12:11'',
     ''        This outputs: 2019-02-08T22:00:00 disable_wifi.sh'']"

subsection \<open>main\<close>

text \<open>The errors of \<open>cron_parse_expr\<close> are not looked at: the target is used as it is.\<close>

definition main_next :: "platform \<Rightarrow> nat \<Rightarrow> time_t \<Rightarrow> tm \<Rightarrow> string list \<Rightarrow> outcome option" where
  "main_next pf fuel now ts0 argv =
     do { current_time \<leftarrow> lc_localtime (pf_libc pf) now;
          let daylight_savings = tm_isdst current_time;
          if asks_for_help argv then Some \<lparr>out_text = concat (map (\<lambda>l. l @ newline) help_text_next), out_status = 0\<rparr>
          else if length argv = 2 \<or> length argv = 3 then
            do { line \<leftarrow> split_line_next (argv ! 1);
                 case line of
                   None \<Rightarrow> Some \<lparr>out_text = [], out_status = 1\<rparr>
                 | Some (schedule, disposition) \<Rightarrow>
                     do { (cur, isofmt) \<leftarrow> start_time_next pf now daylight_savings ts0
                            (if length argv = 3 then Some (argv ! 2) else None);
                          (target, err) \<leftarrow> cron_parse_expr (Some schedule) (Some zero_expr);
                          nxt \<leftarrow> cron_next pf fuel (the target) cur;
                          ts \<leftarrow> lc_localtime (pf_libc pf) nxt;
                          Some \<lparr>out_text = result_text isofmt nxt ts disposition, out_status = 0\<rparr> } }
          else Some \<lparr>out_text = usage_text, out_status = 1\<rparr> }"

end
