(* ===== verification/Cron_Find_Prev.thy ===== *)
theory Cron_Find_Prev
  imports Cron_Prev Cron_Next_Correct
begin

section \<open>The searches of do_prev, one field at a time\<close>

text \<open>
  The mirror image of \<open>Cron_Find\<close>: the operations that reset a field to its maximum, the reset lists
  (\<open>reset_minute_max\<close>, \<open>reset_hour_max\<close>, \<open>reset_day_max\<close>, \<open>reset_month_max\<close>), \<open>find_prev\<close> on a
  clock field (\<open>find_prev_field\<close>) and on the month (\<open>find_prev_month\<close>), and the stages on an
  instant that already matches.
\<close>

subsection \<open>The greatest value before another\<close>

lemma prev_set:
  fixes m :: int
  assumes "0 \<le> m" "nat m \<notin> S" "S \<noteq> {}" "finite S"
  obtains v where "v \<in> S" "int v < m" "\<forall>j \<in> S. j \<le> nat m \<longrightarrow> j \<le> v"
    | v where "v \<in> S" "m < int v" "\<forall>j \<in> S. j \<le> v" "\<forall>j \<in> S. \<not> j \<le> nat m"
proof (cases "\<exists>j \<in> S. j \<le> nat m")
  case True
  define v where "v = Max {j \<in> S. j \<le> nat m}"
  have fin: "finite {j \<in> S. j \<le> nat m}" using assms(4) by simp
  have v: "v \<in> {j \<in> S. j \<le> nat m}" unfolding v_def using fin True by (intro Max_in) auto
  then have "v \<noteq> nat m" using assms(2) by auto
  then have "int v < m" using v assms(1) by auto
  then show ?thesis using v fin by (intro that(1) [of v]) (auto simp: v_def intro: Max_ge)
next
  case False
  have "Max S \<in> S" "\<forall>j \<in> S. j \<le> Max S" using assms(3,4) by auto
  moreover have "m < int (Max S)" using False calculation(1) assms(1) by force
  ultimately show ?thesis using False by (intro that(2) [of "Max S"]) auto
qed

lemma finite_bits_of [simp]: "finite (bits_of b)"
  by (rule finite_subset [of _ "{..<8 * length b}"]) (auto simp: bits_of_def)

lemma find_prev_same:
  assumes "length b \<le> 256" "val < 8 * length b" "val \<in> bits_of b"
  shows "find_prev pf b mx val cal f g L = Some (val, cal, 0)"
proof -
  have "prev_set_bit b (int val) 0 = Some (val, False)" using assms by (intro prev_set_bit_Some) auto
  then show ?thesis by (simp add: find_prev_def find_prev_set_def)
qed

lemma reset_all_max_free [simp]: "reset_all_max pf c (replicate n (- 1)) = Some (c, 0)"
  by (induction n) simp_all

lemma reset_all_max_append:
  "reset_all_max pf c (xs @ ys) =
     do { (c', r) \<leftarrow> reset_all_max pf c xs; if r \<noteq> 0 then Some (c', r) else reset_all_max pf c' ys }"
  by (induction xs arbitrary: c) (auto split: prod.splits bind_splits)

subsection \<open>The outcome of the search\<close>

text \<open>With enough fuel the search stops, without an error, at the greatest match up to \<open>x\<close>.\<close>

definition finds_prev :: "cron_expr \<Rightarrow> (int \<Rightarrow> tm) \<Rightarrow> int \<Rightarrow> (nat \<Rightarrow> (tm \<times> int) option) \<Rightarrow> bool" where
  "finds_prev e norm x F \<longleftrightarrow>
     (\<exists>s' n. s' \<le> x \<and> matches e s' \<and> skip e (s' + 1) (x + 1) \<and> (\<forall>k \<ge> n. F k = Some (norm s', 0)))"

lemma finds_prev_here: "matches e x \<Longrightarrow> (\<And>k. F k = Some (norm x, 0)) \<Longrightarrow> finds_prev e norm x F"
  unfolding finds_prev_def by (intro exI [of _ x]) auto

lemma finds_prev_skip:
  assumes "skip e (y + 1) (x + 1)" "y \<le> x" "finds_prev e norm y F"
  shows "finds_prev e norm x F"
proof -
  obtain s' n where "s' \<le> y" "matches e s'" "skip e (s' + 1) (y + 1)" "\<forall>k \<ge> n. F k = Some (norm s', 0)"
    using assms(3) by (auto simp: finds_prev_def)
  then show ?thesis
    unfolding finds_prev_def using assms(2) skip_trans [OF _ assms(1), of "s' + 1"]
    by (intro exI [of _ s'] exI [of _ n]) auto
qed

lemma finds_prev_then:
  assumes "finds_prev e norm x F"
    and "\<And>k. G k = do { (cal, res) \<leftarrow> F k; if res \<noteq> 0 then Some (cal, res) else H k cal }"
    and "\<And>k y. matches e y \<Longrightarrow> H k (norm y) = Some (norm y, 0)"
  shows "finds_prev e norm x G"
proof -
  obtain s' n where s': "s' \<le> x" "matches e s'" "skip e (s' + 1) (x + 1)" "\<forall>k \<ge> n. F k = Some (norm s', 0)"
    using assms(1) by (auto simp: finds_prev_def)
  then have "\<forall>k \<ge> n. G k = Some (norm s', 0)" using assms(2,3) by simp
  with s' show ?thesis unfolding finds_prev_def by blast
qed

lemma finds_prev_Suc: "finds_prev e norm x (\<lambda>k. F (Suc k)) \<Longrightarrow> finds_prev e norm x F"
  unfolding finds_prev_def by (metis Suc_le_D Suc_le_mono)

lemma skip_matches_ge: "skip e (z + 1) (x + 1) \<Longrightarrow> matches e t \<Longrightarrow> t \<le> x \<Longrightarrow> t \<le> z"
  unfolding skip_def by (meson not_less zle_add1_eq_le add1_zle_eq)

subsection \<open>The reset lists\<close>

text \<open>The second after the resets.\<close>

definition high :: "bool \<Rightarrow> int \<Rightarrow> int" where
  "high b s = (if b then 59 else sec_of s)"

lemma high_bounds: "0 \<le> high b s" "high b s < 60" "sec_of s \<le> high b s"
  using field_ranges [of s] by (auto simp: high_def)

text \<open>Nothing matches between the second left over and the end of the minute, when that second is the
  greatest one of the expression.\<close>

lemma skip_high:
  assumes "b \<or> (\<forall>c \<in> bits_of (seconds e). int c \<le> sec_of x)"
  shows "skip e (60 * q + high b x + 1) (60 * q + 60)"
  unfolding skip_def
proof (intro allI impI)
  fix t assume t: "60 * q + high b x + 1 \<le> t \<and> t < 60 * q + 60"
  then have b: "\<not> b" by (auto simp: high_def)
  have "t mod 60 = t - 60 * q" using t high_bounds(1) [of b x] by (intro mod_in_block) auto
  then have "sec_of t = t - 60 * q" by (simp add: sec_of_def)
  moreover have "sec_of x < t - 60 * q" using t b by (simp add: high_def)
  ultimately have "sec_of x < int (nat (sec_of t))" using field_ranges(1) [of t] by simp
  then show "\<not> matches e t" using assms b unfolding matches_def by (meson not_less)
qed

text \<open>An instant given by its day and its time of day.\<close>

definition instant :: "int \<Rightarrow> int \<Rightarrow> int \<Rightarrow> int \<Rightarrow> int" where
  "instant d h m c = 86400 * d + 3600 * h + 60 * m + c"

lemma instant_fields:
  assumes "0 \<le> h" "h < 24" "0 \<le> m" "m < 60" "0 \<le> c" "c < 60"
  shows "sec_of (instant d h m c) = c" "min_of (instant d h m c) = m" "hour_of (instant d h m c) = h"
    "daynum (instant d h m c) = d"
  using fields_of_secs [OF assms] by (simp_all add: instant_def)

lemma instant_of: "s = instant (daynum s) (hour_of s) (min_of s) (sec_of s)"
  using secs_decompose [of s] by (simp add: instant_def)

context cron_clock
begin

lemma reset_max_ok:
  "good (s + (59 - sec_of s)) \<Longrightarrow> reset_max pf (brk s) CRON_CF_SECOND = Some (brk (s + (59 - sec_of s)), 0)"
  "good (s + 60 * (59 - min_of s)) \<Longrightarrow>
     reset_max pf (brk s) CRON_CF_MINUTE = Some (brk (s + 60 * (59 - min_of s)), 0)"
  "good (s + 3600 * (23 - hour_of s)) \<Longrightarrow>
     reset_max pf (brk s) CRON_CF_HOUR_OF_DAY = Some (brk (s + 3600 * (23 - hour_of s)), 0)"
  by (simp_all add: reset_max_def renormalise_ok)

lemma reset_max_month:
  assumes "good (s + 86400 * (day_of (year_of s) 11 (mday_of s) - daynum s))"
  shows "reset_max pf (brk s) CRON_CF_MONTH =
    Some (brk (s + 86400 * (day_of (year_of s) 11 (mday_of s) - daynum s)), 0)"
  using assms by (simp add: reset_max_def renormalise_ok tm_secs_month)

lemma reset_max_instant:
  assumes "0 \<le> h" "h < 24" "0 \<le> m" "m < 60" "0 \<le> c" "c < 60"
  shows "good (instant d h m 59) \<Longrightarrow>
      reset_max pf (brk (instant d h m c)) CRON_CF_SECOND = Some (brk (instant d h m 59), 0)"
    "good (instant d h 59 c) \<Longrightarrow>
      reset_max pf (brk (instant d h m c)) CRON_CF_MINUTE = Some (brk (instant d h 59 c), 0)"
    "good (instant d 23 m c) \<Longrightarrow>
      reset_max pf (brk (instant d h m c)) CRON_CF_HOUR_OF_DAY = Some (brk (instant d 23 m c), 0)"
proof -
  have e: "instant d h m c + (59 - c) = instant d h m 59" "instant d h m c + 60 * (59 - m) = instant d h 59 c"
    "instant d h m c + 3600 * (23 - h) = instant d 23 m c" by (simp_all add: instant_def)
  note ok = reset_max_ok [of "instant d h m c", unfolded instant_fields [OF assms] e]
  show "good (instant d h m 59) \<Longrightarrow>
      reset_max pf (brk (instant d h m c)) CRON_CF_SECOND = Some (brk (instant d h m 59), 0)"
    "good (instant d h 59 c) \<Longrightarrow>
      reset_max pf (brk (instant d h m c)) CRON_CF_MINUTE = Some (brk (instant d h 59 c), 0)"
    "good (instant d 23 m c) \<Longrightarrow>
      reset_max pf (brk (instant d h m c)) CRON_CF_HOUR_OF_DAY = Some (brk (instant d 23 m c), 0)"
    by (fact ok)+
qed

lemma reset_clock_max:
  assumes s: "s = instant d h m c" "0 \<le> h" "h < 24" "0 \<le> m" "m < 60" "0 \<le> c" "c < 60"
    and win: "\<forall>y. s \<le> y \<and> y \<le> M \<longrightarrow> good y"
  shows "instant d h m 59 \<le> M \<Longrightarrow>
      reset_all_max pf (brk s) (rlist b 0) = Some (brk (instant d h m (high b s)), 0)"
    "instant d h 59 59 \<le> M \<Longrightarrow>
      reset_all_max pf (brk s) (rlist b 1) = Some (brk (instant d h 59 (high b s)), 0)"
    "instant d 23 59 59 \<le> M \<Longrightarrow>
      reset_all_max pf (brk s) (rlist b 2) = Some (brk (instant d 23 59 (high b s)), 0)"
proof -
  have h: "high b s = (if b then 59 else c)" using s by (simp add: high_def instant_fields)
  have good: "good (instant d h' m' c')"
    if "h \<le> h'" "m \<le> m'" "c \<le> c'" "instant d h' m' c' \<le> M" for h' m' c'
    using win that by (simp add: s(1) instant_def)
  show "reset_all_max pf (brk s) (rlist b 0) = Some (brk (instant d h m (high b s)), 0)"
    if M: "instant d h m 59 \<le> M"
    using M s(2-) reset_max_instant [OF s(2-), of d] good [of h m 59] unfolding s(1) h [unfolded s(1)]
    by (cases b) (simp_all add: rlist_expand)
  show "reset_all_max pf (brk s) (rlist b 1) = Some (brk (instant d h 59 (high b s)), 0)"
    if M: "instant d h 59 59 \<le> M"
  proof -
    have M': "instant d h m 59 \<le> M" "instant d h 59 c \<le> M" using M s(2-) by (simp_all add: instant_def)
    show ?thesis
      using M M' s(2-) reset_max_instant [OF s(2-), of d] reset_max_instant [of h m 59 d]
        good [of h m 59] good [of h 59 59] good [of h 59 c] unfolding s(1) h [unfolded s(1)]
      by (cases b) (simp_all add: rlist_expand del: One_nat_def)
  qed
  show "reset_all_max pf (brk s) (rlist b 2) = Some (brk (instant d 23 59 (high b s)), 0)"
    if M: "instant d 23 59 59 \<le> M"
  proof -
    have M': "instant d h m 59 \<le> M" "instant d h 59 c \<le> M" "instant d h 59 59 \<le> M" "instant d 23 59 c \<le> M"
      using M s(2-) by (simp_all add: instant_def)
    show ?thesis
      using M M' s(2-) reset_max_instant [OF s(2-), of d] reset_max_instant [of h m 59 d]
        reset_max_instant [of h 59 59 d] reset_max_instant [of h 59 c d]
        good [of h m 59] good [of h 59 59] good [of h 59 c] good [of 23 59 59] good [of 23 59 c]
      unfolding s(1) h [unfolded s(1)]
      by (cases b) (simp_all add: rlist_expand)
  qed
qed

lemma reset_minute_max:
  assumes "\<forall>y. s \<le> y \<and> y \<le> 60 * (s div 60) + 59 \<longrightarrow> good y"
  shows "reset_all_max pf (brk s) (rlist b 0) = Some (brk (60 * (s div 60) + high b s), 0)"
  using reset_clock_max(1) [OF instant_of [of s] _ _ _ _ _ _ assms] field_ranges [of s] div_fields [of s]
  by (simp add: instant_def algebra_simps)

lemma reset_hour_max:
  assumes "\<forall>y. s \<le> y \<and> y \<le> 3600 * (s div 3600) + 3599 \<longrightarrow> good y"
  shows "reset_all_max pf (brk s) (rlist b 1) = Some (brk (3600 * (s div 3600) + 3540 + high b s), 0)"
  using reset_clock_max(2) [OF instant_of [of s] _ _ _ _ _ _ assms] field_ranges [of s] div_fields [of s]
  by (simp add: instant_def algebra_simps)

lemma reset_day_max:
  assumes "\<forall>y. s \<le> y \<and> y \<le> 86400 * daynum s + 86399 \<longrightarrow> good y"
  shows "reset_all_max pf (brk s) (rlist b 2) = Some (brk (86400 * daynum s + 86340 + high b s), 0)"
  using reset_clock_max(3) [OF instant_of [of s] _ _ _ _ _ _ assms] field_ranges [of s]
  by (simp add: instant_def algebra_simps)

subsection \<open>find_prev on a clock field\<close>

text \<open>The search moves to the greatest quotient \<open>q < s div u\<close> whose residue is set.\<close>

lemma find_prev_field:
  fixes u n :: int
  assumes u: "0 < u" "0 < n"
    and add: "\<And>x. good (x - u * n) \<Longrightarrow> add_to_field pf (brk x) g (- 1) = (brk (x - u * n), 0)"
    and res: "\<And>x. good (x + u * (n - 1 - x div u mod n)) \<Longrightarrow>
      reset_max pf (brk x) f = Some (brk (x + u * (n - 1 - x div u mod n)), 0)"
    and set: "\<And>x v. good (x + u * (v - x div u mod n)) \<Longrightarrow>
      set_field pf (brk x) f v = (brk (x + u * (v - x div u mod n)), 0)"
    and b: "length b \<le> 256" "nat n \<le> 8 * length b" "bits_of b \<subseteq> {..<nat n}" "bits_of b \<noteq> {}"
    and notin: "nat (s div u mod n) \<notin> bits_of b"
    and win: "\<forall>y. s - u * n \<le> y \<and> y \<le> s \<longrightarrow> good y"
  obtains q where "q < s div u" "nat (q mod n) \<in> bits_of b"
    "q mod n \<noteq> s div u mod n" "s div u - n \<le> q" "\<forall>p. q < p \<and> p \<le> s div u \<longrightarrow> nat (p mod n) \<notin> bits_of b"
    "\<And>c L. reset_all_max pf (brk (s - u * (s div u - q))) L = Some (c, 0) \<Longrightarrow>
       find_prev pf b (nat n) (nat (s div u mod n)) (brk s) f g L = Some (nat (q mod n), c, 0)"
proof -
  define a where "a = s div u mod n"
  define K where "K = s div u div n"
  have a: "0 \<le> a" "a < n" "s div u = n * K + a" using u by (simp_all add: a_def K_def)
  have na: "nat a \<notin> bits_of b" using notin by (simp add: a_def)
  have b3: "int v < n" if "v \<in> bits_of b" for v using b(3) that by auto
  have blk: "p mod n = p - n * k" if "n * k \<le> p" "p < n * k + n" for p k
    using that by (rule mod_in_block)
  have len: "int (nat a) < int (8 * length b)" "int (nat n - 1) < int (8 * length b)" using a b(2) by linarith+
  from prev_set [OF a(1) na b(4) finite_bits_of] show thesis
  proof cases
    case (1 v)
    have psb: "prev_set_bit b (int (nat a)) 0 = Some (v, False)"
      using b(1) len 1 a by (intro prev_set_bit_Some) auto
    have q: "(n * K + int v) mod n = int v" using blk [of K "n * K + int v"] b3 [OF 1(1)] by simp
    have "u * (a - int v) \<le> u * n" "0 \<le> u * (a - int v)" using u a 1 by (simp_all add: mult_left_mono)
    then have g: "good (s - u * (a - int v))" using win by simp
    have T: "s - u * (s div u - (n * K + int v)) = s - u * (a - int v)" "s + u * (int v - a) = s - u * (a - int v)"
      using a by (simp_all add: algebra_simps)
    show thesis
    proof (rule that [of "n * K + int v"])
      show "\<forall>p. n * K + int v < p \<and> p \<le> s div u \<longrightarrow> nat (p mod n) \<notin> bits_of b"
      proof (intro allI impI notI)
        fix p assume p: "n * K + int v < p \<and> p \<le> s div u" "nat (p mod n) \<in> bits_of b"
        then have m: "p mod n = p - n * K" using a blk [of K p] by simp
        then have "nat (p mod n) \<le> v" using p 1(3) a by (intro 1(3) [rule_format]) auto
        then have "p mod n \<le> int v" by (simp only: nat_le_iff)
        then show False using m p(1) by linarith
      qed
      fix c L assume r: "reset_all_max pf (brk (s - u * (s div u - (n * K + int v)))) L = Some (c, 0)"
      have "set_field pf (brk s) f (int v) = (brk (s - u * (a - int v)), 0)"
        using set [of s "int v"] g by (simp add: a_def [symmetric] T(2))
      then show "find_prev pf b (nat n) (nat (s div u mod n)) (brk s) f g L
          = Some (nat ((n * K + int v) mod n), c, 0)"
        using psb r 1(2) unfolding q T(1) a_def [symmetric] by (auto simp: find_prev_def find_prev_set_def)
    qed (use 1 a q b3 [OF 1(1)] in \<open>auto simp: a_def [symmetric]\<close>)
  next
    case (2 v)
    note vn = b3 [OF 2(1)]
    have psb1: "prev_set_bit b (int (nat a)) 0 = Some (0, True)"
      using b(1) len 2(4) by (intro prev_set_bit_None) auto
    have psb2: "prev_set_bit b (int (nat n) - 1) (int (nat a)) = Some (v, False)"
      using b(1) len u 2 vn a by (intro prev_set_bit_Some) auto
    have q: "(n * (K - 1) + int v) mod n = int v" using blk [of "K - 1" "n * (K - 1) + int v"] vn by simp
    have T: "s - u * (s div u - (n * (K - 1) + int v)) = s - u * (a + n - int v)" using a by (simp add: algebra_simps)
    have d1: "(s - u * n) div u = n * (K - 1) + a"
    proof -
      have "(s + u * (- n)) div u = s div u + - n" using u by (intro div_mult_self2 [THEN trans]) auto
      then show ?thesis using a by (simp add: algebra_simps)
    qed
    have m1: "(s - u * n) div u mod n = a" unfolding d1 using blk [of "K - 1" "n * (K - 1) + a"] a by simp
    have d2: "(s - u * n + u * (n - 1 - a)) div u = n * (K - 1) + (n - 1)"
      using u d1 by (subst div_mult_self2) (auto simp: algebra_simps)
    have m2: "(s - u * n + u * (n - 1 - a)) div u mod n = n - 1"
      unfolding d2 using blk [of "K - 1" "n * (K - 1) + (n - 1)"] u by simp
    have "0 \<le> u * n" "0 \<le> u * (n - 1 - a)" "u * (n - 1 - a) \<le> u * n" "0 \<le> u * (a + n - int v)" "u * (a + n - int v) \<le> u * n"
      using u a 2(2) vn by (simp_all add: mult_left_mono)
    then have g: "good (s - u * n)" "good (s - u * n + u * (n - 1 - a))" "good (s - u * (a + n - int v))"
      using win by simp_all
    have e: "s - u * n + u * (n - 1 - a) + u * (int v - (n - 1)) = s - u * (a + n - int v)" by (simp add: algebra_simps)
    show thesis
    proof (rule that [of "n * (K - 1) + int v"])
      show "\<forall>p. n * (K - 1) + int v < p \<and> p \<le> s div u \<longrightarrow> nat (p mod n) \<notin> bits_of b"
      proof (intro allI impI notI)
        fix p assume p: "n * (K - 1) + int v < p \<and> p \<le> s div u" "nat (p mod n) \<in> bits_of b"
        show False
        proof (cases "p < n * K")
          case True
          then have "p mod n = p - n * (K - 1)" using blk [of "K - 1" p] p vn by (simp add: algebra_simps)
          moreover have "p mod n \<le> int v" using 2(3) [rule_format, OF p(2)] by (simp only: nat_le_iff)
          ultimately show False using p(1) by linarith
        next
          case False
          then have "p mod n = p - n * K" using blk [of K p] p a by simp
          then have "p mod n \<le> a" "0 \<le> p mod n" using p(1) a False by linarith+
          then show False using 2(4) [rule_format, OF p(2)] by (simp add: nat_mono)
        qed
      qed
      fix c L assume r: "reset_all_max pf (brk (s - u * (s div u - (n * (K - 1) + int v)))) L = Some (c, 0)"
      have "reset_max pf (brk (s - u * n)) f = Some (brk (s - u * n + u * (n - 1 - a)), 0)"
        using res [of "s - u * n"] g(2) m1 by simp
      moreover have "set_field pf (brk (s - u * n + u * (n - 1 - a))) f (int v) = (brk (s - u * (a + n - int v)), 0)"
        using set [of "s - u * n + u * (n - 1 - a)" "int v"] g(3) unfolding m2 e by simp
      moreover have "v \<noteq> nat a" using 2(2) a(1) by auto
      ultimately show "find_prev pf b (nat n) (nat (s div u mod n)) (brk s) f g L
          = Some (nat ((n * (K - 1) + int v) mod n), c, 0)"
        using psb1 psb2 r add [OF g(1)] unfolding q T a_def [symmetric] by (simp add: find_prev_def find_prev_set_def)
    qed (use 2 a q vn in \<open>auto simp: a_def [symmetric] algebra_simps\<close>)
  qed
qed

end

subsection \<open>Moving to the previous month\<close>

text \<open>Between the end of the set month before and an instant no month is set.\<close>

lemma first_of_next_month:
  assumes "0 \<le> v" "v < 12"
  shows "next_first (day_of y v 1) = day_of y v 1 + mlen y v"
    "month_index (day_of y v 1 + mlen y v) = 12 * y + v + 1"
proof -
  show e: "next_first (day_of y v 1) = day_of y v 1 + mlen y v"
    using assms by (simp add: next_first_def civil_first)
  have "month_index (day_of y v 1) = 12 * y + v"
    using assms mlen_bounds(1) [of y v] by (intro month_index_day_of) auto
  then show "month_index (day_of y v 1 + mlen y v) = 12 * y + v + 1"
    using next_first_facts(1) [of "day_of y v 1"] by (simp add: e)
qed

lemma earlier_month:
  assumes "0 \<le> v" "v < 12" "12 * y + v < month_index d"
  shows "day_of y v 1 + mlen y v \<le> d"
proof (rule ccontr)
  assume less: "\<not> ?thesis"
  show False
  proof (cases "day_of y v 1 \<le> d")
    case True
    then have "month_index d = month_index (day_of y v 1)"
      using less same_month(1,2) [of "day_of y v 1" d] first_of_next_month(1) [OF assms(1,2), of y]
      by (simp add: month_index_def)
    then show False using assms mlen_bounds(1) [of y v] by (simp add: month_index_day_of)
  next
    case False
    then show False using month_index_less [OF assms(1,2), of d y] assms(3) by simp
  qed
qed

lemma skip_from_month:
  assumes v: "0 \<le> v" "v < 12"
    and idx: "\<forall>i. 12 * y + v < i \<and> i \<le> 12 * year_of s + mon_of s \<longrightarrow> nat (i mod 12) \<notin> bits_of (months e)"
  shows "skip e (86400 * (day_of y v 1 + mlen y v)) (s + 1)"
  unfolding skip_def
proof (intro allI impI)
  fix t assume t: "86400 * (day_of y v 1 + mlen y v) \<le> t \<and> t < s + 1"
  have "daynum t \<le> daynum s" using t by (simp add: daynum_def zdiv_mono1)
  then have "month_index (daynum t) \<le> 12 * year_of s + mon_of s"
    using month_index_mono by (fastforce simp: month_index_def year_of_def mon_of_def)
  moreover have "day_of y v 1 + mlen y v \<le> daynum t"
    using t zdiv_mono1 [of "86400 * (day_of y v 1 + mlen y v)" t 86400] by (simp add: daynum_def)
  then have "12 * y + v + 1 \<le> month_index (daynum t)"
    using month_index_mono first_of_next_month(2) [OF v, of y] by metis
  ultimately have "nat (mon_of t) \<notin> bits_of (months e)"
    using idx by (simp add: mon_of_def mon_of_day_index)
  then show "\<not> matches e t" by (simp add: matches_def)
qed

context cron_clock_zone
begin

text \<open>East of Greenwich \<open>last_day_of_month\<close> is one day short: it reads local midnight as UTC.\<close>

lemma last_day_of_month_eq:
  assumes m: "0 \<le> m" "m < 12" and off: "- 86400 < loff" "loff \<le> 86400"
    and L: "L = day_of y m 1 + mlen y m - 1" and fits: "\<forall>t. 86400 * (L - 1) \<le> t \<and> t < 86400 * (L + 1) \<longrightarrow> year_fits t"
  shows "last_day_of_month pf m (y - 1900) = Some (if 0 < loff then mlen y m - 1 else mlen y m)"
proof -
  define c where "c = tm_zero\<lparr>tm_mon := m + 1, tm_mday := 0, tm_year := y - 1900\<rparr>"
  have "tm_secs c = 86400 * (day_of (y + (m + 1) div 12) ((m + 1) mod 12) 1 - 1)"
    by (simp add: c_def tm_zero_def tm_secs_def day_of_def)
  also have "\<dots> = 86400 * L"
  proof (cases "m = 11")
    case True
    then show ?thesis using day_of_next_year [of y] by (simp add: L)
  next
    case False
    then have "(m + 1) div 12 = 0" "(m + 1) mod 12 = m + 1" using m by auto
    then show ?thesis using day_of_next_month [of m y] m False by (simp add: L)
  qed
  finally have secs: "tm_secs c = 86400 * L" .
  then have t: "snd (lc_mktime (pf_libc pf) c) = 86400 * L - loff" using host_mktime [of c] fits by simp
  have fit: "year_fits (86400 * L - loff)" using fits off by simp
  have len: "28 \<le> mlen y m" using mlen_bounds(1) [of y m] by simp
  have day: "mday_of_day (day_of y m dd) = dd" if "1 \<le> dd" "dd \<le> mlen y m" for dd
    using civil_of_day_of [OF m that] by simp
  have "daynum (86400 * L - loff) = (if 0 < loff then L - 1 else L)" using off by (intro daynum_eq) auto
  moreover have "mday_of_day L = mlen y m" "mday_of_day (L - 1) = mlen y m - 1"
    using day [of "mlen y m"] day [of "mlen y m - 1"] day_of_add [of y m 1 "mlen y m - 1"]
      day_of_add [of y m 1 "mlen y m - 2"] len by (simp_all add: L add_diff_eq)
  ultimately show ?thesis
    using t fit by (simp add: last_day_of_month_def c_def [symmetric] gmtime_r_def mday_of_def)
qed

lemma reset_month_max:
  assumes s: "daynum s = day_of y m dd" and m: "0 \<le> m" "m < 12" "1 \<le> dd" "dd \<le> 28"
    and off: "- 86400 < loff" "loff \<le> 86400"
    and win: "\<forall>t. 86400 * (day_of y m 1 - 1) \<le> t \<and> t < 86400 * (day_of y m 1 + mlen y m) \<longrightarrow> good t"
  obtains L where "day_of y m 1 + mlen y m - 2 \<le> L" "L < day_of y m 1 + mlen y m"
    "reset_all_max pf (brk s) (rlist b 3) = Some (brk (86400 * L + 86340 + high b s), 0)"
proof -
  define pre where "pre = (if b then [0, 1, 2] else [1, 2 :: int])"
  define l where "l = (if 0 < loff then mlen y m - 1 else mlen y m)"
  define x where "x = 86400 * daynum s + 86340 + high b s"
  have len: "28 \<le> mlen y m" using mlen_bounds(1) [of y m] by simp
  have split: "rlist b 3 = pre @ [4] @ replicate (6 - length pre) (- 1)"
    "rlist b 2 = pre @ replicate (7 - length pre) (- 1)"
    by (cases b; simp add: rlist_def pre_def numeral_eq_Suc)+
  have first: "day_of y m dd = day_of y m 1 + (dd - 1)" using day_of_add [of y m 1 "dd - 1"] by simp
  have "reset_all_max pf (brk s) (rlist b 2) = Some (brk x, 0)"
    unfolding x_def using win s first m len daynum_bounds [of s] by (intro reset_day_max) auto
  then have pre: "reset_all_max pf (brk s) pre = Some (brk x, 0)"
    unfolding split(2) reset_all_max_append by (auto simp: Let_def split: prod.splits if_splits bind_splits)
  have "daynum x = day_of y m dd" using high_bounds [where b = b and s = s] s by (auto simp: x_def intro: daynum_eq)
  then have c: "mday_of x = dd" "mon_of x = m" "year_of x = y"
    using m len by (simp_all add: mday_of_def mon_of_def year_of_def civil_of_day_of)
  have "last_day_of_month pf m (y - 1900) = Some l"
    unfolding l_def using win len by (intro last_day_of_month_eq [OF m(1,2) off refl]) auto
  moreover have "good (x + 86400 * (l - dd))"
    using win first s m len high_bounds [where b = b and s = s] by (auto simp: x_def l_def)
  ultimately have "reset_max pf (brk x) CRON_CF_DAY_OF_MONTH = Some (brk (x + 86400 * (l - dd)), 0)"
    using c by (simp add: reset_max_def renormalise_ok)
  moreover have "x + 86400 * (l - dd) = 86400 * (day_of y m 1 + l - 1) + 86340 + high b s"
    using s first by (simp add: x_def)
  ultimately have "reset_max pf (brk x) CRON_CF_DAY_OF_MONTH = Some (brk (86400 * (day_of y m 1 + l - 1) + 86340 + high b s), 0)"
    by (simp only:)
  then have "reset_all_max pf (brk s) (rlist b 3) = Some (brk (86400 * (day_of y m 1 + l - 1) + 86340 + high b s), 0)"
    unfolding split(1) reset_all_max_append pre by (simp del: right_diff_distrib_numeral distrib_left_numeral)
  then show thesis by (intro that [of "day_of y m 1 + l - 1"]) (auto simp: l_def)
qed

lemma find_prev_month:
  assumes wf: "wf_expr e" and dd: "mday_of s \<le> 28" and m: "nat (mon_of s) \<notin> bits_of (months e)"
    and off: "- 86400 < loff" "loff \<le> 86400"
    and win: "\<forall>t. s - 80000000 \<le> t \<and> t \<le> s \<longrightarrow> good t"
  obtains y v L where "y \<le> year_of s" "v \<in> bits_of (months e)" "v \<noteq> nat (mon_of s)"
    "86400 * (day_of y (int v) 1 + mlen y (int v)) \<le> s"
    "skip e (86400 * (day_of y (int v) 1 + mlen y (int v))) (s + 1)"
    "day_of y (int v) 1 + mlen y (int v) - 2 \<le> L" "L < day_of y (int v) 1 + mlen y (int v)"
    "find_prev pf (months e) 12 (nat (mon_of s)) (brk s) CRON_CF_MONTH CRON_CF_YEAR (rlist b 3)
      = Some (v, brk (86400 * L + 86340 + high b s), 0)"
proof -
  note found = that
  define Y where "Y = year_of s"
  define D where "D = mday_of s"
  define M where "M = mon_of s"
  have r: "0 \<le> M" "M < 12" "1 \<le> D" "D \<le> 28" using field_ranges [of s] dd by (simp_all add: M_def D_def)
  have idx: "month_index (daynum s) = 12 * Y + M" by (simp add: month_index_def Y_def M_def year_of_def mon_of_def)
  have Mo: "length (months e) \<le> 256" "8 * length (months e) = 16" "bits_of (months e) \<noteq> {}"
    "bits_of (months e) \<subseteq> {..<12}" using wf by (simp_all add: wf_expr_def)
  define at where "at y mm = s + 86400 * (day_of y mm D - daynum s)" for y mm
  have day: "day_of y mm D = day_of y mm 1 + (D - 1)" for y mm using day_of_add [of y mm 1 "D - 1"] by simp
  have len: "28 \<le> mlen y mm" for y mm using mlen_bounds(1) [of y mm] by simp
  have ds: "day_of Y M D = daynum s"
    using day_of_civil [of "daynum s"] by (simp add: Y_def M_def D_def year_of_def mon_of_def mday_of_def)
  have before: "day_of y mm 1 + mlen y mm \<le> daynum s"
    if "0 \<le> mm" "mm < 12" "12 * y + mm < 12 * Y + M" for y mm
    using earlier_month [of mm y "daynum s"] that idx by simp
  have not_far: "daynum s \<le> day_of y mm D + 732" if "y = Y \<or> y = Y - 1" "0 \<le> mm" "mm < 12" for y mm
  proof -
    have "year_of_day (day_of y mm D) = y" using that r len [of y mm] by (simp add: civil_of_day_of)
    then show ?thesis
      using that r day_of_next_year_bound [of M D Y "day_of y mm D"] ds by auto
  qed
  have good: "good t"
    if "y = Y \<or> y = Y - 1" "0 \<le> mm" "mm < 12" "12 * y + mm < 12 * Y + M"
      "86400 * (day_of y mm 1 - 1) \<le> t" "t < 86400 * (day_of y mm 1 + mlen y mm)" for y mm t
  proof -
    have "86400 * (day_of y mm 1 + mlen y mm) \<le> 86400 * daynum s" using before [OF that(2-4)] by simp
    moreover have "86400 * (daynum s - 760) \<le> 86400 * (day_of y mm 1 - 1)"
      using not_far [OF that(1-3)] r by (simp add: day)
    ultimately show ?thesis using win that(5,6) daynum_bounds [of s] by simp
  qed
  have at_day: "86400 * day_of y mm 1 \<le> at y mm" "at y mm < 86400 * (day_of y mm 1 + mlen y mm)" for y mm
    using r len [of y mm] day [of y mm] daynum_bounds [of s] by (simp_all add: at_def)
  have at_good: "good (at y mm)"
    if "y = Y \<or> y = Y - 1" "0 \<le> mm" "mm < 12" "12 * y + mm < 12 * Y + M" for y mm
    using that at_day [of y mm] by (intro good [OF that]) auto
  have civil: "year_of (at y mm) = y" "mon_of (at y mm) = mm" "mday_of (at y mm) = D" "daynum (at y mm) = day_of y mm D"
    "high b (at y mm) = high b s" if "0 \<le> mm" "mm < 12" for y mm
  proof -
    have e: "at y mm = instant (day_of y mm D) (hour_of s) (min_of s) (sec_of s)"
      using secs_decompose [of s] by (simp add: at_def instant_def)
    show dn: "daynum (at y mm) = day_of y mm D" "high b (at y mm) = high b s"
      unfolding e high_def using field_ranges [of s] by (simp_all add: instant_fields)
    show "year_of (at y mm) = y" "mon_of (at y mm) = mm" "mday_of (at y mm) = D"
      using civil_of_day_of [OF that r(3), of y] r len [of y mm] dn by (simp_all add: year_of_def mon_of_def mday_of_def)
  qed
  have nM: "nat M \<notin> bits_of (months e)" using m by (simp add: M_def)
  have finish: thesis
    if v: "v \<in> bits_of (months e)" "v \<noteq> nat M" and y: "y = Y \<or> y = Y - 1" "12 * y + int v < 12 * Y + M"
      and gap: "\<forall>i. 12 * y + int v < i \<and> i \<le> 12 * Y + M \<longrightarrow> nat (i mod 12) \<notin> bits_of (months e)"
      and fp: "\<And>c. reset_all_max pf (brk (at y (int v))) (rlist b 3) = Some (c, 0) \<Longrightarrow>
        find_prev pf (months e) 12 (nat M) (brk s) CRON_CF_MONTH CRON_CF_YEAR (rlist b 3) = Some (v, c, 0)" for y v
  proof -
    have v12: "0 \<le> int v" "int v < 12" using v Mo(4) by auto
    obtain L where L: "day_of y (int v) 1 + mlen y (int v) - 2 \<le> L" "L < day_of y (int v) 1 + mlen y (int v)"
      "reset_all_max pf (brk (at y (int v))) (rlist b 3) = Some (brk (86400 * L + 86340 + high b (at y (int v))), 0)"
      using reset_month_max [OF civil(4) [OF v12] v12 r(3,4) off, where b = b] good [OF y(1) v12 y(2)] by blast
    show thesis
    proof (rule found [of y v L])
      show "86400 * (day_of y (int v) 1 + mlen y (int v)) \<le> s"
        using before [OF v12 y(2)] daynum_bounds(1) [of s] by simp
      show "skip e (86400 * (day_of y (int v) 1 + mlen y (int v))) (s + 1)"
        using gap by (intro skip_from_month [OF v12]) (simp add: Y_def M_def)
      show "find_prev pf (months e) 12 (nat (mon_of s)) (brk s) CRON_CF_MONTH CRON_CF_YEAR (rlist b 3)
          = Some (v, brk (86400 * L + 86340 + high b s), 0)"
        using fp [OF L(3)] civil(5) [OF v12] by (simp add: M_def)
    qed (use y L(1,2) v in \<open>auto simp: Y_def M_def\<close>)
  qed
  have blk: "i mod 12 = i - 12 * k" if "12 * k \<le> i" "i < 12 * k + 12" for i k :: int
    using that by (rule mod_in_block)
  from prev_set [OF r(1) nM Mo(3) finite_bits_of] show thesis
  proof cases
    case (1 v)
    have v: "0 \<le> int v" "int v < 12" using 1 r by auto
    have psb: "prev_set_bit (months e) (int (nat M)) 0 = Some (v, False)"
      using Mo 1 r by (intro prev_set_bit_Some) auto
    have ne: "v \<noteq> nat M" using 1(2) r(1) by auto
    show thesis
    proof (rule finish [OF 1(1) ne, of Y])
      show "\<forall>i. 12 * Y + int v < i \<and> i \<le> 12 * Y + M \<longrightarrow> nat (i mod 12) \<notin> bits_of (months e)"
      proof (intro allI impI notI)
        fix i assume i: "12 * Y + int v < i \<and> i \<le> 12 * Y + M" "nat (i mod 12) \<in> bits_of (months e)"
        have mod: "i mod 12 = i - 12 * Y" using i(1) v r by (intro blk) auto
        then have "nat (i mod 12) \<le> nat M" using i(1) by (intro nat_mono) simp
        then have "nat (i mod 12) \<le> v" by (rule 1(3) [rule_format, OF i(2)])
        then show False using mod i(1) by (simp add: nat_le_iff)
      qed
      fix c assume c: "reset_all_max pf (brk (at Y (int v))) (rlist b 3) = Some (c, 0)"
      have "set_field pf (brk s) CRON_CF_MONTH (int v) = (brk (at Y (int v)), 0)"
        using set_field_month [of "int v" s] at_good [of Y "int v"] v 1(2) by (simp add: at_def Y_def D_def)
      then show "find_prev pf (months e) 12 (nat M) (brk s) CRON_CF_MONTH CRON_CF_YEAR (rlist b 3) = Some (v, c, 0)"
        using psb c ne by (simp add: find_prev_def find_prev_set_def)
    qed (use 1(2) in auto)
  next
    case (2 v)
    have v: "0 \<le> int v" "int v < 12" "M < int v" using 2 Mo(4) by auto
    have psb1: "prev_set_bit (months e) (int (nat M)) 0 = Some (0, True)"
      using Mo(1,2) 2(4) r by (intro prev_set_bit_None) auto
    have psb2: "prev_set_bit (months e) 11 (int (nat M)) = Some (v, False)"
      using Mo(1,2) 2 v r by (intro prev_set_bit_Some) auto
    have ne: "v \<noteq> nat M" using 2(2) r(1) by auto
    show thesis
    proof (rule finish [OF 2(1) ne, of "Y - 1"])
      show "\<forall>i. 12 * (Y - 1) + int v < i \<and> i \<le> 12 * Y + M \<longrightarrow> nat (i mod 12) \<notin> bits_of (months e)"
      proof (intro allI impI notI)
        fix i assume i: "12 * (Y - 1) + int v < i \<and> i \<le> 12 * Y + M" "nat (i mod 12) \<in> bits_of (months e)"
        show False
        proof (cases "i < 12 * Y")
          case True
          then have "i mod 12 = i - 12 * (Y - 1)" using i(1) v by (intro blk) auto
          then show False using 2(3) [rule_format, OF i(2)] i(1) by (simp add: nat_le_iff)
        next
          case False
          then have "i mod 12 = i - 12 * Y" using i(1) r by (intro blk) auto
          then have "nat (i mod 12) \<le> nat M" using i(1) by (intro nat_mono) simp
          then show False using 2(4) [rule_format, OF i(2)] by simp
        qed
      qed
      fix c assume c: "reset_all_max pf (brk (at (Y - 1) (int v))) (rlist b 3) = Some (c, 0)"
      have g: "good (at (Y - 1) mm)" if "0 \<le> mm" "mm < 12" for mm using at_good [of "Y - 1" mm] that r by simp
      have "add_to_field pf (brk s) CRON_CF_YEAR (- 1) = (brk (at (Y - 1) M), 0)"
        using add_year [of s "- 1"] g [of M] r by (simp add: at_def Y_def D_def M_def)
      moreover have "reset_max pf (brk (at (Y - 1) M)) CRON_CF_MONTH = Some (brk (at (Y - 1) 11), 0)"
        using reset_max_month [of "at (Y - 1) M"] civil [of M "Y - 1"] g [of 11] r by (simp add: at_def)
      moreover have "set_field pf (brk (at (Y - 1) 11)) CRON_CF_MONTH (int v) = (brk (at (Y - 1) (int v)), 0)"
        using set_field_month [of "int v" "at (Y - 1) 11"] civil [of 11 "Y - 1"] g [of "int v"] v by (simp add: at_def)
      ultimately show "find_prev pf (months e) 12 (nat M) (brk s) CRON_CF_MONTH CRON_CF_YEAR (rlist b 3) = Some (v, c, 0)"
        using psb1 psb2 c ne by (simp add: find_prev_def find_prev_set_def)
    qed (use v r in auto)
  qed
qed

end

end
