(* ===== verification/Cron_Prev_Correct.thy ===== *)
theory Cron_Prev_Correct
  imports Cron_Find_Prev
begin

section \<open>cron_prev returns the greatest earlier match\<close>

text \<open>
  For an expression that is regular up to day 27 the search returns, with enough fuel, the greatest
  matching instant before the given one. The recursion of \<open>do_prev\<close> is an induction on the distance
  to a matching instant \<open>B\<close>, which no stage passes. The restriction is needed: see
  \<open>Cron_Termination\<close>.
\<close>

text \<open>A regular expression has a match within the three years before.\<close>

lemma regular_28: "regular 27 e \<Longrightarrow> regular 28 e"
  by (auto simp: regular_def months_safe_def)

lemma earlier_match:
  assumes "regular 27 e"
  obtains B where "matches e B" "B \<le> x" "x - 70000001 \<le> B" "year_of x - 3 \<le> year_of B"
proof -
  define a where "a = x - 70000001"
  obtain B where B: "matches e B" "a \<le> B" "B \<le> a + 70000000" using later_match [OF regular_28 [OF assms]] by blast
  have "daynum x \<le> daynum a + 811" using daynum_bounds [of x] daynum_bounds [of a] by (simp add: a_def)
  then have "year_of x \<le> year_of_day (daynum a + 811)" unfolding year_of_def by (rule year_of_day_mono)
  also have "\<dots> \<le> year_of_day (daynum a + 446) + 1" by (rule year_of_day_soon) simp
  also have "\<dots> \<le> year_of_day (daynum a + 81) + 1 + 1" using year_of_day_soon [of "daynum a + 446" "daynum a + 81"] by simp
  also have "\<dots> \<le> year_of_day (daynum a) + 1 + 1 + 1" using year_of_day_soon [of "daynum a + 81" "daynum a"] by simp
  also have "\<dots> \<le> year_of B + 3" using year_of_mono [OF B(2)] by (simp add: year_of_def)
  finally show thesis using B by (intro that [of B]) (simp_all add: a_def)
qed

lemma nearest_day_before:
  assumes "wf_expr e" "one_day_field e"
  obtains t where "t < d" "d - 93 \<le> t" "day_matches e t" "\<forall>u. t < u \<and> u < d \<longrightarrow> \<not> day_matches e u"
    "bits_of (days_of_month e) = {1..31} \<Longrightarrow> d - 7 \<le> t"
proof -
  obtain t1 where t1: "d - 94 < t1" "t1 \<le> d - 94 + 93" "day_matches e t1" using nearest_day [OF assms, of "d - 94"] by blast
  obtain t2 where t2: "d - 8 < t2" "day_matches e t2" "bits_of (days_of_month e) = {1..31} \<longrightarrow> t2 \<le> d - 8 + 7"
    using nearest_day [OF assms, of "d - 8"] by blast
  define t0 where "t0 = (if bits_of (days_of_month e) = {1..31} then t2 else t1)"
  have t0: "t0 < d" "d - 93 \<le> t0" "day_matches e t0" "bits_of (days_of_month e) = {1..31} \<Longrightarrow> d - 7 \<le> t0"
    using t1 t2 by (auto simp: t0_def)
  define n where "n = (LEAST n. day_matches e (d - 1 - int n))"
  have ex: "day_matches e (d - 1 - int (nat (d - 1 - t0)))" using t0 by simp
  have n: "day_matches e (d - 1 - int n)" unfolding n_def using ex by (rule LeastI)
  have le: "n \<le> nat (d - 1 - t0)" unfolding n_def using ex by (rule Least_le)
  show thesis
  proof (rule that [of "d - 1 - int n"])
    show "\<forall>u. d - 1 - int n < u \<and> u < d \<longrightarrow> \<not> day_matches e u"
    proof (intro allI impI)
      fix u assume u: "d - 1 - int n < u \<and> u < d"
      then have "nat (d - 1 - u) < n" by linarith
      then have "\<not> day_matches e (d - 1 - int (nat (d - 1 - u)))" unfolding n_def by (rule not_less_Least)
      then show "\<not> day_matches e u" using u by simp
    qed
  qed (use n le t0 in auto)
qed

text \<open>The greatest second of an interval is where the search for the second stops.\<close>

lemma last_second:
  assumes "second_interval e" "nat (q mod 60) \<in> bits_of (seconds e)"
    and "nat ((q + 1) mod 60) \<notin> bits_of (seconds e)" "bits_of (seconds e) \<subseteq> {..<60}"
  shows "\<forall>c \<in> bits_of (seconds e). int c \<le> q mod 60"
proof -
  obtain a b where S: "bits_of (seconds e) = {a..b}" using assms(1) by (auto simp: second_interval_def)
  then have b: "b < 60" using assms(2,4) by auto
  have "int b \<le> q mod 60"
  proof (rule ccontr)
    assume less: "\<not> int b \<le> q mod 60"
    have "60 * (q div 60) + q mod 60 = q" "0 \<le> q mod 60" by simp_all
    then have "(q + 1) mod 60 = q + 1 - 60 * (q div 60)" using less b by (intro mod_in_block) linarith+
    then have "(q + 1) mod 60 = q mod 60 + 1" by (simp add: minus_mult_div_eq_mod [symmetric])
    then show False using assms(2,3) less unfolding S by (auto simp: nat_add_distrib)
  qed
  then show ?thesis unfolding S by auto
qed

lemma skip_above:
  assumes "0 < u" "\<forall>p. q < p \<and> p \<le> x div u \<longrightarrow> nat (p mod n) \<notin> X"
    "\<And>t. matches e t \<Longrightarrow> nat (t div u mod n) \<in> X"
  shows "skip e (u * q + u) (x + 1)"
  unfolding skip_def
proof (intro allI impI notI)
  fix t assume t: "u * q + u \<le> t \<and> t < x + 1" "matches e t"
  have "u * (q + 1) \<le> t" using t(1) by (simp add: algebra_simps)
  then have "q + 1 \<le> t div u" using assms(1) by (metis zdiv_mono1 nonzero_mult_div_cancel_left less_irrefl)
  moreover have "t div u \<le> x div u" using t(1) assms(1) by (simp add: zdiv_mono1)
  ultimately show False using assms(2,3) t(2) by force
qed

lemma day_mismatch_prev_eq:
  assumes "wf_expr e"
  shows "day_mismatch_prev (days_of_month e) (nat (mday_of s)) (days_of_week e) (nat (wday_of s))
    = Some (\<not> day_matches e (daynum s))"
  using day_mismatch_eq [OF assms, of s] by (simp add: day_mismatch_def day_mismatch_prev_def)

subsection \<open>The stages on a matching instant\<close>

context cron_clock
begin

lemma prev_month_same:
  assumes "wf_expr e" "matches e y"
  shows "do_prev_month pf e rc dot R (brk y) = Some (brk y, 0)"
proof -
  have "nat (mon_of y) < 12" using field_ranges [of y] by (simp add: nat_less_iff)
  then show ?thesis
    using assms(2) wf_sizes [OF assms(1)] by (simp add: do_prev_month_def matches_def find_prev_same)
qed

lemma prev_day_here:
  assumes "wf_expr e" "day_matches e (daynum y)"
  shows "do_prev_day pf e rc dot R (brk y)
    = do_prev_month pf e rc dot (push_to_fields_arr R CRON_CF_DAY_OF_MONTH) (brk y)"
  using assms day_mismatch_prev_eq [OF assms(1), of y] by (simp add: do_prev_day_def find_prev_day.simps)

lemma prev_day_same:
  "wf_expr e \<Longrightarrow> matches e y \<Longrightarrow> do_prev_day pf e rc dot R (brk y) = Some (brk y, 0)"
  by (subst prev_day_here) (auto simp: prev_month_same matches_def)

lemma prev_hour_here:
  assumes "wf_expr e" "nat (hour_of y) \<in> bits_of (hours e)"
  shows "do_prev_hour pf e rc dot R (brk y)
    = do_prev_day pf e rc dot (push_to_fields_arr R CRON_CF_HOUR_OF_DAY) (brk y)"
proof -
  have "nat (hour_of y) < 24" using field_ranges [of y] by (simp add: nat_less_iff)
  then show ?thesis
    using assms(2) wf_sizes [OF assms(1)] by (simp add: do_prev_hour_def find_prev_same)
qed

lemma prev_hour_same:
  "wf_expr e \<Longrightarrow> matches e y \<Longrightarrow> do_prev_hour pf e rc dot R (brk y) = Some (brk y, 0)"
  by (subst prev_hour_here) (auto simp: prev_day_same matches_def)

lemma prev_minute_here:
  assumes "wf_expr e" "nat (min_of y) \<in> bits_of (minutes e)"
  shows "do_prev_minute pf e rc dot R (brk y)
    = do_prev_hour pf e rc dot (push_to_fields_arr R CRON_CF_MINUTE) (brk y)"
proof -
  have "nat (min_of y) < 60" using field_ranges [of y] by (simp add: nat_less_iff)
  then show ?thesis
    using assms(2) wf_sizes [OF assms(1)] by (simp add: do_prev_minute_def find_prev_same)
qed

subsection \<open>Moving a clock field back\<close>

lemma clock_move_back:
  fixes u n :: int
  assumes u: "u = 60 * u'" "0 < u'" "0 < n" "u * n \<le> 86400"
    and ops: "\<And>x. good (x - u * n) \<Longrightarrow> add_to_field pf (brk x) g (- 1) = (brk (x - u * n), 0)"
      "\<And>x. good (x + u * (n - 1 - x div u mod n)) \<Longrightarrow>
        reset_max pf (brk x) f = Some (brk (x + u * (n - 1 - x div u mod n)), 0)"
      "\<And>x v. good (x + u * (v - x div u mod n)) \<Longrightarrow>
        set_field pf (brk x) f v = (brk (x + u * (v - x div u mod n)), 0)"
      "\<And>y. \<forall>w. y \<le> w \<and> w \<le> u * (y div u) + (u - 1) \<longrightarrow> good w \<Longrightarrow>
        reset_all_max pf (brk y) (rlist b j) = Some (brk (u * (y div u) + (u - 60) + high b y), 0)"
    and bits: "length X \<le> 256" "nat n \<le> 8 * length X" "bits_of X \<subseteq> {..<nat n}" "bits_of X \<noteq> {}"
      "nat (x div u mod n) \<notin> bits_of X" "\<And>t. matches e t \<Longrightarrow> nat (t div u mod n) \<in> bits_of X"
    and hi: "b \<or> (\<forall>c \<in> bits_of (seconds e). int c \<le> sec_of x)"
    and B: "matches e B" "B \<le> x" "\<forall>t. B - 80000000 \<le> t \<and> t \<le> x \<longrightarrow> good t"
  obtains v z where "v \<noteq> nat (x div u mod n)" "B \<le> z" "z < x" "skip e (z + 1) (x + 1)"
    "find_prev pf X (nat n) (nat (x div u mod n)) (brk x) f g (rlist b j) = Some (v, brk z, 0)"
proof -
  have u0: "0 < u" using u by simp
  have w: "\<forall>y. x - u * n \<le> y \<and> y \<le> x \<longrightarrow> good y" using B(2,3) u(4) by auto
  obtain q where q: "q < x div u" "nat (q mod n) \<in> bits_of X" "q mod n \<noteq> x div u mod n" "x div u - n \<le> q"
    "\<forall>p. q < p \<and> p \<le> x div u \<longrightarrow> nat (p mod n) \<notin> bits_of X"
    "\<And>c L. reset_all_max pf (brk (x - u * (x div u - q))) L = Some (c, 0) \<Longrightarrow>
       find_prev pf X (nat n) (nat (x div u mod n)) (brk x) f g L = Some (nat (q mod n), c, 0)"
    by (rule find_prev_field [OF u0 u(3) ops(1,2,3) bits(1-5) w], assumption, assumption, assumption, rule that)
  define y where "y = x - u * (x div u - q)"
  define z where "z = u * q + (u - 60) + high b x"
  have "(x + u * (q - x div u)) div u = x div u + (q - x div u)" using u0 by (intro div_mult_self2 [THEN trans]) auto
  then have y: "y div u = q" by (simp add: y_def algebra_simps)
  have sec: "sec_of y = sec_of x"
    using mod_mult_self2 [of x 60 "u' * (q - x div u)"] by (simp add: sec_of_def y_def u(1) algebra_simps)
  have up: "u * q + u \<le> x"
  proof -
    have "u * (q + 1) \<le> u * (x div u)" using q(1) u0 by (intro mult_left_mono) auto
    also have "\<dots> \<le> x" using pos_mod_sign [OF u0, of x] mult_div_mod_eq [of u x] by linarith
    finally show ?thesis by (simp add: algebra_simps)
  qed
  have lo: "x - 86400 \<le> y"
  proof -
    have "u * (x div u - q) \<le> u * n" using q(4) u0 by (intro mult_left_mono) auto
    then show ?thesis using u(4) by (simp add: y_def)
  qed
  have "reset_all_max pf (brk y) (rlist b j) = Some (brk z, 0)"
    using ops(4) [of y] B(2,3) up lo sec by (simp add: y z_def high_def)
  then have fp: "find_prev pf X (nat n) (nat (x div u mod n)) (brk x) f g (rlist b j) = Some (nat (q mod n), brk z, 0)"
    using q(6) by (simp add: y_def)
  have zq: "z = 60 * (u' * q + u' - 1) + high b x" "60 * (u' * q + u' - 1) + 60 = u * q + u"
    by (simp_all add: z_def u(1) algebra_simps)
  have "skip e (z + 1) (u * q + u)" unfolding zq(1) zq(2) [symmetric] by (rule skip_high [OF hi])
  moreover have "skip e (u * q + u) (x + 1)" using skip_above [OF u0 q(5) bits(6)] .
  ultimately have sk: "skip e (z + 1) (x + 1)" by (rule skip_trans)
  have "z < x" using up high_bounds(2) [of b x] by (simp add: z_def)
  moreover have "B \<le> z" using skip_matches_ge [OF sk B(1,2)] .
  moreover have "nat (q mod n) \<noteq> nat (x div u mod n)" using q(3) u(3) by (simp add: eq_nat_nat_iff)
  ultimately show thesis using that fp sk by blast
qed

lemma find_prev_day_search:
  assumes wf: "wf_expr e"
    and t: "t \<le> daynum x" "day_matches e t" "\<forall>u. t < u \<and> u \<le> daynum x \<longrightarrow> \<not> day_matches e u"
    and count: "count + nat (daynum x - t) \<le> 366"
    and win: "\<forall>y. 86400 * t \<le> y \<and> y \<le> x \<longrightarrow> good y"
  shows "find_prev_day pf (brk x) (days_of_month e) (nat (mday_of x)) (days_of_week e) (nat (wday_of x)) (rlist b 2) count
    = Some (nat (mday_of_day t), brk (if t = daynum x then x else 86400 * t + 86340 + high b x), 0)"
  using t count win
proof (induction "nat (daynum x - t)" arbitrary: x count)
  case 0
  then have "t = daynum x" by simp
  then show ?case using 0 day_mismatch_prev_eq [OF wf, of x] by (simp add: find_prev_day.simps mday_of_def)
next
  case (Suc n)
  have lt: "t < daynum x" using Suc.hyps(2) by simp
  define y where "y = x - 86400"
  define z where "z = 86400 * daynum y + 86340 + high b x"
  have y: "daynum y = daynum x - 1" unfolding y_def using daynum_bounds [of x] by (intro daynum_eq) auto
  have sec: "sec_of y = sec_of x" using mod_mult_self2 [of y 60 1440] by (simp add: sec_of_def y_def)
  then have hy: "high b y = high b x" by (simp add: high_def)
  have zb: "86400 * daynum y + 86340 \<le> z" "z < 86400 * daynum y + 86400" using high_bounds [where b = b and s = x] by (auto simp: z_def)
  then have z: "daynum z = daynum y" "z \<le> x" using daynum_bounds [of x] y by (auto intro: daynum_eq)
  have "z mod 60 = z - 60 * (1440 * daynum y + 1439)" using zb by (intro mod_in_block) auto
  then have "sec_of z = high b x" by (simp add: sec_of_def z_def)
  then have hz: "high b z = high b x" by (simp add: high_def)
  have day: "mday_of y = mday_of z" "wday_of y = wday_of z" by (simp_all add: mday_of_def wday_of_def z)
  have ty: "86400 * t \<le> y" "86400 * daynum y + 86399 \<le> x" using daynum_bounds [of y] daynum_bounds [of x] y lt by auto
  have "good y" using Suc.prems(5) ty by (simp add: y_def)
  then have "add_to_field pf (brk x) CRON_CF_DAY_OF_MONTH (- 1) = (brk y, 0)"
    using add_field(5) [of x "- 1"] by (simp add: y_def)
  moreover have "reset_all_max pf (brk y) (rlist b 2) = Some (brk z, 0)"
    using reset_day_max [of y b] Suc.prems(5) ty by (simp add: z_def hy)
  moreover have "day_mismatch_prev (days_of_month e) (nat (mday_of x)) (days_of_week e) (nat (wday_of x)) = Some True"
    using day_mismatch_prev_eq [OF wf, of x] Suc.prems(3) lt by simp
  moreover have "count < 366" using Suc.prems(4) lt by linarith
  ultimately have "find_prev_day pf (brk x) (days_of_month e) (nat (mday_of x)) (days_of_week e) (nat (wday_of x)) (rlist b 2) count
    = find_prev_day pf (brk z) (days_of_month e) (nat (mday_of z)) (days_of_week e) (nat (wday_of z)) (rlist b 2) (count + 1)"
    using day by (subst find_prev_day.simps) simp
  also have "\<dots> = Some (nat (mday_of_day t), brk (if t = daynum z then z else 86400 * t + 86340 + high b z), 0)"
    using Suc.hyps(2) Suc.prems lt y z by (intro Suc.hyps(1)) auto
  also have "(if t = daynum z then z else 86400 * t + 86340 + high b z) = 86400 * t + 86340 + high b x"
    using z hz by (auto simp: z_def)
  finally show ?case using lt by simp
qed

end

subsection \<open>The stages\<close>

context cron_clock_zone
begin

text \<open>What each stage relies on: the zone, the window, and the search from earlier instants.\<close>

lemma prev_month_stage:
  assumes wf: "wf_expr e" "months_safe 27 e" and off: "- 86400 < loff" "loff \<le> 86400"
    and x: "nat (sec_of x) \<in> bits_of (seconds e)" "nat (min_of x) \<in> bits_of (minutes e)"
      "nat (hour_of x) \<in> bits_of (hours e)" "day_matches e (daynum x)"
    and hi: "b \<or> (\<forall>c \<in> bits_of (seconds e). int c \<le> sec_of x)"
    and B: "matches e B" "B \<le> x" "\<forall>t. B - 80000000 \<le> t \<and> t \<le> x \<longrightarrow> good t"
    and yr: "year_of x \<le> int dot + 1900" "int dot + 1896 \<le> year_of B"
    and IH: "\<And>y. B \<le> y \<Longrightarrow> y < x \<Longrightarrow> finds_prev e brk y (\<lambda>k. do_prev pf k e dot (brk y))"
  shows "finds_prev e brk x (\<lambda>k. do_prev_month pf e (do_prev pf k e dot) dot (rlist b 3) (brk x))"
proof (cases "nat (mon_of x) \<in> bits_of (months e)")
  case True
  then have "matches e x" using x by (simp add: matches_def)
  then show ?thesis by (intro finds_prev_here) (simp_all add: prev_month_same [OF wf(1)])
next
  case False
  have "nat (mon_of x) < 12" using field_ranges [of x] by (simp add: nat_less_iff)
  then have dm: "bits_of (days_of_month e) \<subseteq> {..27}" "bits_of (days_of_week e) = {..<7}"
    using wf(2) False by (auto simp: months_safe_def)
  then have "nat (mday_of x) \<le> 27" using x(4) by (auto simp: day_matches_def mday_of_def)
  then have "mday_of x \<le> 28" by simp
  moreover have "\<forall>t. x - 80000000 \<le> t \<and> t \<le> x \<longrightarrow> good t" using B(2,3) by simp
  ultimately obtain y v L where y: "v \<in> bits_of (months e)" "v \<noteq> nat (mon_of x)"
    "86400 * (day_of y (int v) 1 + mlen y (int v)) \<le> x"
    "skip e (86400 * (day_of y (int v) 1 + mlen y (int v))) (x + 1)"
    "day_of y (int v) 1 + mlen y (int v) - 2 \<le> L" "L < day_of y (int v) 1 + mlen y (int v)"
    and fp: "find_prev pf (months e) 12 (nat (mon_of x)) (brk x) CRON_CF_MONTH CRON_CF_YEAR (rlist b 3)
      = Some (v, brk (86400 * L + 86340 + high b x), 0)"
    by (rule find_prev_month [OF wf(1) _ False off])
  define F where "F = day_of y (int v) 1 + mlen y (int v)"
  define z where "z = 86400 * L + 86340 + high b x"
  have v12: "0 \<le> int v" "int v < 12" using y(1) wf(1) by (auto simp: wf_expr_def)
  have "skip e (z + 1) (86400 * (L + 1))"
    unfolding z_def using skip_high [OF hi, of "1440 * L + 1439"] by (simp add: algebra_simps)
  moreover have "skip e (86400 * (L + 1)) (86400 * F)"
    unfolding skip_def
  proof (intro allI impI)
    fix t assume t: "86400 * (L + 1) \<le> t \<and> t < 86400 * F"
    then have "L < daynum t" "daynum t < F" using t daynum_bounds [of t] by auto
    then have "daynum t = day_of y (int v) (mlen y (int v))"
      using y(5) day_of_add [of y "int v" 1 "mlen y (int v) - 1"] by (simp add: F_def)
    then have "mday_of_day (daynum t) = mlen y (int v)"
      using civil_of_day_of(3) [OF v12, of "mlen y (int v)" y] mlen_bounds(1) [of y "int v"] by simp
    then have "nat (mday_of_day (daynum t)) \<notin> {..27}" using mlen_bounds(1) [of y "int v"] by simp
    then show "\<not> matches e t" using dm by (auto simp: matches_def weekday_full)
  qed
  ultimately have "skip e (z + 1) (86400 * F)" by (rule skip_trans)
  then have sk: "skip e (z + 1) (x + 1)" using y(4) skip_trans unfolding F_def by blast
  have "86400 * (L + 1) \<le> 86400 * F" using y(6) by (simp add: F_def)
  then have z: "B \<le> z" "z < x"
    using skip_matches_ge [OF sk B(1,2)] y(3) high_bounds(2) [where b = b and s = x] by (auto simp: z_def F_def)
  have "u32_of_int (int dot - (year_of z - 1900)) \<le> 4"
    using yr year_of_mono [OF z(1)] year_of_mono [of z x] z(2) by (simp add: u32_of_int_small)
  then have "do_prev_month pf e (do_prev pf k e dot) dot (rlist b 3) (brk x) = do_prev pf k e dot (brk z)" for k
    using fp y(2) by (simp add: do_prev_month_def z_def [symmetric])
  then show ?thesis using IH [OF z] z by (intro finds_prev_skip [OF sk]) auto
qed

lemma prev_day_stage:
  assumes wf: "wf_expr e" "months_safe 27 e" "one_day_field e" and off: "- 86400 < loff" "loff \<le> 86400"
    and x: "nat (sec_of x) \<in> bits_of (seconds e)" "nat (min_of x) \<in> bits_of (minutes e)"
      "nat (hour_of x) \<in> bits_of (hours e)"
    and hi: "b \<or> (\<forall>c \<in> bits_of (seconds e). int c \<le> sec_of x)"
    and B: "matches e B" "B \<le> x" "\<forall>t. B - 80000000 \<le> t \<and> t \<le> x \<longrightarrow> good t"
    and yr: "year_of x \<le> int dot + 1900" "int dot + 1896 \<le> year_of B"
    and IH: "\<And>y. B \<le> y \<Longrightarrow> y < x \<Longrightarrow> finds_prev e brk y (\<lambda>k. do_prev pf k e dot (brk y))"
  shows "finds_prev e brk x (\<lambda>k. do_prev_day pf e (do_prev pf k e dot) dot (rlist b 2) (brk x))"
proof (cases "day_matches e (daynum x)")
  case True
  show ?thesis
    using prev_month_stage [OF wf(1,2) off x True hi B yr IH]
    by (simp add: prev_day_here [OF wf(1) True] rlist_push)
next
  case False
  obtain t where t: "t < daynum x" "daynum x - 93 \<le> t" "day_matches e t"
    "\<forall>u. t < u \<and> u < daynum x \<longrightarrow> \<not> day_matches e u"
    "bits_of (days_of_month e) = {1..31} \<Longrightarrow> daynum x - 7 \<le> t"
    using nearest_day_before [OF wf(1,3), of "daynum x"] by blast
  have none: "\<not> day_matches e u" if "t < u" "u \<le> daynum x" for u
    using that False t(4) by (cases "u = daynum x") auto
  define z where "z = 86400 * t + 86340 + high b x"
  have "skip e (86400 * (t + 1)) (x + 1)"
    unfolding skip_def
  proof (intro allI impI)
    fix u assume u: "86400 * (t + 1) \<le> u \<and> u < x + 1"
    then have "t < daynum u" "daynum u \<le> daynum x"
      using daynum_bounds [of x] daynum_bounds [of u] by auto
    then show "\<not> matches e u" using none by (simp add: matches_def)
  qed
  moreover have "skip e (z + 1) (86400 * (t + 1))"
    unfolding z_def using skip_high [OF hi, of "1440 * t + 1439"] by (simp add: algebra_simps)
  ultimately have sk: "skip e (z + 1) (x + 1)" using skip_trans by blast
  have z: "B \<le> z" "z < x"
    using t(1) daynum_bounds [of x] high_bounds(2) [where b = b and s = x] skip_matches_ge [OF sk B(1,2)]
    by (auto simp: z_def)
  have "B - 80000000 \<le> 86400 * t" using z(1) high_bounds(2) [where b = b and s = x] by (simp add: z_def)
  then have "find_prev_day pf (brk x) (days_of_month e) (nat (mday_of x)) (days_of_week e) (nat (wday_of x)) (rlist b 2) 0
      = Some (nat (mday_of_day t), brk z, 0)"
    using find_prev_day_search [OF wf(1), of t x 0 b] t(1,2,3) none B(3) by (simp add: z_def)
  moreover have "mday_of_day t \<noteq> mday_of x"
  proof (cases "bits_of (days_of_month e) = {1..31}")
    case True
    then show ?thesis using mday_changes [of "daynum x - t" t] t by (auto simp: mday_of_def)
  next
    case nD: False
    then have "bits_of (days_of_week e) = {..<7}" using wf(3) by (simp add: one_day_field_def)
    then have "nat (mday_of_day (daynum x)) \<notin> bits_of (days_of_month e)"
      "nat (mday_of_day t) \<in> bits_of (days_of_month e)"
      using False t(3) by (simp_all add: weekday_full)
    then show ?thesis unfolding mday_of_def by metis
  qed
  then have "nat (mday_of x) \<noteq> nat (mday_of_day t)"
    using mday_of_day_bounds(1) [of t] field_ranges(9) [of x] by (simp add: eq_nat_nat_iff)
  ultimately have run: "do_prev_day pf e rc dot (rlist b 2) (brk x)
      = do { (cal, res) \<leftarrow> rc (brk z);
             if res \<noteq> 0 then Some (cal, res) else do_prev_month pf e rc dot (rlist b 2) cal }" for rc
    by (simp add: do_prev_day_def)
  have "finds_prev e brk z (\<lambda>k. do_prev_day pf e (do_prev pf k e dot) dot (rlist b 2) (brk x))"
    by (rule finds_prev_then [OF IH [OF z],
          where H = "\<lambda>k. do_prev_month pf e (do_prev pf k e dot) dot (rlist b 2)"])
      (simp_all only: run prev_month_same [OF wf(1)])
  then show ?thesis using z by (intro finds_prev_skip [OF sk]) auto
qed

lemma prev_hour_stage:
  assumes wf: "wf_expr e" "months_safe 27 e" "one_day_field e" and off: "- 86400 < loff" "loff \<le> 86400"
    and x: "nat (sec_of x) \<in> bits_of (seconds e)" "nat (min_of x) \<in> bits_of (minutes e)"
    and hi: "b \<or> (\<forall>c \<in> bits_of (seconds e). int c \<le> sec_of x)"
    and B: "matches e B" "B \<le> x" "\<forall>t. B - 80000000 \<le> t \<and> t \<le> x \<longrightarrow> good t"
    and yr: "year_of x \<le> int dot + 1900" "int dot + 1896 \<le> year_of B"
    and IH: "\<And>y. B \<le> y \<Longrightarrow> y < x \<Longrightarrow> finds_prev e brk y (\<lambda>k. do_prev pf k e dot (brk y))"
  shows "finds_prev e brk x (\<lambda>k. do_prev_hour pf e (do_prev pf k e dot) dot (rlist b 1) (brk x))"
proof (cases "nat (hour_of x) \<in> bits_of (hours e)")
  case True
  show ?thesis
    using prev_day_stage [OF wf off x True hi B yr IH] prev_hour_here [OF wf(1) True]
    by (simp add: rlist_push del: One_nat_def)
next
  case False
  obtain v z where z: "v \<noteq> nat (hour_of x)" "B \<le> z" "z < x" "skip e (z + 1) (x + 1)"
    "find_prev pf (hours e) 24 (nat (hour_of x)) (brk x) CRON_CF_HOUR_OF_DAY CRON_CF_DAY_OF_WEEK (rlist b 1)
       = Some (v, brk z, 0)"
    by (rule clock_move_back [where u = 3600 and u' = 60 and n = 24 and X = "hours e" and x = x and b = b and j = 1
          and f = CRON_CF_HOUR_OF_DAY and g = CRON_CF_DAY_OF_WEEK, OF _ _ _ _ _ _ _ _ _ _ _ _ _ _ hi B])
      (use wf(1) False add_field(4) [where v = "- 1"] reset_max_ok(3) set_field_ok(3) reset_hour_max
        in \<open>simp_all add: wf_expr_def matches_def hour_of_def del: One_nat_def\<close>)
  have run: "do_prev_hour pf e rc dot (rlist b 1) (brk x)
      = do { (cal, res) \<leftarrow> rc (brk z);
             if res \<noteq> 0 then Some (cal, res) else do_prev_day pf e rc dot (rlist b 1) cal }" for rc
    using z(1,5) by (simp add: do_prev_hour_def del: One_nat_def)
  have "finds_prev e brk z (\<lambda>k. do_prev_hour pf e (do_prev pf k e dot) dot (rlist b 1) (brk x))"
    by (rule finds_prev_then [OF IH [OF z(2,3)],
          where H = "\<lambda>k. do_prev_day pf e (do_prev pf k e dot) dot (rlist b 1)"])
      (simp_all only: run prev_day_same [OF wf(1)])
  then show ?thesis using z by (intro finds_prev_skip [OF z(4)]) auto
qed

lemma prev_minute_stage:
  assumes wf: "wf_expr e" "months_safe 27 e" "one_day_field e" and off: "- 86400 < loff" "loff \<le> 86400"
    and x: "nat (sec_of x) \<in> bits_of (seconds e)"
    and hi: "b \<or> (\<forall>c \<in> bits_of (seconds e). int c \<le> sec_of x)"
    and B: "matches e B" "B \<le> x" "\<forall>t. B - 80000000 \<le> t \<and> t \<le> x \<longrightarrow> good t"
    and yr: "year_of x \<le> int dot + 1900" "int dot + 1896 \<le> year_of B"
    and IH: "\<And>y. B \<le> y \<Longrightarrow> y < x \<Longrightarrow> finds_prev e brk y (\<lambda>k. do_prev pf k e dot (brk y))"
  shows "finds_prev e brk x (\<lambda>k. do_prev_minute pf e (do_prev pf k e dot) dot (rlist b 0) (brk x))"
proof (cases "nat (min_of x) \<in> bits_of (minutes e)")
  case True
  show ?thesis
    using prev_hour_stage [OF wf off x True hi B yr IH] prev_minute_here [OF wf(1) True]
    by (simp add: rlist_push del: One_nat_def)
next
  case False
  obtain v z where z: "v \<noteq> nat (min_of x)" "B \<le> z" "z < x" "skip e (z + 1) (x + 1)"
    "find_prev pf (minutes e) 60 (nat (min_of x)) (brk x) CRON_CF_MINUTE CRON_CF_HOUR_OF_DAY (rlist b 0)
       = Some (v, brk z, 0)"
    by (rule clock_move_back [where u = 60 and u' = 1 and n = 60 and X = "minutes e" and x = x and b = b and j = 0
          and f = CRON_CF_MINUTE and g = CRON_CF_HOUR_OF_DAY, OF _ _ _ _ _ _ _ _ _ _ _ _ _ _ hi B])
      (use wf(1) False add_field(3) [where v = "- 1"] reset_max_ok(2) set_field_ok(2) reset_minute_max
        in \<open>simp_all add: wf_expr_def matches_def min_of_def\<close>)
  have run: "do_prev_minute pf e rc dot (rlist b 0) (brk x)
      = do { (cal, res) \<leftarrow> rc (brk z);
             if res \<noteq> 0 then Some (cal, res) else do_prev_hour pf e rc dot (rlist b 0) cal }" for rc
    using z(1,5) by (simp add: do_prev_minute_def)
  have "finds_prev e brk z (\<lambda>k. do_prev_minute pf e (do_prev pf k e dot) dot (rlist b 0) (brk x))"
    by (rule finds_prev_then [OF IH [OF z(2,3)],
          where H = "\<lambda>k. do_prev_hour pf e (do_prev pf k e dot) dot (rlist b 0)"])
      (simp_all only: run prev_hour_same [OF wf(1)])
  then show ?thesis using z by (intro finds_prev_skip [OF z(4)]) auto
qed

lemma prev_second_stage:
  assumes reg: "regular 27 e" and off: "- 86400 < loff" "loff \<le> 86400"
    and B: "matches e B" "B \<le> x" "\<forall>t. B - 80000000 \<le> t \<and> t \<le> x \<longrightarrow> good t"
    and yr: "year_of x \<le> int dot + 1900" "int dot + 1896 \<le> year_of B"
    and IH: "\<And>y. B \<le> y \<Longrightarrow> y < x \<Longrightarrow> finds_prev e brk y (\<lambda>k. do_prev pf k e dot (brk y))"
  shows "finds_prev e brk x (\<lambda>k. do_prev pf (Suc k) e dot (brk x))"
proof (cases "nat (sec_of x) \<in> bits_of (seconds e)")
  case True
  have wf: "wf_expr e" "months_safe 27 e" "one_day_field e" using reg by (simp_all add: regular_def)
  have "find_prev pf (seconds e) 60 (nat (sec_of x)) (brk x) CRON_CF_SECOND CRON_CF_MINUTE no_fields
      = Some (nat (sec_of x), brk x, 0)"
    using wf(1) True field_ranges [of x] by (intro find_prev_same) (auto simp: wf_expr_def nat_less_iff)
  then show ?thesis
    using prev_minute_stage [OF wf off True _ B yr IH, where b = True]
    by (simp add: do_prev_second_def rlist_push(1))
next
  case False
  have wf: "wf_expr e" "months_safe 27 e" "one_day_field e" "second_interval e"
    using reg by (simp_all add: regular_def)
  obtain q where q: "q < x div 1" "nat (q mod 60) \<in> bits_of (seconds e)"
    "q mod 60 \<noteq> x div 1 mod 60" "x div 1 - 60 \<le> q" "\<forall>p. q < p \<and> p \<le> x div 1 \<longrightarrow> nat (p mod 60) \<notin> bits_of (seconds e)"
    "find_prev pf (seconds e) (nat 60) (nat (x div 1 mod 60)) (brk x) CRON_CF_SECOND CRON_CF_MINUTE no_fields
      = Some (nat (q mod 60), brk q, 0)"
  proof (rule find_prev_field [where u = 1 and n = 60 and s = x and b = "seconds e"
        and f = CRON_CF_SECOND and g = CRON_CF_MINUTE])
    show "\<forall>y. x - 1 * 60 \<le> y \<and> y \<le> x \<longrightarrow> good y" using B(2,3) by simp
  qed (use wf(1) False add_field(2) [where v = "- 1"] reset_max_ok(1) set_field_ok(1)
      in \<open>simp_all add: wf_expr_def sec_of_def no_fields_def\<close>)
  have sec: "nat (sec_of q) \<in> bits_of (seconds e)" "q < x" using q(1,2) by (simp_all add: sec_of_def)
  have "nat ((q + 1) mod 60) \<notin> bits_of (seconds e)" using q(1,5) by simp
  moreover have "bits_of (seconds e) \<subseteq> {..<60}" using wf(1) by (simp add: wf_expr_def)
  ultimately have hi: "False \<or> (\<forall>c \<in> bits_of (seconds e). int c \<le> sec_of q)"
    using last_second [OF wf(4) q(2)] by (simp add: sec_of_def)
  have sk: "skip e (q + 1) (x + 1)" using q(5) by (simp add: skip_def matches_def sec_of_def)
  have qB: "B \<le> q" using skip_matches_ge [OF sk B(1,2)] .
  have run: "do_prev pf (Suc k) e dot (brk x) = do_prev_minute pf e (do_prev pf k e dot) dot (rlist False 0) (brk q)" for k
  proof -
    have "nat (sec_of x) \<noteq> nat (q mod 60)" using q(3) by (simp add: sec_of_def eq_nat_nat_iff)
    moreover have "find_prev pf (seconds e) 60 (nat (sec_of x)) (brk x) CRON_CF_SECOND CRON_CF_MINUTE (rlist False 0)
        = Some (nat (q mod 60), brk q, 0)"
      using q(6) by (simp add: sec_of_def rlist_push(2))
    ultimately show ?thesis by (simp add: do_prev_second_def rlist_push(2))
  qed
  have "finds_prev e brk q (\<lambda>k. do_prev pf (Suc k) e dot (brk x))"
    unfolding run
    using year_of_mono [of q x] B(3) sec(2) yr IH
    by (intro prev_minute_stage [OF wf(1-3) off sec(1) hi B(1) qB]) auto
  then show ?thesis using sec(2) by (intro finds_prev_skip [OF sk]) auto
qed

subsection \<open>The search\<close>

lemma do_prev_greatest:
  assumes "regular 27 e" "- 86400 < loff" "loff \<le> 86400" "matches e B" "B \<le> x"
    "\<forall>t. B - 80000000 \<le> t \<and> t \<le> x \<longrightarrow> good t" "year_of x \<le> int dot + 1900" "int dot + 1896 \<le> year_of B"
  shows "finds_prev e brk x (\<lambda>k. do_prev pf k e dot (brk x))"
  using assms(5-7)
proof (induction "nat (x - B)" arbitrary: x rule: less_induct)
  case less
  have "finds_prev e brk x (\<lambda>k. do_prev pf (Suc k) e dot (brk x))"
  proof (rule prev_second_stage [OF assms(1-4) less.prems assms(8)])
    fix y assume "B \<le> y" "y < x"
    then show "finds_prev e brk y (\<lambda>k. do_prev pf k e dot (brk y))"
      using less.prems year_of_mono [of y x] by (intro less.hyps) auto
  qed
  then show ?case by (rule finds_prev_Suc)
qed

lemma cron_prev_greatest:
  assumes reg: "regular 27 e" and loff: "- 86400 < loff" "loff \<le> 86400"
    and win: "\<forall>t. date + off - 200000000 \<le> t \<and> t \<le> date + off \<longrightarrow> good t"
    and yr: "1900 \<le> year_of (date + off - 1)"
  shows "\<exists>n r. (\<forall>k \<ge> n. cron_prev pf k e date = Some (r - off)) \<and> prev_match e (date + off) r"
proof -
  define s where "s = date + off"
  have good: "good s" "good (s - 1)" using spec [OF win, of s] spec [OF win, of "s - 1"] by (simp_all add: s_def)
  have search: "\<exists>r n. r \<le> x \<and> x - 70000001 \<le> r \<and> matches e r \<and> skip e (r + 1) (x + 1)
      \<and> (\<forall>k \<ge> n. do_prev pf k e (u32_of_int (year_of x - 1900)) (brk x) = Some (brk r, 0))"
    if x: "s - 1 \<le> x" "x \<le> s" for x
  proof -
    obtain B where B: "matches e B" "B \<le> x" "x - 70000001 \<le> B" "year_of x - 3 \<le> year_of B"
      using earlier_match [OF reg] by blast
    have "year_of x - 1900 \<le> 2147483647" using win x by (simp add: s_def year_fits_def)
    moreover have "1900 \<le> year_of x" using yr year_of_mono [OF x(1)] by (simp add: s_def)
    ultimately have "int (u32_of_int (year_of x - 1900)) = year_of x - 1900" by (simp add: u32_of_int_small)
    moreover have "\<forall>t. B - 80000000 \<le> t \<and> t \<le> x \<longrightarrow> good t" using win x B(3) by (auto simp: s_def)
    ultimately have "finds_prev e brk x (\<lambda>k. do_prev pf k e (u32_of_int (year_of x - 1900)) (brk x))"
      using B by (intro do_prev_greatest [OF reg loff B(1,2)]) auto
    then obtain r n where r: "r \<le> x" "matches e r" "skip e (r + 1) (x + 1)"
      "\<forall>k \<ge> n. do_prev pf k e (u32_of_int (year_of x - 1900)) (brk x) = Some (brk r, 0)"
      by (auto simp: finds_prev_def)
    moreover have "x - 70000001 \<le> r" using skip_matches_ge [OF r(3) B(1,2)] B(3) by simp
    ultimately show ?thesis by blast
  qed
  obtain r1 n1 where r1: "r1 \<le> s" "s - 70000001 \<le> r1" "matches e r1" "skip e (r1 + 1) (s + 1)"
    "\<forall>k \<ge> n1. do_prev pf k e (u32_of_int (year_of s - 1900)) (brk s) = Some (brk r1, 0)"
    using search [of s] by auto
  obtain r2 n2 where r2: "r2 \<le> s - 1" "s - 70000002 \<le> r2" "matches e r2" "skip e (r2 + 1) s"
    "\<forall>k \<ge> n2. do_prev pf k e (u32_of_int (year_of (s - 1) - 1900)) (brk (s - 1)) = Some (brk r2, 0)"
    using search [of "s - 1"] by auto
  have g: "good r1" "good r2" using win r1(1,2) r2(1,2) by (auto simp: s_def)
  have mk: "cron_mktime pf (brk y) = (brk y, y - off)" if "good y" for y using that mktime by simp
  have "\<forall>k \<ge> max n1 n2. cron_prev pf k e date = Some ((if r1 = s then r2 else r1) - off)"
  proof (intro allI impI)
    fix k assume k: "max n1 n2 \<le> k"
    have "add_to_field pf (brk s) CRON_CF_SECOND (- 1) = (brk (s - 1), 0)" using add_field(1) [of s "- 1"] good(2) by simp
    then show "cron_prev pf k e date = Some ((if r1 = s then r2 else r1) - off)"
      using k r1(5) r2(5) g good(1) time [of date] mk [of s] mk [of r1] mk [of r2]
      by (auto simp: cron_prev_def s_def)
  qed
  moreover have "prev_match e s (if r1 = s then r2 else r1)"
    using r1 r2 by (auto simp: prev_match_def skip_def)
  ultimately show ?thesis unfolding s_def by blast
qed

end

subsection \<open>The two builds\<close>

lemma local_prev_greatest:
  assumes "regular 27 e" "200000000 \<le> date" "date \<le> 2 ^ 50" "- 86400 < off" "off \<le> 86400"
  shows "\<exists>n r. (\<forall>k \<ge> n. cron_prev (local_build (fixed_zone off zone)) k e date = Some (r - off))
    \<and> prev_match e (date + off) r"
proof (rule fixed.cron_prev_greatest [OF assms(1,4,5)])
  show "\<forall>t. date + off - 200000000 \<le> t \<and> t \<le> date + off \<longrightarrow> year_fits t \<and> t - off \<noteq> - 1"
  proof (intro allI impI conjI)
    fix t assume t: "date + off - 200000000 \<le> t \<and> t \<le> date + off"
    then show "year_fits t" using assms(2-5) by (intro year_of_window) auto
    show "t - off \<noteq> - 1" using t assms(2) by simp
  qed
  show "1900 \<le> year_of (date + off - 1)" using year_of_window(1) [of "date + off - 1"] assms(2-5) by simp
qed

text \<open>C2: On a host whose zone has a constant offset of less than a day, the local-time build of
  \<open>cron_prev\<close> (the one that answers which execution was the last) returns, for an expression that is
  regular up to day 27 and a date between 200000000 and \<open>2 ^ 50\<close>, with enough fuel and from then on, the
  greatest instant before the given date that matches in local time. East of Greenwich too, where the
  end of the month is computed one day short.\<close>

theorem cron_prev_local_greatest:
  assumes "regular 27 e" "200000000 \<le> date" "date \<le> 2 ^ 50" "- 86400 < off" "off \<le> 86400"
  shows "\<exists>n r. (\<forall>k \<ge> n. cron_prev (local_build (fixed_zone off zone)) k e date = Some (r - off))
    \<and> prev_match e (date + off) r"
  using assms by (rule local_prev_greatest)

theorem cron_prev_local_greatest_witness:
  "\<exists>n r. (\<forall>k \<ge> n. cron_prev (local_build (fixed_zone 3600 ''CET'')) k mid_month 1612051200 = Some (r - 3600))
    \<and> prev_match mid_month (1612051200 + 3600) r"
  by (rule cron_prev_local_greatest) (simp_all add: regular_mid_month)

end
