(* ===== verification/Cron_Termination.thy ===== *)
theory Cron_Termination
  imports Cron_Prev_Correct Cron_Parse
begin

section \<open>Termination of the searches\<close>





subsection \<open>The bits of an array\<close>



subsection \<open>Instants kept by the resets\<close>





subsection \<open>do_prev can recurse for ever\<close>

text \<open>Midnight of every day of February. From March 31 the search sets the month to February, which
  the calendar turns into March 3; the reset to the last day of the month leads to March 31 again.\<close>

definition februaries :: cron_expr where
  "februaries = \<lparr>seconds = [1, 0, 0, 0, 0, 0, 0, 0], minutes = [1, 0, 0, 0, 0, 0, 0, 0], hours = [1, 0, 0],
     days_of_week = [127], days_of_month = [254, 255, 255, 255], months = [2, 0]\<rparr>"

abbreviation (input) utc_host :: platform where "utc_host \<equiv> local_build (fixed_zone 0 ''UTC'')"
abbreviation (input) utc_time :: "int \<Rightarrow> tm" where "utc_time \<equiv> break_time 0 0 ''UTC''"

text \<open>March 31, 2021 at 00:00:00, 23:59:59, 23:00:00 and 00:59:59: each call leads to the next.\<close>

lemma back_to_march:
  "do_prev_second utc_host februaries rc 121 (utc_time 1617148800) = rc (utc_time 1617235199)"
  by code_simp

lemma back_minute:
  assumes "rc (utc_time 1617231600) = None"
  shows "do_prev_second utc_host februaries rc 121 (utc_time 1617235199) = None"
proof -
  have v: "u32_of_int (tm_sec (utc_time 1617235199)) = 59" "u32_of_int (tm_min (utc_time 1617235140)) = 59" by code_simp+
  have s: "find_prev utc_host (seconds februaries) 60 59 (utc_time 1617235199) 0 1 no_fields = Some (0, utc_time 1617235140, 0)"
    by code_simp
  have m: "find_prev utc_host (minutes februaries) 60 59 (utc_time 1617235140) 1 2 no_fields = Some (0, utc_time 1617231600, 0)"
    by code_simp
  show ?thesis using assms unfolding do_prev_second_def do_prev_minute_def Let_def v s by (simp add: m v(2) del: break_time_sel)
qed

lemma back_hour:
  assumes "rc (utc_time 1617152399) = None"
  shows "do_prev_second utc_host februaries rc 121 (utc_time 1617231600) = None"
proof -
  have "do_prev_second utc_host februaries rc 121 (utc_time 1617231600)
      = do_prev_hour utc_host februaries rc 121 (rlist True 1) (utc_time 1617231600)" by code_simp
  moreover have "u32_of_int (tm_hour (utc_time 1617231600)) = 23" by code_simp
  moreover have "find_prev utc_host (hours februaries) 24 23 (utc_time 1617231600) 2 3 (rlist True 1) = Some (0, utc_time 1617152399, 0)"
    by code_simp
  ultimately show ?thesis using assms by (simp add: do_prev_hour_def del: break_time_sel)
qed

lemma back_to_start:
  assumes "rc (utc_time 1617148800) = None"
  shows "do_prev_second utc_host februaries rc 121 (utc_time 1617152399) = None"
proof -
  have v: "u32_of_int (tm_sec (utc_time 1617152399)) = 59" "u32_of_int (tm_min (utc_time 1617152340)) = 59" by code_simp+
  have s: "find_prev utc_host (seconds februaries) 60 59 (utc_time 1617152399) 0 1 no_fields = Some (0, utc_time 1617152340, 0)"
    by code_simp
  have m: "find_prev utc_host (minutes februaries) 60 59 (utc_time 1617152340) 1 2 no_fields = Some (0, utc_time 1617148800, 0)"
    by code_simp
  show ?thesis using assms unfolding do_prev_second_def do_prev_minute_def Let_def v s by (simp add: m v(2) del: break_time_sel)
qed

text \<open>C8: \<open>cron_prev\<close> does not terminate for the crontab schedule \<open>0 0 0 * 2 *\<close> from March 31, 2021: no
  depth of the recursion is enough, so that the process runs out of stack.\<close>

theorem cron_prev_never_returns:
  "cron_parse_expr (Some ''0 0 0 * 2 *'') (Some zero_expr) = Some (Some februaries, None)
   \<and> (\<forall>k. cron_prev (local_build (fixed_zone 0 ''UTC'')) k februaries 1617148800 = None)"
proof
  show "cron_parse_expr (Some ''0 0 0 * 2 *'') (Some zero_expr) = Some (Some februaries, None)" by code_simp
  have "do_prev utc_host k februaries 121 (utc_time 1617148800) = None
      \<and> do_prev utc_host k februaries 121 (utc_time 1617235199) = None
      \<and> do_prev utc_host k februaries 121 (utc_time 1617231600) = None
      \<and> do_prev utc_host k februaries 121 (utc_time 1617152399) = None" for k
    by (induction k) (auto simp: back_to_march back_minute back_hour back_to_start)
  moreover have "cron_time utc_host 1617148800 = Some (utc_time 1617148800)"
    "cron_mktime utc_host (utc_time 1617148800) = (utc_time 1617148800, 1617148800)"
    "u32_of_int (tm_year (utc_time 1617148800)) = 121" by code_simp+
  ultimately show "\<forall>k. cron_prev utc_host k februaries 1617148800 = None"
    by (simp add: cron_prev_def del: break_time_sel)
qed

end
