(* ===== verification/Cron_Tool_Correct.thy ===== *)
theory Cron_Tool_Correct
  imports Cron_Tool_Next Cron_Meaning Cron_Termination
begin

section \<open>The command-line tools\<close>

text \<open>
  The two programs are compiled from copies of the same helpers, which agree. A crontab line is
  split into the schedule and the command behind it (\<open>split_line_fields\<close>), and from a line whose
  schedule is a regular expression and a start time in seconds the programs print the instant that
  \<open>cron_next\<close> and \<open>cron_prev\<close> are specified to find, and the command (\<open>main_next_run\<close>,
  \<open>main_last_run\<close>): the parser, the search and the output composed. The date the tools print
  can be given back to them (\<open>iso_text_read\<close>).
\<close>

subsection \<open>The copies\<close>

lemma position_copies:
  "position_of_beginning_of_next_word_boundary_next = position_of_beginning_of_next_word_boundary"
  "position_of_end_of_next_word_boundary_next = position_of_end_of_next_word_boundary"
  by (simp_all add: fun_eq_iff position_of_beginning_of_next_word_boundary_next_def
      position_of_beginning_of_next_word_boundary_def position_of_end_of_next_word_boundary_next_def
      position_of_end_of_next_word_boundary_def)

lemma word_loop_copy: "word_loop_next s is b l p = word_loop s is b l p"
proof (induction "is" arbitrary: b l p)
  case (Cons i "is")
  show ?case by (simp only: word_loop_next.simps word_loop.simps position_copies Cons.IH)
qed simp

lemma split_line_copy: "split_line_next arg = split_line arg"
  by (simp only: split_line_next_def split_line_def position_copies word_loop_copy)

lemma iso8601_copy:
  "try_to_parse_string_by_iso8601_next (local_build lc) now s ts = try_to_parse_string_by_iso8601 (local_build lc) now s ts"
  by (simp only: try_to_parse_string_by_iso8601_next_def try_to_parse_string_by_iso8601_def broken_down_def
      local_build_def platform.select_convs if_True)

lemma now_copy: "now_in_minutes_next (local_build lc) now dst = now_in_minutes (local_build lc) now dst"
  by (simp add: now_in_minutes_next_def now_in_minutes_def broken_down_def local_build_def)

lemma start_time_copy: "start_time_next (local_build lc) now dst ts0 start = start_time (local_build lc) now dst ts0 start"
  by (simp only: iso8601_copy now_copy start_time_next_def start_time_def)

lemma local_build_sel [simp]: "pf_libc (local_build lc) = lc" "pf_use_local_time (local_build lc)"
  by (simp_all add: local_build_def)

text \<open>The two programs share their helpers by copying: in the local-time build (the one of the
  Makefile) the copies split every line, parse every date and choose every start time alike.\<close>

lemma copies_agree:
  "split_line_next arg = split_line arg
   \<and> try_to_parse_string_by_iso8601_next (local_build lc) now s ts = try_to_parse_string_by_iso8601 (local_build lc) now s ts
   \<and> start_time_next (local_build lc) now dst ts0 start = start_time (local_build lc) now dst ts0 start"
  by (simp only: split_line_copy iso8601_copy start_time_copy simp_thms)

subsection \<open>Splitting a crontab line\<close>

definition crontab_line :: "string list \<Rightarrow> string option \<Rightarrow> string" where
  "crontab_line ws cmd = join CHR '' '' ws @ (case cmd of None \<Rightarrow> [] | Some c \<Rightarrow> '' '' @ c)"

lemma skip_word_stop:
  assumes "CHR '' '' \<notin> List.set w" "s = [] \<or> hd s = CHR '' ''"
  shows "skip_word (pre @ w @ s) (length pre) = length pre + length w"
  using assms(1)
proof (induction w arbitrary: pre)
  case Nil
  then show ?case using assms(2) by (cases s) (simp_all add: skip_word.simps)
next
  case (Cons c w)
  then show ?case using Cons.IH [of "pre @ [c]"] by (subst skip_word.simps) (auto simp: nth_append)
qed

lemma skip_blanks_one:
  assumes "c \<noteq> CHR '' ''"
  shows "skip_blanks (pre @ CHR '' '' # c # r) (length pre) = length pre + 1"
  using assms by (subst skip_blanks.simps) (simp add: nth_append skip_blanks.simps)

lemma next_word:
  assumes "CHR '' '' \<notin> List.set w" "c \<noteq> CHR '' ''"
  shows "position_of_beginning_of_next_word_boundary (pre @ w @ CHR '' '' # c # r) (length pre)
    = Some (int (length pre + length w + 1))"
  using assms skip_word_stop [of w "CHR '' '' # c # r" pre] skip_blanks_one [of c "pre @ w" r]
  by (simp add: position_of_beginning_of_next_word_boundary_def)

lemma no_next_word:
  assumes "CHR '' '' \<notin> List.set w"
  shows "position_of_beginning_of_next_word_boundary (pre @ w) (length pre) = Some (- 1)"
  using assms skip_word_stop [of w "[]" pre] by (simp add: position_of_beginning_of_next_word_boundary_def)

lemma word_loop_join:
  assumes "\<forall>w \<in> List.set (w0 # ws). word CHR '' '' w" "length is = length ws"
    and "tail = [] \<or> (\<exists>c r. tail = CHR '' '' # c # r \<and> c \<noteq> CHR '' '')"
  shows "\<exists>lp. word_loop (pre @ join CHR '' '' (w0 # ws) @ tail) (is @ [5]) b l (length pre) = Some (Some
    (if tail = [] then - 1 else int (length (pre @ join CHR '' '' (w0 # ws)) + 1), lp))
    \<and> (tail \<noteq> [] \<longrightarrow> skip_word (pre @ join CHR '' '' (w0 # ws) @ tail) lp = length (pre @ join CHR '' '' (w0 # ws))
      \<and> lp \<le> length (pre @ join CHR '' '' (w0 # ws)))"
  using assms(1,2)
proof (induction ws arbitrary: w0 pre "is" b l)
  case Nil
  then have w: "CHR '' '' \<notin> List.set w0" by (simp add: word_def)
  show ?case
  proof (cases "tail = []")
    case True
    then show ?thesis using Nil no_next_word [OF w, of pre] by simp
  next
    case False
    then obtain c r where tail: "tail = CHR '' '' # c # r" "c \<noteq> CHR '' ''" using assms(3) by blast
    have "skip_word (pre @ w0 @ tail) (length pre) = length pre + length w0"
      using w tail by (intro skip_word_stop) auto
    then show ?thesis using Nil next_word [OF w tail(2), of pre r] tail(1) by (simp add: nat_add_distrib)
  qed
next
  case (Cons w1 ws)
  obtain i is' where i: "is = i # is'" "length is' = length ws" using Cons.prems(2) by (cases "is") auto
  have w: "CHR '' '' \<notin> List.set w0" "word CHR '' '' w1" using Cons.prems(1) by (simp_all add: word_def)
  obtain c r where c: "join CHR '' '' (w1 # ws) @ tail = c # r" "c \<noteq> CHR '' ''"
    using w(2) by (cases w1; cases ws) (auto simp: word_def)
  define p where "p = pre @ w0 @ '' ''"
  have L: "pre @ join CHR '' '' (w0 # w1 # ws) = p @ join CHR '' '' (w1 # ws)"
    "pre @ join CHR '' '' (w0 # w1 # ws) @ tail = p @ join CHR '' '' (w1 # ws) @ tail" by (simp_all add: p_def)
  have "position_of_beginning_of_next_word_boundary (p @ join CHR '' '' (w1 # ws) @ tail) (length pre) = Some (int (length p))"
    using next_word [OF w(1) c(2), of pre r] unfolding c(1) by (simp add: p_def)
  then have "word_loop (p @ join CHR '' '' (w1 # ws) @ tail) (is @ [5]) b l (length pre)
      = word_loop (p @ join CHR '' '' (w1 # ws) @ tail) (is' @ [5]) (int (length p)) (length pre) (length p)"
    using i(1) by simp
  moreover have "\<forall>w \<in> List.set (w1 # ws). word CHR '' '' w" using Cons.prems(1) by simp
  ultimately show ?case using Cons.IH [OF _ i(2), of w1 p "int (length p)" "length pre"] unfolding L by simp
qed

lemma split_line_fields:
  assumes ws: "length ws = 5" "\<forall>w \<in> List.set ws. word CHR '' '' w"
    and cmd: "\<forall>c. cmd = Some c \<longrightarrow> c \<noteq> [] \<and> hd c \<noteq> CHR '' ''"
    and len: "length (crontab_line ws cmd) \<le> 997"
  shows "split_line (crontab_line ws cmd) = Some (Some (join CHR '' '' (''0'' # ws), cmd))"
proof -
  define tail where "tail = (case cmd of None \<Rightarrow> [] | Some c \<Rightarrow> '' '' @ c)"
  obtain w1 ws' where ws': "ws = w1 # ws'" using ws(1) by (cases ws) auto
  have s: "''0 '' @ crontab_line ws cmd = [] @ join CHR '' '' (''0'' # ws) @ tail"
    by (simp add: crontab_line_def tail_def ws')
  have tail: "tail = [] \<or> (\<exists>c r. tail = CHR '' '' # c # r \<and> c \<noteq> CHR '' '')"
  proof (cases cmd)
    case (Some c)
    then obtain a r where "c = a # r" "a \<noteq> CHR '' ''" using cmd by (cases c) auto
    then show ?thesis using Some by (simp add: tail_def)
  qed (simp add: tail_def)
  have "\<forall>w \<in> List.set (''0'' # ws). word CHR '' '' w" using ws(2) by (simp add: word_def isspace_def code_def)
  from word_loop_join [OF this _ tail, of "[0, 1, 2, 3, 4]" "[]" 0 0] obtain lp
    where loop: "word_loop ([] @ join CHR '' '' (''0'' # ws) @ tail) ([0, 1, 2, 3, 4] @ [5]) 0 0 0 = Some (Some
      (if tail = [] then - 1 else int (length (join CHR '' '' (''0'' # ws)) + 1), lp))"
      "tail \<noteq> [] \<longrightarrow> skip_word (join CHR '' '' (''0'' # ws) @ tail) lp = length (join CHR '' '' (''0'' # ws))
        \<and> lp \<le> length (join CHR '' '' (''0'' # ws))"
    using ws(1) by auto
  have idx: "[0..<6] = [0, 1, 2, 3, 4] @ [5 :: nat]" by (simp add: upt_rec)
  have l: "\<not> length ([] @ join CHR '' '' (''0'' # ws) @ tail) + 1 > 1000" using len unfolding s [symmetric] by simp
  show ?thesis
  proof (cases cmd)
    case None
    then have "tail = []" by (simp add: tail_def)
    then show ?thesis using loop(1) l None unfolding split_line_def Let_def s idx by simp
  next
    case (Some c)
    then have t: "tail = CHR '' '' # c" by (simp add: tail_def)
    have "position_of_end_of_next_word_boundary ([] @ join CHR '' '' (''0'' # ws) @ tail) lp
        = Some (length (join CHR '' '' (''0'' # ws)))"
      using loop(2) t by (auto simp: position_of_end_of_next_word_boundary_def)
    then show ?thesis using loop(1) l Some t unfolding split_line_def Let_def s idx by simp
  qed
qed

text \<open>C11: A line of five fields and a command, separated by single blanks, is split into the schedule,
  with the field for second 0 in front, and the command; without a command there is none. The fields
  are words without blanks, the command does not start with one, and the line has at most 997
  characters, which is what the block holds that it is copied to.\<close>

theorem split_line_crontab:
  assumes "length ws = 5" "\<forall>w \<in> List.set ws. word CHR '' '' w"
    and "\<forall>c. cmd = Some c \<longrightarrow> c \<noteq> [] \<and> hd c \<noteq> CHR '' ''" "length (crontab_line ws cmd) \<le> 997"
  shows "split_line (crontab_line ws cmd) = Some (Some (join CHR '' '' (''0'' # ws), cmd))"
  using assms by (rule split_line_fields)

theorem split_line_crontab_witness:
  "split_line (crontab_line [''59'', ''22'', ''*'', ''*'', ''sun''] (Some ''screen -dm emacs''))
    = Some (Some (join CHR '' '' (''0'' # [''59'', ''22'', ''*'', ''*'', ''sun'']), Some ''screen -dm emacs''))"
  by (rule split_line_crontab) (simp_all add: crontab_line_def word_def isspace_def code_def)

subsection \<open>The start time\<close>

lemma dec_nat_strchr:
  "strchr (dec_nat n) CHR '' '' = None" "strchr (dec_nat n) CHR ''T'' = None"
proof -
  have absent: "strchr s c = None" if "c \<notin> List.set s" for s c using that by (induction s) auto
  have "CHR '' '' \<notin> List.set (dec_nat n)" "CHR ''T'' \<notin> List.set (dec_nat n)"
    using dec_nat_code [of "CHR '' ''" n] dec_nat_code [of "CHR ''T''" n] by (auto simp: code_def)
  then show "strchr (dec_nat n) CHR '' '' = None" "strchr (dec_nat n) CHR ''T'' = None" by (simp_all add: absent)
qed

lemma time_of_atof_dec:
  assumes "n < 10 ^ 15"
  shows "time_of_atof (dec_nat n) = Some (int n)"
proof -
  obtain c cs where s: "dec_nat n = c # cs" using dec_nat_not_Nil [of n] by (meson neq_Nil_conv)
  have c: "48 \<le> code c \<and> code c \<le> 57" using s by (intro dec_nat_code [of c n]) simp
  have digits: "is_digit 10 x" if "x \<in> List.set (dec_nat n)" for x
  proof -
    have "48 \<le> code x" "code x \<le> 57" using dec_nat_code that by blast+
    then show ?thesis by (simp add: is_digit_def digit_val_def)
  qed
  have "takeWhile (is_digit 10) (dec_nat n) = dec_nat n" "dropWhile (is_digit 10) (dec_nat n) = []"
    using digits by (simp_all add: takeWhile_eq_all_conv)
  moreover have "dropWhile isspace (dec_nat n) = dec_nat n" using s c by (simp add: isspace_def)
  moreover have "strtol_sign (dec_nat n) = (False, dec_nat n)" using s c by (auto simp: strtol_sign_def code_def)
  moreover have "length (dec_nat n) \<le> 15" using length_dec_nat [of 15 n] assms by simp
  ultimately show ?thesis
    by (simp add: time_of_atof_def del: takeWhile_eq_all_conv dropWhile_eq_Nil_conv)
qed

lemma start_time_seconds:
  assumes "0 \<le> date" "date < 10 ^ 15"
  shows "start_time pf now dst ts0 (Some (dec date)) = Some (date, False)"
proof -
  have "dec date = dec_nat (nat date)" using assms(1) by (simp add: dec_def)
  moreover have "nat date < 10 ^ 15" using assms by (simp add: nat_less_iff)
  ultimately show ?thesis
    using time_of_atof_dec [of "nat date"] assms(1) dec_nat_strchr [of "nat date"]
    by (simp add: start_time_def try_to_parse_string_by_iso8601_def)
qed

subsection \<open>From the line to the output\<close>

text \<open>The five fields of the canonical crontab line of an expression for second 0.\<close>

definition crontab_fields :: "cron_expr \<Rightarrow> string list" where
  "crontab_fields e =
     [print_set {0..<60} (bits_of (minutes e)), print_set {0..<24} (bits_of (hours e)),
      print_set {1..<32} (bits_of (days_of_month e)), print_set {1..<13} (Suc ` bits_of (months e)),
      print_set {0..<7} (bits_of (days_of_week e))]"

text \<open>The command, if there is one, starts with a character other than a blank, and the line fits.\<close>

definition crontab_ok :: "cron_expr \<Rightarrow> string option \<Rightarrow> bool" where
  "crontab_ok e cmd \<longleftrightarrow> wf_expr e \<and> bits_of (seconds e) = {0} \<and> length (print_expr e) < 256
     \<and> (\<forall>c. cmd = Some c \<longrightarrow> c \<noteq> [] \<and> hd c \<noteq> CHR '' '') \<and> length (crontab_line (crontab_fields e) cmd) \<le> 997"

lemma print_expr_fields:
  assumes "bits_of (seconds e) = {0}"
  shows "print_expr e = join CHR '' '' (''0'' # crontab_fields e)"
proof -
  have "(1 :: nat) \<in> {0..<60}" "(1 :: nat) \<notin> {0}" by simp_all
  then have "{0} \<noteq> {0..<60 :: nat}" by metis
  moreover have "dec_nat 0 = ''0''"
    using code_eq_iff [of "digit_char 0" "CHR ''0''"] by (subst dec_nat.simps) (simp add: code_def digit_char_def)
  ultimately have "print_set {0..<60} (bits_of (seconds e)) = ''0''" using assms by (simp add: print_set_def)
  then show ?thesis by (simp add: print_expr_def crontab_fields_def)
qed

lemma line_of_expression:
  assumes "crontab_ok e cmd"
  shows "split_line (crontab_line (crontab_fields e) cmd) = Some (Some (print_expr e, cmd))"
    "cron_parse_expr (Some (print_expr e)) (Some zero_expr) = Some (Some e, None)"
proof -
  have wf: "wf_expr e" using assms by (simp add: crontab_ok_def)
  have "\<forall>w \<in> List.set (crontab_fields e). word CHR '' '' w"
    using wf by (auto simp: crontab_fields_def wf_expr_def intro!: print_set_word)
  moreover have "length (crontab_fields e) = 5" by (simp add: crontab_fields_def)
  ultimately show "split_line (crontab_line (crontab_fields e) cmd) = Some (Some (print_expr e, cmd))"
    using assms split_line_fields [of "crontab_fields e" cmd] by (simp add: crontab_ok_def print_expr_fields)
  show "cron_parse_expr (Some (print_expr e)) (Some zero_expr) = Some (Some e, None)"
    using assms by (intro parse_printed) (simp_all add: crontab_ok_def)
qed

definition tool_output :: "time_t \<Rightarrow> string option \<Rightarrow> outcome" where
  "tool_output t cmd = \<lparr>out_text = dec t @ (case cmd of None \<Rightarrow> [] | Some c \<Rightarrow> '' '' @ c) @ newline, out_status = 0\<rparr>"

lemma fixed_localtime:
  assumes "- 86400 \<le> t + off" "t + off \<le> 2 ^ 51"
  shows "lc_localtime (fixed_zone off zone) t = Some (break_time 0 off zone (t + off))"
  using year_of_window(2) [OF assms] by (simp add: fixed_zone_def)

lemma main_next_run:
  assumes "crontab_ok e cmd" "0 \<le> date" "date < 10 ^ 15"
    and "cron_next (local_build lc) k e date = Some t"
    and "lc_localtime lc now = Some ts1" "lc_localtime lc t = Some ts2"
  shows "main_next (local_build lc) k now ts0 [prog, crontab_line (crontab_fields e) cmd, dec date] = Some (tool_output t cmd)"
  using line_of_expression [OF assms(1)] assms(4-6) start_time_seconds [OF assms(2,3)]
  by (simp add: main_next_def asks_for_help_def split_line_copy start_time_copy result_text_def tool_output_def)

lemma main_last_run:
  assumes "crontab_ok e cmd" "0 \<le> date" "date < 10 ^ 15"
    and "cron_prev (local_build lc) k e date = Some t"
    and "lc_localtime lc now = Some ts1" "lc_localtime lc t = Some ts2"
  shows "main_last (local_build lc) k now ts0 [prog, crontab_line (crontab_fields e) cmd, dec date] = Some (tool_output t cmd)"
  using line_of_expression [OF assms(1)] assms(4-6) start_time_seconds [OF assms(2,3)]
  by (simp add: main_last_def asks_for_help_def broken_down_def result_text_def tool_output_def)

lemma next_match_bound:
  assumes "regular 28 e" "next_match e s r"
  shows "s < r" "r \<le> s + 70000001"
proof -
  obtain B where B: "matches e B" "s + 1 \<le> B" "B \<le> s + 1 + 70000000" using later_match [OF assms(1)] by blast
  show "s < r" using assms(2) by (simp add: next_match_def)
  show "r \<le> s + 70000001" using assms(2) B by (force simp: next_match_def)
qed

lemma prev_match_bound:
  assumes "regular 27 e" "prev_match e s r"
  shows "r < s" "s - 70000002 \<le> r"
proof -
  obtain B where B: "matches e B" "B \<le> s - 1" "s - 1 - 70000001 \<le> B" using earlier_match [OF assms(1)] by blast
  show "r < s" using assms(2) by (simp add: prev_match_def)
  show "s - 70000002 \<le> r" using assms(2) B by (force simp: prev_match_def)
qed

text \<open>C5: The program for the next execution, from the command line to its output. The line is the
  canonical crontab line of a regular expression with second 0 (regular up to day 28), with or without
  a command, of at most 997 characters, and the canonical text of the expression is shorter than 256
  characters; the start time is a decimal number of seconds from 0 to
  \<open>10 ^ 15\<close>, the clock of the host lies between 0 and \<open>2 ^ 50\<close> and its zone has a constant offset of at
  most a day. Then the program prints the least later instant that matches in local time, then the
  command, and exits with 0.\<close>

theorem next_tool_prints:
  assumes "regular 28 e" "crontab_ok e cmd" "0 \<le> date" "date < 10 ^ 15" "0 \<le> now" "now \<le> 2 ^ 50"
    "- 86400 \<le> off" "off \<le> 86400"
  shows "\<exists>n r. next_match e (date + off) r
    \<and> (\<forall>k \<ge> n. main_next (local_build (fixed_zone off zone)) k now ts0
          [prog, crontab_line (crontab_fields e) cmd, dec date] = Some (tool_output (r - off) cmd))"
proof -
  obtain n r where r: "\<forall>k \<ge> n. cron_next (local_build (fixed_zone off zone)) k e date = Some (r - off)"
    "next_match e (date + off) r"
    using local_next_least [OF assms(1,3) _ assms(7,8), where zone = zone] assms(4) by auto
  have "lc_localtime (fixed_zone off zone) (r - off) = Some (break_time 0 off zone (r - off + off))"
    using next_match_bound [OF assms(1) r(2)] assms by (intro fixed_localtime) auto
  moreover have "lc_localtime (fixed_zone off zone) now = Some (break_time 0 off zone (now + off))"
    using assms by (intro fixed_localtime) auto
  ultimately show ?thesis using r main_next_run [OF assms(2,3,4)] by blast
qed

text \<open>C6: The program for the last execution, from the command line to its output. The line is the
  canonical crontab line of an expression with second 0 that is regular up to day 27, with or without
  a command, of at most 997 characters, and the canonical text of the expression is shorter than 256
  characters; the start time is a decimal number of seconds from 200000000
  to \<open>10 ^ 15\<close>, the clock of the host lies between 0 and \<open>2 ^ 50\<close> and its zone has a constant offset of
  less than a day. Then the program prints the greatest earlier instant that matches in local time,
  then the command, and exits with 0.\<close>

theorem last_tool_prints:
  assumes "regular 27 e" "crontab_ok e cmd" "200000000 \<le> date" "date < 10 ^ 15" "0 \<le> now" "now \<le> 2 ^ 50"
    "- 86400 < off" "off \<le> 86400"
  shows "\<exists>n r. prev_match e (date + off) r
    \<and> (\<forall>k \<ge> n. main_last (local_build (fixed_zone off zone)) k now ts0
          [prog, crontab_line (crontab_fields e) cmd, dec date] = Some (tool_output (r - off) cmd))"
proof -
  obtain n r where r: "\<forall>k \<ge> n. cron_prev (local_build (fixed_zone off zone)) k e date = Some (r - off)"
    "prev_match e (date + off) r"
    using local_prev_greatest [OF assms(1,3) _ assms(7,8), where zone = zone] assms(4) by auto
  have "lc_localtime (fixed_zone off zone) (r - off) = Some (break_time 0 off zone (r - off + off))"
    using prev_match_bound [OF assms(1) r(2)] assms by (intro fixed_localtime) auto
  moreover have "lc_localtime (fixed_zone off zone) now = Some (break_time 0 off zone (now + off))"
    using assms by (intro fixed_localtime) auto
  moreover have "0 \<le> date" using assms(3) by simp
  ultimately show ?thesis using r main_last_run [OF assms(2) _ assms(4)] by blast
qed

lemma mid_month_ok: "crontab_ok mid_month (Some ''disable_wifi.sh'')"
  unfolding crontab_ok_def
proof (intro conjI)
  have "print_expr mid_month = ''0 30 12 15 * *''" by code_simp
  then show "length (print_expr mid_month) < 256" by simp
  have "crontab_line (crontab_fields mid_month) (Some ''disable_wifi.sh'') = ''30 12 15 * * disable_wifi.sh''" by code_simp
  then show "length (crontab_line (crontab_fields mid_month) (Some ''disable_wifi.sh'')) \<le> 997" by simp
qed (use regular_mid_month in \<open>simp_all add: regular_def\<close>, code_simp)

theorem next_tool_prints_witness:
  "\<exists>n r. next_match mid_month (1612051200 + 3600) r
    \<and> (\<forall>k \<ge> n. main_next (local_build (fixed_zone 3600 ''CET'')) k 1600000000 tm_zero
          [''next'', crontab_line (crontab_fields mid_month) (Some ''disable_wifi.sh''), dec 1612051200]
        = Some (tool_output (r - 3600) (Some ''disable_wifi.sh'')))"
  by (rule next_tool_prints) (simp_all add: regular_mid_month mid_month_ok)

theorem last_tool_prints_witness:
  "\<exists>n r. prev_match mid_month (1612051200 + 3600) r
    \<and> (\<forall>k \<ge> n. main_last (local_build (fixed_zone 3600 ''CET'')) k 1600000000 tm_zero
          [''last'', crontab_line (crontab_fields mid_month) (Some ''disable_wifi.sh''), dec 1612051200]
        = Some (tool_output (r - 3600) (Some ''disable_wifi.sh'')))"
  by (rule last_tool_prints) (simp_all add: regular_mid_month mid_month_ok)

subsection \<open>The date that is printed\<close>

lemma dec_nat_small: "n < 10 \<Longrightarrow> dec_nat n = [digit_char n]"
  by (subst dec_nat.simps) simp

lemma dec_nat_snoc: "10 \<le> n \<Longrightarrow> dec_nat n = dec_nat (n div 10) @ [digit_char (n mod 10)]"
  by (subst dec_nat.simps) simp

lemma pad2_digits:
  assumes "0 \<le> n" "n < 100"
  shows "pad2 n = map digit_char [nat n div 10, nat n mod 10]"
proof (cases "n < 10")
  case True
  then have "nat n div 10 = 0" "nat n mod 10 = nat n" "nat n < 10" using assms by auto
  moreover have "digit_char 0 = CHR ''0''" by code_simp
  ultimately show ?thesis using assms True by (simp add: pad2_def dec_def dec_nat_small)
next
  case False
  then have "10 \<le> nat n" "nat n div 10 < 10" using assms by auto
  then show ?thesis using False assms by (simp add: pad2_def dec_def dec_nat_snoc dec_nat_small)
qed

lemma dec_year_digits:
  assumes "1000 \<le> n" "n < 10000"
  shows "dec n = map digit_char [nat n div 1000, nat n div 100 mod 10, nat n div 10 mod 10, nat n mod 10]"
proof -
  have "1000 \<le> nat n" "nat n < 10000" using assms by auto
  then have "10 \<le> nat n" "10 \<le> nat n div 10" "10 \<le> nat n div 10 div 10" "nat n div 10 div 10 div 10 < 10" by linarith+
  moreover have "nat n div 10 div 10 div 10 = nat n div 1000" "nat n div 10 div 10 = nat n div 100"
    by (simp_all add: div_mult2_eq [symmetric])
  ultimately show ?thesis using assms by (simp add: dec_def dec_nat_snoc dec_nat_small)
qed

lemma digit_char_not: "d < 10 \<Longrightarrow> digit_char d \<noteq> CHR 0x00" "d < 10 \<Longrightarrow> digit_char d \<noteq> CHR '':''"
    "d < 10 \<Longrightarrow> digit_char d \<noteq> CHR '' ''" "d < 10 \<Longrightarrow> digit_char d \<noteq> CHR ''T''" "d < 10 \<Longrightarrow> digit_char d \<noteq> CHR ''-''"
    "d < 10 \<Longrightarrow> digit_char d \<noteq> CHR ''+''"
  using code_digit_char [of d] by (auto simp: code_def)

lemma atoi_digits:
  assumes "\<forall>d \<in> List.set ds. d < 10" "ds \<noteq> []" "digits_value 10 (map digit_char ds) < 2 ^ 31"
  shows "atoi (c_str (map digit_char ds)) = int (digits_value 10 (map digit_char ds))"
proof -
  let ?s = "map digit_char ds"
  obtain d s where s: "ds = d # s" "d < 10" using assms(1,2) by (cases ds) auto
  have "takeWhile (\<lambda>c. c \<noteq> CHR 0x00) ?s = ?s" "takeWhile (is_digit 10) ?s = ?s"
    using assms(1) by (auto simp: takeWhile_eq_all_conv digit_char_not is_digit_def)
  moreover have "dropWhile isspace ?s = ?s" using s by (simp add: isspace_def)
  moreover have "strtol_sign ?s = (False, ?s)" using s digit_char_not [of d] by (simp add: strtol_sign_def)
  ultimately have "fst (strtol 10 ?s) = int (digits_value 10 ?s)" "c_str ?s = ?s"
    using assms(2,3) by (simp_all add: strtol_def Let_def c_str_def del: takeWhile_eq_all_conv)
  then show ?thesis using assms(3) by (simp add: atoi_def signed_of_nat signed_take_bit_int_eq_self)
qed

lemma atoi_two:
  assumes "0 \<le> n" "n < 100"
  shows "atoi (c_str (map digit_char [nat n div 10, nat n mod 10])) = n"
proof -
  have "nat n div 10 < 10" "int (nat n div 10 * 10 + nat n mod 10) = n" using assms by auto
  then show ?thesis using atoi_digits [of "[nat n div 10, nat n mod 10]"] by (simp add: digits_value_def)
qed

lemma digits_value_four:
  assumes "a < 10" "b < 10" "c < 10" "d < 10"
  shows "digits_value 10 (map digit_char [a, b, c, d]) = ((a * 10 + b) * 10 + c) * 10 + d"
  using assms by (simp add: digits_value_def)

lemma atoi_four:
  assumes "1000 \<le> n" "n < 10000"
  shows "atoi (c_str (map digit_char [nat n div 1000, nat n div 100 mod 10, nat n div 10 mod 10, nat n mod 10])) = n"
proof -
  let ?ds = "[nat n div 1000, nat n div 100 mod 10, nat n div 10 mod 10, nat n mod 10]"
  have e: "nat n div 1000 = nat n div 10 div 10 div 10" "nat n div 100 = nat n div 10 div 10"
    by (simp_all add: div_mult2_eq [symmetric])
  have v: "((nat n div 1000 * 10 + nat n div 100 mod 10) * 10 + nat n div 10 mod 10) * 10 + nat n mod 10 = nat n"
    by (simp only: e div_mult_mod_eq)
  have lt: "nat n div 1000 < 10" "nat n < 10000" using assms by auto
  have val: "digits_value 10 (map digit_char ?ds) = nat n"
    using digits_value_four [of "nat n div 1000" "nat n div 100 mod 10" "nat n div 10 mod 10" "nat n mod 10"] lt(1)
    by (simp only: v mod_less_divisor zero_less_numeral simp_thms)
  have "\<forall>d \<in> List.set ?ds. d < 10" using lt(1) by simp
  then have "atoi (c_str (map digit_char ?ds)) = int (nat n)"
    using atoi_digits [of ?ds] val lt(2) by (simp del: list.map)
  then show ?thesis using assms by simp
qed

lemma iso_text_chars:
  assumes "1000 \<le> tm_year ts + 1900" "tm_year ts + 1900 < 10000" "0 \<le> tm_mon ts" "tm_mon ts < 12"
    "0 \<le> tm_mday ts" "tm_mday ts < 32" "0 \<le> tm_hour ts" "tm_hour ts < 24" "0 \<le> tm_min ts" "tm_min ts < 60"
  shows "iso_text ts = map digit_char [nat (tm_year ts + 1900) div 1000, nat (tm_year ts + 1900) div 100 mod 10,
      nat (tm_year ts + 1900) div 10 mod 10, nat (tm_year ts + 1900) mod 10] @ ''-''
    @ map digit_char [nat (tm_mon ts + 1) div 10, nat (tm_mon ts + 1) mod 10] @ ''-''
    @ map digit_char [nat (tm_mday ts) div 10, nat (tm_mday ts) mod 10] @ ''T''
    @ map digit_char [nat (tm_hour ts) div 10, nat (tm_hour ts) mod 10] @ '':''
    @ map digit_char [nat (tm_min ts) div 10, nat (tm_min ts) mod 10] @ '':00''"
  unfolding iso_text_def using assms by (simp add: pad2_digits dec_year_digits)

lemma iso_text_read:
  assumes "1900 \<le> tm_year ts + 1900" "tm_year ts + 1900 \<le> 2038" "0 \<le> tm_mon ts" "tm_mon ts < 12"
    "1 \<le> tm_mday ts" "tm_mday ts < 32" "0 \<le> tm_hour ts" "tm_hour ts < 24" "0 \<le> tm_min ts" "tm_min ts < 60"
    and "broken_down pf now = Some cur"
  shows "try_to_parse_string_by_iso8601 pf now (iso_text ts) ts0
    = Some (1, ts0\<lparr>tm_gmtoff := tm_gmtoff cur, tm_zone := tm_zone cur, tm_isdst := tm_isdst cur,
        tm_year := tm_year ts, tm_mon := tm_mon ts, tm_mday := tm_mday ts, tm_hour := tm_hour ts,
        tm_min := tm_min ts, tm_sec := 0\<rparr>)"
proof -
  define y1 y2 y3 y4 where y: "y1 = nat (tm_year ts + 1900) div 1000" "y2 = nat (tm_year ts + 1900) div 100 mod 10"
    "y3 = nat (tm_year ts + 1900) div 10 mod 10" "y4 = nat (tm_year ts + 1900) mod 10"
  define m1 m2 where m: "m1 = nat (tm_mon ts + 1) div 10" "m2 = nat (tm_mon ts + 1) mod 10"
  define d1 d2 where d: "d1 = nat (tm_mday ts) div 10" "d2 = nat (tm_mday ts) mod 10"
  define h1 h2 where h: "h1 = nat (tm_hour ts) div 10" "h2 = nat (tm_hour ts) mod 10"
  define i1 i2 where i: "i1 = nat (tm_min ts) div 10" "i2 = nat (tm_min ts) mod 10"
  have digits: "y1 < 10" "y2 < 10" "y3 < 10" "y4 < 10" "m1 < 10" "m2 < 10" "d1 < 10" "d2 < 10" "h1 < 10" "h2 < 10"
    "i1 < 10" "i2 < 10"
    using assms(1-10) by (auto simp: y m d h i)
  have s: "iso_text ts = map digit_char [y1, y2, y3, y4] @ ''-'' @ map digit_char [m1, m2] @ ''-''
    @ map digit_char [d1, d2] @ ''T'' @ map digit_char [h1, h2] @ '':'' @ map digit_char [i1, i2] @ '':00''"
    using iso_text_chars [of ts] assms(1-10) by (simp only: y m d h i)
  have "atoi (c_str (map digit_char [y1, y2, y3, y4])) = tm_year ts + 1900"
    "atoi (c_str (map digit_char [m1, m2])) = tm_mon ts + 1" "atoi (c_str (map digit_char [d1, d2])) = tm_mday ts"
    "atoi (c_str (map digit_char [h1, h2])) = tm_hour ts" "atoi (c_str (map digit_char [i1, i2])) = tm_min ts"
    using assms(1-10) by (simp_all only: y m d h i) (auto intro!: atoi_four atoi_two simp del: list.map)
  then show ?thesis
    using assms digits
    by (simp add: s try_to_parse_string_by_iso8601_def digit_char_not atoi_at_def chars_at_def char_at_def)
qed

text \<open>C12: The date the tools print, given back to them as the start time, is the minute that was
  printed: for local times from 1900 to the end of 2038 (the limit of the parser) on a host whose zone
  has a constant offset of at most a day, with the clock between 0 and \<open>2 ^ 50\<close>.\<close>

theorem iso_text_parses:
  assumes "- 2208988800 \<le> t + off" "t + off < 2177452800" "0 \<le> now" "now \<le> 2 ^ 50"
    "- 86400 \<le> off" "off \<le> 86400"
  shows "start_time (local_build (fixed_zone off zone)) now dst ts0 (Some (iso_text (break_time 0 off zone (t + off))))
    = Some (t - sec_of (t + off), True)"
proof -
  let ?s = "t + off" and ?lc = "fixed_zone off zone"
  have now: "broken_down (local_build ?lc) now = Some (break_time 0 off zone (now + off))"
    using assms(3-6) by (auto simp: broken_down_def intro!: fixed_localtime)
  have e: "year_of_day (- 25567) = 1900" "year_of_day 25201 = 2038" by code_simp+
  have "- 25567 \<le> daynum ?s" "daynum ?s \<le> 25201" using assms(1,2) by (auto simp: daynum_def)
  then have y: "1900 \<le> year_of ?s" "year_of ?s \<le> 2038"
    using year_of_day_mono [of "- 25567" "daynum ?s"] year_of_day_mono [of "daynum ?s" 25201] e
    by (simp_all add: year_of_def)
  let ?ts = "ts0\<lparr>tm_gmtoff := off, tm_zone := zone, tm_isdst := 0, tm_year := year_of ?s - 1900, tm_mon := mon_of ?s,
      tm_mday := mday_of ?s, tm_hour := hour_of ?s, tm_min := min_of ?s, tm_sec := 0\<rparr>"
  have "try_to_parse_string_by_iso8601 (local_build ?lc) now (iso_text (break_time 0 off zone ?s)) ts0 = Some (1, ?ts)"
    using iso_text_read [OF _ _ _ _ _ _ _ _ _ _ now, of "break_time 0 off zone ?s" ts0] y field_ranges [of ?s]
    by (simp add: break_time_def)
  moreover have "tm_secs ?ts = ?s - sec_of ?s"
    using tm_secs_break_time [of 0 off zone ?s] by (simp add: tm_secs_def)
  moreover have "daynum (?s - sec_of ?s) = daynum ?s"
    using secs_decompose [of ?s] field_ranges [of ?s] by (intro daynum_eq) linarith+
  then have "year_fits (?s - sec_of ?s)" using y by (simp add: year_fits_def year_of_def)
  ultimately show ?thesis by (simp add: start_time_def fixed_zone_def)
qed

theorem iso_text_parses_witness:
  "start_time (local_build (fixed_zone 3600 ''CET'')) 1600000000 (- 1) tm_zero
      (Some (iso_text (break_time 0 3600 ''CET'' (1612051230 + 3600))))
    = Some (1612051230 - sec_of (1612051230 + 3600), True)"
  by (rule iso_text_parses) simp_all

end
