(* ===== verification/Cron_Deviations.thy ===== *)
theory Cron_Deviations
  imports Cron_Next_Correct Cron_Parse
begin

section \<open>Schedules on which cron_next does not return the next match\<close>

text \<open>
  \<open>Cron_Next_Correct\<close> is about regular expressions. The schedules here are not regular, each for
  another reason, and the code does not do what its header file says for them; all are accepted by
  the parser. The lemmas evaluate the model.
\<close>

definition schedule :: "string \<Rightarrow> cron_expr option" where
  "schedule s = (case cron_parse_expr (Some s) (Some zero_expr) of Some (e, None) \<Rightarrow> e | _ \<Rightarrow> None)"

definition next_of :: "string \<Rightarrow> time_t \<Rightarrow> time_t option" where
  "next_of s date = do { e \<leftarrow> schedule s; cron_next (local_build (fixed_zone 0 ''UTC'')) 20 e date }"

definition match_at :: "string \<Rightarrow> time_t \<Rightarrow> bool" where
  "match_at s date = (case schedule s of None \<Rightarrow> False | Some e \<Rightarrow> matches e date)"

text \<open>When the seconds are neither one value nor an interval, they keep the value they were set to while
  the minute is moved forward, and the first match of that minute is missed.\<close>

lemma seconds_missed:
  "next_of ''10,50 5 * * * *'' 1612051230 = Some 1612051550" "match_at ''10,50 5 * * * *'' 1612051510"
  by code_simp+

text \<open>The months are searched without a reset of the day: from January 31 the month April becomes May 1,
  and the search ends in April of the next year.\<close>

lemma month_missed:
  "next_of ''0 0 0 * 4 *'' 1612051200 = Some 1648771200" "match_at ''0 0 0 * 4 *'' 1617235200"
  by code_simp+

text \<open>A day found under the same number in another month is taken for no change, so that the fields below
  it are not searched again, and midnight of February 15 is returned for 12:30.\<close>

lemma midnight_returned:
  "next_of ''0 30 12 15 * MON'' 1610713800 = Some 1613347200" "\<not> match_at ''0 30 12 15 * MON'' 1613347200"
  by code_simp+

end
