(* ===== verification/Mime.thy ===== *)
theory Mime
  imports C_String
begin

unbundle bit_operations_syntax

section \<open>MIME transfer encodings (luasocket, mime.c)\<close>

text \<open>
  The filters of the Lua module \<open>mime.core\<close>: Base64 and quoted-printable in both directions,
  line wrapping, end-of-line conversion and SMTP dot stuffing. Strings are lists of bytes, a
  \<open>luaL_Buffer\<close> is the list written so far. The atoms \<open>UC atom[3]\<close>, \<open>atom[4]\<close> are the list of
  their first \<open>size\<close> bytes; a write outside of them, or a read outside of a table, is \<open>None\<close>. A
  Lua string argument or result that may be \<open>nil\<close> is an option.
\<close>

type_synonym bytes = "u8 list"

definition byte :: "char \<Rightarrow> u8" where
  "byte c = of_nat (code c)"

definition CRLF :: bytes where "CRLF = [13, 10]"
definition EQCRLF :: bytes where "EQCRLF = [61, 13, 10]"

text \<open>\<open>tbl[i]\<close> and \<open>input[size++] = c\<close>, inside the bounds.\<close>

definition lookup :: "'a list \<Rightarrow> nat \<Rightarrow> 'a option" where
  "lookup tbl i = (if i < length tbl then Some (tbl ! i) else None)"

definition push_atom :: "nat \<Rightarrow> bytes \<Rightarrow> u8 \<Rightarrow> bytes option" where
  "push_atom cap input c = (if length input < cap then Some (input @ [c]) else None)"

subsection \<open>Tables\<close>

datatype qp_class = QP_PLAIN | QP_QUOTED | QP_CR | QP_IF_LAST

definition qpclass :: "qp_class list" where
  "qpclass = [
     QP_QUOTED, QP_QUOTED, QP_QUOTED, QP_QUOTED, QP_QUOTED, QP_QUOTED,
     QP_QUOTED, QP_QUOTED, QP_QUOTED, QP_IF_LAST, QP_QUOTED, QP_QUOTED,
     QP_QUOTED, QP_CR, QP_QUOTED, QP_QUOTED, QP_QUOTED, QP_QUOTED,
     QP_QUOTED, QP_QUOTED, QP_QUOTED, QP_QUOTED, QP_QUOTED, QP_QUOTED,
     QP_QUOTED, QP_QUOTED, QP_QUOTED, QP_QUOTED, QP_QUOTED, QP_QUOTED,
     QP_QUOTED, QP_QUOTED, QP_IF_LAST, QP_PLAIN, QP_PLAIN, QP_PLAIN,
     QP_PLAIN, QP_PLAIN, QP_PLAIN, QP_PLAIN, QP_PLAIN, QP_PLAIN,
     QP_PLAIN, QP_PLAIN, QP_PLAIN, QP_PLAIN, QP_PLAIN, QP_PLAIN,
     QP_PLAIN, QP_PLAIN, QP_PLAIN, QP_PLAIN, QP_PLAIN, QP_PLAIN,
     QP_PLAIN, QP_PLAIN, QP_PLAIN, QP_PLAIN, QP_PLAIN, QP_PLAIN,
     QP_PLAIN, QP_QUOTED, QP_PLAIN, QP_PLAIN, QP_PLAIN, QP_PLAIN,
     QP_PLAIN, QP_PLAIN, QP_PLAIN, QP_PLAIN, QP_PLAIN, QP_PLAIN,
     QP_PLAIN, QP_PLAIN, QP_PLAIN, QP_PLAIN, QP_PLAIN, QP_PLAIN,
     QP_PLAIN, QP_PLAIN, QP_PLAIN, QP_PLAIN, QP_PLAIN, QP_PLAIN,
     QP_PLAIN, QP_PLAIN, QP_PLAIN, QP_PLAIN, QP_PLAIN, QP_PLAIN,
     QP_PLAIN, QP_PLAIN, QP_PLAIN, QP_PLAIN, QP_PLAIN, QP_PLAIN,
     QP_PLAIN, QP_PLAIN, QP_PLAIN, QP_PLAIN, QP_PLAIN, QP_PLAIN,
     QP_PLAIN, QP_PLAIN, QP_PLAIN, QP_PLAIN, QP_PLAIN, QP_PLAIN,
     QP_PLAIN, QP_PLAIN, QP_PLAIN, QP_PLAIN, QP_PLAIN, QP_PLAIN,
     QP_PLAIN, QP_PLAIN, QP_PLAIN, QP_PLAIN, QP_PLAIN, QP_PLAIN,
     QP_PLAIN, QP_PLAIN, QP_PLAIN, QP_PLAIN, QP_PLAIN, QP_PLAIN,
     QP_PLAIN, QP_QUOTED, QP_QUOTED, QP_QUOTED, QP_QUOTED, QP_QUOTED,
     QP_QUOTED, QP_QUOTED, QP_QUOTED, QP_QUOTED, QP_QUOTED, QP_QUOTED,
     QP_QUOTED, QP_QUOTED, QP_QUOTED, QP_QUOTED, QP_QUOTED, QP_QUOTED,
     QP_QUOTED, QP_QUOTED, QP_QUOTED, QP_QUOTED, QP_QUOTED, QP_QUOTED,
     QP_QUOTED, QP_QUOTED, QP_QUOTED, QP_QUOTED, QP_QUOTED, QP_QUOTED,
     QP_QUOTED, QP_QUOTED, QP_QUOTED, QP_QUOTED, QP_QUOTED, QP_QUOTED,
     QP_QUOTED, QP_QUOTED, QP_QUOTED, QP_QUOTED, QP_QUOTED, QP_QUOTED,
     QP_QUOTED, QP_QUOTED, QP_QUOTED, QP_QUOTED, QP_QUOTED, QP_QUOTED,
     QP_QUOTED, QP_QUOTED, QP_QUOTED, QP_QUOTED, QP_QUOTED, QP_QUOTED,
     QP_QUOTED, QP_QUOTED, QP_QUOTED, QP_QUOTED, QP_QUOTED, QP_QUOTED,
     QP_QUOTED, QP_QUOTED, QP_QUOTED, QP_QUOTED, QP_QUOTED, QP_QUOTED,
     QP_QUOTED, QP_QUOTED, QP_QUOTED, QP_QUOTED, QP_QUOTED, QP_QUOTED,
     QP_QUOTED, QP_QUOTED, QP_QUOTED, QP_QUOTED, QP_QUOTED, QP_QUOTED,
     QP_QUOTED, QP_QUOTED, QP_QUOTED, QP_QUOTED, QP_QUOTED, QP_QUOTED,
     QP_QUOTED, QP_QUOTED, QP_QUOTED, QP_QUOTED, QP_QUOTED, QP_QUOTED,
     QP_QUOTED, QP_QUOTED, QP_QUOTED, QP_QUOTED, QP_QUOTED, QP_QUOTED,
     QP_QUOTED, QP_QUOTED, QP_QUOTED, QP_QUOTED, QP_QUOTED, QP_QUOTED,
     QP_QUOTED, QP_QUOTED, QP_QUOTED, QP_QUOTED, QP_QUOTED, QP_QUOTED,
     QP_QUOTED, QP_QUOTED, QP_QUOTED, QP_QUOTED, QP_QUOTED, QP_QUOTED,
     QP_QUOTED, QP_QUOTED, QP_QUOTED, QP_QUOTED, QP_QUOTED, QP_QUOTED,
     QP_QUOTED, QP_QUOTED, QP_QUOTED, QP_QUOTED, QP_QUOTED, QP_QUOTED,
     QP_QUOTED, QP_QUOTED, QP_QUOTED, QP_QUOTED]"

definition qpbase :: bytes where
  "qpbase = map byte ''0123456789ABCDEF''"

definition qpunbase :: bytes where
  "qpunbase = [
     255, 255, 255, 255, 255, 255, 255, 255, 255, 255, 255, 255, 255, 255, 255, 255, 255, 255, 255, 255, 255, 255,
     255, 255, 255, 255, 255, 255, 255, 255, 255, 255, 255, 255, 255, 255, 255, 255, 255, 255, 255, 255, 255, 255,
     255, 255, 255, 255, 0, 1, 2, 3, 4, 5, 6, 7, 8, 9, 255, 255, 255, 255, 255, 255, 255, 10,
     11, 12, 13, 14, 15, 255, 255, 255, 255, 255, 255, 255, 255, 255, 255, 255, 255, 255, 255, 255, 255, 255,
     255, 255, 255, 255, 255, 255, 255, 255, 255, 10, 11, 12, 13, 14, 15, 255, 255, 255, 255, 255, 255, 255,
     255, 255, 255, 255, 255, 255, 255, 255, 255, 255, 255, 255, 255, 255, 255, 255, 255, 255, 255, 255, 255, 255,
     255, 255, 255, 255, 255, 255, 255, 255, 255, 255, 255, 255, 255, 255, 255, 255, 255, 255, 255, 255, 255, 255,
     255, 255, 255, 255, 255, 255, 255, 255, 255, 255, 255, 255, 255, 255, 255, 255, 255, 255, 255, 255, 255, 255,
     255, 255, 255, 255, 255, 255, 255, 255, 255, 255, 255, 255, 255, 255, 255, 255, 255, 255, 255, 255, 255, 255,
     255, 255, 255, 255, 255, 255, 255, 255, 255, 255, 255, 255, 255, 255, 255, 255, 255, 255, 255, 255, 255, 255,
     255, 255, 255, 255, 255, 255, 255, 255, 255, 255, 255, 255, 255, 255, 255, 255, 255, 255, 255, 255, 255, 255,
     255, 255, 255, 255, 255, 255, 255, 255, 255, 255, 255, 255, 255, 255]"

definition b64base :: bytes where
  "b64base = map byte ''ABCDEFGHIJKLMNOPQRSTUVWXYZabcdefghijklmnopqrstuvwxyz0123456789+/''"

definition b64unbase :: bytes where
  "b64unbase = [
     255, 255, 255, 255, 255, 255, 255, 255, 255, 255, 255, 255, 255, 255, 255, 255, 255, 255, 255, 255, 255, 255,
     255, 255, 255, 255, 255, 255, 255, 255, 255, 255, 255, 255, 255, 255, 255, 255, 255, 255, 255, 255, 255, 62,
     255, 255, 255, 63, 52, 53, 54, 55, 56, 57, 58, 59, 60, 61, 255, 255, 255, 0, 255, 255, 255, 0,
     1, 2, 3, 4, 5, 6, 7, 8, 9, 10, 11, 12, 13, 14, 15, 16, 17, 18, 19, 20, 21, 22,
     23, 24, 25, 255, 255, 255, 255, 255, 255, 26, 27, 28, 29, 30, 31, 32, 33, 34, 35, 36, 37, 38,
     39, 40, 41, 42, 43, 44, 45, 46, 47, 48, 49, 50, 51, 255, 255, 255, 255, 255, 255, 255, 255, 255,
     255, 255, 255, 255, 255, 255, 255, 255, 255, 255, 255, 255, 255, 255, 255, 255, 255, 255, 255, 255, 255, 255,
     255, 255, 255, 255, 255, 255, 255, 255, 255, 255, 255, 255, 255, 255, 255, 255, 255, 255, 255, 255, 255, 255,
     255, 255, 255, 255, 255, 255, 255, 255, 255, 255, 255, 255, 255, 255, 255, 255, 255, 255, 255, 255, 255, 255,
     255, 255, 255, 255, 255, 255, 255, 255, 255, 255, 255, 255, 255, 255, 255, 255, 255, 255, 255, 255, 255, 255,
     255, 255, 255, 255, 255, 255, 255, 255, 255, 255, 255, 255, 255, 255, 255, 255, 255, 255, 255, 255, 255, 255,
     255, 255, 255, 255, 255, 255, 255, 255, 255, 255, 255, 255, 255, 255]"

subsection \<open>Wrapping\<close>

fun wrp_step :: "int \<Rightarrow> u8 \<Rightarrow> int \<times> bytes \<Rightarrow> int \<times> bytes" where
  "wrp_step len c (left, buffer) =
     (if c = 13 then (left, buffer)
      else if c = 10 then (len, buffer @ CRLF)
      else (let (left, buffer) = (if left \<le> 0 then (len, buffer @ CRLF) else (left, buffer))
            in (left - 1, buffer @ [c])))"

definition mime_global_wrp :: "int \<Rightarrow> bytes option \<Rightarrow> int \<Rightarrow> bytes option \<times> int" where
  "mime_global_wrp left input len =
     (case input of
        None \<Rightarrow> (if left < len then Some CRLF else None, len)
      | Some s \<Rightarrow> (let (left, buffer) = fold (wrp_step len) s (left, []) in (Some buffer, left)))"

subsection \<open>Base64\<close>

definition b64encode :: "u8 \<Rightarrow> bytes \<times> bytes \<Rightarrow> (bytes \<times> bytes) option" where
  "b64encode c st =
     do { input \<leftarrow> push_atom 3 (fst st) c;
          if length input = 3 then
            (let v0 = (ucast (input ! 0) :: 64 word);
                 v1 = push_bit 8 v0 + ucast (input ! 1);
                 v2 = push_bit 8 v1 + ucast (input ! 2) in
             do { code3 \<leftarrow> lookup b64base (unat (v2 AND 0x3f));
                  code2 \<leftarrow> lookup b64base (unat (drop_bit 6 v2 AND 0x3f));
                  code1 \<leftarrow> lookup b64base (unat (drop_bit 6 (drop_bit 6 v2) AND 0x3f));
                  code0 \<leftarrow> lookup b64base (unat (drop_bit 6 (drop_bit 6 (drop_bit 6 v2))));
                  Some ([], snd st @ [code0, code1, code2, code3]) })
          else Some (input, snd st) }"

definition b64pad :: "bytes \<Rightarrow> bytes \<Rightarrow> bytes option" where
  "b64pad input buffer =
     (if length input = 1 then
        (let v = (push_bit 4 (ucast (input ! 0)) :: 64 word) in
         do { code1 \<leftarrow> lookup b64base (unat (v AND 0x3f));
              code0 \<leftarrow> lookup b64base (unat (drop_bit 6 v));
              Some (buffer @ [code0, code1, 61, 61]) })
      else if length input = 2 then
        (let v = (push_bit 2 (push_bit 8 (ucast (input ! 0)) OR ucast (input ! 1)) :: 64 word) in
         do { code2 \<leftarrow> lookup b64base (unat (v AND 0x3f));
              code1 \<leftarrow> lookup b64base (unat (drop_bit 6 v AND 0x3f));
              code0 \<leftarrow> lookup b64base (unat (drop_bit 6 (drop_bit 6 v)));
              Some (buffer @ [code0, code1, code2, 61]) })
      else Some buffer)"

definition b64decode :: "u8 \<Rightarrow> bytes \<times> bytes \<Rightarrow> (bytes \<times> bytes) option" where
  "b64decode c st =
     do { u \<leftarrow> lookup b64unbase (unat c);
          if u > 64 then Some st
          else do { input \<leftarrow> push_atom 4 (fst st) c;
            if length input = 4 then
              do { u0 \<leftarrow> lookup b64unbase (unat (input ! 0));
                   u1 \<leftarrow> lookup b64unbase (unat (input ! 1));
                   u2 \<leftarrow> lookup b64unbase (unat (input ! 2));
                   u3 \<leftarrow> lookup b64unbase (unat (input ! 3));
                   let v = (push_bit 6 (push_bit 6 (push_bit 6 (ucast u0) OR ucast u1) OR ucast u2) OR ucast u3 :: 32 word);
                   let decoded = [ucast (drop_bit 8 (drop_bit 8 v)), ucast (drop_bit 8 v AND 0xff), ucast (v AND 0xff)];
                   let valid = (if input ! 2 = 61 then 1 else if input ! 3 = 61 then 2 else 3);
                   Some ([], snd st @ take valid decoded) }
            else Some (input, snd st) } }"

text \<open>The end of a filter without a second part: an empty output becomes \<open>nil\<close>.\<close>

definition finish_size :: "bytes \<Rightarrow> bytes option \<times> bytes option" where
  "finish_size buffer = (if length buffer = 0 then None else Some buffer, None)"

definition mime_global_b64 :: "bytes option \<Rightarrow> bytes option \<Rightarrow> (bytes option \<times> bytes option) option" where
  "mime_global_b64 c d =
     (case c of
        None \<Rightarrow> Some (None, None)
      | Some input \<Rightarrow>
          do { (atom, buffer) \<leftarrow> fold_option b64encode input ([], []);
               case d of
                 None \<Rightarrow> map_option finish_size (b64pad atom buffer)
               | Some input2 \<Rightarrow>
                   do { (atom, buffer) \<leftarrow> fold_option b64encode input2 (atom, buffer);
                        Some (Some buffer, Some atom) } })"

definition mime_global_unb64 :: "bytes option \<Rightarrow> bytes option \<Rightarrow> (bytes option \<times> bytes option) option" where
  "mime_global_unb64 c d =
     (case c of
        None \<Rightarrow> Some (None, None)
      | Some input \<Rightarrow>
          do { (atom, buffer) \<leftarrow> fold_option b64decode input ([], []);
               case d of
                 None \<Rightarrow> Some (finish_size buffer)
               | Some input2 \<Rightarrow>
                   do { (atom, buffer) \<leftarrow> fold_option b64decode input2 (atom, buffer);
                        Some (Some buffer, Some atom) } })"

subsection \<open>Quoted-printable\<close>

definition qpquote :: "u8 \<Rightarrow> bytes \<Rightarrow> bytes option" where
  "qpquote c buffer =
     do { hi \<leftarrow> lookup qpbase (unat (drop_bit 4 c));
          lo \<leftarrow> lookup qpbase (unat (c AND 0x0F));
          Some (buffer @ [61, hi, lo]) }"

text \<open>The loop of \<open>qpencode\<close>: the atom shrinks by one byte in each round.\<close>

fun qpencode_loop :: "bytes \<Rightarrow> bytes \<Rightarrow> bytes \<Rightarrow> (bytes \<times> bytes) option" where
  "qpencode_loop marker [] buffer = Some ([], buffer)"
| "qpencode_loop marker (i0 # rest) buffer =
     do { cl \<leftarrow> lookup qpclass (unat i0);
          case cl of
            QP_CR \<Rightarrow>
              (if length (i0 # rest) < 2 then Some (i0 # rest, buffer)
               else if rest ! 0 = 10 then Some ([], buffer @ marker)
               else do { buffer \<leftarrow> qpquote i0 buffer; qpencode_loop marker rest buffer })
          | QP_IF_LAST \<Rightarrow>
              (if length (i0 # rest) < 3 then Some (i0 # rest, buffer)
               else if rest ! 0 = 13 \<and> rest ! 1 = 10 then
                 do { buffer \<leftarrow> qpquote i0 buffer; Some ([], buffer @ marker) }
               else qpencode_loop marker rest (buffer @ [i0]))
          | QP_QUOTED \<Rightarrow> do { buffer \<leftarrow> qpquote i0 buffer; qpencode_loop marker rest buffer }
          | QP_PLAIN \<Rightarrow> qpencode_loop marker rest (buffer @ [i0]) }"

definition qpencode :: "bytes \<Rightarrow> u8 \<Rightarrow> bytes \<times> bytes \<Rightarrow> (bytes \<times> bytes) option" where
  "qpencode marker c st =
     do { input \<leftarrow> push_atom 3 (fst st) c; qpencode_loop marker input (snd st) }"

fun qppad_loop :: "bytes \<Rightarrow> bytes \<Rightarrow> bytes option" where
  "qppad_loop [] buffer = Some buffer"
| "qppad_loop (c # input) buffer =
     do { cl \<leftarrow> lookup qpclass (unat c);
          if cl = QP_PLAIN then qppad_loop input (buffer @ [c])
          else do { buffer \<leftarrow> qpquote c buffer; qppad_loop input buffer } }"

definition qppad :: "bytes \<Rightarrow> bytes \<Rightarrow> bytes option" where
  "qppad input buffer =
     do { buffer \<leftarrow> qppad_loop input buffer;
          Some (if length input > 0 then buffer @ EQCRLF else buffer) }"

text \<open>The end of the quoted-printable filters tests \<open>*lua_tostring(L, -1)\<close>: an output that starts
  with a zero byte also counts as empty.\<close>

definition finish_c_str :: "bytes \<Rightarrow> bytes option \<times> bytes option" where
  "finish_c_str buffer = (if buffer = [] \<or> buffer ! 0 = 0 then None else Some buffer, None)"

definition mime_global_qp ::
    "bytes option \<Rightarrow> bytes option \<Rightarrow> bytes \<Rightarrow> (bytes option \<times> bytes option) option" where
  "mime_global_qp c d marker =
     (case c of
        None \<Rightarrow> Some (None, None)
      | Some input \<Rightarrow>
          do { (atom, buffer) \<leftarrow> fold_option (qpencode marker) input ([], []);
               case d of
                 None \<Rightarrow> map_option finish_c_str (qppad atom buffer)
               | Some input2 \<Rightarrow>
                   do { (atom, buffer) \<leftarrow> fold_option (qpencode marker) input2 (atom, buffer);
                        Some (Some buffer, Some atom) } })"

definition qpdecode :: "u8 \<Rightarrow> bytes \<times> bytes \<Rightarrow> (bytes \<times> bytes) option" where
  "qpdecode c st =
     do { input \<leftarrow> push_atom 3 (fst st) c;
          let buffer = snd st;
          if input ! 0 = 61 then
            (if length input < 3 then Some (input, buffer)
             else if input ! 1 = 13 \<and> input ! 2 = 10 then Some ([], buffer)
             else do { c \<leftarrow> lookup qpunbase (unat (input ! 1));
                       d \<leftarrow> lookup qpunbase (unat (input ! 2));
                       if c > 15 \<or> d > 15 then Some ([], buffer @ take 3 input)
                       else Some ([], buffer @ [push_bit 4 c + d]) })
          else if input ! 0 = 13 then
            (if length input < 2 then Some (input, buffer)
             else if input ! 1 = 10 then Some ([], buffer @ take 2 input)
             else Some ([], buffer))
          else if input ! 0 = 9 \<or> (input ! 0 > 31 \<and> input ! 0 < 127) then Some ([], buffer @ [input ! 0])
          else Some ([], buffer) }"

definition mime_global_unqp :: "bytes option \<Rightarrow> bytes option \<Rightarrow> (bytes option \<times> bytes option) option" where
  "mime_global_unqp c d =
     (case c of
        None \<Rightarrow> Some (None, None)
      | Some input \<Rightarrow>
          do { (atom, buffer) \<leftarrow> fold_option qpdecode input ([], []);
               case d of
                 None \<Rightarrow> Some (finish_c_str buffer)
               | Some input2 \<Rightarrow>
                   do { (atom, buffer) \<leftarrow> fold_option qpdecode input2 (atom, buffer);
                        Some (Some buffer, Some atom) } })"

fun qpwrp_step :: "int \<Rightarrow> u8 \<Rightarrow> int \<times> bytes \<Rightarrow> int \<times> bytes" where
  "qpwrp_step len c (left, buffer) =
     (if c = 13 then (left, buffer)
      else if c = 10 then (len, buffer @ CRLF)
      else if c = 61 then
        (let (left, buffer) = (if left \<le> 3 then (len, buffer @ EQCRLF) else (left, buffer))
         in (left - 1, buffer @ [c]))
      else
        (let (left, buffer) = (if left \<le> 1 then (len, buffer @ EQCRLF) else (left, buffer))
         in (left - 1, buffer @ [c])))"

definition mime_global_qpwrp :: "int \<Rightarrow> bytes option \<Rightarrow> int \<Rightarrow> bytes option \<times> int" where
  "mime_global_qpwrp left input len =
     (case input of
        None \<Rightarrow> (if left < len then Some EQCRLF else None, len)
      | Some s \<Rightarrow> (let (left, buffer) = fold (qpwrp_step len) s (left, []) in (Some buffer, left)))"

subsection \<open>End of line\<close>

text \<open>A \<open>char\<close> is signed: the byte is read as an \<open>int\<close> and written back.\<close>

definition eolcandidate :: "int \<Rightarrow> bool" where
  "eolcandidate c \<longleftrightarrow> c = 13 \<or> c = 10"

fun eolprocess :: "bytes \<Rightarrow> u8 \<Rightarrow> int \<times> bytes \<Rightarrow> int \<times> bytes" where
  "eolprocess marker b (prev, buffer) =
     (let c = sint b in
      if eolcandidate c then
        (if eolcandidate prev then (0, if c = prev then buffer @ marker else buffer)
         else (c, buffer @ marker))
      else (0, buffer @ [word_of_int c]))"

definition mime_global_eol :: "int \<Rightarrow> bytes option \<Rightarrow> bytes \<Rightarrow> bytes option \<times> int" where
  "mime_global_eol ctx input marker =
     (case input of
        None \<Rightarrow> (None, 0)
      | Some s \<Rightarrow> (let (ctx, buffer) = fold (eolprocess marker) s (ctx, []) in (Some buffer, ctx)))"

subsection \<open>Dot stuffing\<close>

fun dot :: "u8 \<Rightarrow> nat \<times> bytes \<Rightarrow> nat \<times> bytes" where
  "dot b (state, buffer) =
     (let c = sint b; buffer = buffer @ [word_of_int c] in
      if c = 13 then (1, buffer)
      else if c = 10 then (if state = 1 then 2 else 0, buffer)
      else if c = 46 then (0, if state = 2 then buffer @ [46] else buffer)
      else (0, buffer))"

definition mime_global_dot :: "nat \<Rightarrow> bytes option \<Rightarrow> bytes option \<times> nat" where
  "mime_global_dot state input =
     (case input of
        None \<Rightarrow> (None, 2)
      | Some s \<Rightarrow> (let (state, buffer) = fold dot s (state, []) in (Some buffer, state)))"

end
