(* ===== verification/Mime_Text.thy ===== *)
theory Mime_Text
  imports Mime
begin

section \<open>Line filters: wrapping, end of line, dot stuffing\<close>

text \<open>
  What \<open>wrp\<close>, \<open>qpwrp\<close>, \<open>eol\<close> and \<open>dot\<close> promise of their output, each proved by an invariant of
  the loop over the input.
\<close>

subsection \<open>Wrapping\<close>

text \<open>Reading an output: how much room is left on its last line, and whether no line is longer
  than its room. A line ends with CR LF.\<close>

fun room :: "int \<Rightarrow> int \<Rightarrow> bytes \<Rightarrow> int option" where
  "room len left [] = Some left"
| "room len left (c # s) =
     (if c = 13 \<and> s \<noteq> [] \<and> hd s = 10 then room len len (tl s)
      else if left > 0 then room len (left - 1) s else None)"

lemma room_append:
  assumes "x \<noteq> []" "hd x \<noteq> 10"
  shows "room len left s = Some n \<Longrightarrow> room len left (s @ x) = room len n x"
proof (induction len left s rule: room.induct)
  case (2 len left c s)
  have h: "s @ x \<noteq> []" "hd (s @ x) = 10 \<longleftrightarrow> s \<noteq> [] \<and> hd s = 10" using assms by (cases s; simp)+
  show ?case
  proof (cases "c = 13 \<and> s \<noteq> [] \<and> hd s = 10")
    case True
    then have "tl (s @ x) = tl s @ x" by simp
    then show ?thesis using 2 True h by simp
  next
    case False
    then show ?thesis using 2 h by (auto split: if_splits)
  qed
qed simp

lemma room_snoc: "room len left s = Some n \<Longrightarrow> c \<noteq> 10 \<Longrightarrow> 0 < n \<Longrightarrow> room len left (s @ [c]) = Some (n - 1)"
  by (simp add: room_append)

lemma room_CRLF: "room len left s = Some n \<Longrightarrow> room len left (s @ CRLF) = Some len"
  by (simp add: room_append CRLF_def)

definition content :: "bytes \<Rightarrow> bytes" where
  "content s = filter (\<lambda>c. c \<noteq> 13 \<and> c \<noteq> 10) s"

lemma wrp_fold:
  assumes "0 < len" "room len left buffer = Some l"
  shows "\<exists>l' out. fold (wrp_step len) s (l, buffer) = (l', buffer @ out)
    \<and> room len left (buffer @ out) = Some l' \<and> content out = content s"
  using assms(2)
proof (induction s arbitrary: l buffer)
  case (Cons c s)
  define r where "r = wrp_step len c (l, buffer)"
  have r: "\<exists>l1 o1. r = (l1, buffer @ o1) \<and> room len left (buffer @ o1) = Some l1 \<and> content o1 = content [c]"
  proof -
    consider "c = 13" | "c = 10" | "c \<noteq> 13" "c \<noteq> 10" "l \<le> 0" | "c \<noteq> 13" "c \<noteq> 10" "0 < l" by linarith
    then show ?thesis
    proof cases
      case 1
      then show ?thesis using Cons.prems by (simp add: r_def content_def)
    next
      case 2
      then show ?thesis using room_CRLF [OF Cons.prems] by (simp add: r_def content_def CRLF_def)
    next
      case 3
      have "room len left ((buffer @ CRLF) @ [c]) = Some (len - 1)"
        using room_snoc [OF room_CRLF [OF Cons.prems] 3(2) assms(1)] .
      then show ?thesis using 3 by (simp add: r_def content_def CRLF_def)
    next
      case 4
      then show ?thesis using room_snoc [OF Cons.prems 4(2,3)] by (simp add: r_def content_def)
    qed
  qed
  then obtain l1 o1 where o1: "r = (l1, buffer @ o1)" "room len left (buffer @ o1) = Some l1" "content o1 = content [c]"
    by blast
  obtain l' out where "fold (wrp_step len) s (l1, buffer @ o1) = (l', (buffer @ o1) @ out)"
    "room len left ((buffer @ o1) @ out) = Some l'" "content out = content s"
    using Cons.IH [OF o1(2)] by blast
  then show ?case
    using o1 by (intro exI [of _ l'] exI [of _ "o1 @ out"]) (simp add: r_def content_def del: wrp_step.simps)
qed (simp add: content_def)

text \<open>C16: \<open>wrp\<close> keeps the bytes other than CR and LF, writes no line longer than \<open>length\<close> (the first
  one no longer than \<open>left\<close>), and returns the room left on the last line.\<close>

theorem wrp_lines:
  assumes "0 < len"
  shows "\<exists>a n. mime_global_wrp left (Some s) len = (Some a, n) \<and> room len left a = Some n \<and> content a = content s"
  using wrp_fold [OF assms, of left "[]" left s] by (auto simp: mime_global_wrp_def)

theorem wrp_lines_witness:
  "\<exists>a n. mime_global_wrp 4 (Some (map byte ''Hello, world'')) 5 = (Some a, n)
    \<and> room 5 4 a = Some n \<and> content a = content (map byte ''Hello, world'')"
  by (rule wrp_lines) simp

lemma qpwrp_fold:
  assumes "4 \<le> len" "room len left buffer = Some l" "1 \<le> l"
  shows "\<exists>l' out. fold (qpwrp_step len) s (l, buffer) = (l', buffer @ out)
    \<and> room len left (buffer @ out) = Some l' \<and> 1 \<le> l'"
  using assms(2,3)
proof (induction s arbitrary: l buffer)
  case (Cons c s)
  define r where "r = qpwrp_step len c (l, buffer)"
  have soft: "room len left (buffer @ EQCRLF) = Some len"
  proof -
    have "room len left ((buffer @ [61]) @ CRLF) = Some len"
      using room_CRLF [OF room_snoc [OF Cons.prems(1), of 61]] Cons.prems(2) by simp
    then show ?thesis by (simp add: EQCRLF_def CRLF_def)
  qed
  have r: "\<exists>l1 o1. r = (l1, buffer @ o1) \<and> room len left (buffer @ o1) = Some l1 \<and> 1 \<le> l1"
  proof -
    define k where "k = (if c = 61 then 3 else 1 :: int)"
    consider "c = 13" | "c = 10" | "c \<noteq> 13" "c \<noteq> 10" "l \<le> k" | "c \<noteq> 13" "c \<noteq> 10" "k < l" by linarith
    then show ?thesis
    proof cases
      case 1
      then show ?thesis using Cons.prems by (simp add: r_def)
    next
      case 2
      then show ?thesis using room_CRLF [OF Cons.prems(1)] assms(1) by (simp add: r_def)
    next
      case 3
      have "room len left ((buffer @ EQCRLF) @ [c]) = Some (len - 1)"
        using room_snoc [OF soft 3(2)] assms(1) by simp
      then show ?thesis using 3 assms(1) by (auto simp: r_def k_def split: if_splits)
    next
      case 4
      then have "0 < l" "2 \<le> l" by (auto simp: k_def split: if_splits)
      then show ?thesis using 4 room_snoc [OF Cons.prems(1) 4(2)] by (auto simp: r_def k_def split: if_splits)
    qed
  qed
  then obtain l1 o1 where o1: "r = (l1, buffer @ o1)" "room len left (buffer @ o1) = Some l1" "1 \<le> l1" by blast
  obtain l' out where "fold (qpwrp_step len) s (l1, buffer @ o1) = (l', (buffer @ o1) @ out)"
    "room len left ((buffer @ o1) @ out) = Some l'" "1 \<le> l'"
    using Cons.IH [OF o1(2,3)] by blast
  then show ?case
    using o1 by (intro exI [of _ l'] exI [of _ "o1 @ out"]) (simp add: r_def del: qpwrp_step.simps)
qed simp

text \<open>C17: \<open>qpwrp\<close> with lines of at least four bytes: no line of its output, soft line breaks included,
  is longer than \<open>length\<close>.\<close>

theorem qpwrp_lines:
  assumes "4 \<le> len" "1 \<le> left"
  shows "\<exists>a n. mime_global_qpwrp left (Some s) len = (Some a, n) \<and> room len left a = Some n \<and> 1 \<le> n"
  using qpwrp_fold [OF assms(1), of left "[]" left s] assms(2) by (auto simp: mime_global_qpwrp_def)

theorem qpwrp_lines_witness:
  "\<exists>a n. mime_global_qpwrp 5 (Some (map byte ''a=3Db=3Dc'')) 8 = (Some a, n) \<and> room 8 5 a = Some n \<and> 1 \<le> n"
  by (rule qpwrp_lines) simp_all

subsection \<open>End of line\<close>

lemma sint_byte_eq: "sint (b::u8) = 13 \<longleftrightarrow> b = 13" "sint (b::u8) = 10 \<longleftrightarrow> b = 10" "sint (b::u8) = 46 \<longleftrightarrow> b = 46"
proof -
  have e: "sint (13::u8) = 13" "sint (10::u8) = 10" "sint (46::u8) = 46" by simp_all
  show "sint b = 13 \<longleftrightarrow> b = 13" "sint b = 10 \<longleftrightarrow> b = 10" "sint b = 46 \<longleftrightarrow> b = 46"
    using e by (metis signed_word_eqI)+
qed

lemma eolcandidate_sint: "eolcandidate (sint (b::u8)) \<longleftrightarrow> b = 13 \<or> b = 10"
  by (simp add: eolcandidate_def sint_byte_eq)

text \<open>What the conversion means: two different end-of-line characters in a row are one line end,
  two equal ones are two, and a pair is consumed as a whole.\<close>

fun eol_text :: "bytes \<Rightarrow> bytes \<Rightarrow> bytes" where
  "eol_text marker (a # b # s) =
     (if a \<in> {13, 10} then
        (if b \<in> {13, 10} then (if a = b then marker @ marker else marker) @ eol_text marker s
         else marker @ eol_text marker (b # s))
      else a # eol_text marker (b # s))"
| "eol_text marker [a] = (if a \<in> {13, 10} then marker else [a])"
| "eol_text marker [] = []"

lemma eolprocess_start:
  "c \<in> {13, 10} \<Longrightarrow> eolprocess marker c (0, buf) = (sint c, buf @ marker)"
  "c \<notin> {13, 10} \<Longrightarrow> eolprocess marker c (x, buf) = (0, buf @ [c])"
proof -
  have "\<not> eolcandidate 0" by (simp add: eolcandidate_def)
  then show "c \<in> {13, 10} \<Longrightarrow> eolprocess marker c (0, buf) = (sint c, buf @ marker)"
    by (auto simp: eolcandidate_sint Let_def)
qed (auto simp: eolcandidate_sint Let_def)

lemma eolprocess_second:
  "a \<in> {13, 10} \<Longrightarrow> b \<in> {13, 10} \<Longrightarrow>
   eolprocess marker b (sint a, buf) = (0, if a = b then buf @ marker else buf)"
  by (auto simp: eolcandidate_sint Let_def)

lemma eol_fold: "\<exists>ctx. fold (eolprocess marker) s (0, buf) = (ctx, buf @ eol_text marker s)"
proof (induction marker s arbitrary: buf rule: eol_text.induct)
  case (1 marker a b s)
  consider "a \<notin> {13, 10}" | "a \<in> {13, 10}" "b \<notin> {13, 10}" | "a \<in> {13, 10}" "b \<in> {13, 10}" by blast
  then show ?case
  proof cases
    case 1
    then have "eolprocess marker a (0, buf) = (0, buf @ [a])" by (rule eolprocess_start(2))
    then show ?thesis using "1.IH"(3) [OF 1, of "buf @ [a]"] 1 by (simp del: eolprocess.simps)
  next
    case 2
    then have "eolprocess marker a (0, buf) = (sint a, buf @ marker)"
      "eolprocess marker b (sint a, buf @ marker) = (0, (buf @ marker) @ [b])"
      "eolprocess marker b (0, buf @ marker) = (0, (buf @ marker) @ [b])"
      by (simp_all only: eolprocess_start not_False_eq_True)
    then show ?thesis using "1.IH"(2) [OF 2, of "buf @ marker"] 2 by (simp del: eolprocess.simps)
  next
    case 3
    define out where "out = (if a = b then marker @ marker else marker)"
    have "eolprocess marker a (0, buf) = (sint a, buf @ marker)" using 3(1) by (rule eolprocess_start(1))
    moreover have "eolprocess marker b (sint a, buf @ marker) = (0, buf @ out)"
      using eolprocess_second [OF 3] by (simp add: out_def)
    moreover have "eol_text marker (a # b # s) = out @ eol_text marker s" using 3 by (simp add: out_def)
    ultimately show ?thesis using "1.IH"(1) [OF 3, of "buf @ out"] by (simp del: eolprocess.simps eol_text.simps)
  qed
next
  case (2 marker a)
  then show ?case by (cases "a \<in> {13, 10}") (simp_all add: eolprocess_start del: eolprocess.simps)
qed simp

lemma eol_whole: "\<exists>ctx. mime_global_eol 0 (Some s) marker = (Some (eol_text marker s), ctx)"
  using eol_fold [of marker s "[]"] by (auto simp: mime_global_eol_def)

lemma eol_text_CRLF: "eol_text CRLF (CRLF @ s) = CRLF @ eol_text CRLF s"
  by (simp add: CRLF_def)

lemma eol_text_plain: "a \<notin> {13, 10} \<Longrightarrow> eol_text marker (a # s) = a # eol_text marker s"
  by (cases s) auto

text \<open>Converting to CRLF is idempotent: an output converted again is unchanged.\<close>

lemma eol_idempotent:
  "\<exists>a ctx ctx'. mime_global_eol 0 (Some s) CRLF = (Some a, ctx) \<and> mime_global_eol 0 (Some a) CRLF = (Some a, ctx')"
proof -
  have "eol_text CRLF (eol_text CRLF s) = eol_text CRLF s"
  proof (induction CRLF s rule: eol_text.induct)
    case (1 a b s)
    then show ?case
      by (auto simp: eol_text_CRLF eol_text_plain simp del: eol_text.simps)
        (auto simp: eol_text_CRLF eol_text_plain)
  qed (auto simp: CRLF_def)
  then show ?thesis
    using eol_whole [of s CRLF] eol_whole [of "eol_text CRLF s" CRLF] by metis
qed

subsection \<open>Dot stuffing\<close>

definition dot_next :: "nat \<Rightarrow> u8 \<Rightarrow> nat" where
  "dot_next st c = (if c = 13 then 1 else if c = 10 then (if st = 1 then 2 else 0) else 0)"

fun stuffed :: "nat \<Rightarrow> bytes \<Rightarrow> bytes" where
  "stuffed st [] = []"
| "stuffed st (c # s) = (if c = 46 \<and> st = 2 then [46, 46] else [c]) @ stuffed (dot_next st c) s"

lemma dot_fold: "\<exists>st'. fold dot s (st, buf) = (st', buf @ stuffed st s)"
proof (induction s arbitrary: st buf)
  case (Cons c s)
  have "dot c (st, buf) = (dot_next st c, buf @ (if c = 46 \<and> st = 2 then [46, 46] else [c]))"
    by (simp add: dot_next_def sint_byte_eq Let_def)
  then show ?case
    using Cons.IH [of "dot_next st c" "buf @ (if c = 46 \<and> st = 2 then [46, 46] else [c])"]
    by (simp del: dot.simps)
qed simp

text \<open>The receiver's side: a dot at the start of a line is dropped; a line with only a dot ends the
  message.\<close>

fun unstuff :: "nat \<Rightarrow> bytes \<Rightarrow> bytes option" where
  "unstuff st [] = Some []"
| "unstuff st (c # s) =
     (if c = 46 \<and> st = 2 then
        (case s of [] \<Rightarrow> None
         | d # s' \<Rightarrow> if d = 13 then None else map_option ((#) d) (unstuff (dot_next 0 d) s'))
      else map_option ((#) c) (unstuff (dot_next st c) s))"

text \<open>C18: SMTP dot stuffing is transparent: the receiver of the stuffed message never sees the end
  mark inside it and gets the original bytes back.\<close>

theorem dot_transparent:
  "\<exists>a st'. mime_global_dot st (Some s) = (Some a, st') \<and> unstuff st a = Some s"
proof -
  have "unstuff st (stuffed st s) = Some s"
  proof (induction s arbitrary: st)
    case (Cons c s)
    show ?case using Cons.IH [of "dot_next st c"] by (auto simp: dot_next_def)
  qed simp
  then show ?thesis using dot_fold [of s st "[]"] by (auto simp: mime_global_dot_def)
qed

end
