(* ===== verification/Mime_Base64.thy ===== *)
theory Mime_Base64
  imports Mime
begin

section \<open>Base64: the tables, the groups, the round trip\<close>

text \<open>
  The encoder, fed byte by byte, writes one group of four characters for three bytes
  (\<open>b64_groups\<close>); the decoder turns every group back. The bit identities are proved bit by bit.
\<close>

lemma high_bits: "8 \<le> n \<Longrightarrow> \<not> bit (x::u8) n"
  by (auto dest: bit_imp_le_length)

lemma less_8: "n < (8::nat) \<Longrightarrow> n = 0 \<or> n = 1 \<or> n = 2 \<or> n = 3 \<or> n = 4 \<or> n = 5 \<or> n = 6 \<or> n = 7"
  by linarith

lemma len_8: "LENGTH(8) = 8"
  by simp

lemma masks: "(0x3f::64 word) = mask 6" "(0xff::32 word) = mask 8" "(0x0F::u8) = mask 4"
  by (simp_all add: mask_eq_exp_minus_1)

lemma push_add_8: "push_bit 8 (x::64 word) + ucast (y::u8) = push_bit 8 x OR ucast y"
  by (rule disjunctive_add_eq_or) (auto simp: bit_eq_iff bit_simps dest: bit_imp_le_length)

lemmas byte_bits = masks bit_simps high_bits

subsection \<open>Packing and unpacking\<close>

definition pack3 :: "u8 \<Rightarrow> u8 \<Rightarrow> u8 \<Rightarrow> 64 word" where
  "pack3 a b c = push_bit 8 (push_bit 8 (ucast a) + ucast b) + ucast c"

definition pack2 :: "u8 \<Rightarrow> u8 \<Rightarrow> 64 word" where
  "pack2 a b = push_bit 2 (push_bit 8 (ucast a) OR ucast b)"

definition unpack :: "u8 \<Rightarrow> u8 \<Rightarrow> u8 \<Rightarrow> u8 \<Rightarrow> 32 word" where
  "unpack u0 u1 u2 u3 = push_bit 6 (push_bit 6 (push_bit 6 (ucast u0) OR ucast u1) OR ucast u2) OR ucast u3"

lemma pack3_or: "pack3 a b c = push_bit 8 (push_bit 8 (ucast a) OR ucast b) OR ucast c"
  unfolding pack3_def push_add_8 ..

lemma unpack_pack3:
  fixes a b c :: u8
  defines "w \<equiv> unpack (ucast (drop_bit 6 (drop_bit 6 (drop_bit 6 (pack3 a b c)))))
    (ucast (drop_bit 6 (drop_bit 6 (pack3 a b c)) AND 0x3f)) (ucast (drop_bit 6 (pack3 a b c) AND 0x3f))
    (ucast (pack3 a b c AND 0x3f))"
  shows "ucast (w AND 0xff) = c" "ucast (drop_bit 8 w AND 0xff) = b" "ucast (drop_bit 8 (drop_bit 8 w)) = a"
  by (rule bit_word_eqI, unfold len_8, drule less_8, elim disjE; simp add: w_def unpack_def pack3_or byte_bits)+

lemma unpack_pack2:
  fixes a b :: u8
  defines "w \<equiv> unpack (ucast (drop_bit 6 (drop_bit 6 (pack2 a b)))) (ucast (drop_bit 6 (pack2 a b) AND 0x3f))
    (ucast (pack2 a b AND 0x3f)) 0"
  shows "ucast (drop_bit 8 w AND 0xff) = b" "ucast (drop_bit 8 (drop_bit 8 w)) = a"
  by (rule bit_word_eqI, unfold len_8, drule less_8, elim disjE; simp add: w_def unpack_def pack2_def byte_bits)+

lemma unpack_pack1:
  fixes a :: u8
  defines "w \<equiv> unpack (ucast (drop_bit 6 (push_bit 4 (ucast a) :: 64 word)))
    (ucast (push_bit 4 (ucast a) AND (0x3f :: 64 word))) 0 0"
  shows "ucast (drop_bit 8 (drop_bit 8 w)) = a"
  by (rule bit_word_eqI, unfold len_8, drule less_8, elim disjE; simp add: w_def unpack_def byte_bits)

text \<open>Every index is below 64.\<close>

lemma and_63_less: "unat (x AND 0x3f :: 64 word) < 64"
proof -
  have "x AND 0x3f = take_bit 6 x" unfolding masks by (simp add: take_bit_eq_mask ac_simps)
  then have "unat (x AND 0x3f) = take_bit 6 (unat x)" by (simp add: unsigned_take_bit_eq)
  then show ?thesis using take_bit_nat_less_exp [of 6 "unat x"] by simp
qed

lemma pack_less:
  "unat (drop_bit 6 (drop_bit 6 (drop_bit 6 (pack3 a b c)))) < 64"
  "unat (drop_bit 6 (drop_bit 6 (pack2 a b))) < 64"
  "unat (drop_bit 6 (push_bit 4 (ucast a) :: 64 word)) < 64"
proof -
  have r: "unat x < 64" if "\<And>n. n < 64 \<Longrightarrow> 6 \<le> n \<Longrightarrow> \<not> bit x n" for x :: "64 word"
  proof -
    have "n < 6" if "n < 64" "bit x n" for n using \<open>\<And>n. n < 64 \<Longrightarrow> 6 \<le> n \<Longrightarrow> \<not> bit x n\<close> that by (meson not_le)
    then have "x AND 0x3f = x" unfolding masks by (intro bit_word_eqI) (auto simp: bit_simps)
    then show ?thesis using and_63_less [of x] by simp
  qed
  show "unat (drop_bit 6 (drop_bit 6 (drop_bit 6 (pack3 a b c)))) < 64"
    "unat (drop_bit 6 (drop_bit 6 (pack2 a b))) < 64"
    "unat (drop_bit 6 (push_bit 4 (ucast a) :: 64 word)) < 64"
    by (rule r; simp add: pack3_or pack2_def bit_simps high_bits)+
qed

subsection \<open>The tables\<close>

lemma b64_tables:
  assumes "i < 64"
  shows "lookup b64base i = Some (b64base ! i)" "lookup b64unbase (unat (b64base ! i)) = Some (of_nat i)"
    "b64base ! i \<noteq> 61"
proof -
  have t: "map (\<lambda>c. b64unbase ! unat c) b64base = map of_nat [0..<64]"
    by (simp add: b64base_def b64unbase_def byte_def code_def upt_rec)
  have l: "length b64base = 64" "length b64unbase = 256" by (simp_all add: b64base_def b64unbase_def)
  show "lookup b64base i = Some (b64base ! i)" using assms l by (simp add: lookup_def)
  have "b64unbase ! unat (b64base ! i) = of_nat i"
    using arg_cong [OF t, of "\<lambda>xs. xs ! i"] assms l by simp
  moreover have "unat (b64base ! i) < 256" using unsigned_less [of "b64base ! i", where ?'a = nat] by simp
  ultimately show "lookup b64unbase (unat (b64base ! i)) = Some (of_nat i)" using l by (simp add: lookup_def)
  have "61 \<notin> List.set b64base" by (simp add: b64base_def byte_def code_def)
  then show "b64base ! i \<noteq> 61" using assms l by (metis nth_mem)
qed

lemma b64_char_less: "i < 64 \<Longrightarrow> \<not> (of_nat i :: u8) > 64"
  by (simp add: word_less_nat_alt unat_of_nat)

lemma b64_pad_char: "lookup b64unbase (unat (61::u8)) = Some 0"
  by code_simp

subsection \<open>Groups\<close>

definition chars64 :: "nat list \<Rightarrow> bytes" where
  "chars64 is = map (\<lambda>i. b64base ! i) is"

fun b64_groups :: "bytes \<Rightarrow> bytes" where
  "b64_groups (a # b # c # s) =
     chars64 [unat (drop_bit 6 (drop_bit 6 (drop_bit 6 (pack3 a b c)))), unat (drop_bit 6 (drop_bit 6 (pack3 a b c)) AND 0x3f),
       unat (drop_bit 6 (pack3 a b c) AND 0x3f), unat (pack3 a b c AND 0x3f)] @ b64_groups s"
| "b64_groups [a, b] =
     chars64 [unat (drop_bit 6 (drop_bit 6 (pack2 a b))), unat (drop_bit 6 (pack2 a b) AND 0x3f), unat (pack2 a b AND 0x3f)] @ [61]"
| "b64_groups [a] =
     chars64 [unat (drop_bit 6 (push_bit 4 (ucast a) :: 64 word)), unat (push_bit 4 (ucast a) AND (0x3f :: 64 word))] @ [61, 61]"
| "b64_groups [] = []"

lemma encode_group:
  "fold_option b64encode (a # b # c # s) ([], buf)
     = fold_option b64encode s ([], buf @ take 4 (b64_groups (a # b # c # s)))"
  using pack_less(1) [of a b c] and_63_less
  by (simp add: b64encode_def push_atom_def chars64_def b64_tables(1) pack3_def [symmetric] Let_def)

lemma encode_groups:
  "\<exists>atom buf'. fold_option b64encode s ([], buf) = Some (atom, buf')
     \<and> b64pad atom buf' = Some (buf @ b64_groups s)"
proof (induction s arbitrary: buf rule: b64_groups.induct)
  case (1 a b c s)
  show ?case unfolding encode_group
    using "1.IH" [of "buf @ take 4 (b64_groups (a # b # c # s))"] by (simp add: chars64_def)
next
  case (2 a b)
  show ?case
    unfolding b64pad_def pack2_def [symmetric]
    using pack_less(2) [of a b] and_63_less
    by (simp add: b64encode_def push_atom_def chars64_def b64_tables(1) Let_def)
next
  case (3 a)
  show ?case
    using pack_less(3) [of a] and_63_less
    by (simp add: b64encode_def push_atom_def b64pad_def chars64_def b64_tables(1) Let_def)
qed (simp add: b64pad_def)

text \<open>Four valid characters are one decoding step.\<close>

lemma decode_atom:
  assumes "lookup b64unbase (unat c0) = Some u0" "lookup b64unbase (unat c1) = Some u1"
    "lookup b64unbase (unat c2) = Some u2" "lookup b64unbase (unat c3) = Some u3"
    "\<not> u0 > 64" "\<not> u1 > 64" "\<not> u2 > 64" "\<not> u3 > 64"
  shows "fold_option b64decode (c0 # c1 # c2 # c3 # s) ([], buf) =
    fold_option b64decode s ([], buf @ take (if c2 = 61 then 1 else if c3 = 61 then 2 else 3)
      [ucast (drop_bit 8 (drop_bit 8 (unpack u0 u1 u2 u3))), ucast (drop_bit 8 (unpack u0 u1 u2 u3) AND 0xff),
       ucast (unpack u0 u1 u2 u3 AND 0xff)])"
  unfolding b64decode_def unpack_def [symmetric]
  using assms by (simp add: push_atom_def Let_def)

lemma decode_chars:
  assumes "i0 < 64" "i1 < 64" "i2 < 64" "i3 < 64"
  shows "fold_option b64decode (chars64 [i0, i1, i2, i3] @ s) ([], buf) =
    (let w = unpack (of_nat i0) (of_nat i1) (of_nat i2) (of_nat i3) in
     fold_option b64decode s ([], buf @
       [ucast (drop_bit 8 (drop_bit 8 w)), ucast (drop_bit 8 w AND 0xff), ucast (w AND 0xff)]))"
  unfolding chars64_def list.map append_Cons append_Nil
    decode_atom [OF b64_tables(2) b64_tables(2) b64_tables(2) b64_tables(2)
      b64_char_less b64_char_less b64_char_less b64_char_less, OF assms assms]
  using assms by (simp add: b64_tables(3) Let_def)

lemma decode_padded:
  assumes "i0 < 64" "i1 < 64" "i2 < 64"
  shows "fold_option b64decode (chars64 [i0, i1, i2] @ [61]) ([], buf) =
      (let w = unpack (of_nat i0) (of_nat i1) (of_nat i2) 0 in
       Some ([], buf @ [ucast (drop_bit 8 (drop_bit 8 w)), ucast (drop_bit 8 w AND 0xff)]))"
    "fold_option b64decode (chars64 [i0, i1] @ [61, 61]) ([], buf) =
      (let w = unpack (of_nat i0) (of_nat i1) 0 0 in Some ([], buf @ [ucast (drop_bit 8 (drop_bit 8 w))]))"
proof -
  have z: "\<not> (0::u8) > 64" by simp
  show "fold_option b64decode (chars64 [i0, i1, i2] @ [61]) ([], buf) =
      (let w = unpack (of_nat i0) (of_nat i1) (of_nat i2) 0 in
       Some ([], buf @ [ucast (drop_bit 8 (drop_bit 8 w)), ucast (drop_bit 8 w AND 0xff)]))"
    unfolding chars64_def list.map append_Cons append_Nil
      decode_atom [OF b64_tables(2) b64_tables(2) b64_tables(2) b64_pad_char
        b64_char_less b64_char_less b64_char_less z, OF assms assms]
    using assms by (simp add: b64_tables(3) Let_def)
  show "fold_option b64decode (chars64 [i0, i1] @ [61, 61]) ([], buf) =
      (let w = unpack (of_nat i0) (of_nat i1) 0 0 in Some ([], buf @ [ucast (drop_bit 8 (drop_bit 8 w))]))"
    unfolding chars64_def list.map append_Cons append_Nil
      decode_atom [OF b64_tables(2) b64_tables(2) b64_pad_char b64_pad_char
        b64_char_less b64_char_less z z, OF assms(1,2) assms(1,2)]
    by (simp add: Let_def)
qed

lemma decode_groups: "fold_option b64decode (b64_groups s) ([], buf) = Some ([], buf @ s)"
proof (induction s arbitrary: buf rule: b64_groups.induct)
  case (1 a b c s)
  have "fold_option b64decode (b64_groups (a # b # c # s)) ([], buf)
      = fold_option b64decode (b64_groups s) ([], buf @ [a, b, c])"
    unfolding b64_groups.simps decode_chars [OF pack_less(1) and_63_less and_63_less and_63_less]
      Let_def of_nat_unat unpack_pack3 ..
  then show ?case using 1 by simp
next
  case (2 a b)
  show ?case
    unfolding b64_groups.simps decode_padded(1) [OF pack_less(2) and_63_less and_63_less] Let_def of_nat_unat
      unpack_pack2 ..
next
  case (3 a)
  show ?case
    unfolding b64_groups.simps decode_padded(2) [OF pack_less(3) and_63_less and_63_less] Let_def of_nat_unat
      unpack_pack1 ..
qed simp

lemma length_b64_groups: "length (b64_groups s) = 4 * ((length s + 2) div 3)"
proof (induction s rule: b64_groups.induct)
  case (1 a b c s)
  have "(5 + length s) div 3 = Suc ((length s + 2) div 3)" by presburger
  then show ?case using 1 by (simp add: chars64_def)
qed (simp_all add: chars64_def)

lemma b64_whole: "mime_global_b64 (Some s) None = Some (finish_size (b64_groups s))"
  using encode_groups [of s "[]"] by (auto simp: mime_global_b64_def)

text \<open>C13: Round trip: decoding the Base64 encoding of a non-empty string gives it back, and the
  encoding has four characters for every three bytes begun.\<close>

theorem b64_roundtrip:
  assumes "s \<noteq> []"
  shows "\<exists>e. mime_global_b64 (Some s) None = Some (Some e, None) \<and> length e = 4 * ((length s + 2) div 3)
    \<and> mime_global_unb64 (Some e) None = Some (Some s, None)"
proof -
  have "length (b64_groups s) \<noteq> 0" using assms by (cases s) (simp_all add: length_b64_groups)
  then show ?thesis
    using assms decode_groups [of s "[]"]
    by (intro exI [of _ "b64_groups s"]) (simp add: b64_whole finish_size_def length_b64_groups mime_global_unb64_def)
qed

theorem b64_roundtrip_witness:
  "\<exists>e. mime_global_b64 (Some (map byte ''Hello'')) None = Some (Some e, None)
    \<and> length e = 4 * ((length (map byte ''Hello'') + 2) div 3)
    \<and> mime_global_unb64 (Some e) None = Some (Some (map byte ''Hello''), None)"
  by (rule b64_roundtrip) simp

subsection \<open>Encoding in pieces\<close>

text \<open>What is held back is less than a group, and encodes together with whatever follows.\<close>

lemma encode_prefix:
  "\<exists>atom out. fold_option b64encode s ([], buf) = Some (atom, buf @ out) \<and> length atom < 3
     \<and> (\<forall>e. b64_groups (s @ e) = out @ b64_groups (atom @ e))"
proof (induction s arbitrary: buf rule: b64_groups.induct)
  case (1 a b c s)
  obtain atom out where ih: "fold_option b64encode s ([], buf @ take 4 (b64_groups (a # b # c # s)))
      = Some (atom, (buf @ take 4 (b64_groups (a # b # c # s))) @ out)"
    "length atom < 3" "\<forall>e. b64_groups (s @ e) = out @ b64_groups (atom @ e)"
    using "1.IH" by blast
  then show ?case
    unfolding encode_group
    by (intro exI [of _ atom] exI [of _ "take 4 (b64_groups (a # b # c # s)) @ out"]) (simp add: chars64_def)
next
  case (2 a b)
  show ?case by (intro exI [of _ "[a, b]"] exI [of _ "[]"]) (simp add: b64encode_def push_atom_def)
next
  case (3 a)
  show ?case by (intro exI [of _ "[a]"] exI [of _ "[]"]) (simp add: b64encode_def push_atom_def)
qed simp

text \<open>Incremental encoding: for every split of the input, \<open>b64(C, D)\<close> returns a prefix of the
  encoding and fewer than three bytes held back, so that continuing with them gives the same
  encoding as the whole input at once.\<close>

lemma b64_incremental:
  "\<exists>a b. mime_global_b64 (Some c) (Some d) = Some (Some a, Some b) \<and> length b < 3
     \<and> (\<forall>e. b64_groups (c @ d @ e) = a @ b64_groups (b @ e))
     \<and> (\<forall>s. mime_global_b64 (Some s) None = Some (finish_size (b64_groups s)))"
proof -
  obtain b a where ba: "fold_option b64encode (c @ d) ([], []) = Some (b, [] @ a)" "length b < 3"
    "\<forall>e. b64_groups ((c @ d) @ e) = a @ b64_groups (b @ e)"
    using encode_prefix by blast
  have "mime_global_b64 (Some c) (Some d) = Some (Some a, Some b)"
    using ba(1) by (auto simp: mime_global_b64_def fold_option_append split: Option.bind_splits)
  then show ?thesis using ba by (auto simp: b64_whole)
qed

end
