(* ===== verification/Mime_QP.thy ===== *)
theory Mime_QP
  imports Mime_Base64
begin

section \<open>Quoted-printable: tables, round trip; safety of the filters\<close>

text \<open>
  The tables are the ones the disabled generator functions of the source would print. A piece of
  encoder output that the decoder turns into certain bytes, starting and ending with an empty
  atom, is described by \<open>decodes\<close>; the encoder's invariant is that its output decodes to the bytes
  it has consumed.
\<close>

subsection \<open>The generators of the tables\<close>

definition qpsetup_class :: "qp_class list" where
  "qpsetup_class =
     (let cl = replicate 256 QP_QUOTED;
          cl = fold (\<lambda>i cl. cl[i := QP_PLAIN]) [33..<61] cl;
          cl = fold (\<lambda>i cl. cl[i := QP_PLAIN]) [62..<127] cl
      in cl[9 := QP_IF_LAST, 32 := QP_IF_LAST, 13 := QP_CR])"

definition qpsetup_unbase :: bytes where
  "qpsetup_unbase =
     fold (\<lambda>(c, v) unbase. unbase[code c := v])
       [(CHR ''0'', 0), (CHR ''1'', 1), (CHR ''2'', 2), (CHR ''3'', 3), (CHR ''4'', 4), (CHR ''5'', 5),
        (CHR ''6'', 6), (CHR ''7'', 7), (CHR ''8'', 8), (CHR ''9'', 9), (CHR ''A'', 10), (CHR ''a'', 10),
        (CHR ''B'', 11), (CHR ''b'', 11), (CHR ''C'', 12), (CHR ''c'', 12), (CHR ''D'', 13), (CHR ''d'', 13),
        (CHR ''E'', 14), (CHR ''e'', 14), (CHR ''F'', 15), (CHR ''f'', 15)]
       (replicate 256 255)"

definition b64setup :: bytes where
  "b64setup =
     (let unbase = replicate 256 255;
          unbase = fold (\<lambda>i unbase. unbase[unat (b64base ! i) := of_nat i]) [0..<64] unbase
      in unbase[code CHR ''='' := 0])"

text \<open>The three precomputed tables are exactly what the generator functions, disabled in the
  source, fill in.\<close>

lemma tables_generated: "qpclass = qpsetup_class \<and> qpunbase = qpsetup_unbase \<and> b64unbase = b64setup"
  by code_simp

subsection \<open>Classes and quotes\<close>

definition class_ok :: "nat \<Rightarrow> qp_class \<Rightarrow> bool" where
  "class_ok i cl \<longleftrightarrow>
     (case cl of QP_PLAIN \<Rightarrow> 33 \<le> i \<and> i \<le> 126 \<and> i \<noteq> 61
      | QP_IF_LAST \<Rightarrow> i = 9 \<or> i = 32 | QP_CR \<Rightarrow> i = 13 | QP_QUOTED \<Rightarrow> True)"

lemma unat_byte_less: "unat (c::u8) < 256"
  using unsigned_less [of c, where ?'a = nat] by simp

lemma class_lookup: "\<exists>cl. lookup qpclass (unat (c::u8)) = Some cl \<and> class_ok (unat c) cl"
proof -
  have "list_all2 class_ok [0..<256] qpclass" by code_simp
  from list_all2_nthD [OF this, of "unat c"] list_all2_lengthD [OF this]
  have "class_ok (unat c) (qpclass ! unat c)" "length qpclass = 256"
    using unat_byte_less [of c] by simp_all
  then show ?thesis using unat_byte_less [of c] by (simp add: lookup_def)
qed

lemma hex_digits:
  assumes "i < 16"
  shows "lookup qpbase i = Some (qpbase ! i)" "lookup qpunbase (unat (qpbase ! i)) = Some (of_nat i)"
    "qpbase ! i \<noteq> 13" "qpbase ! i \<noteq> 0"
proof -
  have "\<forall>i \<in> List.set [0..<16]. lookup qpbase i = Some (qpbase ! i)
    \<and> lookup qpunbase (unat (qpbase ! i)) = Some (of_nat i) \<and> qpbase ! i \<noteq> 13 \<and> qpbase ! i \<noteq> 0"
    by code_simp
  then show "lookup qpbase i = Some (qpbase ! i)" "lookup qpunbase (unat (qpbase ! i)) = Some (of_nat i)"
    "qpbase ! i \<noteq> 13" "qpbase ! i \<noteq> 0" using assms by simp_all
qed

lemma nibbles: "unat (drop_bit 4 (c::u8)) < 16" "unat (c AND 0x0F) < 16" "push_bit 4 (drop_bit 4 c) + (c AND 0x0F) = c"
proof -
  have "unat (drop_bit 4 c) = drop_bit 4 (take_bit 8 (unat c))" by (subst unsigned_drop_bit_eq) simp
  also have "\<dots> = unat c div 16" using unat_byte_less [of c] by (simp add: drop_bit_eq_div take_bit_nat_eq_self)
  finally have "unat (drop_bit 4 c) = unat c div 16" .
  then show "unat (drop_bit 4 c) < 16" using unat_byte_less [of c] by simp
  have "c AND 0x0F = take_bit 4 c" unfolding masks by (simp add: take_bit_eq_mask)
  then have "unat (c AND 0x0F) = take_bit 4 (unat c)" by (simp add: unsigned_take_bit_eq)
  then show "unat (c AND 0x0F) < 16" using take_bit_nat_less_exp [of 4 "unat c"] by simp
  have "push_bit 4 (drop_bit 4 c) + (c AND 0x0F) = push_bit 4 (drop_bit 4 c) OR (c AND 0x0F)"
    by (rule disjunctive_add_eq_or, rule bit_word_eqI) (auto simp: byte_bits)
  also have "\<dots> = c" by (rule bit_word_eqI, unfold len_8, drule less_8, elim disjE; simp add: byte_bits)
  finally show "push_bit 4 (drop_bit 4 c) + (c AND 0x0F) = c" .
qed

definition quoted :: "u8 \<Rightarrow> bytes" where
  "quoted c = [61, qpbase ! unat (drop_bit 4 c), qpbase ! unat (c AND 0x0F)]"

lemma qpquote_eq: "qpquote c buffer = Some (buffer @ quoted c)"
  using nibbles [of c] hex_digits(1) by (simp add: qpquote_def quoted_def)

subsection \<open>Pieces of output\<close>

text \<open>\<open>p\<close> contains no zero byte and decodes to \<open>bs\<close>.\<close>

definition decodes :: "bytes \<Rightarrow> bytes \<Rightarrow> bool" where
  "decodes p bs \<longleftrightarrow> 0 \<notin> List.set p \<and> (\<forall>out. fold_option qpdecode p ([], out) = Some ([], out @ bs))"

lemma decodes_Nil [simp]: "decodes [] []"
  by (simp add: decodes_def)

lemma decodes_append: "decodes p bs \<Longrightarrow> decodes q cs \<Longrightarrow> decodes (p @ q) (bs @ cs)"
  by (simp add: decodes_def fold_option_append)

lemma decodes_quoted: "decodes (quoted c) [c]"
proof -
  define hi where "hi = unat (drop_bit 4 c)"
  define lo where "lo = unat (c AND 0x0F)"
  have n: "hi < 16" "lo < 16" using nibbles(1,2) by (simp_all add: hi_def lo_def)
  have u: "(of_nat hi :: u8) = drop_bit 4 c" "(of_nat lo :: u8) = c AND 0x0F"
    unfolding hi_def lo_def by (simp_all only: of_nat_unat ucast_id)
  have "\<not> drop_bit 4 c > 15" "\<not> c AND 0x0F > 15" using nibbles(1,2) [of c] by (simp_all add: word_less_nat_alt)
  then have "fold_option qpdecode [61, qpbase ! hi, qpbase ! lo] ([], out) = Some ([], out @ [c])" for out
    using n hex_digits nibbles(3) [of c]
    by (simp add: qpdecode_def push_atom_def u)
  then show ?thesis using n hex_digits(4) by (simp add: decodes_def quoted_def hi_def [symmetric] lo_def [symmetric])
qed

lemma decodes_plain: "33 \<le> unat c \<and> unat c \<le> 126 \<and> unat c \<noteq> 61 \<or> unat c = 9 \<or> unat c = 32 \<Longrightarrow> decodes [c] [c]"
proof -
  assume c: "33 \<le> unat c \<and> unat c \<le> 126 \<and> unat c \<noteq> 61 \<or> unat c = 9 \<or> unat c = 32"
  then have "c \<noteq> 61" "c \<noteq> 13" "c \<noteq> 0" by auto
  moreover have "c = 9 \<or> (31 < c \<and> c < 127)"
    using c by (auto simp: word_less_nat_alt word_unat_eq_iff)
  ultimately show ?thesis by (simp add: decodes_def qpdecode_def push_atom_def)
qed

lemma decodes_CRLF: "decodes CRLF [13, 10]" "decodes EQCRLF []"
  by (simp_all add: decodes_def qpdecode_def push_atom_def CRLF_def EQCRLF_def)

subsection \<open>The encoder\<close>

text \<open>What may be held back: nothing, one byte, or a blank with the byte after it.\<close>

definition held :: "bytes \<Rightarrow> bool" where
  "held atom \<longleftrightarrow> length atom \<le> 2 \<and> (length atom = 2 \<longrightarrow> atom ! 0 = 9 \<or> atom ! 0 = 32)"

definition encodes :: "bytes \<Rightarrow> bytes \<Rightarrow> (bytes \<times> bytes) option \<Rightarrow> bool" where
  "encodes input buf r \<longleftrightarrow> (\<exists>atom p bs. r = Some (atom, buf @ p) \<and> decodes p bs \<and> input = bs @ atom \<and> held atom)"

lemma encodes_more:
  assumes "decodes q cs" "encodes input (buf @ q) r"
  shows "encodes (cs @ input) buf r"
proof -
  obtain atom p bs where "r = Some (atom, (buf @ q) @ p)" "decodes p bs" "input = bs @ atom" "held atom"
    using assms(2) by (auto simp: encodes_def)
  then show ?thesis
    using decodes_append [OF assms(1)] unfolding encodes_def
    by (intro exI [of _ atom] exI [of _ "q @ p"] exI [of _ "cs @ bs"]) simp
qed

lemma encodes_done: "decodes q cs \<Longrightarrow> encodes cs buf (Some ([], buf @ q))"
  unfolding encodes_def by (intro exI [of _ "[]"] exI [of _ q] exI [of _ cs]) (simp add: held_def)

lemma encodes_held: "held input \<Longrightarrow> encodes input buf (Some (input, buf))"
  unfolding encodes_def by (intro exI [of _ input] exI [of _ "[]"]) simp

lemma qpencode_loop_encodes:
  assumes "length input \<le> 3" "length input = 3 \<Longrightarrow> input ! 0 = 9 \<or> input ! 0 = 32"
  shows "encodes input buf (qpencode_loop CRLF input buf)"
  using assms
proof (induction input arbitrary: buf)
  case Nil
  show ?case using encodes_done [OF decodes_Nil, of buf] by simp
next
  case (Cons c rest)
  have ih: "encodes rest b (qpencode_loop CRLF rest b)" for b using Cons.prems by (intro Cons.IH) auto
  obtain cl where cl: "lookup qpclass (unat c) = Some cl" "class_ok (unat c) cl" using class_lookup by blast
  have q: "encodes (c # rest) buf (do { b \<leftarrow> qpquote c buf; qpencode_loop CRLF rest b })"
    using encodes_more [OF decodes_quoted ih] by (simp add: qpquote_eq)
  have e: "encodes (c # rest) buf (qpencode_loop CRLF rest (buf @ [c]))" if "decodes [c] [c]"
    using encodes_more [OF that ih] by simp
  have c: "c = word_of_nat (unat c)" by simp
  show ?case
  proof (cases cl)
    case QP_PLAIN
    then show ?thesis using cl e decodes_plain [of c] by (simp add: class_ok_def)
  next
    case QP_QUOTED
    then show ?thesis using cl q by simp
  next
    case QP_CR
    then have 13: "c = 13" using cl(2) by (subst c) (simp add: class_ok_def)
    show ?thesis
    proof (cases "rest = []")
      case True
      then show ?thesis using cl QP_CR encodes_held [of "[c]" buf] by (simp add: held_def)
    next
      case False
      show ?thesis
      proof (cases "rest ! 0 = 10")
        case True
        have "length rest \<noteq> 2" using Cons.prems(2) 13 by auto
        then have "length rest = 1" using Cons.prems(1) False by (cases rest; cases "tl rest") auto
        then have "c # rest = [13, 10]" using True 13 by (cases rest) auto
        then show ?thesis using cl QP_CR encodes_done [OF decodes_CRLF(1), of buf] by simp
      qed (use cl QP_CR q False in simp)
    qed
  next
    case QP_IF_LAST
    then have c932: "unat c = 9 \<or> unat c = 32" using cl(2) by (simp add: class_ok_def)
    then have w: "c = 9 \<or> c = 32" by (auto simp: word_unat_eq_iff)
    show ?thesis
    proof (cases "length (c # rest) < 3")
      case True
      then show ?thesis using cl QP_IF_LAST encodes_held [of "c # rest" buf] w by (simp add: held_def)
    next
      case False
      then obtain x y where r: "rest = [x, y]"
        using Cons.prems(1) by (cases rest; cases "tl rest") auto
      show ?thesis
      proof (cases "x = 13 \<and> y = 10")
        case True
        then show ?thesis
          using cl QP_IF_LAST r encodes_done [OF decodes_append [OF decodes_quoted decodes_CRLF(1)], of c buf]
          by (simp add: qpquote_eq)
      qed (use cl QP_IF_LAST r e decodes_plain c932 in \<open>simp del: qpencode_loop.simps(2) add: qpencode_loop.simps(2) [of _ c], blast\<close>)
    qed
  qed
qed

lemma qpencode_encodes: "held atom \<Longrightarrow> encodes (atom @ [c]) buf (qpencode CRLF c (atom, buf))"
  using qpencode_loop_encodes [of "atom @ [c]" buf]
  by (auto simp: qpencode_def push_atom_def held_def nth_append)

lemma qp_fold:
  "held atom \<Longrightarrow> encodes (atom @ s) buf (fold_option (qpencode CRLF) s (atom, buf))"
proof (induction s arbitrary: atom buf)
  case (Cons c s)
  obtain atom1 p bs where 1: "qpencode CRLF c (atom, buf) = Some (atom1, buf @ p)" "decodes p bs"
    "atom @ [c] = bs @ atom1" "held atom1"
    using qpencode_encodes [OF Cons.prems, of c buf] by (auto simp: encodes_def)
  have "encodes (bs @ (atom1 @ s)) buf (fold_option (qpencode CRLF) s (atom1, buf @ p))"
    using encodes_more [OF 1(2) Cons.IH [OF 1(4)]] .
  moreover have "atom @ c # s = bs @ (atom1 @ s)" using 1(3) by (metis append.assoc append_Cons append_Nil)
  moreover have "fold_option (qpencode CRLF) (c # s) (atom, buf) = fold_option (qpencode CRLF) s (atom1, buf @ p)"
    by (simp only: fold_option.simps 1(1) Option.bind.bind_lunit)
  ultimately show ?case by metis
qed (simp add: encodes_held)

lemma qppad_decodes: "\<exists>p. qppad atom buf = Some (buf @ p) \<and> decodes p atom"
proof -
  have "\<exists>p. qppad_loop atom buf = Some (buf @ p) \<and> decodes p atom" for buf
  proof (induction atom arbitrary: buf)
    case (Cons c atom)
    obtain cl where cl: "lookup qpclass (unat c) = Some cl" "class_ok (unat c) cl" using class_lookup by blast
    define q where "q = (if cl = QP_PLAIN then [c] else quoted c)"
    have q: "decodes q [c]" using cl(2) decodes_quoted decodes_plain [of c]
      by (cases cl) (simp_all add: q_def class_ok_def)
    obtain p where "qppad_loop atom (buf @ q) = Some ((buf @ q) @ p)" "decodes p atom"
      using Cons.IH by blast
    then show ?case
      using cl(1) decodes_append [OF q, of p atom] by (intro exI [of _ "q @ p"]) (cases "cl = QP_PLAIN"; simp add: q_def qpquote_eq)
  qed simp
  then obtain p where p: "qppad_loop atom buf = Some (buf @ p)" "decodes p atom" by blast
  then show ?thesis
    using decodes_append [OF p(2) decodes_CRLF(2)]
    by (intro exI [of _ "if atom = [] then p else p @ EQCRLF"]) (auto simp: qppad_def)
qed

lemma qp_whole: "\<exists>e. mime_global_qp (Some s) None CRLF = Some (finish_c_str e) \<and> decodes e s"
proof -
  obtain atom p bs where 1: "fold_option (qpencode CRLF) s ([], []) = Some (atom, p)" "decodes p bs" "s = bs @ atom"
    using qp_fold [of "[]" s "[]"] by (auto simp: encodes_def held_def)
  obtain q where "qppad atom p = Some (p @ q)" "decodes q atom" using qppad_decodes by blast
  then show ?thesis
    using 1 decodes_append [OF 1(2)] by (intro exI [of _ "p @ q"]) (simp add: mime_global_qp_def)
qed

text \<open>C14: Round trip: decoding the quoted-printable encoding gives a non-empty string back, if it does
  not start with a zero byte.\<close>

theorem qp_roundtrip:
  assumes "s \<noteq> []" "s ! 0 \<noteq> 0"
  shows "\<exists>e. mime_global_qp (Some s) None CRLF = Some (Some e, None)
    \<and> mime_global_unqp (Some e) None = Some (Some s, None)"
proof -
  obtain e where e: "mime_global_qp (Some s) None CRLF = Some (finish_c_str e)" "decodes e s"
    using qp_whole by blast
  have d: "fold_option qpdecode e ([], []) = Some ([], s)" using e(2) by (simp add: decodes_def)
  then have "e \<noteq> []" using assms(1) by auto
  then have "e ! 0 \<in> List.set e" by simp
  then have "e ! 0 \<noteq> 0" using e(2) by (metis decodes_def)
  then show ?thesis
    using e(1) d assms \<open>e \<noteq> []\<close> by (simp add: finish_c_str_def mime_global_unqp_def)
qed

theorem qp_roundtrip_witness:
  "\<exists>e. mime_global_qp (Some [97, 61, 98, 32, 13, 10, 200]) None CRLF = Some (Some e, None)
    \<and> mime_global_unqp (Some e) None = Some (Some [97, 61, 98, 32, 13, 10, 200], None)"
  by (rule qp_roundtrip) simp_all

text \<open>The decoder loses data: a message whose decoded text starts with a zero byte is returned as
  \<open>nil\<close>, as if it were empty, because the end of the filter tests the result as a C string.\<close>

lemma unqp_loses_leading_zero:
  "mime_global_qp (Some [0, 65]) None CRLF = Some (Some (map byte ''=00A''), None)
   \<and> mime_global_unqp (Some (map byte ''=00A'')) None = Some (None, None)"
  by code_simp

end
