(* ===== verification/Mime_Safety.thy ===== *)
theory Mime_Safety
  imports Mime_QP
begin

section \<open>The filters stay inside their atoms and tables\<close>

text \<open>
  For each of the four filters that keep an atom: whatever the two input chunks are, no step writes
  outside of the atom array or reads outside of a table, and what is handed back as the start of the
  next call fits in front of at least one more byte.
\<close>

lemma length_tables: "length qpclass = 256" "length qpunbase = 256" "length b64unbase = 256" "length b64base = 64"
  by code_simp+

lemma lookup_byte:
  "\<exists>x. lookup b64unbase (unat (c::u8)) = Some x" "\<exists>x. lookup qpunbase (unat c) = Some x" "\<exists>x. lookup qpclass (unat c) = Some x"
  using unat_byte_less [of c] by (simp_all add: lookup_def length_tables)

text \<open>A state with an atom of at most \<open>n\<close> bytes.\<close>

definition held_at_most :: "nat \<Rightarrow> bytes \<times> bytes \<Rightarrow> bool" where
  "held_at_most n st \<longleftrightarrow> length (fst st) \<le> n"

lemma b64decode_step: "held_at_most 3 st \<Longrightarrow> \<exists>st'. b64decode c st = Some st' \<and> held_at_most 3 st'"
proof -
  assume st: "held_at_most 3 st"
  obtain u where u: "lookup b64unbase (unat c) = Some u" using lookup_byte by blast
  show ?thesis
  proof (cases "u > 64")
    case True
    then show ?thesis using st u by (simp add: b64decode_def)
  next
    case False
    define input where "input = fst st @ [c]"
    have p: "push_atom 4 (fst st) c = Some input" using st by (simp add: push_atom_def held_at_most_def input_def)
    obtain u0 u1 u2 u3 where
      "lookup b64unbase (unat (input ! 0)) = Some u0" "lookup b64unbase (unat (input ! 1)) = Some u1"
      "lookup b64unbase (unat (input ! 2)) = Some u2" "lookup b64unbase (unat (input ! 3)) = Some u3"
      using lookup_byte(1) by metis
    then show ?thesis using False u p st
      by (cases "length input = 4") (simp_all add: b64decode_def Let_def held_at_most_def input_def)
  qed
qed

lemma qpencode_loop_total: "\<exists>st'. qpencode_loop marker input buf = Some st' \<and> held_at_most 2 st'"
proof (induction input arbitrary: buf)
  case (Cons c rest)
  obtain cl where "lookup qpclass (unat c) = Some cl" using lookup_byte by blast
  then show ?case using Cons.IH by (cases cl) (auto simp: qpquote_eq held_at_most_def)
qed (simp add: held_at_most_def)

lemma qpencode_step: "held_at_most 2 st \<Longrightarrow> \<exists>st'. qpencode marker c st = Some st' \<and> held_at_most 2 st'"
  using qpencode_loop_total by (simp add: qpencode_def push_atom_def held_at_most_def)

lemma qpdecode_step: "held_at_most 2 st \<Longrightarrow> \<exists>st'. qpdecode c st = Some st' \<and> held_at_most 2 st'"
proof -
  assume st: "held_at_most 2 st"
  define input where "input = fst st @ [c]"
  have p: "push_atom 3 (fst st) c = Some input" using st by (simp add: push_atom_def held_at_most_def input_def)
  obtain h l where "lookup qpunbase (unat (input ! 1)) = Some h" "lookup qpunbase (unat (input ! 2)) = Some l"
    using lookup_byte(2) by metis
  then show ?thesis using p by (simp add: qpdecode_def Let_def held_at_most_def)
qed

lemma b64encode_step: "held_at_most 2 st \<Longrightarrow> \<exists>st'. b64encode c st = Some st' \<and> held_at_most 2 st'"
proof -
  assume st: "held_at_most 2 st"
  show ?thesis
  proof (cases "length (fst st) = 2")
    case True
    then obtain a b where "fst st = [a, b]" by (auto simp: length_Suc_conv numeral_2_eq_2)
    then show ?thesis using pack_less(1) [of a b c] and_63_less
      by (simp add: b64encode_def push_atom_def b64_tables(1) pack3_def [symmetric] Let_def held_at_most_def)
  qed (use st in \<open>simp add: b64encode_def push_atom_def held_at_most_def\<close>)
qed

lemma b64pad_total: "\<exists>b. b64pad input buffer = Some b"
  unfolding b64pad_def pack2_def [symmetric]
  using pack_less(2,3) and_63_less by (simp add: b64_tables(1) Let_def)

subsection \<open>Whole filters\<close>

text \<open>The atom that is handed back.\<close>

definition rest_at_most :: "nat \<Rightarrow> (bytes option \<times> bytes option) option \<Rightarrow> bool" where
  "rest_at_most n r = (case r of None \<Rightarrow> False | Some (_, None) \<Rightarrow> True | Some (_, Some atom) \<Rightarrow> length atom \<le> n)"

lemma two_chunks:
  assumes step: "\<And>c st. held_at_most n st \<Longrightarrow> \<exists>st'. f c st = Some st' \<and> held_at_most n st'"
    and final: "\<And>atom buffer. rest_at_most n (fin atom buffer)"
  shows "rest_at_most n (do { (atom, buffer) \<leftarrow> fold_option f input ([], []);
    case d of None \<Rightarrow> fin atom buffer
    | Some input2 \<Rightarrow> do { (atom, buffer) \<leftarrow> fold_option f input2 (atom, buffer); Some (Some buffer, Some atom) } })"
proof -
  have run: "\<exists>a b. fold_option f xs st = Some (a, b) \<and> held_at_most n (a, b)" if "held_at_most n st" for xs st
    using fold_option_invariant [of "held_at_most n" f st xs, OF step that] by fastforce
  obtain a b where 1: "fold_option f input ([], []) = Some (a, b)" "held_at_most n (a, b)"
    using run [of "([], [])" input] by (auto simp: held_at_most_def)
  show ?thesis
  proof (cases d)
    case (Some input2)
    then show ?thesis using 1(1) run [OF 1(2), of input2] by (auto simp: rest_at_most_def held_at_most_def)
  qed (simp add: 1(1) final)
qed

text \<open>C15: No filter ever leaves its atom array or its tables: for all chunks (and every line marker) the
  four filters return, and what they hand back for the next call fits the atom with room for a byte.\<close>

theorem filters_stay_inside:
  "rest_at_most 2 (mime_global_b64 c d) \<and> rest_at_most 3 (mime_global_unb64 c d)
   \<and> rest_at_most 2 (mime_global_qp c d marker) \<and> rest_at_most 2 (mime_global_unqp c d)"
proof (intro conjI; cases c)
  fix input assume c: "c = Some input"
  have pad: "rest_at_most 2 (map_option finish_size (b64pad atom buffer))" for atom buffer
    using b64pad_total [of atom buffer] by (auto simp: rest_at_most_def finish_size_def)
  show "rest_at_most 2 (mime_global_b64 c d)"
    unfolding mime_global_b64_def c option.case
    by (rule two_chunks [OF b64encode_step pad])
  show "rest_at_most 3 (mime_global_unb64 c d)"
    unfolding mime_global_unb64_def c option.case
    by (rule two_chunks [OF b64decode_step]) (simp_all add: rest_at_most_def finish_size_def)
  have qpad: "rest_at_most 2 (map_option finish_c_str (qppad atom buffer))" for atom buffer
    using qppad_decodes [of atom buffer] by (auto simp: rest_at_most_def finish_c_str_def)
  show "rest_at_most 2 (mime_global_qp c d marker)"
    unfolding mime_global_qp_def c option.case
    by (rule two_chunks [OF qpencode_step qpad])
  show "rest_at_most 2 (mime_global_unqp c d)"
    unfolding mime_global_unqp_def c option.case
    by (rule two_chunks [OF qpdecode_step]) (simp_all add: rest_at_most_def finish_c_str_def)
qed (simp_all add: rest_at_most_def mime_global_b64_def mime_global_unb64_def mime_global_qp_def mime_global_unqp_def)

end
