(* ===== verification/Sys_Calls.thy ===== *)
theory Sys_Calls
  imports Complex_Main Mime
begin

section \<open>System calls as a transcript\<close>

text \<open>
  The socket code is a client of the operating system. A \<open>world\<close> holds the answers the system is
  going to give and the transcript of the calls made so far with their answers; making a call takes
  the next answer. An answer that the call cannot have (another kind of result, more bytes than were
  asked for, a failure without an error number) and an exhausted list of answers are \<open>None\<close>: a
  theorem about all worlds is a theorem about every behaviour of the system, interrupted calls and
  partial transfers included. Error numbers are the ones of Linux.
\<close>

subsection \<open>Error numbers and constants\<close>

definition EINTR :: int where "EINTR = 4"
definition EAGAIN :: int where "EAGAIN = 11"
definition EACCES :: int where "EACCES = 13"
definition EPIPE :: int where "EPIPE = 32"
definition EPROTOTYPE :: int where "EPROTOTYPE = 91"
definition EADDRINUSE :: int where "EADDRINUSE = 98"
definition ECONNABORTED :: int where "ECONNABORTED = 103"
definition ECONNRESET :: int where "ECONNRESET = 104"
definition EISCONN :: int where "EISCONN = 106"
definition ETIMEDOUT :: int where "ETIMEDOUT = 110"
definition ECONNREFUSED :: int where "ECONNREFUSED = 111"
definition EINPROGRESS :: int where "EINPROGRESS = 115"

definition POLLIN :: int where "POLLIN = 1"
definition POLLOUT :: int where "POLLOUT = 4"
definition POLLERR :: int where "POLLERR = 8"
definition O_NONBLOCK :: int where "O_NONBLOCK = 2048"

lemmas errno_defs = EINTR_def EAGAIN_def EACCES_def EPIPE_def EPROTOTYPE_def EADDRINUSE_def
  ECONNABORTED_def ECONNRESET_def EISCONN_def ETIMEDOUT_def ECONNREFUSED_def EINPROGRESS_def

subsection \<open>Calls and answers\<close>

text \<open>Addresses are opaque bytes.\<close>

datatype sys_call =
    Gettimeofday
  | Nanosleep int int
  | Poll int int int
  | Select int "int set" "int set" "(int \<times> int) option"
  | Send int bytes
  | Sendto int bytes bytes
  | Write int bytes
  | Recv int nat
  | Recvfrom int nat
  | Read int nat
  | Socket int int int
  | Bind int bytes
  | Listen int int
  | Shutdown int int
  | Connect int bytes
  | Accept int
  | Close int
  | Getfl int
  | Setfl int int
  | Ignore_sigpipe
  | Setsockopt int int int "int list"
  | Getsockopt int int int nat
  | Getaddrinfo "string option" "string option" int int int
  | Getnameinfo bytes bool bool int
  | Getpeername int
  | Getsockname int
  | Gethostname

text \<open>The fields of \<open>struct addrinfo\<close> that are read.\<close>

record addrinfo =
  ai_family :: int
  ai_socktype :: int
  ai_protocol :: int
  ai_addr :: bytes

datatype answer =
    Time int int
  | Remaining int int
  | Revents int
  | Put nat
  | Took bytes
  | Fd int
  | Flags int
  | Success
  | Fail int
  | Ready int "int set" "int set"
  | Resolved "addrinfo list"
  | Eai int int
  | Names string string
  | Address bytes
  | Option "int list"

definition fits :: "sys_call \<Rightarrow> answer \<Rightarrow> bool" where
  "fits c a =
     (case c of
        Gettimeofday \<Rightarrow> (case a of Time s us \<Rightarrow> 0 \<le> us \<and> us < 1000000 | _ \<Rightarrow> False)
      | Nanosleep s n \<Rightarrow> (case a of Success \<Rightarrow> True | Remaining s' n' \<Rightarrow> True | _ \<Rightarrow> False)
      | Poll fd events t \<Rightarrow> (case a of Revents r \<Rightarrow> True | Fail e \<Rightarrow> e > 0 | _ \<Rightarrow> False)
      | Select n r s t \<Rightarrow> (case a of Ready k r' s' \<Rightarrow> r' \<subseteq> r \<and> s' \<subseteq> s \<and> k = int (card r' + card s')
                                | Fail e \<Rightarrow> e > 0 | _ \<Rightarrow> False)
      | Send fd d \<Rightarrow> (case a of Put n \<Rightarrow> n \<le> length d | Fail e \<Rightarrow> e > 0 | _ \<Rightarrow> False)
      | Sendto fd d addr \<Rightarrow> (case a of Put n \<Rightarrow> n \<le> length d | Fail e \<Rightarrow> e > 0 | _ \<Rightarrow> False)
      | Write fd d \<Rightarrow> (case a of Put n \<Rightarrow> n \<le> length d | Fail e \<Rightarrow> e > 0 | _ \<Rightarrow> False)
      | Recv fd n \<Rightarrow> (case a of Took bs \<Rightarrow> length bs \<le> n | Fail e \<Rightarrow> e > 0 | _ \<Rightarrow> False)
      | Recvfrom fd n \<Rightarrow> (case a of Took bs \<Rightarrow> length bs \<le> n | Fail e \<Rightarrow> e > 0 | _ \<Rightarrow> False)
      | Read fd n \<Rightarrow> (case a of Took bs \<Rightarrow> length bs \<le> n | Fail e \<Rightarrow> e > 0 | _ \<Rightarrow> False)
      | Socket d t p \<Rightarrow> (case a of Fd fd \<Rightarrow> fd \<ge> 0 | Fail e \<Rightarrow> e > 0 | _ \<Rightarrow> False)
      | Accept fd \<Rightarrow> (case a of Fd fd' \<Rightarrow> fd' \<ge> 0 | Fail e \<Rightarrow> e > 0 | _ \<Rightarrow> False)
      | Getfl fd \<Rightarrow> (case a of Flags fl \<Rightarrow> True | Fail e \<Rightarrow> e > 0 | _ \<Rightarrow> False)
      | Ignore_sigpipe \<Rightarrow> a = Success
      | Getsockopt fd l n k \<Rightarrow> (case a of Option vs \<Rightarrow> length vs = k | Fail e \<Rightarrow> e > 0 | _ \<Rightarrow> False)
      | Getaddrinfo h s f t fl \<Rightarrow> (case a of Resolved ais \<Rightarrow> ais \<noteq> [] | Eai e errno \<Rightarrow> e \<noteq> 0 | _ \<Rightarrow> False)
      | Getnameinfo addr h s fl \<Rightarrow> (case a of Names host serv \<Rightarrow> True | Eai e errno \<Rightarrow> e \<noteq> 0 | _ \<Rightarrow> False)
      | Getpeername fd \<Rightarrow> (case a of Address addr \<Rightarrow> True | Fail e \<Rightarrow> e > 0 | _ \<Rightarrow> False)
      | Getsockname fd \<Rightarrow> (case a of Address addr \<Rightarrow> True | Fail e \<Rightarrow> e > 0 | _ \<Rightarrow> False)
      | Gethostname \<Rightarrow> (case a of Names host serv \<Rightarrow> True | Fail e \<Rightarrow> e > 0 | _ \<Rightarrow> False)
      | _ \<Rightarrow> (case a of Success \<Rightarrow> True | Fail e \<Rightarrow> e > 0 | _ \<Rightarrow> False))"

record world =
  answers :: "answer list"
  transcript :: "(sys_call \<times> answer) list"

definition ask :: "sys_call \<Rightarrow> world \<Rightarrow> (answer \<times> world) option" where
  "ask c w =
     (case answers w of
        [] \<Rightarrow> None
      | a # as \<Rightarrow> if fits c a then Some (a, w\<lparr>answers := as, transcript := transcript w @ [(c, a)]\<rparr>) else None)"

lemma bind_SomeE:
  assumes "(do { x \<leftarrow> m; f x }) = Some y"
  obtains x where "m = Some x" "f x = Some y"
  using assms by (cases m) auto

text \<open>How many answers are left: the measure of every retry loop.\<close>

definition left :: "world \<Rightarrow> nat" where
  "left w = length (answers w)"

lemma ask_left: "ask c w = Some (a, w') \<Longrightarrow> left w' < left w"
  by (auto simp: ask_def left_def split: list.splits if_splits)

subsection \<open>What was transferred\<close>

text \<open>The bytes a socket has delivered and accepted, read off the transcript.\<close>

definition took :: "int \<Rightarrow> sys_call \<times> answer \<Rightarrow> bytes" where
  "took fd = (\<lambda>(c, a).
     case a of
       Took bs \<Rightarrow>
         (case c of
            Recv fd' n \<Rightarrow> if fd' = fd then bs else []
          | Recvfrom fd' n \<Rightarrow> if fd' = fd then bs else []
          | Read fd' n \<Rightarrow> if fd' = fd then bs else []
          | _ \<Rightarrow> [])
     | _ \<Rightarrow> [])"

definition put :: "int \<Rightarrow> sys_call \<times> answer \<Rightarrow> bytes" where
  "put fd = (\<lambda>(c, a).
     case a of
       Put n \<Rightarrow>
         (case c of
            Send fd' d \<Rightarrow> if fd' = fd then take n d else []
          | Sendto fd' d addr \<Rightarrow> if fd' = fd then take n d else []
          | Write fd' d \<Rightarrow> if fd' = fd then take n d else []
          | _ \<Rightarrow> [])
     | _ \<Rightarrow> [])"

definition taken :: "int \<Rightarrow> world \<Rightarrow> bytes" where
  "taken fd w = concat (map (took fd) (transcript w))"

definition written :: "int \<Rightarrow> world \<Rightarrow> bytes" where
  "written fd w = concat (map (put fd) (transcript w))"

lemma ask_transfer:
  assumes "ask c w = Some (a, w')"
  shows "fits c a" "taken fd w' = taken fd w @ took fd (c, a)" "written fd w' = written fd w @ put fd (c, a)"
  using assms by (auto simp: ask_def taken_def written_def split: list.splits if_splits)

subsection \<open>From double to int\<close>

text \<open>\<open>(int) x\<close> cuts the fraction off; a value outside of \<open>int\<close> is undefined behaviour.\<close>

definition trunc :: "real \<Rightarrow> int" where
  "trunc x = (if x < 0 then - \<lfloor>- x\<rfloor> else \<lfloor>x\<rfloor>)"

definition c_int :: "real \<Rightarrow> int option" where
  "c_int x = (if - 2147483648 \<le> trunc x \<and> trunc x \<le> 2147483647 then Some (trunc x) else None)"

end
