(* ===== verification/Timeout.thy ===== *)
theory Timeout
  imports Sys_Calls
begin

section \<open>Timeouts (luasocket, timeout.c)\<close>

text \<open>
  A \<open>double\<close> is a real number: rounding and NaN are not modelled. Reading the clock is a system
  call. A negative \<open>block\<close> or \<open>total\<close> means that there is no such limit.
\<close>

record t_timeout =
  tm_block :: real
  tm_total :: real
  tm_start :: real

definition timeout_iszero :: "t_timeout \<Rightarrow> bool" where
  "timeout_iszero tm \<longleftrightarrow> tm_block tm = 0"

definition timeout_init :: "t_timeout \<Rightarrow> real \<Rightarrow> real \<Rightarrow> t_timeout" where
  "timeout_init tm b t = tm\<lparr>tm_block := b, tm_total := t\<rparr>"

definition timeout_gettime :: "world \<Rightarrow> (real \<times> world) option" where
  "timeout_gettime w =
     do { (a, w) \<leftarrow> ask Gettimeofday w;
          case a of Time s us \<Rightarrow> Some (of_int s + of_int us / 1000000, w) | _ \<Rightarrow> None }"

text \<open>The macros of the source.\<close>

definition MAX_double :: "real \<Rightarrow> real \<Rightarrow> real" where
  "MAX_double x y = (if x > y then x else y)"

definition MIN_double :: "real \<Rightarrow> real \<Rightarrow> real" where
  "MIN_double x y = (if x < y then x else y)"

definition timeout_get :: "t_timeout \<Rightarrow> world \<Rightarrow> (real \<times> world) option" where
  "timeout_get tm w =
     (if tm_block tm < 0 \<and> tm_total tm < 0 then Some (- 1, w)
      else if tm_block tm < 0 then
        do { (now, w) \<leftarrow> timeout_gettime w;
             let t = tm_total tm - now + tm_start tm; Some (MAX_double t 0, w) }
      else if tm_total tm < 0 then Some (tm_block tm, w)
      else
        do { (now, w) \<leftarrow> timeout_gettime w;
             let t = tm_total tm - now + tm_start tm; Some (MIN_double (tm_block tm) (MAX_double t 0), w) })"

definition timeout_getstart :: "t_timeout \<Rightarrow> real" where
  "timeout_getstart tm = tm_start tm"

definition timeout_getretry :: "t_timeout \<Rightarrow> world \<Rightarrow> (real \<times> world) option" where
  "timeout_getretry tm w =
     (if tm_block tm < 0 \<and> tm_total tm < 0 then Some (- 1, w)
      else if tm_block tm < 0 then
        do { (now, w) \<leftarrow> timeout_gettime w;
             let t = tm_total tm - now + tm_start tm; Some (MAX_double t 0, w) }
      else if tm_total tm < 0 then
        do { (now, w) \<leftarrow> timeout_gettime w;
             let t = tm_block tm - now + tm_start tm; Some (MAX_double t 0, w) }
      else
        do { (now, w) \<leftarrow> timeout_gettime w;
             let t = tm_total tm - now + tm_start tm; Some (MIN_double (tm_block tm) (MAX_double t 0), w) })"

definition timeout_markstart :: "t_timeout \<Rightarrow> world \<Rightarrow> (t_timeout \<times> world) option" where
  "timeout_markstart tm w =
     do { (now, w) \<leftarrow> timeout_gettime w; Some (tm\<lparr>tm_start := now\<rparr>, w) }"

text \<open>The methods of Lua objects. An argument error is \<open>Inl\<close>; \<open>1\<close> is returned otherwise.\<close>

definition timeout_meth_settimeout :: "real option \<Rightarrow> string option \<Rightarrow> t_timeout \<Rightarrow> string + t_timeout" where
  "timeout_meth_settimeout arg2 arg3 tm =
     (let t = (case arg2 of None \<Rightarrow> - 1 | Some x \<Rightarrow> x);
          mode = (case arg3 of None \<Rightarrow> ''b'' | Some s \<Rightarrow> s);
          c = (case mode of [] \<Rightarrow> CHR 0x00 | c # _ \<Rightarrow> c) in
      if c = CHR ''b'' then Inr (tm\<lparr>tm_block := t\<rparr>)
      else if c = CHR ''r'' \<or> c = CHR ''t'' then Inr (tm\<lparr>tm_total := t\<rparr>)
      else Inl ''invalid timeout mode'')"

definition timeout_meth_gettimeout :: "t_timeout \<Rightarrow> real \<times> real" where
  "timeout_meth_gettimeout tm = (tm_block tm, tm_total tm)"

definition timeout_lua_gettime :: "world \<Rightarrow> (real \<times> world) option" where
  "timeout_lua_gettime w = timeout_gettime w"

text \<open>Sleeping: \<open>nanosleep\<close> is called again with what remains of the time.\<close>

function sleep_loop :: "int \<Rightarrow> int \<Rightarrow> world \<Rightarrow> world option" where
  "sleep_loop tv_sec tv_nsec w =
     do { (a, w') \<leftarrow> ask (Nanosleep tv_sec tv_nsec) w;
          case a of Success \<Rightarrow> Some w' | Remaining s n \<Rightarrow> sleep_loop s n w' | _ \<Rightarrow> None }"
  by pat_completeness auto
termination by (relation "measure (\<lambda>(s, n, w). left w)") (auto dest: ask_left)

declare sleep_loop.simps [simp del]

text \<open>The two fields of the \<open>timespec\<close>.\<close>

definition sleep_time :: "real \<Rightarrow> (int \<times> int) option" where
  "sleep_time n =
     (let n = (if n < 0 then 0 else n);
          n = (if n > 2147483647 then 2147483647 else n) in
      do { tv_sec \<leftarrow> c_int n;
           let n = n - of_int tv_sec;
           tv_nsec \<leftarrow> c_int (n * 1000000000);
           Some (tv_sec, if tv_nsec \<ge> 1000000000 then 999999999 else tv_nsec) })"

definition timeout_lua_sleep :: "real \<Rightarrow> world \<Rightarrow> world option" where
  "timeout_lua_sleep n w = do { (tv_sec, tv_nsec) \<leftarrow> sleep_time n; sleep_loop tv_sec tv_nsec w }"

end
