(* ===== verification/Usocket.thy ===== *)
theory Usocket
  imports Timeout
begin

section \<open>Sockets (luasocket, io.c and usocket.c)\<close>

text \<open>
  The Unix socket functions, in the build with \<open>poll\<close>. A \<open>p_socket\<close> is the descriptor it points
  to; a function that changes it returns the new one. Every \<open>for (;;)\<close> and \<open>do ... while\<close> loop is a
  recursion that ends because each round takes an answer of the system. The transfer loops of
  \<open>send\<close>, \<open>sendto\<close> and \<open>write\<close> (and of \<open>recv\<close>, \<open>recvfrom\<close> and \<open>read\<close>) are the same text around
  another system call.
\<close>

subsection \<open>IO codes\<close>

definition IO_DONE :: int where "IO_DONE = 0"
definition IO_TIMEOUT :: int where "IO_TIMEOUT = - 1"
definition IO_CLOSED :: int where "IO_CLOSED = - 2"
definition IO_UNKNOWN :: int where "IO_UNKNOWN = - 3"

lemmas io_defs = IO_DONE_def IO_TIMEOUT_def IO_CLOSED_def IO_UNKNOWN_def

definition io_strerror :: "int \<Rightarrow> string option" where
  "io_strerror err =
     (if err = IO_DONE then None
      else if err = IO_CLOSED then Some ''closed''
      else if err = IO_TIMEOUT then Some ''timeout''
      else Some ''unknown error'')"

subsection \<open>Waiting\<close>

definition SOCKET_INVALID :: int where "SOCKET_INVALID = - 1"

definition WAITFD_R :: int where "WAITFD_R = POLLIN"
definition WAITFD_W :: int where "WAITFD_W = POLLOUT"
definition WAITFD_C :: int where "WAITFD_C = (POLLIN OR POLLOUT)"

lemma timeout_gettime_left: "timeout_gettime w = Some (t, w') \<Longrightarrow> left w' < left w"
proof -
  assume "timeout_gettime w = Some (t, w')"
  then obtain a w1 where a: "ask Gettimeofday w = Some (a, w1)"
    "(case a of Time s us \<Rightarrow> Some (of_int s + of_int us / 1000000, w1) | _ \<Rightarrow> None) = Some (t, w')"
    unfolding timeout_gettime_def by (auto elim!: bind_SomeE)
  then show ?thesis by (cases a) (auto dest: ask_left)
qed

lemma timeout_getretry_left: "timeout_getretry tm w = Some (t, w') \<Longrightarrow> left w' \<le> left w"
  unfolding timeout_getretry_def Let_def
  by (auto split: if_splits elim!: bind_SomeE dest!: timeout_gettime_left)

function waitfd_loop :: "int \<Rightarrow> int \<Rightarrow> t_timeout \<Rightarrow> world \<Rightarrow> (int \<times> world) option" where
  "waitfd_loop ps sw tm w =
     do { (retry, w1) \<leftarrow> timeout_getretry tm w;
          t \<leftarrow> c_int (retry * 1000);
          (a, w2) \<leftarrow> ask (Poll ps sw (if t \<ge> 0 then t else - 1)) w1;
          case a of
            Fail errno \<Rightarrow> if errno = EINTR then waitfd_loop ps sw tm w2 else Some (errno, w2)
          | Revents r \<Rightarrow>
              if r = 0 then Some (IO_TIMEOUT, w2)
              else if sw = WAITFD_C \<and> (r AND (POLLIN OR POLLERR)) \<noteq> 0 then Some (IO_CLOSED, w2)
              else Some (IO_DONE, w2)
          | _ \<Rightarrow> None }"
  by pat_completeness auto
termination by (relation "measure (\<lambda>(ps, sw, tm, w). left w)") (auto dest!: ask_left timeout_getretry_left)

declare waitfd_loop.simps [simp del]

definition socket_waitfd :: "int \<Rightarrow> int \<Rightarrow> t_timeout \<Rightarrow> world \<Rightarrow> (int \<times> world) option" where
  "socket_waitfd ps sw tm w = (if timeout_iszero tm then Some (IO_TIMEOUT, w) else waitfd_loop ps sw tm w)"

lemma waitfd_loop_left: "waitfd_loop ps sw tm w = Some (e, w') \<Longrightarrow> left w' < left w"
proof (induction ps sw tm w rule: waitfd_loop.induct)
  case (1 ps sw tm w)
  obtain retry w1 t a w2 where r: "timeout_getretry tm w = Some (retry, w1)" "c_int (retry * 1000) = Some t"
    "ask (Poll ps sw (if t \<ge> 0 then t else - 1)) w1 = Some (a, w2)"
    and c: "(case a of
        Fail errno \<Rightarrow> if errno = EINTR then waitfd_loop ps sw tm w2 else Some (errno, w2)
      | Revents r \<Rightarrow>
          if r = 0 then Some (IO_TIMEOUT, w2)
          else if sw = WAITFD_C \<and> (r AND (POLLIN OR POLLERR)) \<noteq> 0 then Some (IO_CLOSED, w2)
          else Some (IO_DONE, w2)
      | _ \<Rightarrow> None) = Some (e, w')"
    using "1.prems" by (subst (asm) waitfd_loop.simps) (auto elim!: bind_SomeE)
  have l: "left w2 < left w" using timeout_getretry_left [OF r(1)] ask_left [OF r(3)] by simp
  show ?case
  proof (cases a)
    case (Fail errno)
    then show ?thesis using "1.IH" [OF r(1) refl r(2) r(3) refl] c l by (auto split: if_splits)
  qed (use c l in \<open>auto split: if_splits\<close>)
qed

lemma socket_waitfd_left: "socket_waitfd ps sw tm w = Some (e, w') \<Longrightarrow> left w' \<le> left w"
  by (auto simp: socket_waitfd_def split: if_splits dest!: waitfd_loop_left)

text \<open>\<open>select\<close> with a timeout: what it returns, and the two sets of descriptors after it. A call that
  fails leaves the sets alone; the third set is always null.\<close>

function socket_select ::
    "int \<Rightarrow> int set \<Rightarrow> int set \<Rightarrow> t_timeout \<Rightarrow> world \<Rightarrow> (int \<times> int set \<times> int set \<times> world) option" where
  "socket_select n rfds wfds tm w =
     do { (t, w1) \<leftarrow> timeout_getretry tm w;
          tv_sec \<leftarrow> c_int t;
          tv_usec \<leftarrow> c_int ((t - of_int tv_sec) * 1000000);
          (a, w2) \<leftarrow> ask (Select n rfds wfds (if t \<ge> 0 then Some (tv_sec, tv_usec) else None)) w1;
          case a of
            Fail errno \<Rightarrow> if errno = EINTR then socket_select n rfds wfds tm w2 else Some (- 1, rfds, wfds, w2)
          | Ready k r s \<Rightarrow> Some (k, r, s, w2)
          | _ \<Rightarrow> None }"
  by pat_completeness auto
termination by (relation "measure (\<lambda>(n, r, s, tm, w). left w)") (auto dest!: ask_left timeout_getretry_left)

declare socket_select.simps [simp del]

subsection \<open>Life of a socket\<close>

definition socket_open :: "world \<Rightarrow> (int \<times> world) option" where
  "socket_open w = do { (a, w) \<leftarrow> ask Ignore_sigpipe w; Some (1, w) }"

definition socket_close :: int where "socket_close = 1"

definition socket_destroy :: "int \<Rightarrow> world \<Rightarrow> (int \<times> world) option" where
  "socket_destroy ps w =
     (if ps \<noteq> SOCKET_INVALID then do { (a, w) \<leftarrow> ask (Close ps) w; Some (SOCKET_INVALID, w) }
      else Some (ps, w))"

definition socket_create :: "int \<Rightarrow> int \<Rightarrow> int \<Rightarrow> world \<Rightarrow> (int \<times> int \<times> world) option" where
  "socket_create domain type protocol w =
     do { (a, w) \<leftarrow> ask (Socket domain type protocol) w;
          case a of
            Fd fd \<Rightarrow> Some (IO_DONE, fd, w)
          | Fail errno \<Rightarrow> Some (errno, SOCKET_INVALID, w)
          | _ \<Rightarrow> None }"

text \<open>A failing \<open>fcntl\<close> returns \<open>-1\<close>, which is used as flags.\<close>

definition getfl :: "int \<Rightarrow> world \<Rightarrow> (int \<times> world) option" where
  "getfl ps w =
     do { (a, w) \<leftarrow> ask (Getfl ps) w;
          case a of Flags f \<Rightarrow> Some (f, w) | Fail e \<Rightarrow> Some (- 1, w) | _ \<Rightarrow> None }"

definition socket_setblocking :: "int \<Rightarrow> world \<Rightarrow> world option" where
  "socket_setblocking ps w =
     do { (flags, w) \<leftarrow> getfl ps w;
          (a, w) \<leftarrow> ask (Setfl ps (flags AND NOT O_NONBLOCK)) w; Some w }"

definition socket_setnonblocking :: "int \<Rightarrow> world \<Rightarrow> world option" where
  "socket_setnonblocking ps w =
     do { (flags, w) \<leftarrow> getfl ps w;
          (a, w) \<leftarrow> ask (Setfl ps (flags OR O_NONBLOCK)) w; Some w }"

definition error_of :: "answer \<Rightarrow> int" where
  "error_of a = (case a of Fail errno \<Rightarrow> errno | _ \<Rightarrow> IO_DONE)"

definition socket_bind :: "int \<Rightarrow> bytes \<Rightarrow> world \<Rightarrow> (int \<times> world) option" where
  "socket_bind ps addr w =
     do { w \<leftarrow> socket_setblocking ps w;
          (a, w) \<leftarrow> ask (Bind ps addr) w;
          w \<leftarrow> socket_setnonblocking ps w;
          Some (error_of a, w) }"

definition socket_listen :: "int \<Rightarrow> int \<Rightarrow> world \<Rightarrow> (int \<times> world) option" where
  "socket_listen ps backlog w = do { (a, w) \<leftarrow> ask (Listen ps backlog) w; Some (error_of a, w) }"

definition socket_shutdown :: "int \<Rightarrow> int \<Rightarrow> world \<Rightarrow> world option" where
  "socket_shutdown ps how w = do { (a, w) \<leftarrow> ask (Shutdown ps how) w; Some w }"

subsection \<open>Connecting and accepting\<close>

function connect_loop :: "int \<Rightarrow> bytes \<Rightarrow> world \<Rightarrow> (int \<times> world) option" where
  "connect_loop ps addr w =
     do { (a, w1) \<leftarrow> ask (Connect ps addr) w;
          if error_of a = EINTR then connect_loop ps addr w1 else Some (error_of a, w1) }"
  by pat_completeness auto
termination by (relation "measure (\<lambda>(ps, addr, w). left w)") (auto dest: ask_left)

declare connect_loop.simps [simp del]

definition socket_connect :: "int \<Rightarrow> bytes \<Rightarrow> t_timeout \<Rightarrow> world \<Rightarrow> (int \<times> world) option" where
  "socket_connect ps addr tm w =
     (if ps = SOCKET_INVALID then Some (IO_CLOSED, w)
      else
        do { (err, w) \<leftarrow> connect_loop ps addr w;
             if err = 0 then Some (IO_DONE, w)
             else if err \<noteq> EINPROGRESS \<and> err \<noteq> EAGAIN then Some (err, w)
             else if timeout_iszero tm then Some (IO_TIMEOUT, w)
             else
               do { (err, w) \<leftarrow> socket_waitfd ps WAITFD_C tm w;
                    if err = IO_CLOSED then
                      do { (a, w) \<leftarrow> ask (Recv ps 0) w;
                           case a of Took bs \<Rightarrow> Some (IO_DONE, w) | Fail errno \<Rightarrow> Some (errno, w) | _ \<Rightarrow> None }
                    else Some (err, w) } })"

function accept_loop :: "int \<Rightarrow> t_timeout \<Rightarrow> world \<Rightarrow> (int \<times> int \<times> world) option" where
  "accept_loop ps tm w =
     do { (a, w1) \<leftarrow> ask (Accept ps) w;
          case a of
            Fd fd \<Rightarrow> Some (IO_DONE, fd, w1)
          | Fail err \<Rightarrow>
              if err = EINTR then accept_loop ps tm w1
              else if err \<noteq> EAGAIN \<and> err \<noteq> ECONNABORTED then Some (err, SOCKET_INVALID, w1)
              else
                do { (err, w2) \<leftarrow> socket_waitfd ps WAITFD_R tm w1;
                     if err \<noteq> IO_DONE then Some (err, SOCKET_INVALID, w2) else accept_loop ps tm w2 }
          | _ \<Rightarrow> None }"
  by pat_completeness auto
termination by (relation "measure (\<lambda>(ps, tm, w). left w)") (auto dest!: ask_left socket_waitfd_left)

declare accept_loop.simps [simp del]

definition socket_accept :: "int \<Rightarrow> int \<Rightarrow> t_timeout \<Rightarrow> world \<Rightarrow> (int \<times> int \<times> world) option" where
  "socket_accept ps pa tm w =
     (if ps = SOCKET_INVALID then Some (IO_CLOSED, pa, w) else accept_loop ps tm w)"

subsection \<open>Transfers\<close>

text \<open>The loop of the three sending functions: the code and the number of bytes that went out.\<close>

function send_loop :: "sys_call \<Rightarrow> int \<Rightarrow> t_timeout \<Rightarrow> world \<Rightarrow> (int \<times> nat \<times> world) option" where
  "send_loop call ps tm w =
     do { (a, w1) \<leftarrow> ask call w;
          case a of
            Put n \<Rightarrow> Some (IO_DONE, n, w1)
          | Fail err \<Rightarrow>
              if err = EPIPE then Some (IO_CLOSED, 0, w1)
              else if err = EPROTOTYPE then send_loop call ps tm w1
              else if err = EINTR then send_loop call ps tm w1
              else if err \<noteq> EAGAIN then Some (err, 0, w1)
              else
                do { (err, w2) \<leftarrow> socket_waitfd ps WAITFD_W tm w1;
                     if err \<noteq> IO_DONE then Some (err, 0, w2) else send_loop call ps tm w2 }
          | _ \<Rightarrow> None }"
  by pat_completeness auto
termination by (relation "measure (\<lambda>(call, ps, tm, w). left w)") (auto dest!: ask_left socket_waitfd_left)

declare send_loop.simps [simp del]

definition socket_send :: "int \<Rightarrow> bytes \<Rightarrow> t_timeout \<Rightarrow> world \<Rightarrow> (int \<times> nat \<times> world) option" where
  "socket_send ps data tm w =
     (if ps = SOCKET_INVALID then Some (IO_CLOSED, 0, w) else send_loop (Send ps data) ps tm w)"

definition socket_sendto :: "int \<Rightarrow> bytes \<Rightarrow> bytes \<Rightarrow> t_timeout \<Rightarrow> world \<Rightarrow> (int \<times> nat \<times> world) option" where
  "socket_sendto ps data addr tm w =
     (if ps = SOCKET_INVALID then Some (IO_CLOSED, 0, w) else send_loop (Sendto ps data addr) ps tm w)"

definition socket_write :: "int \<Rightarrow> bytes \<Rightarrow> t_timeout \<Rightarrow> world \<Rightarrow> (int \<times> nat \<times> world) option" where
  "socket_write ps data tm w =
     (if ps = SOCKET_INVALID then Some (IO_CLOSED, 0, w) else send_loop (Write ps data) ps tm w)"

text \<open>The loop of the three receiving functions: the code and the bytes that came in.\<close>

function recv_loop :: "sys_call \<Rightarrow> int \<Rightarrow> t_timeout \<Rightarrow> world \<Rightarrow> (int \<times> bytes \<times> world) option" where
  "recv_loop call ps tm w =
     do { (a, w1) \<leftarrow> ask call w;
          case a of
            Took bs \<Rightarrow> if length bs > 0 then Some (IO_DONE, bs, w1) else Some (IO_CLOSED, [], w1)
          | Fail err \<Rightarrow>
              if err = EINTR then recv_loop call ps tm w1
              else if err \<noteq> EAGAIN then Some (err, [], w1)
              else
                do { (err, w2) \<leftarrow> socket_waitfd ps WAITFD_R tm w1;
                     if err \<noteq> IO_DONE then Some (err, [], w2) else recv_loop call ps tm w2 }
          | _ \<Rightarrow> None }"
  by pat_completeness auto
termination by (relation "measure (\<lambda>(call, ps, tm, w). left w)") (auto dest!: ask_left socket_waitfd_left)

declare recv_loop.simps [simp del]

definition socket_recv :: "int \<Rightarrow> nat \<Rightarrow> t_timeout \<Rightarrow> world \<Rightarrow> (int \<times> bytes \<times> world) option" where
  "socket_recv ps count tm w =
     (if ps = SOCKET_INVALID then Some (IO_CLOSED, [], w) else recv_loop (Recv ps count) ps tm w)"

definition socket_recvfrom :: "int \<Rightarrow> nat \<Rightarrow> t_timeout \<Rightarrow> world \<Rightarrow> (int \<times> bytes \<times> world) option" where
  "socket_recvfrom ps count tm w =
     (if ps = SOCKET_INVALID then Some (IO_CLOSED, [], w) else recv_loop (Recvfrom ps count) ps tm w)"

definition socket_read :: "int \<Rightarrow> nat \<Rightarrow> t_timeout \<Rightarrow> world \<Rightarrow> (int \<times> bytes \<times> world) option" where
  "socket_read ps count tm w =
     (if ps = SOCKET_INVALID then Some (IO_CLOSED, [], w) else recv_loop (Read ps count) ps tm w)"

subsection \<open>Names and error messages\<close>

text \<open>A look-up of the system gives the host entry (\<open>None\<close>: a null pointer), \<open>h_errno\<close> and \<open>errno\<close>.\<close>

definition socket_gethostbyaddr :: "(bytes \<Rightarrow> 'h option \<times> int \<times> int) \<Rightarrow> bytes \<Rightarrow> int \<times> 'h option" where
  "socket_gethostbyaddr gethostbyaddr addr =
     (let (hp, h_errno, errno) = gethostbyaddr addr in
      (if hp \<noteq> None then IO_DONE
       else if h_errno \<noteq> 0 then h_errno
       else if errno \<noteq> 0 then errno
       else IO_UNKNOWN, hp))"

definition socket_gethostbyname :: "(string \<Rightarrow> 'h option \<times> int \<times> int) \<Rightarrow> string \<Rightarrow> int \<times> 'h option" where
  "socket_gethostbyname gethostbyname addr =
     (let (hp, h_errno, errno) = gethostbyname addr in
      (if hp \<noteq> None then IO_DONE
       else if h_errno \<noteq> 0 then h_errno
       else if errno \<noteq> 0 then errno
       else IO_UNKNOWN, hp))"

text \<open>The messages of the C library are parameters. \<open>HOST_NOT_FOUND\<close> is 1.\<close>

definition socket_hoststrerror :: "(int \<Rightarrow> string) \<Rightarrow> int \<Rightarrow> string option" where
  "socket_hoststrerror hstrerror err =
     (if err \<le> 0 then io_strerror err
      else if err = 1 then Some ''host not found''
      else Some (hstrerror err))"

definition socket_strerror :: "(int \<Rightarrow> string) \<Rightarrow> int \<Rightarrow> string option" where
  "socket_strerror strerror err =
     (if err \<le> 0 then io_strerror err
      else if err = EADDRINUSE then Some ''address already in use''
      else if err = EISCONN then Some ''already connected''
      else if err = EACCES then Some ''permission denied''
      else if err = ECONNREFUSED then Some ''connection refused''
      else if err = ECONNABORTED then Some ''closed''
      else if err = ECONNRESET then Some ''closed''
      else if err = ETIMEDOUT then Some ''timeout''
      else Some (strerror err))"

definition socket_ioerror :: "(int \<Rightarrow> string) \<Rightarrow> int \<Rightarrow> int \<Rightarrow> string option" where
  "socket_ioerror strerror ps err = socket_strerror strerror err"

text \<open>The \<open>EAI\<close> codes of the C library of Linux, which has no \<open>EAI_BADHINTS\<close> and no \<open>EAI_PROTOCOL\<close>.\<close>

definition socket_gaistrerror :: "(int \<Rightarrow> string) \<Rightarrow> (int \<Rightarrow> string) \<Rightarrow> int \<Rightarrow> int \<Rightarrow> string option" where
  "socket_gaistrerror gai_strerror strerror errno err =
     (if err = 0 then None
      else if err = - 3 then Some ''temporary failure in name resolution''
      else if err = - 1 then Some ''invalid value for ai_flags''
      else if err = - 4 then Some ''non-recoverable failure in name resolution''
      else if err = - 6 then Some ''ai_family not supported''
      else if err = - 10 then Some ''memory allocation failure''
      else if err = - 2 then Some ''host or service not provided, or not known''
      else if err = - 12 then Some ''argument buffer overflow''
      else if err = - 8 then Some ''service not supported for socket type''
      else if err = - 7 then Some ''ai_socktype not supported''
      else if err = - 11 then Some (strerror errno)
      else Some (gai_strerror err))"

end
