(* ===== verification/Usocket_Correct.thy ===== *)
theory Usocket_Correct
  imports Usocket
begin

section \<open>What the socket functions do with the system\<close>

text \<open>
  Every loop over system calls is described by the piece of transcript it adds: \<open>adds P w w'\<close> says
  that all calls and answers between the two worlds satisfy \<open>P\<close>. From it follow which calls are
  made, and which bytes were transferred.
\<close>

definition adds :: "(sys_call \<times> answer \<Rightarrow> bool) \<Rightarrow> world \<Rightarrow> world \<Rightarrow> bool" where
  "adds P w w' \<longleftrightarrow> (\<exists>tr. transcript w' = transcript w @ tr \<and> list_all P tr)"

lemma adds_refl [simp]: "adds P w w"
  by (simp add: adds_def)

lemma adds_trans [trans]: "adds P w w' \<Longrightarrow> adds P w' w'' \<Longrightarrow> adds P w w''"
  by (auto simp: adds_def)

lemma adds_mono: "adds P w w' \<Longrightarrow> (\<And>x. P x \<Longrightarrow> Q x) \<Longrightarrow> adds Q w w'"
  by (auto simp: adds_def list_all_iff)

lemma adds_ask: "ask c w = Some (a, w') \<Longrightarrow> P (c, a) \<Longrightarrow> adds P w w'"
  by (auto simp: adds_def ask_def split: list.splits if_splits)

lemma adds_silent:
  assumes "adds P w w'" "\<And>x. P x \<Longrightarrow> took fd x = []" "\<And>x. P x \<Longrightarrow> put fd x = []"
  shows "taken fd w' = taken fd w" "written fd w' = written fd w"
  using assms by (auto simp: adds_def taken_def written_def list_all_iff)

text \<open>Calls that only wait.\<close>

fun waits :: "sys_call \<times> answer \<Rightarrow> bool" where
  "waits (Gettimeofday, a) = True"
| "waits (Poll fd ev t, a) = True"
| "waits _ = False"

lemma waits_silent: "waits x \<Longrightarrow> took fd x = []" "waits x \<Longrightarrow> put fd x = []"
  by (auto elim!: waits.elims simp: took_def put_def split: answer.splits)

subsection \<open>Waiting\<close>

lemma timeout_gettime_adds: "timeout_gettime w = Some (t, w') \<Longrightarrow> adds waits w w'"
proof -
  assume "timeout_gettime w = Some (t, w')"
  then obtain a w1 where a: "ask Gettimeofday w = Some (a, w1)"
    "(case a of Time s us \<Rightarrow> Some (of_int s + of_int us / 1000000, w1) | _ \<Rightarrow> None) = Some (t, w')"
    unfolding timeout_gettime_def by (auto elim!: bind_SomeE)
  then show ?thesis using adds_ask [OF a(1), of waits] by (cases a) auto
qed

lemma timeout_getretry_adds: "timeout_getretry tm w = Some (t, w') \<Longrightarrow> adds waits w w'"
  unfolding timeout_getretry_def Let_def
  by (auto split: if_splits elim!: bind_SomeE dest!: timeout_gettime_adds)

text \<open>One call of \<open>poll\<close> with the time that is left.\<close>

definition poll_once :: "int \<Rightarrow> int \<Rightarrow> t_timeout \<Rightarrow> world \<Rightarrow> (answer \<times> world) option" where
  "poll_once ps sw tm w =
     do { (retry, w1) \<leftarrow> timeout_getretry tm w;
          t \<leftarrow> c_int (retry * 1000);
          ask (Poll ps sw (if t \<ge> 0 then t else - 1)) w1 }"

definition polled :: "int \<Rightarrow> int \<Rightarrow> t_timeout \<Rightarrow> world \<Rightarrow> answer \<Rightarrow> world \<Rightarrow> bool" where
  "polled ps sw tm w a w1 \<longleftrightarrow> poll_once ps sw tm w = Some (a, w1)"

lemma poll_once_left: "poll_once ps sw tm w = Some (a, w1) \<Longrightarrow> left w1 < left w"
  by (auto simp: poll_once_def elim!: bind_SomeE dest!: timeout_getretry_left ask_left)

lemma polled_adds: "polled ps sw tm w a w1 \<Longrightarrow> adds waits w w1"
proof -
  assume "polled ps sw tm w a w1"
  then obtain retry w0 t where "timeout_getretry tm w = Some (retry, w0)" "ask (Poll ps sw t) w0 = Some (a, w1)"
    by (auto simp: polled_def poll_once_def elim!: bind_SomeE)
  then show ?thesis using adds_trans [OF timeout_getretry_adds adds_ask] by fastforce
qed

text \<open>The waiting loop as a relation: one rule for each way through a round.\<close>

inductive waiting :: "int \<Rightarrow> int \<Rightarrow> t_timeout \<Rightarrow> world \<Rightarrow> int \<Rightarrow> world \<Rightarrow> bool" for ps sw tm where
  interrupted: "polled ps sw tm w (Fail EINTR) w1 \<Longrightarrow> waiting ps sw tm w1 e w' \<Longrightarrow> waiting ps sw tm w e w'"
| failed: "polled ps sw tm w (Fail e) w1 \<Longrightarrow> e \<noteq> EINTR \<Longrightarrow> waiting ps sw tm w e w1"
| timed_out: "polled ps sw tm w (Revents 0) w1 \<Longrightarrow> waiting ps sw tm w IO_TIMEOUT w1"
| hung_up: "polled ps sw tm w (Revents r) w1 \<Longrightarrow> r \<noteq> 0 \<Longrightarrow> sw = WAITFD_C \<Longrightarrow> (r AND (POLLIN OR POLLERR)) \<noteq> 0
    \<Longrightarrow> waiting ps sw tm w IO_CLOSED w1"
| ready: "polled ps sw tm w (Revents r) w1 \<Longrightarrow> r \<noteq> 0 \<Longrightarrow> sw \<noteq> WAITFD_C \<or> (r AND (POLLIN OR POLLERR)) = 0
    \<Longrightarrow> waiting ps sw tm w IO_DONE w1"

lemma waitfd_loop_unfold:
  "waitfd_loop ps sw tm w =
     do { (a, w1) \<leftarrow> poll_once ps sw tm w;
          case a of
            Fail errno \<Rightarrow> if errno = EINTR then waitfd_loop ps sw tm w1 else Some (errno, w1)
          | Revents r \<Rightarrow>
              if r = 0 then Some (IO_TIMEOUT, w1)
              else if sw = WAITFD_C \<and> (r AND (POLLIN OR POLLERR)) \<noteq> 0 then Some (IO_CLOSED, w1)
              else Some (IO_DONE, w1)
          | _ \<Rightarrow> None }"
  by (subst waitfd_loop.simps) (simp add: poll_once_def case_prod_beta')

text \<open>The waiting loop computes the relation, and nothing else.\<close>

lemma waitfd_loop_iff: "waitfd_loop ps sw tm w = Some (e, w') \<longleftrightarrow> waiting ps sw tm w e w'"
proof
  show "waitfd_loop ps sw tm w = Some (e, w') \<Longrightarrow> waiting ps sw tm w e w'"
  proof (induction "left w" arbitrary: w rule: less_induct)
    case less
    obtain a w1 where a: "poll_once ps sw tm w = Some (a, w1)" and c: "(case a of
        Fail errno \<Rightarrow> if errno = EINTR then waitfd_loop ps sw tm w1 else Some (errno, w1)
      | Revents r \<Rightarrow>
          if r = 0 then Some (IO_TIMEOUT, w1)
          else if sw = WAITFD_C \<and> (r AND (POLLIN OR POLLERR)) \<noteq> 0 then Some (IO_CLOSED, w1)
          else Some (IO_DONE, w1)
      | _ \<Rightarrow> None) = Some (e, w')"
      using less.prems by (subst (asm) waitfd_loop_unfold) (auto elim!: bind_SomeE)
    show ?case
    proof (cases a)
      case (Fail errno)
      then show ?thesis using c a less.hyps [OF poll_once_left [OF a]]
        by (auto intro: interrupted failed simp: polled_def split: if_splits)
    qed (use c a in \<open>auto intro: timed_out hung_up ready simp: polled_def split: if_splits\<close>)
  qed
  show "waiting ps sw tm w e w' \<Longrightarrow> waitfd_loop ps sw tm w = Some (e, w')"
    by (induction rule: waiting.induct) (subst waitfd_loop_unfold; auto simp: polled_def)+
qed

lemma waiting_adds: "waiting ps sw tm w e w' \<Longrightarrow> adds waits w w'"
  by (induction rule: waiting.induct) (auto intro: adds_trans polled_adds)

lemma poll_once_fits: "poll_once ps sw tm w = Some (a, w1) \<Longrightarrow> \<exists>t. fits (Poll ps sw t) a"
  by (auto simp: poll_once_def elim!: bind_SomeE dest!: ask_transfer(1))

lemma waiting_code: "waiting ps sw tm w e w' \<Longrightarrow> e \<in> {IO_DONE, IO_TIMEOUT} \<or> 0 < e \<or> e = IO_CLOSED \<and> sw = WAITFD_C"
  by (induction rule: waiting.induct) (auto simp: polled_def fits_def dest!: poll_once_fits)

lemma socket_waitfd_adds: "socket_waitfd ps sw tm w = Some (e, w') \<Longrightarrow> adds waits w w'"
  by (auto simp: socket_waitfd_def waitfd_loop_iff split: if_splits intro: waiting_adds)

lemma socket_waitfd_code:
  "socket_waitfd ps sw tm w = Some (e, w') \<Longrightarrow> e \<in> {IO_DONE, IO_TIMEOUT} \<or> 0 < e \<or> e = IO_CLOSED \<and> sw = WAITFD_C"
  by (auto simp: socket_waitfd_def waitfd_loop_iff split: if_splits dest!: waiting_code)

lemma not_WAITFD_C: "WAITFD_R \<noteq> WAITFD_C" "WAITFD_W \<noteq> WAITFD_C"
  by (simp_all add: WAITFD_R_def WAITFD_W_def WAITFD_C_def POLLIN_def POLLOUT_def)

subsection \<open>Receiving\<close>

inductive receiving :: "sys_call \<Rightarrow> int \<Rightarrow> t_timeout \<Rightarrow> world \<Rightarrow> int \<Rightarrow> bytes \<Rightarrow> world \<Rightarrow> bool" for c ps tm where
  data: "ask c w = Some (Took bs, w1) \<Longrightarrow> bs \<noteq> [] \<Longrightarrow> receiving c ps tm w IO_DONE bs w1"
| eof: "ask c w = Some (Took [], w1) \<Longrightarrow> receiving c ps tm w IO_CLOSED [] w1"
| again: "ask c w = Some (Fail EINTR, w1) \<Longrightarrow> receiving c ps tm w1 err bs w' \<Longrightarrow> receiving c ps tm w err bs w'"
| fatal: "ask c w = Some (Fail err, w1) \<Longrightarrow> err \<noteq> EINTR \<Longrightarrow> err \<noteq> EAGAIN \<Longrightarrow> receiving c ps tm w err [] w1"
| gave_up: "ask c w = Some (Fail EAGAIN, w1) \<Longrightarrow> socket_waitfd ps WAITFD_R tm w1 = Some (err, w2) \<Longrightarrow> err \<noteq> IO_DONE
    \<Longrightarrow> receiving c ps tm w err [] w2"
| woken: "ask c w = Some (Fail EAGAIN, w1) \<Longrightarrow> socket_waitfd ps WAITFD_R tm w1 = Some (IO_DONE, w2)
    \<Longrightarrow> receiving c ps tm w2 err bs w' \<Longrightarrow> receiving c ps tm w err bs w'"

lemma EINTR_EAGAIN [simp]: "EINTR \<noteq> EAGAIN" "EAGAIN \<noteq> EINTR"
  by (simp_all add: errno_defs)

lemma recv_loop_receiving: "recv_loop c ps tm w = Some (err, bs, w') \<Longrightarrow> receiving c ps tm w err bs w'"
proof (induction "left w" arbitrary: w rule: less_induct)
  case less
  obtain a w1 where a: "ask c w = Some (a, w1)" and r: "(case a of
      Took bs \<Rightarrow> if length bs > 0 then Some (IO_DONE, bs, w1) else Some (IO_CLOSED, [], w1)
    | Fail err \<Rightarrow>
        if err = EINTR then recv_loop c ps tm w1
        else if err \<noteq> EAGAIN then Some (err, [], w1)
        else
          do { (err, w2) \<leftarrow> socket_waitfd ps WAITFD_R tm w1;
               if err \<noteq> IO_DONE then Some (err, [], w2) else recv_loop c ps tm w2 }
    | _ \<Rightarrow> None) = Some (err, bs, w')"
    using less.prems by (subst (asm) recv_loop.simps) (auto elim!: bind_SomeE)
  show ?case
  proof (cases a)
    case (Fail e)
    consider "e = EINTR" | "e \<noteq> EINTR" "e \<noteq> EAGAIN" | "e = EAGAIN" by blast
    then show ?thesis
    proof cases
      case 1
      then show ?thesis using a r Fail less.hyps [OF ask_left [OF a]] by (auto intro: again)
    next
      case 2
      then show ?thesis using a r Fail by (auto intro: fatal)
    next
      case 3
      then obtain e' w2 where w: "socket_waitfd ps WAITFD_R tm w1 = Some (e', w2)"
        "(if e' \<noteq> IO_DONE then Some (e', [], w2) else recv_loop c ps tm w2) = Some (err, bs, w')"
        using r Fail by (auto elim!: bind_SomeE)
      have "left w2 < left w" using ask_left [OF a] socket_waitfd_left [OF w(1)] by simp
      then show ?thesis using a Fail 3 w less.hyps by (auto intro: gave_up woken split: if_splits)
    qed
  qed (use a r in \<open>auto intro: data eof split: if_splits\<close>)
qed

lemma receiving_recv_loop: "receiving c ps tm w err bs w' \<Longrightarrow> recv_loop c ps tm w = Some (err, bs, w')"
  by (induction rule: receiving.induct) (subst recv_loop.simps; simp)+

text \<open>The three receiving calls.\<close>

definition receives :: "sys_call \<Rightarrow> int \<Rightarrow> nat \<Rightarrow> bool" where
  "receives c ps n \<longleftrightarrow> c \<in> {Recv ps n, Recvfrom ps n, Read ps n}"

lemma receives_took: "receives c ps n \<Longrightarrow> took ps (c, Took bs) = bs \<and> put ps (c, Took bs) = []"
  by (auto simp: receives_def took_def put_def)

lemma receives_fail: "took ps (c, Fail e) = []" "put ps (c, Fail e) = []"
  by (simp_all add: took_def put_def)

lemma receives_fits: "receives c ps n \<Longrightarrow> fits c (Took bs) \<longleftrightarrow> length bs \<le> n" "receives c ps n \<Longrightarrow> fits c (Fail e) \<longleftrightarrow> 0 < e"
  by (auto simp: receives_def fits_def)

lemma receiving_outcome:
  "receiving c ps tm w err bs w' \<Longrightarrow> receives c ps n \<Longrightarrow>
     length bs \<le> n \<and> taken ps w' = taken ps w @ bs \<and> written ps w' = written ps w
     \<and> (err = IO_DONE \<longleftrightarrow> bs \<noteq> []) \<and> (err \<in> {IO_DONE, IO_TIMEOUT, IO_CLOSED} \<or> 0 < err) \<and> left w' < left w"
proof (induction rule: receiving.induct)
  case (data w bs w1)
  then show ?case using ask_transfer [OF data.hyps(1)] ask_left [OF data.hyps(1)]
    by (simp add: receives_took receives_fits)
next
  case (eof w w1)
  then show ?case using ask_transfer [OF eof.hyps(1)] ask_left [OF eof.hyps(1)]
    by (simp add: receives_took io_defs)
next
  case (again w w1 err bs w')
  then show ?case using ask_transfer [OF again.hyps(1)] ask_left [OF again.hyps(1)]
    by (auto simp: receives_fail)
next
  case (fatal w err w1)
  then show ?case using ask_transfer [OF fatal.hyps(1)] ask_left [OF fatal.hyps(1)]
    by (simp add: receives_fail receives_fits io_defs)
next
  case (gave_up w w1 err w2)
  then show ?case
    using ask_transfer [OF gave_up.hyps(1)] ask_left [OF gave_up.hyps(1)] socket_waitfd_left [OF gave_up.hyps(2)]
      socket_waitfd_code [OF gave_up.hyps(2)] adds_silent [OF socket_waitfd_adds [OF gave_up.hyps(2)] waits_silent]
    by (auto simp: receives_fail not_WAITFD_C)
next
  case (woken w w1 w2 err bs w')
  then show ?case
    using ask_transfer [OF woken.hyps(1)] ask_left [OF woken.hyps(1)] socket_waitfd_left [OF woken.hyps(2)]
      adds_silent [OF socket_waitfd_adds [OF woken.hyps(2)] waits_silent]
    by (auto simp: receives_fail)
qed

lemma receiver_outcome:
  assumes "receiver \<in> {socket_recv, socket_recvfrom, socket_read}" "receiver ps n tm w = Some (err, bs, w')"
  shows "length bs \<le> n \<and> taken ps w' = taken ps w @ bs \<and> written ps w' = written ps w
    \<and> (err = IO_DONE \<longleftrightarrow> bs \<noteq> []) \<and> (err \<in> {IO_DONE, IO_TIMEOUT, IO_CLOSED} \<or> 0 < err)"
proof (cases "ps = SOCKET_INVALID")
  case True
  then have "err = IO_CLOSED" "bs = []" "w' = w"
    using assms by (auto simp: socket_recv_def socket_recvfrom_def socket_read_def)
  then show ?thesis by (simp add: io_defs)
next
  case False
  have "\<exists>c. receives c ps n \<and> receiver ps n tm w = recv_loop c ps tm w"
    using assms(1) unfolding insert_iff empty_iff simp_thms
    by (elim disjE; simp add: False socket_recv_def socket_recvfrom_def socket_read_def receives_def)
      blast+
  then show ?thesis using assms(2) receiving_outcome recv_loop_receiving by metis
qed

text \<open>C24: Receiving: \<open>recv\<close>, \<open>recvfrom\<close> and \<open>read\<close> hand over exactly the bytes the system delivered
  meanwhile, at most as many as asked for; \<open>IO_DONE\<close> is returned with at least one byte and every
  other code with none, whatever the interruptions and waits on the way.\<close>

theorem socket_recv_outcome:
  assumes "receiver \<in> {socket_recv, socket_recvfrom, socket_read}" "receiver ps n tm w = Some (err, bs, w')"
  shows "length bs \<le> n \<and> taken ps w' = taken ps w @ bs \<and> written ps w' = written ps w
    \<and> (err = IO_DONE \<longleftrightarrow> bs \<noteq> []) \<and> (err \<in> {IO_DONE, IO_TIMEOUT, IO_CLOSED} \<or> 0 < err)"
  using assms by (rule receiver_outcome)

theorem socket_recv_outcome_witness:
  "length [7 :: u8] \<le> 2 \<and> taken 5 \<lparr>answers = [], transcript = [(Recv 5 2, Fail EINTR), (Recv 5 2, Took [7])]\<rparr>
      = taken 5 \<lparr>answers = [Fail EINTR, Took [7]], transcript = []\<rparr> @ [7]
   \<and> written 5 \<lparr>answers = [], transcript = [(Recv 5 2, Fail EINTR), (Recv 5 2, Took [7])]\<rparr>
      = written 5 \<lparr>answers = [Fail EINTR, Took [7]], transcript = []\<rparr>
   \<and> (IO_DONE = IO_DONE \<longleftrightarrow> [7 :: u8] \<noteq> []) \<and> (IO_DONE \<in> {IO_DONE, IO_TIMEOUT, IO_CLOSED} \<or> 0 < IO_DONE)"
proof -
  have "socket_recv 5 2 \<lparr>tm_block = - 1, tm_total = - 1, tm_start = 0\<rparr> \<lparr>answers = [Fail EINTR, Took [7]], transcript = []\<rparr>
    = Some (IO_DONE, [7], \<lparr>answers = [], transcript = [(Recv 5 2, Fail EINTR), (Recv 5 2, Took [7])]\<rparr>)"
    by code_simp
  from socket_recv_outcome [where receiver = socket_recv, OF _ this] show ?thesis by simp
qed

subsection \<open>Sending\<close>

inductive sending :: "sys_call \<Rightarrow> int \<Rightarrow> t_timeout \<Rightarrow> world \<Rightarrow> int \<Rightarrow> nat \<Rightarrow> world \<Rightarrow> bool" for c ps tm where
  sent: "ask c w = Some (Put n, w1) \<Longrightarrow> sending c ps tm w IO_DONE n w1"
| broken: "ask c w = Some (Fail EPIPE, w1) \<Longrightarrow> sending c ps tm w IO_CLOSED 0 w1"
| again: "ask c w = Some (Fail err0, w1) \<Longrightarrow> err0 = EPROTOTYPE \<or> err0 = EINTR \<Longrightarrow> sending c ps tm w1 err n w'
    \<Longrightarrow> sending c ps tm w err n w'"
| fatal: "ask c w = Some (Fail err, w1) \<Longrightarrow> err \<notin> {EPIPE, EPROTOTYPE, EINTR, EAGAIN} \<Longrightarrow> sending c ps tm w err 0 w1"
| gave_up: "ask c w = Some (Fail EAGAIN, w1) \<Longrightarrow> socket_waitfd ps WAITFD_W tm w1 = Some (err, w2) \<Longrightarrow> err \<noteq> IO_DONE
    \<Longrightarrow> sending c ps tm w err 0 w2"
| woken: "ask c w = Some (Fail EAGAIN, w1) \<Longrightarrow> socket_waitfd ps WAITFD_W tm w1 = Some (IO_DONE, w2)
    \<Longrightarrow> sending c ps tm w2 err n w' \<Longrightarrow> sending c ps tm w err n w'"

lemma send_errnos [simp]: "EPIPE \<noteq> EAGAIN" "EPROTOTYPE \<noteq> EAGAIN" "EAGAIN \<noteq> EPIPE" "EAGAIN \<noteq> EPROTOTYPE"
    "EPROTOTYPE \<noteq> EPIPE" "EINTR \<noteq> EPIPE" "EPIPE \<noteq> EPROTOTYPE" "EPIPE \<noteq> EINTR"
  by (simp_all add: errno_defs)

lemma send_loop_sending: "send_loop c ps tm w = Some (err, n, w') \<Longrightarrow> sending c ps tm w err n w'"
proof (induction "left w" arbitrary: w rule: less_induct)
  case less
  obtain a w1 where a: "ask c w = Some (a, w1)" and r: "(case a of
      Put n \<Rightarrow> Some (IO_DONE, n, w1)
    | Fail err \<Rightarrow>
        if err = EPIPE then Some (IO_CLOSED, 0, w1)
        else if err = EPROTOTYPE then send_loop c ps tm w1
        else if err = EINTR then send_loop c ps tm w1
        else if err \<noteq> EAGAIN then Some (err, 0, w1)
        else
          do { (err, w2) \<leftarrow> socket_waitfd ps WAITFD_W tm w1;
               if err \<noteq> IO_DONE then Some (err, 0, w2) else send_loop c ps tm w2 }
    | _ \<Rightarrow> None) = Some (err, n, w')"
    using less.prems by (subst (asm) send_loop.simps) (auto elim!: bind_SomeE)
  show ?case
  proof (cases a)
    case (Fail e)
    consider "e = EPROTOTYPE \<or> e = EINTR" | "e = EPIPE" | "e \<notin> {EPIPE, EPROTOTYPE, EINTR, EAGAIN}" | "e = EAGAIN" by blast
    then show ?thesis
    proof cases
      case 1
      then show ?thesis using a r Fail less.hyps [OF ask_left [OF a]] by (auto intro: again split: if_splits)
    next
      case 2
      then show ?thesis using a r Fail by (auto intro: broken)
    next
      case 3
      then show ?thesis using a r Fail by (auto intro: fatal)
    next
      case 4
      then obtain e' w2 where w: "socket_waitfd ps WAITFD_W tm w1 = Some (e', w2)"
        "(if e' \<noteq> IO_DONE then Some (e', 0, w2) else send_loop c ps tm w2) = Some (err, n, w')"
        using r Fail by (auto elim!: bind_SomeE)
      have "left w2 < left w" using ask_left [OF a] socket_waitfd_left [OF w(1)] by simp
      then show ?thesis using a Fail 4 w less.hyps by (auto intro: gave_up woken split: if_splits)
    qed
  qed (use a r in \<open>auto intro: sent split: if_splits\<close>)
qed

lemma sending_send_loop: "sending c ps tm w err n w' \<Longrightarrow> send_loop c ps tm w = Some (err, n, w')"
  by (induction rule: sending.induct) (subst send_loop.simps; auto)+

definition sends :: "sys_call \<Rightarrow> int \<Rightarrow> bytes \<Rightarrow> bool" where
  "sends c ps d \<longleftrightarrow> c = Send ps d \<or> c = Write ps d \<or> (\<exists>addr. c = Sendto ps d addr)"

lemma sends_put: "sends c ps d \<Longrightarrow> put ps (c, Put n) = take n d \<and> took ps (c, Put n) = []"
  by (auto simp: sends_def took_def put_def)

lemma sends_fits: "sends c ps d \<Longrightarrow> fits c (Put n) \<longleftrightarrow> n \<le> length d" "sends c ps d \<Longrightarrow> fits c (Fail e) \<longleftrightarrow> 0 < e"
  by (auto simp: sends_def fits_def)

lemma sending_outcome:
  "sending c ps tm w err n w' \<Longrightarrow> sends c ps d \<Longrightarrow>
     n \<le> length d \<and> written ps w' = written ps w @ take n d \<and> taken ps w' = taken ps w
     \<and> (err \<noteq> IO_DONE \<longrightarrow> n = 0) \<and> (err \<in> {IO_DONE, IO_TIMEOUT, IO_CLOSED} \<or> 0 < err) \<and> left w' < left w"
proof (induction rule: sending.induct)
  case (sent w n w1)
  then show ?case using ask_transfer [OF sent.hyps(1)] ask_left [OF sent.hyps(1)]
    by (simp add: sends_put sends_fits)
next
  case (broken w w1)
  then show ?case using ask_transfer [OF broken.hyps(1)] ask_left [OF broken.hyps(1)]
    by (simp add: receives_fail)
next
  case (again w err0 w1 err n w')
  then show ?case using ask_transfer [OF again.hyps(1)] ask_left [OF again.hyps(1)]
    by (auto simp: receives_fail)
next
  case (fatal w err w1)
  then show ?case using ask_transfer [OF fatal.hyps(1)] ask_left [OF fatal.hyps(1)]
    by (simp add: receives_fail sends_fits)
next
  case (gave_up w w1 err w2)
  then show ?case
    using ask_transfer [OF gave_up.hyps(1)] ask_left [OF gave_up.hyps(1)] socket_waitfd_left [OF gave_up.hyps(2)]
      socket_waitfd_code [OF gave_up.hyps(2)] adds_silent [OF socket_waitfd_adds [OF gave_up.hyps(2)] waits_silent]
    by (auto simp: receives_fail not_WAITFD_C)
next
  case (woken w w1 w2 err n w')
  then show ?case
    using ask_transfer [OF woken.hyps(1)] ask_left [OF woken.hyps(1)] socket_waitfd_left [OF woken.hyps(2)]
      adds_silent [OF socket_waitfd_adds [OF woken.hyps(2)] waits_silent]
    by (auto simp: receives_fail)
qed

lemma sender_outcome:
  assumes "sender \<in> {socket_send, socket_write, \<lambda>ps d. socket_sendto ps d addr}" "sender ps d tm w = Some (err, n, w')"
  shows "n \<le> length d \<and> written ps w' = written ps w @ take n d \<and> taken ps w' = taken ps w
    \<and> (err \<noteq> IO_DONE \<longrightarrow> n = 0) \<and> (err \<in> {IO_DONE, IO_TIMEOUT, IO_CLOSED} \<or> 0 < err)"
proof (cases "ps = SOCKET_INVALID")
  case True
  then have "err = IO_CLOSED" "n = 0" "w' = w"
    using assms by (auto simp: socket_send_def socket_sendto_def socket_write_def)
  then show ?thesis by simp
next
  case False
  have "\<exists>c. sends c ps d \<and> sender ps d tm w = send_loop c ps tm w"
    using assms(1) unfolding insert_iff empty_iff simp_thms
    by (elim disjE; simp add: False socket_send_def socket_sendto_def socket_write_def sends_def)
      blast+
  then show ?thesis using assms(2) sending_outcome send_loop_sending by metis
qed

text \<open>C25: Sending: the system accepted exactly the first bytes of the data that \<open>send\<close>, \<open>sendto\<close> or
  \<open>write\<close> counts, in order and once, whatever the interruptions and waits; on an error it accepted
  none.\<close>

theorem socket_send_outcome:
  assumes "sender \<in> {socket_send, socket_write, \<lambda>ps d. socket_sendto ps d addr}" "sender ps d tm w = Some (err, n, w')"
  shows "n \<le> length d \<and> written ps w' = written ps w @ take n d \<and> taken ps w' = taken ps w
    \<and> (err \<noteq> IO_DONE \<longrightarrow> n = 0) \<and> (err \<in> {IO_DONE, IO_TIMEOUT, IO_CLOSED} \<or> 0 < err)"
  using assms by (rule sender_outcome)

theorem socket_send_outcome_witness:
  "2 \<le> length [7, 8, 9 :: u8]
   \<and> written 5 \<lparr>answers = [], transcript = [(Send 5 [7, 8, 9], Fail EPROTOTYPE), (Send 5 [7, 8, 9], Put 2)]\<rparr>
      = written 5 \<lparr>answers = [Fail EPROTOTYPE, Put 2], transcript = []\<rparr> @ take 2 [7, 8, 9]
   \<and> taken 5 \<lparr>answers = [], transcript = [(Send 5 [7, 8, 9], Fail EPROTOTYPE), (Send 5 [7, 8, 9], Put 2)]\<rparr>
      = taken 5 \<lparr>answers = [Fail EPROTOTYPE, Put 2], transcript = []\<rparr>
   \<and> (IO_DONE \<in> {IO_DONE, IO_TIMEOUT, IO_CLOSED} \<or> 0 < IO_DONE)"
proof -
  have "socket_send 5 [7, 8, 9] \<lparr>tm_block = - 1, tm_total = - 1, tm_start = 0\<rparr> \<lparr>answers = [Fail EPROTOTYPE, Put 2], transcript = []\<rparr>
    = Some (IO_DONE, 2, \<lparr>answers = [], transcript = [(Send 5 [7, 8, 9], Fail EPROTOTYPE), (Send 5 [7, 8, 9], Put 2)]\<rparr>)"
    by code_simp
  from socket_send_outcome [where sender = socket_send, OF _ this] show ?thesis by simp
qed

subsection \<open>Timeouts and interruptions\<close>

lemma adds_ask_then: "ask c w = Some (a, w1) \<Longrightarrow> adds (\<lambda>x. fst x = c) w1 w' \<Longrightarrow> adds (\<lambda>x. fst x = c) w w'"
  by (rule adds_trans [OF adds_ask]) auto

lemma receiving_nonblocking:
  "receiving c ps tm w err bs w' \<Longrightarrow> timeout_iszero tm \<Longrightarrow> adds (\<lambda>x. fst x = c) w w'"
  by (induction rule: receiving.induct)
    (auto simp: socket_waitfd_def io_defs intro: adds_ask adds_ask_then)

lemma sending_nonblocking:
  "sending c ps tm w err n w' \<Longrightarrow> timeout_iszero tm \<Longrightarrow> adds (\<lambda>x. fst x = c) w w'"
  by (induction rule: sending.induct)
    (auto simp: socket_waitfd_def io_defs intro: adds_ask adds_ask_then)

text \<open>C26: With a timeout of zero neither \<open>recv\<close> nor \<open>send\<close> ever waits: the transfer itself is the only
  system call made, repeated at most after interruptions, and never \<open>poll\<close>.\<close>

theorem zero_timeout_never_waits:
  assumes "timeout_iszero tm"
  shows "(\<forall>err bs w'. socket_recv ps n tm w = Some (err, bs, w') \<longrightarrow> adds (\<lambda>x. fst x = Recv ps n) w w')
    \<and> (\<forall>err k w'. socket_send ps d tm w = Some (err, k, w') \<longrightarrow> adds (\<lambda>x. fst x = Send ps d) w w')"
  using assms receiving_nonblocking [OF recv_loop_receiving] sending_nonblocking [OF send_loop_sending]
  by (auto simp: socket_recv_def socket_send_def)

theorem zero_timeout_never_waits_witness:
  "socket_recv 5 2 \<lparr>tm_block = 0, tm_total = - 1, tm_start = 0\<rparr> \<lparr>answers = [Fail EINTR, Fail EAGAIN], transcript = []\<rparr>
     = Some (IO_TIMEOUT, [], \<lparr>answers = [], transcript = [(Recv 5 2, Fail EINTR), (Recv 5 2, Fail EAGAIN)]\<rparr>)
   \<and> adds (\<lambda>x. fst x = Recv 5 2) \<lparr>answers = [Fail EINTR, Fail EAGAIN], transcript = []\<rparr>
       \<lparr>answers = [], transcript = [(Recv 5 2, Fail EINTR), (Recv 5 2, Fail EAGAIN)]\<rparr>"
proof -
  have "socket_recv 5 2 \<lparr>tm_block = 0, tm_total = - 1, tm_start = 0\<rparr> \<lparr>answers = [Fail EINTR, Fail EAGAIN], transcript = []\<rparr>
     = Some (IO_TIMEOUT, [], \<lparr>answers = [], transcript = [(Recv 5 2, Fail EINTR), (Recv 5 2, Fail EAGAIN)]\<rparr>)"
    by code_simp
  with zero_timeout_never_waits [of "\<lparr>tm_block = 0, tm_total = - 1, tm_start = 0\<rparr>" 5 2] show ?thesis
    by (simp add: timeout_iszero_def)
qed

lemma recv_loop_interrupted:
  assumes "receives c ps n" "bs \<noteq> []" "length bs \<le> n"
  shows "answers w = replicate k (Fail EINTR) @ Took bs # rest
    \<Longrightarrow> \<exists>w'. recv_loop c ps tm w = Some (IO_DONE, bs, w') \<and> answers w' = rest"
proof (induction k arbitrary: w)
  case 0
  then have "ask c w = Some (Took bs, w\<lparr>answers := rest, transcript := transcript w @ [(c, Took bs)]\<rparr>)"
    using assms by (simp add: ask_def receives_fits)
  then show ?case using assms(2) by (subst recv_loop.simps) simp
next
  case (Suc k)
  then obtain w1 where w1: "ask c w = Some (Fail EINTR, w1)" "answers w1 = replicate k (Fail EINTR) @ Took bs # rest"
    using assms by (simp add: ask_def receives_fits) (simp add: errno_defs)
  then show ?case using Suc.IH [OF w1(2)] by (subst recv_loop.simps) simp
qed

text \<open>Interruptions are invisible: after any number of interrupted calls the data that arrives is
  returned, and no answer of the system is used beyond it.\<close>

lemma recv_interrupted:
  assumes "ps \<noteq> SOCKET_INVALID" "bs \<noteq> []" "length bs \<le> n"
    "answers w = replicate k (Fail EINTR) @ Took bs # rest"
  shows "\<exists>w'. socket_recv ps n tm w = Some (IO_DONE, bs, w') \<and> answers w' = rest"
  using recv_loop_interrupted [OF _ assms(2-4), of "Recv ps n" ps] assms(1)
  by (simp add: socket_recv_def receives_def)

lemma recv_interrupted_witness:
  "\<exists>w'. socket_recv 5 2 \<lparr>tm_block = 1, tm_total = 1, tm_start = 0\<rparr>
      \<lparr>answers = [Fail EINTR, Fail EINTR, Fail EINTR, Took [7], Fail EPIPE], transcript = []\<rparr> = Some (IO_DONE, [7], w')
    \<and> answers w' = [Fail EPIPE]"
  by (rule recv_interrupted [where k = 3]) (simp_all add: SOCKET_INVALID_def numeral_3_eq_3)

end
