(* ===== verification/Timeout_Correct.thy ===== *)
theory Timeout_Correct
  imports Usocket_Correct
begin

section \<open>Timeouts: bounds\<close>

text \<open>
  How long the library may wait: the time left for a retry, the deadlines that every wait of a socket
  function keeps, the \<open>timespec\<close> of a sleep, and the one case the conversion to \<open>int\<close> does not cover.
\<close>

text \<open>The time left for the next try: \<open>-1\<close> when no limit is set, otherwise not negative; the total limit is
  counted from the start of the operation, the one for a block is not reduced by it.\<close>

lemma timeout_getretry_value:
  assumes "timeout_getretry tm w = Some (t, w')"
  shows "if tm_block tm < 0 \<and> tm_total tm < 0 then t = - 1 \<and> w' = w
    else \<exists>now. timeout_gettime w = Some (now, w') \<and> 0 \<le> t
      \<and> t = (if tm_block tm < 0 then max 0 (tm_total tm - (now - tm_start tm))
             else if tm_total tm < 0 then max 0 (tm_block tm - (now - tm_start tm))
             else min (tm_block tm) (max 0 (tm_total tm - (now - tm_start tm))))"
  using assms
  by (auto simp: timeout_getretry_def MAX_double_def MIN_double_def Let_def max_def min_def
    split: if_splits elim!: bind_SomeE)

subsection \<open>Deadlines\<close>

text \<open>The end of a wait that begins at \<open>now\<close>, and a number of milliseconds that ends there, or at once
  when the end has passed.\<close>

definition deadline :: "t_timeout \<Rightarrow> real \<Rightarrow> real" where
  "deadline tm now =
     (if tm_block tm < 0 then tm_start tm + tm_total tm
      else if tm_total tm < 0 then tm_start tm + tm_block tm
      else min (now + tm_block tm) (tm_start tm + tm_total tm))"

definition on_time :: "t_timeout \<Rightarrow> real \<Rightarrow> int \<Rightarrow> bool" where
  "on_time tm now ms \<longleftrightarrow> 0 \<le> ms \<and> now + of_int ms / 1000 \<le> max now (deadline tm now)
     \<and> max now (deadline tm now) < now + (of_int ms + 1) / 1000"

text \<open>A transcript in which every \<open>poll\<close> comes right after a reading of the clock and is on time for it;
  without a limit every \<open>poll\<close> waits for as long as it takes.\<close>

definition poll_ms :: "sys_call \<times> answer \<Rightarrow> int option" where
  "poll_ms x = (case fst x of Poll fd events ms \<Rightarrow> Some ms | _ \<Rightarrow> None)"

definition reading :: "sys_call \<times> answer \<Rightarrow> real option" where
  "reading x = (case snd x of Time s us \<Rightarrow> Some (of_int s + of_int us / 1000000) | _ \<Rightarrow> None)"

definition poll_paced :: "t_timeout \<Rightarrow> real option \<Rightarrow> int option \<Rightarrow> bool" where
  "poll_paced tm now poll =
     (case poll of
        None \<Rightarrow> True
      | Some ms \<Rightarrow>
          if tm_block tm < 0 \<and> tm_total tm < 0 then ms = - 1
          else (case now of None \<Rightarrow> False | Some t \<Rightarrow> on_time tm t ms))"

primrec paced :: "t_timeout \<Rightarrow> real option \<Rightarrow> (sys_call \<times> answer) list \<Rightarrow> bool" where
  "paced tm now [] = True"
| "paced tm now (x # tr) = (poll_paced tm now (poll_ms x) \<and> paced tm (reading x) tr)"

definition paces :: "t_timeout \<Rightarrow> world \<Rightarrow> world \<Rightarrow> bool" where
  "paces tm w w' \<longleftrightarrow> (\<exists>tr. transcript w' = transcript w @ tr \<and> paced tm None tr)"

lemma paced_weaken: "paced tm None tr \<Longrightarrow> paced tm now tr"
  by (cases tr) (auto simp: poll_paced_def split: option.splits if_splits)

lemma paced_append: "paced tm now tr \<Longrightarrow> paced tm None tr' \<Longrightarrow> paced tm now (tr @ tr')"
  by (induction tr arbitrary: now) (auto intro: paced_weaken)

lemma paces_refl [simp]: "paces tm w w"
  by (simp add: paces_def)

lemma paces_trans [trans]: "paces tm w w' \<Longrightarrow> paces tm w' w'' \<Longrightarrow> paces tm w w''"
  unfolding paces_def using paced_append by (metis append.assoc)

lemma ask_transcript: "ask c w = Some (a, w') \<Longrightarrow> transcript w' = transcript w @ [(c, a)]"
  by (auto simp: ask_def split: list.splits if_splits)

lemma paces_ask: "ask c w = Some (a, w') \<Longrightarrow> poll_ms (c, a) = None \<Longrightarrow> paces tm w w'"
  using ask_transcript by (auto simp: paces_def poll_paced_def)

lemma c_int_floor: "c_int x = Some t \<Longrightarrow> 0 \<le> x \<Longrightarrow> t = \<lfloor>x\<rfloor>"
  by (auto simp: c_int_def trunc_def split: if_splits)

lemma gettime_transcript:
  assumes "timeout_gettime w = Some (now, w')"
  shows "\<exists>a. transcript w' = transcript w @ [(Gettimeofday, a)] \<and> reading (Gettimeofday, a) = Some now"
proof -
  obtain a w1 where a: "ask Gettimeofday w = Some (a, w1)"
    "(case a of Time s us \<Rightarrow> Some (of_int s + of_int us / 1000000, w1) | _ \<Rightarrow> None) = Some (now, w')"
    using assms unfolding timeout_gettime_def by (auto elim!: bind_SomeE)
  then have "reading (Gettimeofday, a) = Some now" "w1 = w'" by (cases a; simp add: reading_def)+
  then show ?thesis using ask_transcript [OF a(1)] by blast
qed

lemma polled_paces:
  assumes "polled ps sw tm w a w1"
  shows "paces tm w w1"
proof -
  obtain retry w0 t where r: "timeout_getretry tm w = Some (retry, w0)" "c_int (retry * 1000) = Some t"
    and p: "ask (Poll ps sw (if t \<ge> 0 then t else - 1)) w0 = Some (a, w1)"
    using assms by (auto simp: polled_def poll_once_def elim!: bind_SomeE)
  show ?thesis
  proof (cases "tm_block tm < 0 \<and> tm_total tm < 0")
    case True
    then have "retry = - 1" "w0 = w" using timeout_getretry_value [OF r(1)] by simp_all
    then have "t = - 1000" using r(2) by (auto simp: c_int_def trunc_def split: if_splits)
    then show ?thesis using True ask_transcript [OF p] \<open>w0 = w\<close>
      by (simp add: paces_def poll_paced_def poll_ms_def)
  next
    case False
    then obtain now where now: "timeout_gettime w = Some (now, w0)" and pos: "0 \<le> retry"
      and retry: "retry = (if tm_block tm < 0 then max 0 (tm_total tm - (now - tm_start tm))
             else if tm_total tm < 0 then max 0 (tm_block tm - (now - tm_start tm))
             else min (tm_block tm) (max 0 (tm_total tm - (now - tm_start tm))))"
      using timeout_getretry_value [OF r(1)] by (simp only: if_False) blast
    have left: "now + retry = max now (deadline tm now)"
      unfolding retry deadline_def by (simp add: max_def min_def)
    have t: "t = \<lfloor>retry * 1000\<rfloor>" "0 \<le> t" using c_int_floor [OF r(2)] pos by simp_all
    have "real_of_int t \<le> retry * 1000" "retry * 1000 < real_of_int t + 1" unfolding t(1) by linarith+
    then have "on_time tm now t" using t(2) by (simp add: on_time_def left [symmetric] field_simps)
    then show ?thesis
      using False t(2) gettime_transcript [OF now] ask_transcript [OF p]
      by (auto simp: paces_def poll_paced_def poll_ms_def)
  qed
qed

lemma waitfd_paces: "socket_waitfd ps sw tm w = Some (e, w') \<Longrightarrow> paces tm w w'"
proof -
  have "waiting ps sw tm w e w' \<Longrightarrow> paces tm w w'"
    by (induction rule: waiting.induct) (auto intro: paces_trans polled_paces)
  then show "socket_waitfd ps sw tm w = Some (e, w') \<Longrightarrow> paces tm w w'"
    by (auto simp: socket_waitfd_def waitfd_loop_iff split: if_splits)
qed

text \<open>The loops around the calls.\<close>

lemma receiving_paces:
  assumes "receiving c ps tm w e bs w'" "\<And>a. poll_ms (c, a) = None"
  shows "paces tm w w'"
  using assms(1)
proof (induction rule: receiving.induct)
  case (gave_up w w1 err w2)
  then show ?case using paces_trans [OF paces_ask waitfd_paces] assms(2) by blast
next
  case (woken w w1 w2 err bs w')
  then show ?case using paces_trans [OF paces_ask paces_trans [OF waitfd_paces]] assms(2) by meson
qed (use assms(2) paces_ask paces_trans in \<open>blast\<close>)+

lemma sending_paces:
  assumes "sending c ps tm w e k w'" "\<And>a. poll_ms (c, a) = None"
  shows "paces tm w w'"
  using assms(1)
proof (induction rule: sending.induct)
  case (gave_up w w1 err w2)
  then show ?case using paces_trans [OF paces_ask waitfd_paces] assms(2) by blast
next
  case (woken w w1 w2 err k w')
  then show ?case using paces_trans [OF paces_ask paces_trans [OF waitfd_paces]] assms(2) by meson
qed (use assms(2) paces_ask paces_trans in \<open>blast\<close>)+

lemma accept_loop_paces: "accept_loop ps tm w = Some (e, fd, w') \<Longrightarrow> paces tm w w'"
proof (induction "left w" arbitrary: w rule: less_induct)
  case less
  obtain a w1 where a: "ask (Accept ps) w = Some (a, w1)" and r: "(case a of
      Fd fd \<Rightarrow> Some (IO_DONE, fd, w1)
    | Fail err \<Rightarrow>
        if err = EINTR then accept_loop ps tm w1
        else if err \<noteq> EAGAIN \<and> err \<noteq> ECONNABORTED then Some (err, SOCKET_INVALID, w1)
        else
          do { (err, w2) \<leftarrow> socket_waitfd ps WAITFD_R tm w1;
               if err \<noteq> IO_DONE then Some (err, SOCKET_INVALID, w2) else accept_loop ps tm w2 }
    | _ \<Rightarrow> None) = Some (e, fd, w')"
    using less.prems by (subst (asm) accept_loop.simps) (auto elim!: bind_SomeE)
  have p: "paces tm w w1" using paces_ask [OF a] by (simp add: poll_ms_def)
  consider (ended) "w' = w1" | (again) "accept_loop ps tm w1 = Some (e, fd, w')"
    | (waited) err w2 where "socket_waitfd ps WAITFD_R tm w1 = Some (err, w2)"
        "w' = w2 \<or> accept_loop ps tm w2 = Some (e, fd, w')"
    using r by (auto split: answer.splits if_splits elim!: bind_SomeE)
  then show ?case
  proof cases
    case again
    then show ?thesis using less.hyps [OF ask_left [OF a]] p paces_trans by blast
  next
    case waited
    have "left w2 < left w" using ask_left [OF a] socket_waitfd_left [OF waited(1)] by simp
    then have "paces tm w2 w'" using less.hyps waited(2) by fastforce
    then show ?thesis using paces_trans [OF p paces_trans [OF waitfd_paces [OF waited(1)]]] by blast
  qed (use p in simp)
qed

lemma connect_loop_paces: "connect_loop ps addr w = Some (e, w') \<Longrightarrow> paces tm w w'"
proof (induction "left w" arbitrary: w rule: less_induct)
  case less
  obtain a w1 where a: "ask (Connect ps addr) w = Some (a, w1)"
    and r: "(if error_of a = EINTR then connect_loop ps addr w1 else Some (error_of a, w1)) = Some (e, w')"
    using less.prems by (subst (asm) connect_loop.simps) (auto elim!: bind_SomeE)
  have "paces tm w w1" using paces_ask [OF a] by (simp add: poll_ms_def)
  then show ?case using r less.hyps [OF ask_left [OF a]] paces_trans by (auto split: if_splits)
qed

lemma connect_paces:
  assumes "socket_connect ps addr tm w = Some (e, w')"
  shows "paces tm w w'"
proof (cases "ps = SOCKET_INVALID")
  case False
  obtain err w1 where c: "connect_loop ps addr w = Some (err, w1)" and r: "(if err = 0 then Some (IO_DONE, w1)
      else if err \<noteq> EINPROGRESS \<and> err \<noteq> EAGAIN then Some (err, w1)
      else if timeout_iszero tm then Some (IO_TIMEOUT, w1)
      else
        do { (err, w) \<leftarrow> socket_waitfd ps WAITFD_C tm w1;
             if err = IO_CLOSED then
               do { (a, w) \<leftarrow> ask (Recv ps 0) w;
                    case a of Took bs \<Rightarrow> Some (IO_DONE, w) | Fail errno \<Rightarrow> Some (errno, w) | _ \<Rightarrow> None }
             else Some (err, w) }) = Some (e, w')"
    using assms False by (auto simp: socket_connect_def elim!: bind_SomeE)
  note p = connect_loop_paces [OF c]
  have "paces tm w1 w'"
  proof (cases "err \<noteq> 0 \<and> (err = EINPROGRESS \<or> err = EAGAIN) \<and> \<not> timeout_iszero tm")
    case True
    then obtain err2 w2 where w2: "socket_waitfd ps WAITFD_C tm w1 = Some (err2, w2)" and r2: "(if err2 = IO_CLOSED then
               do { (a, w) \<leftarrow> ask (Recv ps 0) w2;
                    case a of Took bs \<Rightarrow> Some (IO_DONE, w) | Fail errno \<Rightarrow> Some (errno, w) | _ \<Rightarrow> None }
             else Some (err2, w2)) = Some (e, w')"
      using r by (auto elim!: bind_SomeE)
    have "paces tm w2 w'"
      using r2 by (auto simp: poll_ms_def split: if_splits answer.splits elim!: bind_SomeE intro: paces_ask)
    then show ?thesis using waitfd_paces [OF w2] paces_trans by blast
  qed (use r in \<open>auto split: if_splits\<close>)
  then show ?thesis using p paces_trans by blast
qed (use assms in \<open>auto simp: socket_connect_def\<close>)

lemma poll_ms_transfers:
  "poll_ms (Recv ps n, a) = None" "poll_ms (Recvfrom ps n, a) = None" "poll_ms (Read ps n, a) = None"
  "poll_ms (Send ps d, a) = None" "poll_ms (Sendto ps d addr, a) = None" "poll_ms (Write ps d, a) = None"
  by (simp_all add: poll_ms_def)

lemma receiver_paces:
  assumes "receiver \<in> {socket_recv, socket_recvfrom, socket_read}" "receiver ps n tm w = Some (err, bs, w')"
  shows "paces tm w w'"
proof (cases "ps = SOCKET_INVALID")
  case True
  then show ?thesis using assms by (auto simp: socket_recv_def socket_recvfrom_def socket_read_def)
next
  case False
  then obtain c where "recv_loop c ps tm w = Some (err, bs, w')" "\<And>a. poll_ms (c, a) = None"
    using assms poll_ms_transfers by (auto simp: socket_recv_def socket_recvfrom_def socket_read_def)
  then show ?thesis using receiving_paces [OF recv_loop_receiving] by blast
qed

lemma sender_paces:
  assumes "sender \<in> {socket_send, socket_write, \<lambda>ps d. socket_sendto ps d addr}" "sender ps d tm w = Some (err, k, w')"
  shows "paces tm w w'"
proof (cases "ps = SOCKET_INVALID")
  case True
  then show ?thesis using assms by (auto simp: socket_send_def socket_sendto_def socket_write_def)
next
  case False
  then obtain c where "send_loop c ps tm w = Some (err, k, w')" "\<And>a. poll_ms (c, a) = None"
    using assms poll_ms_transfers by (auto simp: socket_send_def socket_sendto_def socket_write_def)
  then show ?thesis using sending_paces [OF send_loop_sending] by blast
qed

text \<open>C27: Deadlines. In the three receiving and the three sending functions, in \<open>accept\<close> and in \<open>connect\<close>
  every \<open>poll\<close>, also after interruptions and false alarms, comes right after a reading of the clock and
  waits from there to the deadline, to the millisecond rounded down, or not at all when it has passed.
  The deadline is the start of the operation plus the total limit, and at most the limit for a block
  from the reading; with a limit for a block only, the start plus this limit. Without a limit every
  \<open>poll\<close> waits for ever.\<close>

theorem waits_end_at_deadline:
  assumes "receiver \<in> {socket_recv, socket_recvfrom, socket_read}"
    and "sender \<in> {socket_send, socket_write, \<lambda>ps d. socket_sendto ps d addr}"
  shows "(\<forall>err bs w'. receiver ps n tm w = Some (err, bs, w') \<longrightarrow> paces tm w w')
    \<and> (\<forall>err k w'. sender ps d tm w = Some (err, k, w') \<longrightarrow> paces tm w w')
    \<and> (\<forall>err fd w'. socket_accept ps pa tm w = Some (err, fd, w') \<longrightarrow> paces tm w w')
    \<and> (\<forall>err w'. socket_connect ps addr tm w = Some (err, w') \<longrightarrow> paces tm w w')"
  using receiver_paces [OF assms(1)] sender_paces [OF assms(2)] connect_paces
  by (auto simp: socket_accept_def dest: accept_loop_paces split: if_splits)

theorem waits_end_at_deadline_witness:
  "paces \<lparr>tm_block = 5, tm_total = 10, tm_start = 100\<rparr>
    \<lparr>answers = [Fail EAGAIN, Time 107 0, Revents 1, Took [7]], transcript = []\<rparr>
    \<lparr>answers = [], transcript = [(Recv 5 2, Fail EAGAIN), (Gettimeofday, Time 107 0), (Poll 5 1 3000, Revents 1), (Recv 5 2, Took [7])]\<rparr>"
proof -
  let ?tm = "\<lparr>tm_block = 5, tm_total = 10, tm_start = 100\<rparr>"
  have "socket_recv 5 2 ?tm \<lparr>answers = [Fail EAGAIN, Time 107 0, Revents 1, Took [7]], transcript = []\<rparr>
    = Some (IO_DONE, [7], \<lparr>answers = [], transcript = [(Recv 5 2, Fail EAGAIN), (Gettimeofday, Time 107 0),
        (Poll 5 1 3000, Revents 1), (Recv 5 2, Took [7])]\<rparr>)"
    by code_simp
  with waits_end_at_deadline [of socket_recv socket_send undefined 5 2 ?tm] show ?thesis by blast
qed

subsection \<open>Sleeping\<close>

lemma trunc_nonneg: "0 \<le> x \<Longrightarrow> trunc x = \<lfloor>x\<rfloor>"
  by (simp add: trunc_def)

lemma c_int_nonneg: "0 \<le> x \<Longrightarrow> x < 2147483648 \<Longrightarrow> c_int x = Some \<lfloor>x\<rfloor>"
proof -
  assume x: "0 \<le> x" "x < 2147483648"
  have "0 \<le> \<lfloor>x\<rfloor>" using x(1) by simp
  moreover have "\<lfloor>x\<rfloor> \<le> 2147483647" using x(2) by linarith
  ultimately show ?thesis using x(1) by (simp add: c_int_def trunc_nonneg)
qed

text \<open>Every sleep time gives a valid \<open>timespec\<close>: negative ones count as zero, overlong ones are cut to the
  longest one, and the others are met to the nanosecond, rounded down.\<close>

lemma sleep_time_valid:
  "\<exists>s ns. sleep_time n = Some (s, ns) \<and> 0 \<le> s \<and> s \<le> 2147483647 \<and> 0 \<le> ns \<and> ns < 1000000000
    \<and> of_int (s * 1000000000 + ns) = (of_int \<lfloor>max 0 (min n 2147483647) * 1000000000\<rfloor> :: real)"
proof -
  define m where "m = max 0 (min n 2147483647)"
  have m: "0 \<le> m" "m \<le> 2147483647" by (simp_all add: m_def)
  have eq: "(if (if n < 0 then 0 else n) > 2147483647 then 2147483647 else (if n < 0 then 0 else n)) = m"
    by (simp add: m_def max_def min_def)
  define f where "f = m - of_int \<lfloor>m\<rfloor>"
  have f: "0 \<le> f" "f < 1" unfolding f_def by linarith+
  then have f9: "0 \<le> f * 1000000000" "f * 1000000000 < 1000000000" by simp_all
  then have fl: "0 \<le> \<lfloor>f * 1000000000\<rfloor>" "\<lfloor>f * 1000000000\<rfloor> < 1000000000" by linarith+
  have "c_int m = Some \<lfloor>m\<rfloor>" "c_int (f * 1000000000) = Some \<lfloor>f * 1000000000\<rfloor>"
    using m f9 by (auto intro: c_int_nonneg)
  then have "sleep_time n = Some (\<lfloor>m\<rfloor>, \<lfloor>f * 1000000000\<rfloor>)"
    using fl by (simp only: sleep_time_def Let_def eq Option.bind.bind_lunit f_def [symmetric]) simp
  moreover have "m * 1000000000 = of_int (\<lfloor>m\<rfloor> * 1000000000) + f * 1000000000"
    by (simp add: f_def algebra_simps)
  then have "\<lfloor>m * 1000000000\<rfloor> = \<lfloor>m\<rfloor> * 1000000000 + \<lfloor>f * 1000000000\<rfloor>" by linarith
  moreover have "0 \<le> \<lfloor>m\<rfloor>" "\<lfloor>m\<rfloor> \<le> 2147483647" using m by (simp, linarith)
  ultimately show ?thesis using fl by (simp add: m_def)
qed

lemma sleep_loop_lasts:
  assumes "answers w = map (\<lambda>(s, n). Remaining s n) rs @ Success # as"
  shows "\<exists>w'. sleep_loop s ns w = Some w' \<and> answers w' = as \<and> transcript w' = transcript w
    @ zip (map (\<lambda>(s, n). Nanosleep s n) ((s, ns) # rs)) (map (\<lambda>(s, n). Remaining s n) rs @ [Success])"
  using assms
proof (induction rs arbitrary: s ns w)
  case Nil
  then show ?case by (subst sleep_loop.simps) (simp add: ask_def fits_def)
next
  case (Cons r rs)
  obtain s1 n1 where r: "r = (s1, n1)" by (cases r)
  define w1 where "w1 = \<lparr>answers = map (\<lambda>(s, n). Remaining s n) rs @ Success # as,
    transcript = transcript w @ [(Nanosleep s ns, Remaining s1 n1)]\<rparr>"
  have "ask (Nanosleep s ns) w = Some (Remaining s1 n1, w1)"
    using Cons.prems r by (simp add: ask_def fits_def w1_def)
  then have "sleep_loop s ns w = sleep_loop s1 n1 w1" by (subst sleep_loop.simps) simp
  then show ?case using Cons.IH [of w1 s1 n1] r by (simp add: w1_def)
qed

text \<open>C28: Sleeping lasts as long as asked, however often a signal interrupts it: for every real number of
  seconds the first \<open>nanosleep\<close> gets a valid \<open>timespec\<close>, zero for a negative number, 2147483647 seconds
  for a larger one, otherwise the number rounded down to the nanosecond; every interrupted one is
  followed by one for the time that the system says remains, and the function returns after the first
  that is not interrupted, with no other call.\<close>

theorem sleep_lasts:
  assumes "answers w = map (\<lambda>(s, n). Remaining s n) rs @ Success # as"
  shows "\<exists>s ns w'. timeout_lua_sleep x w = Some w' \<and> 0 \<le> s \<and> s \<le> 2147483647 \<and> 0 \<le> ns \<and> ns < 1000000000
    \<and> of_int (s * 1000000000 + ns) = (of_int \<lfloor>max 0 (min x 2147483647) * 1000000000\<rfloor> :: real)
    \<and> answers w' = as \<and> transcript w' = transcript w
      @ zip (map (\<lambda>(s, n). Nanosleep s n) ((s, ns) # rs)) (map (\<lambda>(s, n). Remaining s n) rs @ [Success])"
proof -
  obtain s ns where t: "sleep_time x = Some (s, ns)" "0 \<le> s" "s \<le> 2147483647" "0 \<le> ns" "ns < 1000000000"
    "of_int (s * 1000000000 + ns) = (of_int \<lfloor>max 0 (min x 2147483647) * 1000000000\<rfloor> :: real)"
    using sleep_time_valid [of x] by blast
  then show ?thesis using sleep_loop_lasts [OF assms, of s ns] by (auto simp: timeout_lua_sleep_def)
qed

theorem sleep_lasts_witness:
  "\<exists>s ns w'. timeout_lua_sleep 2 \<lparr>answers = [Remaining 1 7, Success], transcript = []\<rparr> = Some w'
    \<and> 0 \<le> s \<and> s \<le> 2147483647 \<and> 0 \<le> ns \<and> ns < 1000000000
    \<and> of_int (s * 1000000000 + ns) = (of_int \<lfloor>max 0 (min 2 2147483647) * 1000000000\<rfloor> :: real)
    \<and> answers w' = [] \<and> transcript w' = [(Nanosleep s ns, Remaining 1 7), (Nanosleep 1 7, Success)]"
  using sleep_lasts [of "\<lparr>answers = [Remaining 1 7, Success], transcript = []\<rparr>" "[(1, 7)]" "[]" 2] by simp

text \<open>A timeout of more than 2147483 seconds is not a long wait but an overflow: the conversion of
  the milliseconds to \<open>int\<close> is undefined.\<close>

lemma huge_timeout_undefined:
  assumes "2147484 \<le> tm_block tm" "tm_total tm < 0" "tm_start tm = of_int s" "answers w = Time s 0 # as"
  shows "socket_waitfd ps sw tm w = None"
proof -
  have "\<not> \<lfloor>tm_block tm * 1000\<rfloor> \<le> 2147483647" using assms(1) by linarith
  then have "c_int (tm_block tm * 1000) = None" using assms(1) by (simp add: c_int_def trunc_def)
  then show ?thesis
    using assms by (simp add: socket_waitfd_def timeout_iszero_def waitfd_loop.simps timeout_getretry_def
      timeout_gettime_def ask_def fits_def MAX_double_def)
qed

lemma huge_timeout_undefined_witness:
  "socket_waitfd 5 WAITFD_R \<lparr>tm_block = 2592000, tm_total = - 1, tm_start = 100\<rparr>
     \<lparr>answers = [Time 100 0, Revents 1], transcript = []\<rparr> = None"
  by (rule huge_timeout_undefined) simp_all

end
