(* ===== verification/Buffer.thy ===== *)
theory Buffer
  imports Usocket
begin

section \<open>Buffered input and output (luasocket, io.h and buffer.c)\<close>

text \<open>
  The objects a Lua program sends to and receives from. A \<open>t_io\<close> is the record of the function
  pointers of a transport, with their context already given. The \<open>t_timeout\<close> a buffer points to is a
  field of the buffer. The loops call an unknown transport, so that they are partial functions: a
  loop that never ends is \<open>None\<close>, as is a transport that writes outside of the buffer. A
  \<open>luaL_Buffer\<close> is the list of the bytes added so far; Lua numbers are integers here, and an argument
  error of the Lua library is \<open>Inl\<close> of its message.
\<close>

record t_io =
  io_send :: "bytes \<Rightarrow> t_timeout \<Rightarrow> world \<Rightarrow> (int \<times> nat \<times> world) option"
  io_recv :: "nat \<Rightarrow> t_timeout \<Rightarrow> world \<Rightarrow> (int \<times> bytes \<times> world) option"
  io_error :: "int \<Rightarrow> string option"

definition io_init ::
    "(bytes \<Rightarrow> t_timeout \<Rightarrow> world \<Rightarrow> (int \<times> nat \<times> world) option) \<Rightarrow>
     (nat \<Rightarrow> t_timeout \<Rightarrow> world \<Rightarrow> (int \<times> bytes \<times> world) option) \<Rightarrow> (int \<Rightarrow> string option) \<Rightarrow> t_io" where
  "io_init send recv err = \<lparr>io_send = send, io_recv = recv, io_error = err\<rparr>"

text \<open>The transports of \<open>tcp.c\<close> and \<open>serial.c\<close>.\<close>

definition tcp_io :: "(int \<Rightarrow> string) \<Rightarrow> int \<Rightarrow> t_io" where
  "tcp_io strerror ps = io_init (socket_send ps) (socket_recv ps) (socket_ioerror strerror ps)"

definition serial_io :: "(int \<Rightarrow> string) \<Rightarrow> int \<Rightarrow> t_io" where
  "serial_io strerror ps = io_init (socket_write ps) (socket_read ps) (socket_ioerror strerror ps)"

definition BUF_SIZE :: nat where "BUF_SIZE = 8192"
definition STEPSIZE :: nat where "STEPSIZE = 8192"

record t_buffer =
  birthday :: real
  sent :: "64 word"
  received :: "64 word"
  buf_tm :: t_timeout
  buf_first :: nat
  buf_last :: nat
  buf_data :: bytes

definition buffer_init :: "t_buffer \<Rightarrow> t_timeout \<Rightarrow> world \<Rightarrow> (t_buffer \<times> world) option" where
  "buffer_init buf tm w =
     do { (now, w) \<leftarrow> timeout_gettime w;
          Some (buf\<lparr>buf_first := 0, buf_last := 0, buf_tm := tm, received := 0, sent := 0, birthday := now\<rparr>, w) }"

definition buffer_isempty :: "t_buffer \<Rightarrow> bool" where
  "buffer_isempty buf \<longleftrightarrow> buf_first buf \<ge> buf_last buf"

subsection \<open>The read buffer\<close>

definition buffer_skip :: "t_buffer \<Rightarrow> nat \<Rightarrow> t_buffer" where
  "buffer_skip buf count =
     (let buf = buf\<lparr>received := received buf + of_nat count, buf_first := buf_first buf + count\<rparr> in
      if buffer_isempty buf then buf\<lparr>buf_first := 0, buf_last := 0\<rparr> else buf)"

text \<open>The code, the data available and the buffer after it. New data overwrites the start of the array.\<close>

definition buffer_get :: "t_io \<Rightarrow> t_buffer \<Rightarrow> world \<Rightarrow> (int \<times> bytes \<times> t_buffer \<times> world) option" where
  "buffer_get io buf w =
     do { (err, buf, w) \<leftarrow>
            (if buffer_isempty buf then
               do { (err, got, w) \<leftarrow> io_recv io BUF_SIZE (buf_tm buf) w;
                    if length got > BUF_SIZE then None
                    else Some (err, buf\<lparr>buf_data := got @ drop (length got) (buf_data buf),
                                        buf_first := 0, buf_last := length got\<rparr>, w) }
             else Some (IO_DONE, buf, w));
          Some (err, take (buf_last buf - buf_first buf) (drop (buf_first buf) (buf_data buf)), buf, w) }"

subsection \<open>The loops\<close>

partial_function (option) sendraw_loop ::
    "t_io \<Rightarrow> t_timeout \<Rightarrow> bytes \<Rightarrow> nat \<Rightarrow> int \<Rightarrow> world \<Rightarrow> (int \<times> nat \<times> world) option" where
  "sendraw_loop io tm data so_far err w =
     (if so_far < length data \<and> err = IO_DONE then
        (let step = (if length data - so_far \<le> STEPSIZE then length data - so_far else STEPSIZE) in
         do { (err, done, w) \<leftarrow> io_send io (take step (drop so_far data)) tm w;
              sendraw_loop io tm data (so_far + done) err w })
      else Some (err, so_far, w))"

definition sendraw :: "t_io \<Rightarrow> t_buffer \<Rightarrow> bytes \<Rightarrow> world \<Rightarrow> (int \<times> nat \<times> t_buffer \<times> world) option" where
  "sendraw io buf data w =
     do { (err, so_far, w) \<leftarrow> sendraw_loop io (buf_tm buf) data 0 IO_DONE w;
          Some (err, so_far, buf\<lparr>sent := sent buf + of_nat so_far\<rparr>, w) }"

partial_function (option) recvraw_loop ::
    "t_io \<Rightarrow> nat \<Rightarrow> nat \<Rightarrow> int \<Rightarrow> bytes \<Rightarrow> t_buffer \<Rightarrow> world \<Rightarrow> (int \<times> bytes \<times> t_buffer \<times> world) option" where
  "recvraw_loop io wanted so_far err b buf w =
     (if err = IO_DONE then
        do { (err, data, buf, w) \<leftarrow> buffer_get io buf w;
             let count = min (length data) (wanted - so_far);
             let b = b @ take count data;
             let buf = buffer_skip buf count;
             let so_far = so_far + count;
             if so_far \<ge> wanted then Some (err, b, buf, w) else recvraw_loop io wanted so_far err b buf w }
      else Some (err, b, buf, w))"

definition recvraw :: "t_io \<Rightarrow> t_buffer \<Rightarrow> nat \<Rightarrow> bytes \<Rightarrow> world \<Rightarrow> (int \<times> bytes \<times> t_buffer \<times> world) option" where
  "recvraw io buf wanted b w = recvraw_loop io wanted 0 IO_DONE b buf w"

partial_function (option) recvall_loop ::
    "t_io \<Rightarrow> nat \<Rightarrow> int \<Rightarrow> bytes \<Rightarrow> t_buffer \<Rightarrow> world \<Rightarrow> (int \<times> nat \<times> bytes \<times> t_buffer \<times> world) option" where
  "recvall_loop io so_far err b buf w =
     (if err = IO_DONE then
        do { (err, data, buf, w) \<leftarrow> buffer_get io buf w;
             recvall_loop io (so_far + length data) err (b @ data) (buffer_skip buf (length data)) w }
      else Some (err, so_far, b, buf, w))"

definition recvall :: "t_io \<Rightarrow> t_buffer \<Rightarrow> bytes \<Rightarrow> world \<Rightarrow> (int \<times> bytes \<times> t_buffer \<times> world) option" where
  "recvall io buf b w =
     do { (err, so_far, b, buf, w) \<leftarrow> recvall_loop io 0 IO_DONE b buf w;
          if err = IO_CLOSED then Some (if so_far > 0 then IO_DONE else IO_CLOSED, b, buf, w)
          else Some (err, b, buf, w) }"

text \<open>The inner loop of \<open>recvline\<close>: the bytes added, and the position where it stops.\<close>

fun line_scan :: "bytes \<Rightarrow> bytes \<Rightarrow> nat \<Rightarrow> bytes \<times> nat" where
  "line_scan [] b pos = (b, pos)"
| "line_scan (c # data) b pos =
     (if c \<noteq> 10 then line_scan data (if c \<noteq> 13 then b @ [c] else b) (pos + 1) else (b, pos))"

partial_function (option) recvline_loop ::
    "t_io \<Rightarrow> int \<Rightarrow> bytes \<Rightarrow> t_buffer \<Rightarrow> world \<Rightarrow> (int \<times> bytes \<times> t_buffer \<times> world) option" where
  "recvline_loop io err b buf w =
     (if err = IO_DONE then
        do { (err, data, buf, w) \<leftarrow> buffer_get io buf w;
             let (b, pos) = line_scan data b 0;
             if pos < length data then Some (err, b, buffer_skip buf (pos + 1), w)
             else recvline_loop io err b (buffer_skip buf pos) w }
      else Some (err, b, buf, w))"

definition recvline :: "t_io \<Rightarrow> t_buffer \<Rightarrow> bytes \<Rightarrow> world \<Rightarrow> (int \<times> bytes \<times> t_buffer \<times> world) option" where
  "recvline io buf b w = recvline_loop io IO_DONE b buf w"

declare sendraw_loop.simps [code] recvraw_loop.simps [code] recvall_loop.simps [code] recvline_loop.simps [code]

subsection \<open>The methods\<close>

definition buffer_meth_getstats :: "t_buffer \<Rightarrow> world \<Rightarrow> (nat \<times> nat \<times> real \<times> world) option" where
  "buffer_meth_getstats buf w =
     do { (now, w) \<leftarrow> timeout_gettime w;
          Some (unat (received buf), unat (sent buf), now - birthday buf, w) }"

definition buffer_meth_setstats ::
    "t_buffer \<Rightarrow> int option \<Rightarrow> int option \<Rightarrow> real option \<Rightarrow> world \<Rightarrow> (t_buffer \<times> world) option" where
  "buffer_meth_setstats buf arg2 arg3 arg4 w =
     (let buf = (case arg2 of None \<Rightarrow> buf | Some n \<Rightarrow> buf\<lparr>received := of_int n\<rparr>);
          buf = (case arg3 of None \<Rightarrow> buf | Some n \<Rightarrow> buf\<lparr>sent := of_int n\<rparr>) in
      case arg4 of
        None \<Rightarrow> Some (buf, w)
      | Some age \<Rightarrow> do { (now, w) \<leftarrow> timeout_gettime w; Some (buf\<lparr>birthday := now - age\<rparr>, w) })"

definition mark_start :: "t_buffer \<Rightarrow> world \<Rightarrow> (t_buffer \<times> world) option" where
  "mark_start buf w =
     do { (tm, w) \<leftarrow> timeout_markstart (buf_tm buf) w; Some (buf\<lparr>buf_tm := tm\<rparr>, w) }"

text \<open>The range of bytes that \<open>send\<close> was asked for: the first and the last index, counted from 1.\<close>

definition send_range :: "int \<Rightarrow> int \<Rightarrow> int \<Rightarrow> int \<times> int" where
  "send_range len start end' =
     (let start = (if start < 0 then len + start + 1 else start);
          end' = (if end' < 0 then len + end' + 1 else end');
          start = (if start < 1 then 1 else start);
          end' = (if end' > len then len else end')
      in (start, end'))"

text \<open>The three values pushed: the index of the last byte sent or \<open>nil\<close>, the error, and the index of
  the last byte sent before the error.\<close>

definition buffer_meth_send ::
    "t_io \<Rightarrow> t_buffer \<Rightarrow> bytes \<Rightarrow> int option \<Rightarrow> int option \<Rightarrow> world
      \<Rightarrow> ((int option \<times> string option \<times> int option) \<times> t_buffer \<times> world) option" where
  "buffer_meth_send io buf data arg3 arg4 w =
     (let len = int (length data);
          start = (case arg3 of None \<Rightarrow> 1 | Some n \<Rightarrow> n);
          end' = (case arg4 of None \<Rightarrow> - 1 | Some n \<Rightarrow> n) in
      do { (buf, w) \<leftarrow> mark_start buf w;
           let (start, end') = send_range len start end';
           (err, n, buf, w) \<leftarrow>
             (if start \<le> end' then sendraw io buf (take (nat (end' - start + 1)) (drop (nat (start - 1)) data)) w
              else Some (IO_DONE, 0, buf, w));
           if err \<noteq> IO_DONE then Some ((None, io_error io err, Some (int n + start - 1)), buf, w)
           else Some ((Some (int n + start - 1), None, None), buf, w) })"

datatype pattern = Pattern string | Count int

text \<open>The three values pushed: the data or \<open>nil\<close>, the error, and the partial data before the error.\<close>

definition buffer_meth_receive ::
    "t_io \<Rightarrow> t_buffer \<Rightarrow> pattern option \<Rightarrow> bytes option \<Rightarrow> world
      \<Rightarrow> (string + (bytes option \<times> string option \<times> bytes option) \<times> t_buffer \<times> world) option" where
  "buffer_meth_receive io buf arg2 arg3 w =
     (let part = (case arg3 of None \<Rightarrow> [] | Some s \<Rightarrow> s);
          len = length part;
          finish = (\<lambda>(err, b, buf, w).
            if err \<noteq> IO_DONE then Inr ((None, io_error io err, Some b), buf, w)
            else Inr ((Some b, None, None), buf, w)) in
      do { (buf, w) \<leftarrow> mark_start buf w;
           case (case arg2 of None \<Rightarrow> Pattern ''*l'' | Some p \<Rightarrow> p) of
             Pattern p \<Rightarrow>
               if take 2 p = ''*l'' then map_option finish (recvline io buf part w)
               else if take 2 p = ''*a'' then map_option finish (recvall io buf part w)
               else Some (Inl ''invalid receive pattern'')
           | Count n \<Rightarrow>
               if n < 0 then Some (Inl ''invalid receive pattern'')
               else (let wanted = nat n in
                 if len = 0 \<or> wanted > len then map_option finish (recvraw io buf (wanted - len) part w)
                 else Some (finish (IO_DONE, part, buf, w))) })"

end
