(* ===== verification/Buffer_Correct.thy ===== *)
theory Buffer_Correct
  imports Buffer Usocket_Correct
begin

section \<open>Buffered input and output over any transport\<close>

text \<open>
  What a transport has to promise is the locale \<open>io_driver\<close>; what \<open>buffer.c\<close> then does with the
  stream is proved inside it, once, and holds for the sockets (and the serial ports) by
  interpretation. The central notion is \<open>stream_step\<close>: an operation takes the bytes \<open>raw\<close> from the
  stream that consists of the unread part of the buffer followed by whatever the transport delivers.
\<close>

subsection \<open>The buffer as a piece of the stream\<close>

definition wf_buffer :: "t_buffer \<Rightarrow> bool" where
  "wf_buffer buf \<longleftrightarrow> buf_first buf \<le> buf_last buf \<and> buf_last buf \<le> length (buf_data buf) \<and> buf_last buf \<le> BUF_SIZE"

definition unread :: "t_buffer \<Rightarrow> bytes" where
  "unread buf = take (buf_last buf - buf_first buf) (drop (buf_first buf) (buf_data buf))"

definition stream_step ::
    "(world \<Rightarrow> bytes) \<Rightarrow> (world \<Rightarrow> bytes) \<Rightarrow> t_buffer \<Rightarrow> world \<Rightarrow> bytes \<Rightarrow> t_buffer \<Rightarrow> world \<Rightarrow> bool" where
  "stream_step got out buf w raw buf' w' \<longleftrightarrow>
     wf_buffer buf' \<and> (\<exists>new. got w' = got w @ new \<and> unread buf @ new = raw @ unread buf') \<and> out w' = out w
     \<and> received buf' = received buf + of_nat (length raw) \<and> sent buf' = sent buf"

lemma stream_step_refl: "wf_buffer buf \<Longrightarrow> stream_step got out buf w [] buf w"
  by (simp add: stream_step_def)

lemma stream_step_trans:
  assumes "stream_step got out buf w raw buf1 w1" "stream_step got out buf1 w1 raw' buf2 w2"
  shows "stream_step got out buf w (raw @ raw') buf2 w2"
proof -
  obtain new new' where n: "got w1 = got w @ new" "unread buf @ new = raw @ unread buf1"
    "got w2 = got w1 @ new'" "unread buf1 @ new' = raw' @ unread buf2"
    using assms by (auto simp: stream_step_def)
  have "unread buf @ new @ new' = (raw @ unread buf1) @ new'" using n(2) by simp
  also have "\<dots> = (raw @ raw') @ unread buf2" using n(4) by simp
  finally have "unread buf @ new @ new' = (raw @ raw') @ unread buf2" .
  then show ?thesis using assms n unfolding stream_step_def by (auto intro!: exI [of _ "new @ new'"])
qed

lemma length_unread: "wf_buffer buf \<Longrightarrow> length (unread buf) = buf_last buf - buf_first buf"
  by (auto simp: wf_buffer_def unread_def)

lemma buffer_skip_unread:
  assumes "wf_buffer buf" "n \<le> length (unread buf)"
  shows "wf_buffer (buffer_skip buf n)" "unread (buffer_skip buf n) = drop n (unread buf)"
    "received (buffer_skip buf n) = received buf + of_nat n" "sent (buffer_skip buf n) = sent buf"
    "buf_tm (buffer_skip buf n) = buf_tm buf"
  using assms length_unread [OF assms(1)]
  by (auto simp: buffer_skip_def buffer_isempty_def wf_buffer_def unread_def Let_def drop_take add.commute)

lemma line_scan_eq:
  "line_scan d b pos = (let l = takeWhile (\<lambda>c. c \<noteq> 10) d in (b @ filter (\<lambda>c. c \<noteq> 13) l, pos + length l))"
  by (induction d arbitrary: b pos) (auto simp: Let_def)

lemma takeWhile_stop:
  "length (takeWhile (\<lambda>c. c \<noteq> x) d) < length d \<Longrightarrow> take (length (takeWhile (\<lambda>c. c \<noteq> x) d) + 1) d = takeWhile (\<lambda>c. c \<noteq> x) d @ [x]"
  by (induction d) auto

text \<open>Reading a line: everything up to the next line feed, or up to an error, without carriage returns.\<close>

definition line_result ::
    "(world \<Rightarrow> bytes) \<Rightarrow> (world \<Rightarrow> bytes) \<Rightarrow> bytes \<Rightarrow> t_buffer \<Rightarrow> world \<Rightarrow> int \<times> bytes \<times> t_buffer \<times> world \<Rightarrow> bool" where
  "line_result got out b buf w = (\<lambda>(e, b', buf', w').
     \<exists>raw l. stream_step got out buf w raw buf' w' \<and> 10 \<notin> List.set l \<and> b' = b @ filter (\<lambda>c. c \<noteq> 13) l
       \<and> (if e = IO_DONE then raw = l @ [10] else raw = l \<and> unread buf' = []))"

lemma line_result_more:
  assumes "stream_step got out buf w l buf1 w1" "10 \<notin> List.set l" "line_result got out (b @ filter (\<lambda>c. c \<noteq> 13) l) buf1 w1 r"
  shows "line_result got out b buf w r"
proof -
  obtain e b' buf' w' raw l' where "r = (e, b', buf', w')" "stream_step got out buf1 w1 raw buf' w'" "10 \<notin> List.set l'"
    "b' = (b @ filter (\<lambda>c. c \<noteq> 13) l) @ filter (\<lambda>c. c \<noteq> 13) l'"
    "if e = IO_DONE then raw = l' @ [10] else raw = l' \<and> unread buf' = []"
    using assms(3) by (auto simp: line_result_def)
  then show ?thesis
    using assms(2) stream_step_trans [OF assms(1), of raw buf' w']
    unfolding line_result_def by (intro case_prodI2 exI [of _ "l @ raw"] exI [of _ "l @ l'"]) (auto split: if_splits)
qed

text \<open>Reading \<open>n\<close> bytes: all of them, or fewer and an error with nothing left unread. Only when no byte
  was asked for an error comes with all of them.\<close>

definition raw_result ::
    "(world \<Rightarrow> bytes) \<Rightarrow> (world \<Rightarrow> bytes) \<Rightarrow> nat \<Rightarrow> bytes \<Rightarrow> t_buffer \<Rightarrow> world \<Rightarrow> int \<times> bytes \<times> t_buffer \<times> world \<Rightarrow> bool" where
  "raw_result got out n b buf w = (\<lambda>(e, b', buf', w').
     \<exists>raw. stream_step got out buf w raw buf' w' \<and> b' = b @ raw
       \<and> (if e = IO_DONE then length raw = n else (length raw < n \<or> n = 0 \<and> raw = []) \<and> unread buf' = []))"

lemma raw_result_more:
  assumes "stream_step got out buf w raw buf1 w1" "raw_result got out (n - length raw) (b @ raw) buf1 w1 r" "length raw < n"
  shows "raw_result got out n b buf w r"
proof -
  obtain e b' buf' w' raw' where "r = (e, b', buf', w')" "stream_step got out buf1 w1 raw' buf' w'" "b' = (b @ raw) @ raw'"
    "if e = IO_DONE then length raw' = n - length raw else (length raw' < n - length raw \<or> n - length raw = 0 \<and> raw' = []) \<and> unread buf' = []"
    using assms(2) by (auto simp: raw_result_def)
  then show ?thesis
    using assms(3) stream_step_trans [OF assms(1), of raw' buf' w']
    unfolding raw_result_def by (intro case_prodI2 exI [of _ "raw @ raw'"]) (auto split: if_splits)
qed

text \<open>Reading to the end: the code is an error, and the count is the number of bytes read.\<close>

definition all_result ::
    "(world \<Rightarrow> bytes) \<Rightarrow> (world \<Rightarrow> bytes) \<Rightarrow> nat \<Rightarrow> bytes \<Rightarrow> t_buffer \<Rightarrow> world
      \<Rightarrow> int \<times> nat \<times> bytes \<times> t_buffer \<times> world \<Rightarrow> bool" where
  "all_result got out so_far b buf w = (\<lambda>(e, n, b', buf', w').
     \<exists>raw. stream_step got out buf w raw buf' w' \<and> b' = b @ raw \<and> n = so_far + length raw
       \<and> e \<noteq> IO_DONE \<and> unread buf' = [])"

lemma all_result_more:
  assumes "stream_step got out buf w raw buf1 w1" "all_result got out (so_far + length raw) (b @ raw) buf1 w1 r"
  shows "all_result got out so_far b buf w r"
proof -
  obtain e n b' buf' w' raw' where "r = (e, n, b', buf', w')" "stream_step got out buf1 w1 raw' buf' w'"
    "b' = (b @ raw) @ raw'" "n = (so_far + length raw) + length raw'" "e \<noteq> IO_DONE" "unread buf' = []"
    using assms(2) by (auto simp: all_result_def)
  then show ?thesis
    using stream_step_trans [OF assms(1), of raw' buf' w']
    unfolding all_result_def by (intro case_prodI2 exI [of _ "raw @ raw'"]) auto
qed

subsection \<open>What the methods reply\<close>

text \<open>A line without its line feed and without carriage returns, after the text given as a prefix.\<close>

definition line_reply ::
    "(world \<Rightarrow> bytes) \<Rightarrow> (world \<Rightarrow> bytes) \<Rightarrow> (int \<Rightarrow> string option) \<Rightarrow> bytes \<Rightarrow> t_buffer \<Rightarrow> world
      \<Rightarrow> bytes option \<times> string option \<times> bytes option \<Rightarrow> t_buffer \<Rightarrow> world \<Rightarrow> bool" where
  "line_reply got out msg b buf w vals buf' w' \<longleftrightarrow>
     (\<exists>raw l. stream_step got out buf w raw buf' w' \<and> 10 \<notin> List.set l
        \<and> (raw = l @ [10] \<and> vals = (Some (b @ filter (\<lambda>c. c \<noteq> 13) l), None, None) \<or>
           raw = l \<and> unread buf' = [] \<and> (\<exists>e. e \<noteq> IO_DONE \<and> vals = (None, msg e, Some (b @ filter (\<lambda>c. c \<noteq> 13) l)))))"

text \<open>A string of \<open>n\<close> bytes, the prefix included, or an error with fewer than \<open>n\<close>. A prefix of \<open>n\<close> bytes or
  more is returned as it is, with nothing read; only a request for no byte without a prefix can fail
  with all that was asked for.\<close>

definition count_reply ::
    "(world \<Rightarrow> bytes) \<Rightarrow> (world \<Rightarrow> bytes) \<Rightarrow> (int \<Rightarrow> string option) \<Rightarrow> nat \<Rightarrow> bytes \<Rightarrow> t_buffer \<Rightarrow> world
      \<Rightarrow> bytes option \<times> string option \<times> bytes option \<Rightarrow> t_buffer \<Rightarrow> world \<Rightarrow> bool" where
  "count_reply got out msg n b buf w vals buf' w' \<longleftrightarrow>
     (\<exists>raw. stream_step got out buf w raw buf' w'
        \<and> (length raw = n - length b \<and> vals = (Some (b @ raw), None, None) \<or>
           (length b + length raw < n \<or> n = 0 \<and> b = [] \<and> raw = []) \<and> unread buf' = [] \<and> (\<exists>e. e \<noteq> IO_DONE \<and> vals = (None, msg e, Some (b @ raw)))))"

text \<open>Everything up to the end of the stream; an end with no byte before it is an error.\<close>

definition all_reply ::
    "(world \<Rightarrow> bytes) \<Rightarrow> (world \<Rightarrow> bytes) \<Rightarrow> (int \<Rightarrow> string option) \<Rightarrow> bytes \<Rightarrow> t_buffer \<Rightarrow> world
      \<Rightarrow> bytes option \<times> string option \<times> bytes option \<Rightarrow> t_buffer \<Rightarrow> world \<Rightarrow> bool" where
  "all_reply got out msg b buf w vals buf' w' \<longleftrightarrow>
     (\<exists>raw e. stream_step got out buf w raw buf' w' \<and> unread buf' = [] \<and> e \<noteq> IO_DONE
        \<and> vals = (if e = IO_CLOSED \<and> raw \<noteq> [] then (Some (b @ raw), None, None) else (None, msg e, Some (b @ raw))))"

text \<open>The requested range of the data, as far as the transport accepted it, and where that ends.\<close>

definition send_reply ::
    "(world \<Rightarrow> bytes) \<Rightarrow> (world \<Rightarrow> bytes) \<Rightarrow> (int \<Rightarrow> string option) \<Rightarrow> bytes \<Rightarrow> int option \<Rightarrow> int option \<Rightarrow> t_buffer \<Rightarrow> world
      \<Rightarrow> int option \<times> string option \<times> int option \<Rightarrow> t_buffer \<Rightarrow> world \<Rightarrow> bool" where
  "send_reply got out msg data arg3 arg4 buf w vals buf' w' \<longleftrightarrow>
     (let (s, e) = send_range (int (length data)) (case arg3 of None \<Rightarrow> 1 | Some n \<Rightarrow> n) (case arg4 of None \<Rightarrow> - 1 | Some n \<Rightarrow> n);
          d = (if s \<le> e then take (nat (e - s + 1)) (drop (nat (s - 1)) data) else []) in
      \<exists>n \<le> length d. out w' = out w @ take n d \<and> got w' = got w \<and> unread buf' = unread buf
        \<and> sent buf' = sent buf + of_nat n \<and> received buf' = received buf
        \<and> (n = length d \<and> vals = (Some (int n + s - 1), None, None) \<or>
           (\<exists>err. err \<noteq> IO_DONE \<and> vals = (None, msg err, Some (int n + s - 1)))))"

subsection \<open>The contract of a transport\<close>

locale io_driver =
  fixes io :: t_io and got out :: "world \<Rightarrow> bytes"
  assumes recv_law: "io_recv io n tm w = Some (err, bs, w') \<Longrightarrow>
      length bs \<le> n \<and> got w' = got w @ bs \<and> out w' = out w \<and> (err = IO_DONE \<longleftrightarrow> bs \<noteq> [])"
    and send_law: "io_send io d tm w = Some (err, k, w') \<Longrightarrow>
      k \<le> length d \<and> out w' = out w @ take k d \<and> got w' = got w \<and> (err \<noteq> IO_DONE \<longrightarrow> k = 0)"
    and clock_law: "timeout_gettime w = Some (t, w') \<Longrightarrow> got w' = got w \<and> out w' = out w"
begin

lemma buffer_get_step:
  assumes "wf_buffer buf" "buffer_get io buf w = Some (err, d, buf1, w1)"
  shows "stream_step got out buf w [] buf1 w1" "d = unread buf1" "err = IO_DONE \<longleftrightarrow> d \<noteq> []"
proof -
  have "stream_step got out buf w [] buf1 w1 \<and> d = unread buf1 \<and> (err = IO_DONE \<longleftrightarrow> d \<noteq> [])"
  proof (cases "buffer_isempty buf")
    case True
    then have u: "unread buf = []" by (simp add: buffer_isempty_def unread_def)
    obtain bs where r: "io_recv io BUF_SIZE (buf_tm buf) w = Some (err, bs, w1)"
      and b: "buf1 = buf\<lparr>buf_data := bs @ drop (length bs) (buf_data buf), buf_first := 0, buf_last := length bs\<rparr>"
      and d: "d = bs"
      using assms(2) True by (auto simp: buffer_get_def bind_Some_iff split: if_splits)
    then show ?thesis using recv_law [OF r] u
      by (auto simp: stream_step_def wf_buffer_def unread_def)
  next
    case False
    then show ?thesis using assms length_unread [OF assms(1)]
      by (auto simp: buffer_get_def stream_step_refl unread_def buffer_isempty_def)
  qed
  then show "stream_step got out buf w [] buf1 w1" "d = unread buf1" "err = IO_DONE \<longleftrightarrow> d \<noteq> []" by simp_all
qed

lemma get_skip_step:
  assumes "wf_buffer buf" "buffer_get io buf w = Some (err, d, buf1, w1)" "n \<le> length d"
  shows "stream_step got out buf w (take n d) (buffer_skip buf1 n) w1"
    and "unread (buffer_skip buf1 n) = drop n d" and "wf_buffer (buffer_skip buf1 n)"
proof -
  note g = buffer_get_step [OF assms(1,2)]
  have w: "wf_buffer buf1" using g(1) by (simp add: stream_step_def)
  note s = buffer_skip_unread [OF w assms(3) [unfolded g(2)]]
  have "stream_step got out buf1 w1 (take n d) (buffer_skip buf1 n) w1"
    using s g(2) assms(3) by (simp add: stream_step_def)
  then show "stream_step got out buf w (take n d) (buffer_skip buf1 n) w1"
    using stream_step_trans [OF g(1)] by simp
  show "unread (buffer_skip buf1 n) = drop n d" "wf_buffer (buffer_skip buf1 n)" using s g(2) by simp_all
qed

subsubsection \<open>Lines\<close>

text \<open>One round: it finds the line feed, or takes everything there is.\<close>

lemma recvline_round:
  assumes "wf_buffer buf" "buffer_get io buf w = Some (e, d, buf1, w1)"
  defines "l \<equiv> takeWhile (\<lambda>c. c \<noteq> 10) d"
  shows "length l < length d \<Longrightarrow>
      line_result got out b buf w (e, b @ filter (\<lambda>c. c \<noteq> 13) l, buffer_skip buf1 (length l + 1), w1)"
    and "\<not> length l < length d \<Longrightarrow> wf_buffer (buffer_skip buf1 (length l)) \<and> unread (buffer_skip buf1 (length l)) = []
      \<and> (line_result got out (b @ filter (\<lambda>c. c \<noteq> 13) l) (buffer_skip buf1 (length l)) w1 r \<longrightarrow> line_result got out b buf w r)"
proof -
  have l: "10 \<notin> List.set l" "length l \<le> length d" "take (length l) d = l"
    using takeWhile_eq_take [of "\<lambda>c. c \<noteq> 10" d] by (auto simp: l_def length_takeWhile_le dest: set_takeWhileD)
  note step = get_skip_step [OF assms(1,2)]
  show "line_result got out b buf w (e, b @ filter (\<lambda>c. c \<noteq> 13) l, buffer_skip buf1 (length l + 1), w1)"
    if "length l < length d"
  proof -
    have "take (length l + 1) d = l @ [10]" unfolding l_def by (rule takeWhile_stop) (use that l_def in simp)
    moreover have "e = IO_DONE" using buffer_get_step(3) [OF assms(1,2)] that by auto
    ultimately show ?thesis using that l(1) step(1) [of "length l + 1"] by (auto simp: line_result_def)
  qed
  show "wf_buffer (buffer_skip buf1 (length l)) \<and> unread (buffer_skip buf1 (length l)) = []
      \<and> (line_result got out (b @ filter (\<lambda>c. c \<noteq> 13) l) (buffer_skip buf1 (length l)) w1 r \<longrightarrow> line_result got out b buf w r)"
    if "\<not> length l < length d"
  proof -
    have "drop (length l) d = []" using that by simp
    then show ?thesis
      using step [OF l(2)] line_result_more [OF _ l(1), of got out buf w "buffer_skip buf1 (length l)" w1 b r]
      unfolding l(3) by simp
  qed
qed

lemma recvline_loop_step:
  assumes "recvline_loop io err b buf w = Some r" "wf_buffer buf" "err \<noteq> IO_DONE \<longrightarrow> unread buf = []"
  shows "line_result got out b buf w r"
proof -
  define P where "P = (\<lambda>io' err b buf w r. io' = io \<and> wf_buffer buf \<and> (err \<noteq> IO_DONE \<longrightarrow> unread buf = [])
    \<longrightarrow> line_result got out b buf w r)"
  have "P io err b buf w r"
  proof (rule recvline_loop.raw_induct [OF _ assms(1)])
    fix loop io' err b buf w r
    assume IH: "\<And>io' err b buf w r. loop io' err b buf w = Some r \<Longrightarrow> P io' err b buf w r"
      and body: "(if err = IO_DONE
        then do { (err, data, buf, w) \<leftarrow> buffer_get io' buf w;
             let (b, pos) = line_scan data b 0;
             if pos < length data then Some (err, b, buffer_skip buf (pos + 1), w)
             else loop io' err b (buffer_skip buf pos) w }
        else Some (err, b, buf, w)) = Some r"
    have "line_result got out b buf w r"
      if io: "io' = io" and wf: "wf_buffer buf" and err: "err \<noteq> IO_DONE \<longrightarrow> unread buf = []"
    proof (cases "err = IO_DONE")
      case False
      then have "r = (err, b, buf, w)" using body by simp
      then show ?thesis using False wf err by (auto simp: line_result_def intro!: exI [of _ "[]"] stream_step_refl)
    next
      case True
      obtain e d buf1 w1 where g: "buffer_get io buf w = Some (e, d, buf1, w1)"
        and c: "(let (b, pos) = line_scan d b 0 in
          if pos < length d then Some (e, b, buffer_skip buf1 (pos + 1), w1)
          else loop io e b (buffer_skip buf1 pos) w1) = Some r"
        using body io True by (auto elim!: bind_SomeE)
      show ?thesis
        using c recvline_round [OF wf g] IH unfolding P_def
        by (auto simp: line_scan_eq Let_def split: if_splits)
    qed
    then show "P io' err b buf w r" by (simp add: P_def)
  qed
  then show ?thesis using assms by (simp add: P_def)
qed

subsubsection \<open>A number of bytes\<close>

lemma recvraw_loop_step:
  assumes "recvraw_loop io wanted so_far err b buf w = Some r" "wf_buffer buf" "so_far \<le> wanted"
    "err \<noteq> IO_DONE \<longrightarrow> unread buf = [] \<and> so_far < wanted"
  shows "raw_result got out (wanted - so_far) b buf w r"
proof -
  define P where "P = (\<lambda>io' (wanted::nat) so_far err b buf w r. io' = io \<and> wf_buffer buf \<and> so_far \<le> wanted
    \<and> (err \<noteq> IO_DONE \<longrightarrow> unread buf = [] \<and> so_far < wanted) \<longrightarrow> raw_result got out (wanted - so_far) b buf w r)"
  have "P io wanted so_far err b buf w r"
  proof (rule recvraw_loop.raw_induct [OF _ assms(1)])
    fix loop io' wanted so_far err b buf w r
    assume IH: "\<And>io' wanted so_far err b buf w r. loop io' wanted so_far err b buf w = Some r \<Longrightarrow> P io' wanted so_far err b buf w r"
      and body: "(if err = IO_DONE
        then do { (err, data, buf, w) \<leftarrow> buffer_get io' buf w;
             let count = min (length data) (wanted - so_far);
             let b = b @ take count data;
             let buf = buffer_skip buf count;
             let so_far = so_far + count;
             if so_far \<ge> wanted then Some (err, b, buf, w) else loop io' wanted so_far err b buf w }
        else Some (err, b, buf, w)) = Some r"
    have "raw_result got out (wanted - so_far) b buf w r"
      if io: "io' = io" and wf: "wf_buffer buf" and le: "so_far \<le> wanted"
        and err: "err \<noteq> IO_DONE \<longrightarrow> unread buf = [] \<and> so_far < wanted"
    proof (cases "err = IO_DONE")
      case False
      then have "r = (err, b, buf, w)" using body by simp
      then show ?thesis using False wf err by (auto simp: raw_result_def intro!: exI [of _ "[]"] stream_step_refl)
    next
      case True
      obtain e d buf1 w1 where g: "buffer_get io buf w = Some (e, d, buf1, w1)"
        and c: "(let count = min (length d) (wanted - so_far) in
          if so_far + count \<ge> wanted then Some (e, b @ take count d, buffer_skip buf1 count, w1)
          else loop io wanted (so_far + count) e (b @ take count d) (buffer_skip buf1 count) w1) = Some r"
        using body io True by (auto simp: Let_def elim!: bind_SomeE)
      define count where "count = min (length d) (wanted - so_far)"
      have cd: "count \<le> length d" "count \<le> wanted - so_far" by (simp_all add: count_def)
      note step = get_skip_step [OF wf g cd(1)] and e = buffer_get_step(3) [OF wf g]
      show ?thesis
      proof (cases "so_far + count \<ge> wanted")
        case True
        then have "count = wanted - so_far" using cd(2) by simp
        moreover have "r = (e, b @ take count d, buffer_skip buf1 count, w1)"
          using c True by (simp add: count_def [symmetric] Let_def)
        ultimately show ?thesis using step cd e by (auto simp: raw_result_def intro!: exI [of _ "take count d"])
      next
        case False
        then have "count = length d" by (simp add: count_def)
        then have "raw_result got out (wanted - so_far - count) (b @ take count d) (buffer_skip buf1 count) w1 r"
          using IH c False io step by (auto simp: P_def count_def [symmetric] Let_def)
        then show ?thesis using raw_result_more [OF step(1)] cd False by simp
      qed
    qed
    then show "P io' wanted so_far err b buf w r" by (simp add: P_def)
  qed
  then show ?thesis using assms by (simp add: P_def)
qed

subsubsection \<open>Everything\<close>

lemma recvall_loop_step:
  assumes "recvall_loop io so_far err b buf w = Some r" "wf_buffer buf" "err \<noteq> IO_DONE \<longrightarrow> unread buf = []"
  shows "all_result got out so_far b buf w r"
proof -
  define P where "P = (\<lambda>io' so_far err b buf w r. io' = io \<and> wf_buffer buf \<and> (err \<noteq> IO_DONE \<longrightarrow> unread buf = [])
    \<longrightarrow> all_result got out so_far b buf w r)"
  have "P io so_far err b buf w r"
  proof (rule recvall_loop.raw_induct [OF _ assms(1)])
    fix loop io' so_far err b buf w r
    assume IH: "\<And>io' so_far err b buf w r. loop io' so_far err b buf w = Some r \<Longrightarrow> P io' so_far err b buf w r"
      and body: "(if err = IO_DONE
        then do { (err, data, buf, w) \<leftarrow> buffer_get io' buf w;
             loop io' (so_far + length data) err (b @ data) (buffer_skip buf (length data)) w }
        else Some (err, so_far, b, buf, w)) = Some r"
    have "all_result got out so_far b buf w r"
      if io: "io' = io" and wf: "wf_buffer buf" and err: "err \<noteq> IO_DONE \<longrightarrow> unread buf = []"
    proof (cases "err = IO_DONE")
      case False
      then have "r = (err, so_far, b, buf, w)" using body by simp
      then show ?thesis using False wf err by (auto simp: all_result_def intro!: exI [of _ "[]"] stream_step_refl)
    next
      case True
      obtain e d buf1 w1 where g: "buffer_get io buf w = Some (e, d, buf1, w1)"
        and c: "loop io (so_far + length d) e (b @ d) (buffer_skip buf1 (length d)) w1 = Some r"
        using body io True by (auto elim!: bind_SomeE)
      note step = get_skip_step [OF wf g order.refl]
      show ?thesis using IH [OF c] step all_result_more [OF step(1)] by (simp add: P_def)
    qed
    then show "P io' so_far err b buf w r" by (simp add: P_def)
  qed
  then show ?thesis using assms by (simp add: P_def)
qed

subsubsection \<open>Sending\<close>

lemma sendraw_loop_outcome:
  assumes "sendraw_loop io tm data so_far err w = Some r" "so_far \<le> length data"
  shows "case r of (e, n, w') \<Rightarrow> so_far \<le> n \<and> n \<le> length data \<and> got w' = got w
    \<and> out w' = out w @ take (n - so_far) (drop so_far data) \<and> (e = IO_DONE \<longrightarrow> n = length data)"
proof -
  define P where "P = (\<lambda>io' (tm::t_timeout) (data::bytes) so_far (err::int) w r. io' = io \<and> so_far \<le> length data \<longrightarrow>
    (case r of (e, n, w') \<Rightarrow> so_far \<le> n \<and> n \<le> length data \<and> got w' = got w
    \<and> out w' = out w @ take (n - so_far) (drop so_far data) \<and> (e = IO_DONE \<longrightarrow> n = length data)))"
  have "P io tm data so_far err w r"
  proof (rule sendraw_loop.raw_induct [OF _ assms(1)])
    fix loop io' tm data so_far err w r
    assume IH: "\<And>io' tm data so_far err w r. loop io' tm data so_far err w = Some r \<Longrightarrow> P io' tm data so_far err w r"
      and body: "(if so_far < length data \<and> err = IO_DONE
        then let step = (if length data - so_far \<le> STEPSIZE then length data - so_far else STEPSIZE) in
          do { (err, done, w) \<leftarrow> io_send io' (take step (drop so_far data)) tm w;
               loop io' tm data (so_far + done) err w }
        else Some (err, so_far, w)) = Some r"
    show "P io' tm data so_far err w r"
      unfolding P_def
    proof (intro impI, elim conjE)
      assume io: "io' = io" and le: "so_far \<le> length data"
      show "case r of (e, n, w') \<Rightarrow> so_far \<le> n \<and> n \<le> length data \<and> got w' = got w
        \<and> out w' = out w @ take (n - so_far) (drop so_far data) \<and> (e = IO_DONE \<longrightarrow> n = length data)"
      proof (cases "so_far < length data \<and> err = IO_DONE")
        case False
        then show ?thesis using body le by (auto split: if_splits)
      next
        case True
        define step where "step = (if length data - so_far \<le> STEPSIZE then length data - so_far else STEPSIZE)"
        obtain e k w1 where s: "io_send io (take step (drop so_far data)) tm w = Some (e, k, w1)"
          and c: "loop io tm data (so_far + k) e w1 = Some r"
          using body io True by (auto simp: step_def [symmetric] Let_def elim!: bind_SomeE)
        have k: "k \<le> step" "so_far + k \<le> length data" using send_law [OF s] True by auto
        obtain e' n w' where r: "r = (e', n, w')" by (cases r)
        have n: "so_far + k \<le> n" "n \<le> length data" "got w' = got w1"
          "out w' = out w1 @ take (n - (so_far + k)) (drop (so_far + k) data)" "e' = IO_DONE \<longrightarrow> n = length data"
          using IH [OF c] k r by (auto simp: P_def)
        have "take k (drop so_far data) @ take (n - (so_far + k)) (drop (so_far + k) data) = take (n - so_far) (drop so_far data)"
          using n(1) take_add [of k "n - (so_far + k)" "drop so_far data"] by (simp add: add.commute)
        then show ?thesis using send_law [OF s] n k r True by (auto simp: min_def)
      qed
    qed
  qed
  then show ?thesis using assms by (simp add: P_def)
qed

subsubsection \<open>The methods\<close>

lemma mark_start_step:
  assumes "wf_buffer buf" "mark_start buf w = Some (buf1, w1)"
  shows "stream_step got out buf w [] buf1 w1" "wf_buffer buf1"
proof -
  obtain now where "timeout_gettime w = Some (now, w1)" "buf1 = buf\<lparr>buf_tm := (buf_tm buf)\<lparr>tm_start := now\<rparr>\<rparr>"
    using assms(2) by (auto simp: mark_start_def timeout_markstart_def elim!: bind_SomeE)
  then show "stream_step got out buf w [] buf1 w1" "wf_buffer buf1"
    using clock_law assms(1) by (auto simp: stream_step_def wf_buffer_def unread_def)
qed

lemma receive_line:
  assumes "wf_buffer buf" "buffer_meth_receive io buf None part w = Some (Inr (vals, buf', w'))"
  shows "line_reply got out (io_error io) (case part of None \<Rightarrow> [] | Some p \<Rightarrow> p) buf w vals buf' w'"
proof -
  define b where "b = (case part of None \<Rightarrow> [] | Some p \<Rightarrow> p)"
  obtain buf1 w1 e b' where m: "mark_start buf w = Some (buf1, w1)"
    and r: "recvline_loop io IO_DONE b buf1 w1 = Some (e, b', buf', w')"
    and v: "vals = (if e \<noteq> IO_DONE then (None, io_error io e, Some b') else (Some b', None, None))"
    using assms(2) unfolding b_def
    by (auto simp: buffer_meth_receive_def recvline_def Let_def elim!: bind_SomeE split: if_splits)
  note ms = mark_start_step [OF assms(1) m]
  obtain raw l where l: "stream_step got out buf1 w1 raw buf' w'" "10 \<notin> List.set l" "b' = b @ filter (\<lambda>c. c \<noteq> 13) l"
    "if e = IO_DONE then raw = l @ [10] else raw = l \<and> unread buf' = []"
    using recvline_loop_step [OF r ms(2)] by (auto simp: line_result_def)
  then show ?thesis using stream_step_trans [OF ms(1) l(1)] v
    unfolding line_reply_def b_def [symmetric] by (intro exI [of _ raw] exI [of _ l]) auto
qed

lemma receive_count:
  assumes "wf_buffer buf" "buffer_meth_receive io buf (Some (Count (int n))) part w = Some (Inr (vals, buf', w'))"
  shows "count_reply got out (io_error io) n (case part of None \<Rightarrow> [] | Some p \<Rightarrow> p) buf w vals buf' w'"
proof -
  define b where "b = (case part of None \<Rightarrow> [] | Some p \<Rightarrow> p)"
  obtain buf1 w1 where m: "mark_start buf w = Some (buf1, w1)"
    using assms(2) by (cases "mark_start buf w") (auto simp: buffer_meth_receive_def Let_def)
  note ms = mark_start_step [OF assms(1) m]
  show ?thesis
  proof (cases "length b = 0 \<or> n > length b")
    case True
    then obtain e b' where r: "recvraw_loop io (n - length b) 0 IO_DONE b buf1 w1 = Some (e, b', buf', w')"
      and v: "vals = (if e \<noteq> IO_DONE then (None, io_error io e, Some b') else (Some b', None, None))"
      using assms(2) m unfolding b_def
      by (auto simp: buffer_meth_receive_def recvraw_def Let_def elim!: bind_SomeE split: if_splits)
    obtain raw where "stream_step got out buf1 w1 raw buf' w'" "b' = b @ raw"
      "if e = IO_DONE then length raw = n - length b else (length raw < n - length b \<or> n - length b = 0 \<and> raw = []) \<and> unread buf' = []"
      using recvraw_loop_step [OF r ms(2)] by (auto simp: raw_result_def)
    then show ?thesis using stream_step_trans [OF ms(1), of raw buf' w'] v True
      unfolding count_reply_def b_def [symmetric] by (intro exI [of _ raw]) (auto split: if_splits)
  next
    case False
    then have "vals = (Some b, None, None) \<and> buf' = buf1 \<and> w' = w1"
      using assms(2) m unfolding b_def by (auto simp: buffer_meth_receive_def Let_def)
    then show ?thesis using ms(1) False unfolding count_reply_def b_def [symmetric] by (intro exI [of _ "[]"]) auto
  qed
qed

lemma receive_all:
  assumes "wf_buffer buf" "buffer_meth_receive io buf (Some (Pattern ''*a'')) part w = Some (Inr (vals, buf', w'))"
  shows "all_reply got out (io_error io) (case part of None \<Rightarrow> [] | Some p \<Rightarrow> p) buf w vals buf' w'"
proof -
  define b where "b = (case part of None \<Rightarrow> [] | Some p \<Rightarrow> p)"
  obtain buf1 w1 e n b' where m: "mark_start buf w = Some (buf1, w1)"
    and r: "recvall_loop io 0 IO_DONE b buf1 w1 = Some (e, n, b', buf', w')"
    and v: "vals = (if e = IO_CLOSED \<and> n > 0 then (Some b', None, None) else (None, io_error io e, Some b'))"
  proof -
    obtain buf1 w1 e n b' where m: "mark_start buf w = Some (buf1, w1)"
      and r: "recvall_loop io 0 IO_DONE b buf1 w1 = Some (e, n, b', buf', w')"
      and v: "vals = (let err = (if e = IO_CLOSED then if n > 0 then IO_DONE else IO_CLOSED else e) in
        if err \<noteq> IO_DONE then (None, io_error io err, Some b') else (Some b', None, None))"
      using assms(2) unfolding b_def
      by (auto simp: buffer_meth_receive_def recvall_def Let_def elim!: bind_SomeE split: if_splits)
    have "e \<noteq> IO_DONE" using recvall_loop_step [OF r mark_start_step(2) [OF assms(1) m]] by (auto simp: all_result_def)
    then show thesis using that [OF m r] v by (auto simp: Let_def split: if_splits)
  qed
  note ms = mark_start_step [OF assms(1) m]
  obtain raw where "stream_step got out buf1 w1 raw buf' w'" "b' = b @ raw" "n = length raw" "e \<noteq> IO_DONE" "unread buf' = []"
    using recvall_loop_step [OF r ms(2)] by (auto simp: all_result_def)
  then show ?thesis using stream_step_trans [OF ms(1), of raw buf' w'] v
    unfolding all_reply_def b_def [symmetric] by (intro exI [of _ raw]) auto
qed

lemma send_method:
  assumes "buffer_meth_send io buf data arg3 arg4 w = Some (vals, buf', w')"
  shows "send_reply got out (io_error io) data arg3 arg4 buf w vals buf' w'"
proof -
  obtain s e where se: "send_range (int (length data)) (case arg3 of None \<Rightarrow> 1 | Some n \<Rightarrow> n) (case arg4 of None \<Rightarrow> - 1 | Some n \<Rightarrow> n) = (s, e)"
    by fastforce
  define d where "d = (if s \<le> e then take (nat (e - s + 1)) (drop (nat (s - 1)) data) else [])"
  obtain buf1 w1 where m: "mark_start buf w = Some (buf1, w1)"
    using assms by (cases "mark_start buf w") (auto simp: buffer_meth_send_def Let_def)
  then obtain now where b1: "timeout_gettime w = Some (now, w1)" "buf1 = buf\<lparr>buf_tm := (buf_tm buf)\<lparr>tm_start := now\<rparr>\<rparr>"
    by (auto simp: mark_start_def timeout_markstart_def elim!: bind_SomeE)
  obtain err n where r: "sendraw_loop io (buf_tm buf1) d 0 IO_DONE w1 = Some (err, n, w')"
    and b': "buf' = buf1\<lparr>sent := sent buf1 + of_nat n\<rparr>"
    and v: "vals = (if err \<noteq> IO_DONE then (None, io_error io err, Some (int n + s - 1)) else (Some (int n + s - 1), None, None))"
  proof (cases "s \<le> e")
    case True
    then have "(do { (err, n, buf, w) \<leftarrow> sendraw io buf1 d w1;
         if err \<noteq> IO_DONE then Some ((None, io_error io err, Some (int n + s - 1)), buf, w)
         else Some ((Some (int n + s - 1), None, None), buf, w) }) = Some (vals, buf', w')"
      using assms by (simp add: buffer_meth_send_def m se d_def Let_def)
    then obtain err n buf2 w2 where n: "sendraw io buf1 d w1 = Some (err, n, buf2, w2)"
      "(if err \<noteq> IO_DONE then Some ((None, io_error io err, Some (int n + s - 1)), buf2, w2)
         else Some ((Some (int n + s - 1), None, None), buf2, w2)) = Some (vals, buf', w')"
      by (elim bind_SomeE) (auto split: prod.splits)
    have "buf2 = buf' \<and> w2 = w' \<and> vals = (if err \<noteq> IO_DONE then (None, io_error io err, Some (int n + s - 1))
        else (Some (int n + s - 1), None, None))"
      using n(2) by (auto split: if_splits)
    moreover have "sendraw_loop io (buf_tm buf1) d 0 IO_DONE w1 = Some (err, n, w2) \<and> buf2 = buf1\<lparr>sent := sent buf1 + of_nat n\<rparr>"
      using n(1) by (auto simp: sendraw_def elim!: bind_SomeE)
    ultimately show ?thesis using that by blast
  next
    case False
    have "sendraw_loop io (buf_tm buf1) d 0 IO_DONE w1 = Some (IO_DONE, 0, w1)"
      using False by (subst sendraw_loop.simps) (simp add: d_def)
    moreover have "vals = (Some (s - 1), None, None) \<and> buf' = buf1 \<and> w' = w1"
      using assms False by (auto simp: buffer_meth_send_def m se Let_def)
    ultimately show ?thesis by (intro that [of IO_DONE 0]) simp_all
  qed
  have o: "n \<le> length d" "out w' = out w @ take n d" "got w' = got w" "err = IO_DONE \<longrightarrow> n = length d"
    using sendraw_loop_outcome [OF r] clock_law [OF b1(1)] by auto
  have b: "unread buf' = unread buf" "sent buf' = sent buf + of_nat n" "received buf' = received buf"
    using b1(2) b' by (simp_all add: unread_def)
  have "n = length d \<and> vals = (Some (int n + s - 1), None, None) \<or>
    (\<exists>err. err \<noteq> IO_DONE \<and> vals = (None, io_error io err, Some (int n + s - 1)))"
    using v o(4) by auto
  then show ?thesis
    unfolding send_reply_def se Let_def prod.case d_def [symmetric] using o(1-3) b by (intro exI [of _ n] conjI)
qed

end

subsection \<open>The transports\<close>

text \<open>The contract holds for TCP sockets and for serial ports, whatever the system answers.\<close>

interpretation tcp: io_driver "tcp_io strerror ps" "taken ps" "written ps" for strerror ps
proof
  show "length bs \<le> n \<and> taken ps w' = taken ps w @ bs \<and> written ps w' = written ps w \<and> (err = IO_DONE \<longleftrightarrow> bs \<noteq> [])"
    if "io_recv (tcp_io strerror ps) n tm w = Some (err, bs, w')" for n tm w err bs w'
    using that receiver_outcome [of socket_recv ps n tm w err bs w'] by (simp add: tcp_io_def io_init_def)
  show "k \<le> length d \<and> written ps w' = written ps w @ take k d \<and> taken ps w' = taken ps w \<and> (err \<noteq> IO_DONE \<longrightarrow> k = 0)"
    if "io_send (tcp_io strerror ps) d tm w = Some (err, k, w')" for d tm w err k w'
    using that sender_outcome [of socket_send _ ps d tm w err k w'] by (simp add: tcp_io_def io_init_def)
  show "taken ps w' = taken ps w \<and> written ps w' = written ps w" if "timeout_gettime w = Some (t, w')" for w t w'
    using adds_silent [OF timeout_gettime_adds [OF that] waits_silent] by simp
qed

interpretation serial: io_driver "serial_io strerror ps" "taken ps" "written ps" for strerror ps
proof
  show "length bs \<le> n \<and> taken ps w' = taken ps w @ bs \<and> written ps w' = written ps w \<and> (err = IO_DONE \<longleftrightarrow> bs \<noteq> [])"
    if "io_recv (serial_io strerror ps) n tm w = Some (err, bs, w')" for n tm w err bs w'
    using that receiver_outcome [of socket_read ps n tm w err bs w'] by (simp add: serial_io_def io_init_def)
  show "k \<le> length d \<and> written ps w' = written ps w @ take k d \<and> taken ps w' = taken ps w \<and> (err \<noteq> IO_DONE \<longrightarrow> k = 0)"
    if "io_send (serial_io strerror ps) d tm w = Some (err, k, w')" for d tm w err k w'
    using that sender_outcome [of socket_write _ ps d tm w err k w'] by (simp add: serial_io_def io_init_def)
  show "taken ps w' = taken ps w \<and> written ps w' = written ps w" if "timeout_gettime w = Some (t, w')" for w t w'
    using adds_silent [OF timeout_gettime_adds [OF that] waits_silent] by simp
qed

end
