(* ===== verification/Buffer_Stream.thy ===== *)
theory Buffer_Stream
  imports Buffer_Correct
begin

section \<open>Receiving and sending over TCP\<close>

text \<open>
  The methods of a TCP object: what they reply, from the interpretation of \<open>io_driver\<close>, and that
  they do reply when the system delivers a stream in chunks. How the stream is cut into chunks does
  not matter for the lines and the contents that Lua sees.
\<close>

subsection \<open>What is replied\<close>

text \<open>C19: Receiving a line over TCP into a well-formed buffer: when the method replies, the reply is the
  next line of the stream (what was unread, then what the socket delivers) without its line feed and
  carriage returns, or an error with the partial line; no byte of the stream is lost, repeated or
  reordered, and the buffer stays within its bounds.\<close>

theorem tcp_receive_line:
  assumes "wf_buffer buf" "buffer_meth_receive (tcp_io strerror ps) buf None part w = Some (Inr (vals, buf', w'))"
  shows "line_reply (taken ps) (written ps) (io_error (tcp_io strerror ps)) (case part of None \<Rightarrow> [] | Some p \<Rightarrow> p)
    buf w vals buf' w'"
  using assms by (rule tcp.receive_line)

text \<open>C20: Receiving \<open>n\<close> bytes over TCP into a well-formed buffer: when the method replies, the reply has
  exactly \<open>n\<close> bytes, a given prefix counted, and just those were taken from the stream; a prefix of \<open>n\<close>
  bytes or more comes back as it is, with nothing taken. Or it is an error with fewer than \<open>n\<close> bytes and
  nothing left unread; only \<open>receive(0)\<close> without a prefix can fail with all the bytes asked for. The
  rest of the stream stays readable.\<close>

theorem tcp_receive_count:
  assumes "wf_buffer buf" "buffer_meth_receive (tcp_io strerror ps) buf (Some (Count (int n))) part w = Some (Inr (vals, buf', w'))"
  shows "count_reply (taken ps) (written ps) (io_error (tcp_io strerror ps)) n (case part of None \<Rightarrow> [] | Some p \<Rightarrow> p)
    buf w vals buf' w'"
  using assms by (rule tcp.receive_count)

text \<open>C21: Sending over TCP: of the requested range of the data a prefix goes out, in order and once,
  all of it if no error is reported; the index that is returned is the last one sent.\<close>

theorem tcp_send:
  assumes "buffer_meth_send (tcp_io strerror ps) buf data arg3 arg4 w = Some (vals, buf', w')"
  shows "send_reply (taken ps) (written ps) (io_error (tcp_io strerror ps)) data arg3 arg4 buf w vals buf' w'"
  using assms by (rule tcp.send_method)

definition fresh_buffer :: t_buffer where
  "fresh_buffer = \<lparr>birthday = 0, sent = 0, received = 0, buf_tm = \<lparr>tm_block = - 1, tm_total = - 1, tm_start = 0\<rparr>,
     buf_first = 0, buf_last = 0, buf_data = []\<rparr>"

definition world_of :: "answer list \<Rightarrow> world" where
  "world_of as = \<lparr>answers = as, transcript = []\<rparr>"

definition filled_buffer :: "bytes \<Rightarrow> t_buffer" where
  "filled_buffer d = fresh_buffer\<lparr>buf_last := length d, buf_data := d\<rparr>"

theorem tcp_receive_line_witness:
  "\<exists>vals buf' w'. buffer_meth_receive (tcp_io (\<lambda>_. []) 5) (filled_buffer [98, 13, 10, 99]) None (Some [97])
       (world_of [Time 0 0]) = Some (Inr (vals, buf', w'))
     \<and> line_reply (taken 5) (written 5) (io_error (tcp_io (\<lambda>_. []) 5)) [97] (filled_buffer [98, 13, 10, 99])
       (world_of [Time 0 0]) vals buf' w'"
proof -
  let ?b = "filled_buffer [98, 13, 10, 99]"
  have "(case buffer_meth_receive (tcp_io (\<lambda>_. []) 5) ?b None (Some [97]) (world_of [Time 0 0]) of Some (Inr r) \<Rightarrow> True | _ \<Rightarrow> False)"
    by code_simp
  then obtain vals buf' w' where r: "buffer_meth_receive (tcp_io (\<lambda>_. []) 5) ?b None (Some [97]) (world_of [Time 0 0])
      = Some (Inr (vals, buf', w'))"
    by (auto split: option.splits sum.splits)
  have "wf_buffer ?b" by (simp add: wf_buffer_def filled_buffer_def fresh_buffer_def BUF_SIZE_def)
  from tcp_receive_line [OF this r] show ?thesis using r by auto
qed

theorem tcp_receive_count_witness:
  "\<exists>vals buf' w'. buffer_meth_receive (tcp_io (\<lambda>_. []) 5) (filled_buffer [98, 99, 100]) (Some (Count (int 3))) (Some [97])
       (world_of [Time 0 0]) = Some (Inr (vals, buf', w'))
     \<and> count_reply (taken 5) (written 5) (io_error (tcp_io (\<lambda>_. []) 5)) 3 [97] (filled_buffer [98, 99, 100])
       (world_of [Time 0 0]) vals buf' w'"
proof -
  let ?b = "filled_buffer [98, 99, 100]"
  have "(case buffer_meth_receive (tcp_io (\<lambda>_. []) 5) ?b (Some (Count (int 3))) (Some [97]) (world_of [Time 0 0]) of
      Some (Inr r) \<Rightarrow> True | _ \<Rightarrow> False)"
    by code_simp
  then obtain vals buf' w' where r: "buffer_meth_receive (tcp_io (\<lambda>_. []) 5) ?b (Some (Count (int 3))) (Some [97])
      (world_of [Time 0 0]) = Some (Inr (vals, buf', w'))"
    by (auto split: option.splits sum.splits)
  have "wf_buffer ?b" by (simp add: wf_buffer_def filled_buffer_def fresh_buffer_def BUF_SIZE_def)
  from tcp_receive_count [OF this r] show ?thesis using r by auto
qed

theorem tcp_send_witness:
  "\<exists>vals buf' w'. buffer_meth_send (tcp_io (\<lambda>_. []) 5) fresh_buffer [97, 98, 99, 100] (Some 2) None
       (world_of [Time 0 0, Put 1, Fail EINTR, Fail EPIPE]) = Some (vals, buf', w')
     \<and> send_reply (taken 5) (written 5) (io_error (tcp_io (\<lambda>_. []) 5)) [97, 98, 99, 100] (Some 2) None fresh_buffer
       (world_of [Time 0 0, Put 1, Fail EINTR, Fail EPIPE]) vals buf' w'"
proof -
  let ?w = "world_of [Time 0 0, Put 1, Fail EINTR, Fail EPIPE]"
  have "(case buffer_meth_send (tcp_io (\<lambda>_. []) 5) fresh_buffer [97, 98, 99, 100] (Some 2) None ?w of Some r \<Rightarrow> True | _ \<Rightarrow> False)"
    by code_simp
  then obtain vals buf' w' where r: "buffer_meth_send (tcp_io (\<lambda>_. []) 5) fresh_buffer [97, 98, 99, 100] (Some 2) None ?w
      = Some (vals, buf', w')"
    by (auto split: option.splits)
  from tcp_send [OF r] show ?thesis using r by auto
qed

subsection \<open>A stream that arrives in chunks\<close>

definition chunks :: "bytes list \<Rightarrow> bool" where
  "chunks cs \<longleftrightarrow> (\<forall>c \<in> List.set cs. c \<noteq> [] \<and> length c \<le> BUF_SIZE)"

text \<open>The unread bytes and the chunks to come before the answers \<open>as\<close>.\<close>

definition coming :: "t_buffer \<Rightarrow> world \<Rightarrow> bytes list \<Rightarrow> answer list \<Rightarrow> bool" where
  "coming buf w cs as \<longleftrightarrow> wf_buffer buf \<and> chunks cs \<and> answers w = map Took cs @ as"

lemma tcp_io_recv:
  assumes "ps \<noteq> SOCKET_INVALID" "answers w = Took c # as" "length c \<le> BUF_SIZE"
  shows "\<exists>w'. io_recv (tcp_io strerror ps) BUF_SIZE tm w = Some (if c = [] then IO_CLOSED else IO_DONE, c, w') \<and> answers w' = as"
proof -
  have "ask (Recv ps BUF_SIZE) w = Some (Took c, w\<lparr>answers := as, transcript := transcript w @ [(Recv ps BUF_SIZE, Took c)]\<rparr>)"
    using assms by (simp add: ask_def fits_def)
  then show ?thesis
    using assms(1) by (simp add: tcp_io_def io_init_def socket_recv_def recv_loop.simps)
qed

lemma get_next:
  assumes "ps \<noteq> SOCKET_INVALID" "coming buf w cs as" "unread buf @ concat cs \<noteq> []"
  obtains d buf1 w1 cs1 where "buffer_get (tcp_io strerror ps) buf w = Some (IO_DONE, d, buf1, w1)" "d \<noteq> []"
    "unread buf @ concat cs = d @ concat cs1" "answers w1 = map Took cs1 @ as" "chunks cs1"
proof (cases "buffer_isempty buf")
  case True
  then have u: "unread buf = []" by (simp add: buffer_isempty_def unread_def)
  then obtain c cs1 where cs: "cs = c # cs1" using assms(3) by (cases cs) auto
  then have c: "c \<noteq> []" "length c \<le> BUF_SIZE" "chunks cs1" "answers w = Took c # map Took cs1 @ as"
    using assms(2) by (auto simp: coming_def chunks_def)
  obtain w1 where "io_recv (tcp_io strerror ps) BUF_SIZE (buf_tm buf) w = Some (IO_DONE, c, w1)" "answers w1 = map Took cs1 @ as"
    using tcp_io_recv [OF assms(1) c(4,2), of strerror "buf_tm buf"] c(1) by auto
  then show thesis using that [of c _ w1 cs1] True c cs u by (simp add: buffer_get_def)
next
  case False
  then have "unread buf \<noteq> []" "buffer_get (tcp_io strerror ps) buf w = Some (IO_DONE, unread buf, buf, w)"
    using assms(2) length_unread [of buf] by (auto simp: buffer_get_def unread_def buffer_isempty_def coming_def)
  then show thesis using that [of "unread buf" buf w cs] assms(2) by (simp add: coming_def)
qed

lemma get_end:
  assumes "ps \<noteq> SOCKET_INVALID" "wf_buffer buf" "unread buf = []" "answers w = Took [] # as"
  obtains buf1 w1 where "buffer_get (tcp_io strerror ps) buf w = Some (IO_CLOSED, [], buf1, w1)" "answers w1 = as"
proof -
  have e: "buffer_isempty buf" using assms(2,3) length_unread [of buf] by (simp add: buffer_isempty_def)
  obtain w1 where "io_recv (tcp_io strerror ps) BUF_SIZE (buf_tm buf) w = Some (IO_CLOSED, [], w1)" "answers w1 = as"
    using tcp_io_recv [OF assms(1,4), of strerror "buf_tm buf"] by auto
  then show thesis using that [of _ w1] e by (simp add: buffer_get_def)
qed

lemma recvline_delivers:
  assumes "ps \<noteq> SOCKET_INVALID" "10 \<notin> List.set l"
  shows "coming buf w cs as \<Longrightarrow> unread buf @ concat cs = l @ 10 # rest \<Longrightarrow>
    \<exists>buf' w' cs'. recvline_loop (tcp_io strerror ps) IO_DONE b buf w = Some (IO_DONE, b @ filter (\<lambda>c. c \<noteq> 13) l, buf', w')
      \<and> coming buf' w' cs' as \<and> unread buf' @ concat cs' = rest"
  using assms(2)
proof (induction "length l" arbitrary: l b buf w cs rule: less_induct)
  case less
  obtain d buf1 w1 cs1 where g: "buffer_get (tcp_io strerror ps) buf w = Some (IO_DONE, d, buf1, w1)" and "d \<noteq> []"
    and d: "l @ 10 # rest = d @ concat cs1" and w1: "answers w1 = map Took cs1 @ as" "chunks cs1"
    using get_next [OF assms(1) less.prems(1)] less.prems(2) by (metis append_is_Nil_conv list.distinct(1))
  have wf: "wf_buffer buf" using less.prems(1) by (simp add: coming_def)
  show ?case
  proof (cases "length l < length d")
    case True
    then obtain d2 where d2: "d = l @ 10 # d2" "rest = d2 @ concat cs1"
      using d by (auto simp: append_eq_append_conv2 append_eq_Cons_conv Cons_eq_append_conv)
    then have "takeWhile (\<lambda>c. c \<noteq> 10) d = l" using less.prems(3) unfolding d2(1) by (subst takeWhile_append2) auto
    then show ?thesis
      using True g w1 d2 tcp.get_skip_step [OF wf g, of "length l + 1"]
      by (subst recvline_loop.simps) (auto simp: line_scan_eq coming_def)
  next
    case False
    then obtain l2 where l2: "l = d @ l2" "concat cs1 = l2 @ 10 # rest"
      using d by (auto simp: append_eq_append_conv2 append_eq_Cons_conv Cons_eq_append_conv)
    have "takeWhile (\<lambda>c. c \<noteq> 10) d = d" using l2(1) less.prems(3) by (intro takeWhile_eq_all_conv [THEN iffD2]) auto
    then have "line_scan d b 0 = (b @ filter (\<lambda>c. c \<noteq> 13) d, length d)" by (simp only: line_scan_eq Let_def) simp
    moreover have "coming (buffer_skip buf1 (length d)) w1 cs1 as" "unread (buffer_skip buf1 (length d)) = []"
      using tcp.get_skip_step [OF wf g, of "length d"] w1 by (simp_all add: coming_def)
    moreover have "length l2 < length l" using l2(1) \<open>d \<noteq> []\<close> by simp
    ultimately show ?thesis
      using less.hyps [of l2 "buffer_skip buf1 (length d)" w1 cs1 "b @ filter (\<lambda>c. c \<noteq> 13) d"] l2 less.prems(3) g
      by (subst recvline_loop.simps) simp
  qed
qed

lemma recvall_delivers:
  assumes "ps \<noteq> SOCKET_INVALID"
  shows "coming buf w cs (Took [] # as) \<Longrightarrow>
    \<exists>buf' w'. recvall_loop (tcp_io strerror ps) n IO_DONE b buf w
        = Some (IO_CLOSED, n + length (unread buf @ concat cs), b @ unread buf @ concat cs, buf', w') \<and> answers w' = as"
proof (induction "length (unread buf @ concat cs)" arbitrary: n b buf w cs rule: less_induct)
  case less
  have wf: "wf_buffer buf" using less.prems by (simp add: coming_def)
  show ?case
  proof (cases "unread buf @ concat cs = []")
    case True
    then have cs: "cs = []" using less.prems by (cases cs) (auto simp: coming_def chunks_def)
    obtain buf1 w1 where "buffer_get (tcp_io strerror ps) buf w = Some (IO_CLOSED, [], buf1, w1)" "answers w1 = as"
      by (rule get_end [OF assms wf, of w as strerror]) (use True cs less.prems in \<open>simp_all add: coming_def\<close>)
    moreover have "IO_CLOSED \<noteq> IO_DONE" by (simp add: io_defs)
    ultimately show ?thesis using True by (subst recvall_loop.simps) (simp add: recvall_loop.simps [of _ _ IO_CLOSED])
  next
    case False
    obtain d buf1 w1 cs1 where g: "buffer_get (tcp_io strerror ps) buf w = Some (IO_DONE, d, buf1, w1)" and d: "d \<noteq> []"
      "unread buf @ concat cs = d @ concat cs1" and w1: "answers w1 = map Took cs1 @ Took [] # as" "chunks cs1"
      using get_next [OF assms less.prems False] by metis
    have c: "coming (buffer_skip buf1 (length d)) w1 cs1 (Took [] # as)" and u: "unread (buffer_skip buf1 (length d)) = []"
      using tcp.get_skip_step [OF wf g, of "length d"] w1 by (simp_all add: coming_def)
    have "length (unread (buffer_skip buf1 (length d)) @ concat cs1) < length (unread buf @ concat cs)"
      unfolding d(2) using d(1) u by simp
    from less.hyps [OF this c, of "n + length d" "b @ d"] show ?thesis
      using g unfolding d(2) by (subst recvall_loop.simps) (simp add: u add.assoc)
  qed
qed

lemma mark_start_coming:
  assumes "coming buf w1 cs as" "answers w = Time s us # answers w1" "0 \<le> us" "us < 1000000"
  obtains buf' w' where "mark_start buf w = Some (buf', w')" "coming buf' w' cs as" "unread buf' = unread buf"
  using assms
  by (auto simp: mark_start_def timeout_markstart_def timeout_gettime_def ask_def fits_def coming_def wf_buffer_def unread_def)

text \<open>C22: A line arrives: whenever a line feed is in what is unread or what the socket delivers, in
  whatever chunks, \<open>receive()\<close> returns the line before it, and exactly the bytes after the line feed
  are still to come.\<close>

theorem tcp_line_arrives:
  assumes "ps \<noteq> SOCKET_INVALID" "wf_buffer buf" "chunks cs" "answers w = Time s us # map Took cs @ as" "0 \<le> us" "us < 1000000"
    "unread buf @ concat cs = l @ 10 # rest" "10 \<notin> List.set l"
  shows "\<exists>buf' w' cs'. buffer_meth_receive (tcp_io strerror ps) buf None part w
      = Some (Inr ((Some ((case part of None \<Rightarrow> [] | Some p \<Rightarrow> p) @ filter (\<lambda>c. c \<noteq> 13) l), None, None), buf', w'))
    \<and> answers w' = map Took cs' @ as \<and> unread buf' @ concat cs' = rest"
proof -
  have "coming buf (w\<lparr>answers := map Took cs @ as\<rparr>) cs as" using assms(2,3) by (simp add: coming_def)
  then obtain buf1 w1 where m: "mark_start buf w = Some (buf1, w1)" "coming buf1 w1 cs as" "unread buf1 = unread buf"
    by (rule mark_start_coming [of _ _ _ _ w s us]) (use assms in simp_all)
  show ?thesis
    using recvline_delivers [OF assms(1,8) m(2), of rest strerror "case part of None \<Rightarrow> [] | Some p \<Rightarrow> p"] assms(7) m
    by (auto simp: buffer_meth_receive_def recvline_def coming_def Let_def)
qed

theorem tcp_line_arrives_witness:
  "\<exists>buf' w' cs'. buffer_meth_receive (tcp_io (\<lambda>_. []) 5) fresh_buffer None None
      (world_of [Time 7 0, Took [97], Took [98, 13], Took [10, 99]])
      = Some (Inr ((Some ((case None of None \<Rightarrow> [] | Some p \<Rightarrow> p) @ filter (\<lambda>c. c \<noteq> 13) [97, 98, 13]), None, None), buf', w'))
    \<and> answers w' = map Took cs' @ [] \<and> unread buf' @ concat cs' = [99]"
  by (rule tcp_line_arrives [of 5 fresh_buffer "[[97], [98, 13], [10, 99]]" _ 7 0])
    (simp_all add: SOCKET_INVALID_def wf_buffer_def fresh_buffer_def chunks_def BUF_SIZE_def world_of_def unread_def)

text \<open>C23: The whole stream: \<open>receive("*a")\<close> returns everything that is unread or arrives before the
  connection is closed, however it is cut into chunks; a stream that ends with nothing is an error.\<close>

theorem tcp_everything_arrives:
  assumes "ps \<noteq> SOCKET_INVALID" "wf_buffer buf" "chunks cs" "answers w = Time s us # map Took cs @ Took [] # as"
    "0 \<le> us" "us < 1000000"
  shows "\<exists>buf' w'. buffer_meth_receive (tcp_io strerror ps) buf (Some (Pattern ''*a'')) (Some part) w
      = Some (Inr (if unread buf @ concat cs = [] then (None, Some ''closed'', Some part)
                   else (Some (part @ unread buf @ concat cs), None, None), buf', w')) \<and> answers w' = as"
proof -
  have "coming buf (w\<lparr>answers := map Took cs @ Took [] # as\<rparr>) cs (Took [] # as)" using assms(2,3) by (simp add: coming_def)
  then obtain buf1 w1 where m: "mark_start buf w = Some (buf1, w1)" "coming buf1 w1 cs (Took [] # as)" "unread buf1 = unread buf"
    by (rule mark_start_coming [of _ _ _ _ w s us]) (use assms in simp_all)
  have "io_error (tcp_io strerror ps) IO_CLOSED = Some ''closed''"
    by (simp add: tcp_io_def io_init_def socket_ioerror_def socket_strerror_def io_strerror_def io_defs)
  moreover have "IO_CLOSED \<noteq> IO_DONE" by (simp add: io_defs)
  moreover obtain buf' w' where "recvall_loop (tcp_io strerror ps) 0 IO_DONE part buf1 w1
      = Some (IO_CLOSED, length (unread buf @ concat cs), part @ unread buf @ concat cs, buf', w')" "answers w' = as"
    using recvall_delivers [OF assms(1) m(2), of strerror 0 part] m(3) by auto
  ultimately show ?thesis
    using m(1) by (auto simp: buffer_meth_receive_def recvall_def Let_def)
qed

theorem tcp_everything_arrives_witness:
  "\<exists>buf' w'. buffer_meth_receive (tcp_io (\<lambda>_. []) 5) fresh_buffer (Some (Pattern ''*a'')) (Some [1])
      (world_of [Time 7 0, Took [97], Took [98, 13], Took [], Fail EPIPE])
      = Some (Inr (if unread fresh_buffer @ concat [[97], [98, 13]] = [] then (None, Some ''closed'', Some [1])
                   else (Some ([1] @ unread fresh_buffer @ concat [[97], [98, 13]]), None, None), buf', w'))
    \<and> answers w' = [Fail EPIPE]"
  by (rule tcp_everything_arrives [of 5 fresh_buffer "[[97], [98, 13]]" _ 7 0])
    (simp_all add: SOCKET_INVALID_def wf_buffer_def fresh_buffer_def chunks_def BUF_SIZE_def world_of_def)

end
