(* ===== verification/Lj_Char.thy ===== *)
theory Lj_Char
  imports Mime
begin

section \<open>Character classes of LuaJIT (lj_char.h, lj_char.c)\<close>

text \<open>The table has an entry for -1 in front; a macro reads the entry of its byte and masks it.\<close>

definition LJ_CHAR_SPACE :: u8 where "LJ_CHAR_SPACE = 0x02"
definition LJ_CHAR_DIGIT :: u8 where "LJ_CHAR_DIGIT = 0x08"
definition LJ_CHAR_XDIGIT :: u8 where "LJ_CHAR_XDIGIT = 0x10"

definition lj_char_bits :: bytes where
  "lj_char_bits = [
    0,
    1, 1, 1, 1, 1, 1, 1, 1, 1, 3, 3, 3, 3, 3, 1, 1,
    1, 1, 1, 1, 1, 1, 1, 1, 1, 1, 1, 1, 1, 1, 1, 1,
    2, 4, 4, 4, 4, 4, 4, 4, 4, 4, 4, 4, 4, 4, 4, 4,
    152, 152, 152, 152, 152, 152, 152, 152, 152, 152, 4, 4, 4, 4, 4, 4,
    4, 176, 176, 176, 176, 176, 176, 160, 160, 160, 160, 160, 160, 160, 160, 160,
    160, 160, 160, 160, 160, 160, 160, 160, 160, 160, 160, 4, 4, 4, 4, 132,
    4, 208, 208, 208, 208, 208, 208, 192, 192, 192, 192, 192, 192, 192, 192, 192,
    192, 192, 192, 192, 192, 192, 192, 192, 192, 192, 192, 4, 4, 4, 4, 1,
    128, 128, 128, 128, 128, 128, 128, 128, 128, 128, 128, 128, 128, 128, 128, 128,
    128, 128, 128, 128, 128, 128, 128, 128, 128, 128, 128, 128, 128, 128, 128, 128,
    128, 128, 128, 128, 128, 128, 128, 128, 128, 128, 128, 128, 128, 128, 128, 128,
    128, 128, 128, 128, 128, 128, 128, 128, 128, 128, 128, 128, 128, 128, 128, 128,
    128, 128, 128, 128, 128, 128, 128, 128, 128, 128, 128, 128, 128, 128, 128, 128,
    128, 128, 128, 128, 128, 128, 128, 128, 128, 128, 128, 128, 128, 128, 128, 128,
    128, 128, 128, 128, 128, 128, 128, 128, 128, 128, 128, 128, 128, 128, 128, 128,
    128, 128, 128, 128, 128, 128, 128, 128, 128, 128, 128, 128, 128, 128, 128, 128]"

definition lj_char_isa :: "u8 \<Rightarrow> u8 \<Rightarrow> bool" where
  "lj_char_isa c t \<longleftrightarrow> lj_char_bits ! (unat c + 1) AND t \<noteq> 0"

definition lj_char_isspace :: "u8 \<Rightarrow> bool" where
  "lj_char_isspace c = lj_char_isa c LJ_CHAR_SPACE"

definition lj_char_isdigit :: "u8 \<Rightarrow> bool" where
  "lj_char_isdigit c = lj_char_isa c LJ_CHAR_DIGIT"

subsection \<open>What the table says\<close>

text \<open>A statement about all bytes is a statement about 256 numbers.\<close>

lemma all_bytes:
  assumes "list_all (\<lambda>i. P (word_of_nat i :: u8)) [0..<256]"
  shows "P (c :: u8)"
proof -
  have "unat c < 256" using unsigned_less [of c, where ?'a = nat] by simp
  then have "unat c \<in> List.set [0..<256]" by simp
  then have "P (word_of_nat (unat c))" using assms unfolding list_all_iff by blast
  then show ?thesis by simp
qed

lemma lj_char_isspace_iff: "lj_char_isspace c \<longleftrightarrow> c \<in> {9, 10, 11, 12, 13, 32}"
  by (rule all_bytes [of _ c]) code_simp

lemma lj_char_isdigit_iff: "lj_char_isdigit c \<longleftrightarrow> 48 \<le> c \<and> c \<le> 57"
  by (rule all_bytes [of _ c]) code_simp

lemma lj_char_isxdigit_iff:
  "lj_char_isa c LJ_CHAR_XDIGIT \<longleftrightarrow> 48 \<le> c \<and> c \<le> 57 \<or> 65 \<le> c \<and> c \<le> 70 \<or> 97 \<le> c \<and> c \<le> 102"
  by (rule all_bytes [of _ c]) code_simp

end
