(* ===== verification/Lj_Strscan.thy ===== *)
theory Lj_Strscan
  imports Lj_Char
begin

section \<open>Scanning numbers (LuaJIT, lj_strscan.c)\<close>

text \<open>
  The conversion of strings to numbers that Lua's \<open>tonumber\<close> and lexer use. A string is the list of
  its bytes before the terminating zero; a pointer into it is an index, and a read behind the
  terminator is \<open>None\<close>. The conversion of a 63-bit integer to a double and its scaling by a power of
  two are left as the term \<open>Ldexp neg x ex2\<close>: the rounding is the hardware's. A negation of the least
  \<open>int32_t\<close> wraps. The loops over the circular buffer take fuel.
\<close>

datatype StrScanFmt =
    STRSCAN_ERROR | STRSCAN_NUM | STRSCAN_IMAG | STRSCAN_INT | STRSCAN_U32 | STRSCAN_I64 | STRSCAN_U64

text \<open>\<open>\<plusminus>(double)(int64_t)x * 2^ex2\<close>, the infinities and not-a-number.\<close>

datatype dbl = Ldexp bool "64 word" int | Pinf | Minf | Not_a_number

datatype TValue = Untouched | Val_i "32 word" | Val_u64 "64 word" | Val_n dbl

definition STRSCAN_OPT_TOINT :: "32 word" where "STRSCAN_OPT_TOINT = 0x01"
definition STRSCAN_OPT_TONUM :: "32 word" where "STRSCAN_OPT_TONUM = 0x02"
definition STRSCAN_OPT_IMAG :: "32 word" where "STRSCAN_OPT_IMAG = 0x04"
definition STRSCAN_OPT_LL :: "32 word" where "STRSCAN_OPT_LL = 0x08"
definition STRSCAN_OPT_C :: "32 word" where "STRSCAN_OPT_C = 0x10"

lemmas opt_defs = STRSCAN_OPT_TOINT_def STRSCAN_OPT_TONUM_def STRSCAN_OPT_IMAG_def STRSCAN_OPT_LL_def STRSCAN_OPT_C_def

definition has_opt :: "32 word \<Rightarrow> 32 word \<Rightarrow> bool" where
  "has_opt opt flag \<longleftrightarrow> opt AND flag \<noteq> 0"

subsection \<open>Reading\<close>

definition rd :: "bytes \<Rightarrow> nat \<Rightarrow> u8 option" where
  "rd s p = (if p < length s then Some (s ! p) else if p = length s then Some 0 else None)"

text \<open>\<open>*p != '.' ? *p : *++p\<close>, with the pointer after it.\<close>

definition rd_digit :: "bytes \<Rightarrow> nat \<Rightarrow> (u8 \<times> nat) option" where
  "rd_digit s p =
     do { c \<leftarrow> rd s p; if c \<noteq> 46 then Some (c, p) else do { c \<leftarrow> rd s (p + 1); Some (c, p + 1) } }"

definition casecmp :: "u8 \<Rightarrow> char \<Rightarrow> bool" where
  "casecmp c k \<longleftrightarrow> (c OR 0x20) = byte k"

text \<open>\<open>casecmp\<close> at successive positions, each read only if the ones before it matched.\<close>

fun casecmp_at :: "bytes \<Rightarrow> nat \<Rightarrow> string \<Rightarrow> bool option" where
  "casecmp_at s p [] = Some True"
| "casecmp_at s p (k # ks) =
     do { c \<leftarrow> rd s p; if casecmp c k then casecmp_at s (p + 1) ks else Some False }"

subsection \<open>Conversion to double\<close>

text \<open>The index of the highest bit set.\<close>

definition top_bit :: "64 word \<Rightarrow> nat" where
  "top_bit x = length (dropWhile Not (rev (map (bit x) [0..<64]))) - 1"

definition strscan_double :: "64 word \<Rightarrow> int \<Rightarrow> bool \<Rightarrow> TValue" where
  "strscan_double x ex2 neg =
     (let x =
        (if ex2 \<le> - 1075 \<and> x \<noteq> 0 then
           (let b = int (top_bit x) in
            if b + ex2 \<le> - 1023 \<and> b + ex2 \<ge> - 1075 then
              (let rb = push_bit (nat (- 1075 - ex2)) 1;
                   x = (if x AND rb \<noteq> 0 \<and> x AND (rb + rb + rb - 1) \<noteq> 0 then x + (rb + rb) else x)
               in x AND NOT (rb + rb - 1))
            else x)
         else x)
      in Val_n (Ldexp neg x ex2))"

text \<open>\<open>0x80000000u+neg\<close>, the bound of an \<open>int32_t\<close>, and the values stored.\<close>

definition int_limit :: "bool \<Rightarrow> 64 word" where
  "int_limit neg = (if neg then 0x80000001 else 0x80000000)"

definition signed32 :: "bool \<Rightarrow> 64 word \<Rightarrow> 32 word" where
  "signed32 neg x = (if neg then - ucast x else ucast x)"

definition signed64 :: "bool \<Rightarrow> 64 word \<Rightarrow> 64 word" where
  "signed64 neg x = (if neg then - x else x)"

subsection \<open>Hexadecimal\<close>

fun hex_loop :: "bytes \<Rightarrow> nat \<Rightarrow> nat \<Rightarrow> 64 word \<Rightarrow> (64 word \<times> nat) option" where
  "hex_loop s p 0 x = Some (x, p)"
| "hex_loop s p (Suc i) x =
     do { (c, p) \<leftarrow> rd_digit s p;
          let d = (ucast c :: 32 word);
          let d = (if d > 57 then d + 9 else d);
          hex_loop s (p + 1) i (push_bit 4 x + ucast (d AND 15)) }"

fun hex_excess :: "bytes \<Rightarrow> nat \<Rightarrow> nat \<Rightarrow> 64 word \<Rightarrow> int \<Rightarrow> (64 word \<times> int) option" where
  "hex_excess s p 0 x ex2 = Some (x, ex2)"
| "hex_excess s p (Suc i) x ex2 =
     do { (c, p) \<leftarrow> rd_digit s p;
          hex_excess s (p + 1) i (if c \<noteq> 48 then x OR 1 else x) (ex2 + 4) }"

definition strscan_hex ::
    "bytes \<Rightarrow> nat \<Rightarrow> StrScanFmt \<Rightarrow> 32 word \<Rightarrow> int \<Rightarrow> bool \<Rightarrow> nat \<Rightarrow> (StrScanFmt \<times> TValue) option" where
  "strscan_hex s p fmt opt ex2 neg dig =
     do { (x, p) \<leftarrow> hex_loop s p (if dig > 16 then 16 else dig) 0;
          (x, ex2) \<leftarrow> hex_excess s p (dig - 16) x ex2;
          let reduced = (\<lambda>fmt.
            let (x, ex2) = (if x AND 0xc000000000000000 \<noteq> 0 then (drop_bit 2 x OR (x AND 3), ex2 + 2) else (x, ex2))
            in (fmt, strscan_double x ex2 neg));
          let u32 = (if dig > 8 then (STRSCAN_ERROR, Untouched) else (STRSCAN_U32, Val_i (signed32 neg x)));
          Some (case fmt of
              STRSCAN_INT \<Rightarrow>
                if \<not> has_opt opt STRSCAN_OPT_TONUM \<and> x < int_limit neg then (STRSCAN_INT, Val_i (signed32 neg x))
                else if \<not> has_opt opt STRSCAN_OPT_C then reduced STRSCAN_NUM
                else u32
            | STRSCAN_U32 \<Rightarrow> u32
            | STRSCAN_I64 \<Rightarrow> if dig > 16 then (STRSCAN_ERROR, Untouched) else (fmt, Val_u64 (signed64 neg x))
            | STRSCAN_U64 \<Rightarrow> if dig > 16 then (STRSCAN_ERROR, Untouched) else (fmt, Val_u64 (signed64 neg x))
            | _ \<Rightarrow> reduced fmt) }"

subsection \<open>Octal\<close>

text \<open>The inner \<open>None\<close> is a character that is not an octal digit.\<close>

fun oct_loop :: "bytes \<Rightarrow> nat \<Rightarrow> nat \<Rightarrow> 64 word \<Rightarrow> 64 word option option" where
  "oct_loop s p 0 x = Some (Some x)"
| "oct_loop s p (Suc dig) x =
     do { c \<leftarrow> rd s p;
          if \<not> (c \<ge> 48 \<and> c \<le> 55) then Some None
          else oct_loop s (p + 1) dig (push_bit 3 x + ucast (c AND 7)) }"

definition strscan_oct :: "bytes \<Rightarrow> nat \<Rightarrow> StrScanFmt \<Rightarrow> bool \<Rightarrow> nat \<Rightarrow> (StrScanFmt \<times> TValue) option" where
  "strscan_oct s p fmt neg dig =
     do { c \<leftarrow> rd s p;
          if dig > 22 \<or> (dig = 22 \<and> c > 49) then Some (STRSCAN_ERROR, Untouched)
          else do { r \<leftarrow> oct_loop s p dig 0;
            Some (case r of
                None \<Rightarrow> (STRSCAN_ERROR, Untouched)
              | Some x \<Rightarrow>
                  if fmt \<in> {STRSCAN_INT, STRSCAN_U32} then
                    (let fmt = (if fmt = STRSCAN_INT \<and> x \<ge> int_limit neg then STRSCAN_U32 else fmt) in
                     if drop_bit 32 x \<noteq> 0 then (STRSCAN_ERROR, Untouched) else (fmt, Val_i (signed32 neg x)))
                  else (fmt, Val_u64 (signed64 neg x))) } }"

subsection \<open>Decimal\<close>

definition STRSCAN_MAXDIG :: nat where "STRSCAN_MAXDIG = 800"

definition dig15 :: "u8 \<Rightarrow> u8" where
  "dig15 c = c AND 15"

text \<open>Pairs of digits, two per byte; \<open>xi\<close> is what was written so far.\<close>

fun dec_pairs :: "bytes \<Rightarrow> nat \<Rightarrow> nat \<Rightarrow> bytes \<Rightarrow> (bytes \<times> nat) option" where
  "dec_pairs s p 0 xi = Some (xi, p)"
| "dec_pairs s p (Suc n) xi =
     do { (c, p) \<leftarrow> rd_digit s p;
          (c', p) \<leftarrow> rd_digit s (p + 1);
          dec_pairs s (p + 1) n (xi @ [10 * dig15 c + dig15 c']) }"

text \<open>Is there a digit other than zero among the excess ones?\<close>

fun dec_excess :: "bytes \<Rightarrow> nat \<Rightarrow> nat \<Rightarrow> bool option" where
  "dec_excess s p 0 = Some False"
| "dec_excess s p (Suc n) = do { (c, p) \<leftarrow> rd_digit s p; if c \<noteq> 48 then Some True else dec_excess s (p + 1) n }"

function dec_simplify :: "int \<Rightarrow> nat \<Rightarrow> bytes \<Rightarrow> int \<times> nat \<times> bytes" where
  "dec_simplify ex10 dig xi =
     (if ex10 > 0 \<and> dig \<le> 18 then dec_simplify (ex10 - 2) (dig + 2) (xi @ [0]) else (ex10, dig, xi))"
  by pat_completeness auto
termination by (relation "measure (\<lambda>(ex10, dig, xi). nat ex10)") auto

declare dec_simplify.simps [simp del]

text \<open>The digits in base 100 with the exponent and the number of digits.\<close>

definition dec_digits :: "bytes \<Rightarrow> nat \<Rightarrow> int \<Rightarrow> nat \<Rightarrow> (bytes \<times> int \<times> nat) option" where
  "dec_digits s p ex10 dig =
     (if dig = 0 then Some ([], 0, 0)
      else
        (let (i, ex10) = (if dig > STRSCAN_MAXDIG then (STRSCAN_MAXDIG, ex10 + int (dig - STRSCAN_MAXDIG)) else (dig, ex10)) in
         do { (xi, i, p) \<leftarrow>
                (if odd (ex10 + int i) then do { (c, p) \<leftarrow> rd_digit s p; Some ([dig15 c], i - 1, p + 1) }
                 else Some ([], i, p));
              (xi, p) \<leftarrow> dec_pairs s p (i div 2) xi;
              (xi, ex10, dig, p) \<leftarrow>
                (if odd i then do { (c, p) \<leftarrow> rd_digit s p; Some (xi @ [10 * dig15 c], ex10 - 1, dig + 1, p + 1) }
                 else Some (xi, ex10, dig, p));
              if dig > STRSCAN_MAXDIG then
                do { sticky \<leftarrow> dec_excess s p (dig - STRSCAN_MAXDIG);
                     Some (if sticky then butlast xi @ [last xi OR 1] else xi, ex10, STRSCAN_MAXDIG) }
              else
                (let (ex10, dig, xi) = dec_simplify ex10 dig xi in Some (xi, ex10, dig)) }))"

text \<open>The circular buffer of 512 bytes; what was not written is never read.\<close>

definition DNEXT :: "nat \<Rightarrow> nat" where "DNEXT a = (a + 1) mod 512"
definition DPREV :: "nat \<Rightarrow> nat" where "DPREV a = (a + 511) mod 512"
definition DLEN :: "nat \<Rightarrow> nat \<Rightarrow> nat" where "DLEN lo hi = (lo + 512 - hi) mod 512"

text \<open>Multiplication by 64: from the last byte to the first, with a carry.\<close>

fun scale_up_pass :: "nat \<Rightarrow> bytes \<Rightarrow> nat \<Rightarrow> nat \<Rightarrow> nat \<Rightarrow> 32 word \<Rightarrow> (bytes \<times> nat \<times> 32 word) option" where
  "scale_up_pass 0 xi hi lo i cy = None"
| "scale_up_pass (Suc fuel) xi hi lo i cy =
     (let d = push_bit 6 (ucast (xi ! i)) + cy;
          cy = drop_bit 17 (drop_bit 2 d * 5243);
          d = d - cy * 100;
          xi = xi[i := ucast d] in
      if i = hi then Some (xi, lo, cy)
      else scale_up_pass fuel xi hi (if d = 0 \<and> i = DPREV lo then i else lo) (DPREV i) cy)"

fun scale_up :: "nat \<Rightarrow> bytes \<Rightarrow> nat \<Rightarrow> nat \<Rightarrow> int \<Rightarrow> int \<Rightarrow> (bytes \<times> nat \<times> nat \<times> int \<times> int) option" where
  "scale_up 0 xi hi lo ex2 idig = None"
| "scale_up (Suc fuel) xi hi lo ex2 idig =
     (if idig < 9 \<and> idig < int (DLEN lo hi) then
        do { (xi, lo, cy) \<leftarrow> scale_up_pass 512 xi hi lo (DPREV lo) 0;
             if cy \<noteq> 0 then
               (let hi = DPREV hi;
                    (lo, xi) =
                      (if xi ! DPREV lo = 0 then (DPREV lo, xi)
                       else if hi = lo then
                         (let lo = DPREV lo in (lo, xi[DPREV lo := xi ! DPREV lo OR xi ! lo]))
                       else (lo, xi))
                in scale_up fuel (xi[hi := ucast cy]) hi lo (ex2 - 6) (idig + 1))
             else scale_up fuel xi hi lo (ex2 - 6) idig }
      else Some (xi, hi, lo, ex2, idig))"

text \<open>Division by 64: from the first byte to the last, then the remainder behind it.\<close>

fun scale_down_pass :: "nat \<Rightarrow> bytes \<Rightarrow> nat \<Rightarrow> nat \<Rightarrow> int \<Rightarrow> nat \<Rightarrow> 32 word \<Rightarrow> (bytes \<times> nat \<times> int \<times> 32 word) option" where
  "scale_down_pass 0 xi hi lo idig i cy = None"
| "scale_down_pass (Suc fuel) xi hi lo idig i cy =
     (let cy = cy + ucast (xi ! i);
          xi = xi[i := ucast (drop_bit 6 cy)];
          cy = 100 * (cy AND 0x3f);
          (hi, idig) = (if xi ! i = 0 \<and> i = hi then (DNEXT hi, idig - 1) else (hi, idig));
          i = DNEXT i in
      if i \<noteq> lo then scale_down_pass fuel xi hi lo idig i cy else Some (xi, hi, idig, cy))"

fun scale_down_carry :: "nat \<Rightarrow> bytes \<Rightarrow> nat \<Rightarrow> nat \<Rightarrow> 32 word \<Rightarrow> (bytes \<times> nat) option" where
  "scale_down_carry 0 xi hi lo cy = None"
| "scale_down_carry (Suc fuel) xi hi lo cy =
     (if cy = 0 then Some (xi, lo)
      else if hi = lo then Some (xi[DPREV lo := xi ! DPREV lo OR 1], lo)
      else scale_down_carry fuel (xi[lo := ucast (drop_bit 6 cy)]) hi (DNEXT lo) (100 * (cy AND 0x3f)))"

fun scale_down :: "nat \<Rightarrow> bytes \<Rightarrow> nat \<Rightarrow> nat \<Rightarrow> int \<Rightarrow> int \<Rightarrow> (bytes \<times> nat \<times> nat \<times> int \<times> int) option" where
  "scale_down 0 xi hi lo ex2 idig = None"
| "scale_down (Suc fuel) xi hi lo ex2 idig =
     (if idig > 9 then
        do { (xi, hi, idig, cy) \<leftarrow> scale_down_pass 512 xi hi lo idig hi 0;
             (xi, lo) \<leftarrow> scale_down_carry 512 xi hi lo cy;
             scale_down fuel xi hi lo (ex2 + 6) idig }
      else Some (xi, hi, lo, ex2, idig))"

text \<open>The integer part: its digits, then zeros, or the round bit of what follows.\<close>

fun collect :: "nat \<Rightarrow> bytes \<Rightarrow> nat \<Rightarrow> nat \<Rightarrow> int \<Rightarrow> 64 word \<Rightarrow> (64 word \<times> nat \<times> int) option" where
  "collect 0 xi lo i idig x = None"
| "collect (Suc fuel) xi lo i idig x =
     (let idig = idig - 1 in
      if idig > 0 \<and> i \<noteq> lo then collect fuel xi lo (DNEXT i) idig (x * 100 + ucast (xi ! i))
      else Some (x, i, idig))"

fun times_hundred :: "nat \<Rightarrow> 64 word \<Rightarrow> 64 word" where
  "times_hundred 0 x = x"
| "times_hundred (Suc n) x = times_hundred n (x * 100)"

fun sticky_bit :: "nat \<Rightarrow> bytes \<Rightarrow> nat \<Rightarrow> nat \<Rightarrow> 64 word \<Rightarrow> 64 word option" where
  "sticky_bit 0 xi lo i x = None"
| "sticky_bit (Suc fuel) xi lo i x =
     (if xi ! i \<noteq> 0 then Some (x OR 1)
      else (let i = DNEXT i in if i \<noteq> lo then sticky_bit fuel xi lo i x else Some x))"

definition dec_slow :: "bytes \<Rightarrow> int \<Rightarrow> bool \<Rightarrow> TValue option" where
  "dec_slow xs ex10 neg =
     (let lo = length xs; idig = int lo + ex10 div 2; xi = xs @ replicate (512 - lo) 0 in
      if idig > 155 then Some (Val_n (if neg then Minf else Pinf))
      else if idig < - 163 then Some (Val_n (Ldexp neg 0 0))
      else
        do { (xi, hi, lo, ex2, idig) \<leftarrow> scale_up 4096 xi 0 lo 0 idig;
             (xi, hi, lo, ex2, idig) \<leftarrow> scale_down 4096 xi hi lo ex2 idig;
             (x, i, idig) \<leftarrow> collect 512 xi lo (DNEXT hi) idig (ucast (xi ! hi));
             if i = lo then Some (strscan_double (times_hundred (nat idig) x) ex2 neg)
             else do { x \<leftarrow> sticky_bit 512 xi lo i (push_bit 1 x);
                       Some (strscan_double x (ex2 - 1) neg) } })"

definition strscan_dec ::
    "bytes \<Rightarrow> nat \<Rightarrow> StrScanFmt \<Rightarrow> 32 word \<Rightarrow> int \<Rightarrow> bool \<Rightarrow> nat \<Rightarrow> (StrScanFmt \<times> TValue) option" where
  "strscan_dec s p fmt opt ex10 neg dig =
     do { (xi, ex10, dig) \<leftarrow> dec_digits s p ex10 dig;
          let x0 = (if xi = [] then 0 else xi ! 0);
          let x = foldl (\<lambda>x d. x * 100 + ucast d) (ucast x0 :: 64 word) (tl xi);
          let slow =
            (if fmt = STRSCAN_INT \<and> has_opt opt STRSCAN_OPT_C \<or> fmt \<in> {STRSCAN_U32, STRSCAN_I64, STRSCAN_U64}
             then Some (STRSCAN_ERROR, Untouched)
             else map_option (\<lambda>o'. (if fmt = STRSCAN_INT then STRSCAN_NUM else fmt, o')) (dec_slow xi ex10 neg));
          let plain = (\<lambda>fmt. if bit x 63 then None else Some (fmt, Val_n (Ldexp neg x 0)));
          let u32 = (if drop_bit 32 x \<noteq> 0 then (STRSCAN_ERROR, Untouched) else (STRSCAN_U32, Val_i (signed32 neg x)));
          let fast =
            (if dig \<le> 20 \<and> ex10 = 0 \<and> \<not> (dig = 20 \<and> (x0 > 18 \<or> \<not> bit x 63)) then
               (case fmt of
                  STRSCAN_INT \<Rightarrow>
                    if \<not> has_opt opt STRSCAN_OPT_TONUM \<and> x < int_limit neg then Some (STRSCAN_INT, Val_i (signed32 neg x))
                    else if \<not> has_opt opt STRSCAN_OPT_C then plain STRSCAN_NUM
                    else Some u32
                | STRSCAN_U32 \<Rightarrow> Some u32
                | STRSCAN_I64 \<Rightarrow> Some (fmt, Val_u64 (signed64 neg x))
                | STRSCAN_U64 \<Rightarrow> Some (fmt, Val_u64 (signed64 neg x))
                | _ \<Rightarrow> plain fmt)
             else None);
          case fast of Some r \<Rightarrow> Some r | None \<Rightarrow> slow }"

subsection \<open>lj_strscan_scan\<close>

text \<open>\<open>while (lj_char_isspace(*p)) p++\<close>, which the terminator ends.\<close>

function skip_spaces :: "bytes \<Rightarrow> nat \<Rightarrow> nat" where
  "skip_spaces s p = (if p < length s \<and> lj_char_isspace (s ! p) then skip_spaces s (p + 1) else p)"
  by pat_completeness auto
termination by (relation "measure (\<lambda>(s, p). length s - p)") auto

declare skip_spaces.simps [simp del]

text \<open>A sign: whether it is a minus, and the position behind it.\<close>

definition scan_sign :: "bytes \<Rightarrow> nat \<Rightarrow> (bool \<times> nat) option" where
  "scan_sign s p = do { c \<leftarrow> rd s p; Some (if c = 43 \<or> c = 45 then (c = 45, p + 1) else (False, p)) }"

text \<open>The words for infinity and not-a-number, up to the end of the string.\<close>

definition scan_word :: "bytes \<Rightarrow> nat \<Rightarrow> bool \<Rightarrow> (StrScanFmt \<times> TValue) option" where
  "scan_word s p neg =
     do { inf \<leftarrow> casecmp_at s p ''inf'';
          (tmp, p) \<leftarrow>
            (if inf then
               do { inity \<leftarrow> casecmp_at s (p + 3) ''inity'';
                    Some (if neg then Minf else Pinf, if inity then p + 8 else p + 3) }
             else do { nan \<leftarrow> casecmp_at s p ''nan''; Some (Not_a_number, if nan then p + 3 else p) });
          c \<leftarrow> rd s (skip_spaces s p);
          Some (if c \<noteq> 0 then (STRSCAN_ERROR, Untouched) else (STRSCAN_NUM, Val_n tmp)) }"

text \<open>Leading zeros and a decimal point. The outer \<open>None\<close> is a read behind the string, the inner one the
  error of a second point; otherwise the position, the point and whether there was a digit.\<close>

function skip_zeros :: "bytes \<Rightarrow> nat \<Rightarrow> nat option \<Rightarrow> bool \<Rightarrow> (nat \<times> nat option \<times> bool) option option" where
  "skip_zeros s p dp hasdig =
     (if p > length s then None
      else if p < length s \<and> s ! p = 48 then skip_zeros s (p + 1) dp True
      else if p < length s \<and> s ! p = 46 then
        (if dp \<noteq> None then Some None else skip_zeros s (p + 1) (Some p) hasdig)
      else Some (Some (p, dp, hasdig)))"
  by pat_completeness auto
termination by (relation "measure (\<lambda>(s, p, dp, hasdig). length s - p)") auto

text \<open>The digits and a decimal point: the position, the point, the number of digits and their value.\<close>

function scan_digits ::
    "bytes \<Rightarrow> nat \<Rightarrow> u8 \<Rightarrow> nat option \<Rightarrow> nat \<Rightarrow> 32 word \<Rightarrow> (nat \<times> nat option \<times> nat \<times> 32 word) option option" where
  "scan_digits s p cmask dp dig x =
     (if p > length s then None
      else if p < length s \<and> lj_char_isa (s ! p) cmask then
        scan_digits s (p + 1) cmask dp (dig + 1) (x * 10 + ucast (s ! p AND 15))
      else if p < length s \<and> s ! p = 46 then
        (if dp \<noteq> None then Some None else scan_digits s (p + 1) cmask (Some p) dig x)
      else Some (Some (p, dp, dig, x)))"
  by pat_completeness auto
termination by (relation "measure (\<lambda>(s, p, cmask, dp, dig, x). length s - p)") auto

declare skip_zeros.simps [simp del] scan_digits.simps [simp del]

text \<open>Zeros at the end of the fraction, read backwards from \<open>dp\<close>.\<close>

fun strip_zeros :: "bytes \<Rightarrow> nat \<Rightarrow> nat \<Rightarrow> nat \<Rightarrow> nat \<times> nat" where
  "strip_zeros s dp 0 dig = (0, dig)"
| "strip_zeros s dp (Suc n) dig = (if s ! dp = 48 then strip_zeros s (dp - 1) n (dig - 1) else (Suc n, dig))"

function exp_digits :: "bytes \<Rightarrow> nat \<Rightarrow> 32 word \<Rightarrow> 32 word \<times> nat" where
  "exp_digits s p xx =
     (if p < length s \<and> lj_char_isdigit (s ! p)
      then exp_digits s (p + 1) (if xx < 65536 then xx * 10 + ucast (s ! p AND 15) else xx)
      else (xx, p))"
  by pat_completeness auto
termination by (relation "measure (\<lambda>(s, p, xx). length s - p)") auto

declare exp_digits.simps [simp del]

text \<open>The exponent after its letter; the inner \<open>None\<close> is an error.\<close>

definition scan_exponent :: "bytes \<Rightarrow> nat \<Rightarrow> (int \<times> nat) option option" where
  "scan_exponent s p =
     do { (negx, p) \<leftarrow> scan_sign s p;
          c \<leftarrow> rd s p;
          Some (if \<not> lj_char_isdigit c then None
                else (let (xx, p) = exp_digits s (p + 1) (ucast (c AND 15)) in
                  Some (if negx then - sint xx else sint xx, p))) }"

text \<open>The suffix; the inner \<open>None\<close> is an error. A \<open>long\<close> has eight bytes.\<close>

definition to_64 :: "StrScanFmt \<Rightarrow> StrScanFmt" where
  "to_64 fmt = (if fmt = STRSCAN_INT then STRSCAN_I64 else STRSCAN_U64)"

definition to_unsigned :: "StrScanFmt \<Rightarrow> StrScanFmt" where
  "to_unsigned fmt = (if fmt = STRSCAN_INT then STRSCAN_U32 else STRSCAN_U64)"

definition scan_suffix_letters :: "bytes \<Rightarrow> nat \<Rightarrow> 32 word \<Rightarrow> (StrScanFmt \<times> nat) option option" where
  "scan_suffix_letters s p opt =
     do { c \<leftarrow> rd s p;
          let (fmt, p) = (if casecmp c CHR ''u'' then (STRSCAN_U32, p + 1) else (STRSCAN_INT, p));
          c \<leftarrow> rd s p;
          r \<leftarrow> (if casecmp c CHR ''l'' then
                 do { c \<leftarrow> rd s (p + 1);
                      Some (if casecmp c CHR ''l'' then Some (to_64 fmt, p + 2)
                            else if \<not> has_opt opt STRSCAN_OPT_C then None
                            else Some (to_64 fmt, p + 1)) }
               else Some (Some (fmt, p)));
          case r of
            None \<Rightarrow> Some None
          | Some (fmt, p) \<Rightarrow>
              do { c \<leftarrow> rd s p;
                   let (fmt, p) =
                     (if casecmp c CHR ''u'' \<and> fmt \<in> {STRSCAN_INT, STRSCAN_I64} then (to_unsigned fmt, p + 1) else (fmt, p));
                   Some (if fmt = STRSCAN_U32 \<and> \<not> has_opt opt STRSCAN_OPT_C
                           \<or> fmt \<in> {STRSCAN_I64, STRSCAN_U64} \<and> \<not> has_opt opt STRSCAN_OPT_LL
                         then None else Some (fmt, p)) } }"

definition scan_suffix :: "bytes \<Rightarrow> nat \<Rightarrow> StrScanFmt \<Rightarrow> 32 word \<Rightarrow> StrScanFmt option option" where
  "scan_suffix s p fmt opt =
     do { c \<leftarrow> rd s p;
          if c = 0 then Some (Some fmt)
          else
            do { r \<leftarrow> (if casecmp c CHR ''i'' then
                        Some (if \<not> has_opt opt STRSCAN_OPT_IMAG then None else Some (STRSCAN_IMAG, p + 1))
                      else if fmt = STRSCAN_INT then scan_suffix_letters s p opt
                      else Some (Some (fmt, p)));
                 case r of
                   None \<Rightarrow> Some None
                 | Some (fmt, p) \<Rightarrow>
                     do { c \<leftarrow> rd s (skip_spaces s p); Some (if c \<noteq> 0 then None else Some fmt) } } }"

text \<open>From the first digit or point on. \<open>num2int n\<close> is the integer a double is equal to, if it is an
  \<open>int32_t\<close>: the test of the option \<open>TOINT\<close>, which belongs to the hardware's arithmetic.\<close>

definition dispatch ::
    "(dbl \<Rightarrow> 32 word option) \<Rightarrow> bytes \<Rightarrow> nat \<Rightarrow> nat \<Rightarrow> StrScanFmt \<Rightarrow> 32 word \<Rightarrow> int \<Rightarrow> bool \<Rightarrow> nat \<Rightarrow> (StrScanFmt \<times> TValue) option" where
  "dispatch num2int s sp base fmt opt ex neg dig =
     (if base = 0 \<and> \<not> (fmt = STRSCAN_NUM \<or> fmt = STRSCAN_IMAG) then strscan_oct s sp fmt neg dig
      else
        do { (fmt, o') \<leftarrow> (if base = 16 then strscan_hex s sp fmt opt ex neg dig else strscan_dec s sp fmt opt ex neg dig);
             case o' of
               Val_n n \<Rightarrow>
                 if fmt = STRSCAN_NUM \<and> has_opt opt STRSCAN_OPT_TOINT then
                   (case num2int n of Some i \<Rightarrow> Some (STRSCAN_INT, Val_i i) | None \<Rightarrow> Some (fmt, o'))
                 else Some (fmt, o')
             | _ \<Rightarrow> Some (fmt, o') })"

text \<open>\<open>(double)y\<close> of an \<open>int32_t\<close>.\<close>

definition dbl_of_int :: "32 word \<Rightarrow> dbl" where
  "dbl_of_int y = Ldexp (sint y < 0) (word_of_int \<bar>sint y\<bar>) 0"

definition scan_number ::
    "(dbl \<Rightarrow> 32 word option) \<Rightarrow> bytes \<Rightarrow> nat \<Rightarrow> 32 word \<Rightarrow> bool \<Rightarrow> (StrScanFmt \<times> TValue) option" where
  "scan_number num2int s p opt neg =
     do { c \<leftarrow> rd s p;
          let base = (if has_opt opt STRSCAN_OPT_C \<and> c = 48 then 0 else 10 :: nat);
          (base, cmask, z) \<leftarrow>
            (if c \<le> 48 then
               do { hex \<leftarrow> (if c = 48 then casecmp_at s (p + 1) ''x'' else Some False);
                    let (base, cmask, p) = (if hex then (16, LJ_CHAR_XDIGIT, p + 2) else (base, LJ_CHAR_DIGIT, p));
                    z \<leftarrow> skip_zeros s p None False;
                    Some (base, cmask, z) }
             else Some (base, LJ_CHAR_DIGIT, Some (p, None, False)));
          case z of
            None \<Rightarrow> Some (STRSCAN_ERROR, Untouched)
          | Some (sp, dp, hasdig) \<Rightarrow>
              do { d \<leftarrow> scan_digits s sp cmask dp 0 0;
                   case d of
                     None \<Rightarrow> Some (STRSCAN_ERROR, Untouched)
                   | Some (p, dp, dig, x) \<Rightarrow>
                       if \<not> hasdig \<and> dig = 0 then Some (STRSCAN_ERROR, Untouched)
                       else
                         (let (fmt, ex, dig) =
                            (case dp of
                               None \<Rightarrow> (STRSCAN_INT, 0, dig)
                             | Some dp \<Rightarrow>
                                 if dig \<noteq> 0 then
                                   (let (n, dig) = strip_zeros s (p - 1) (p - 1 - dp) dig;
                                        ex = - int n
                                    in (STRSCAN_NUM, if base = 16 then ex * 4 else ex, dig))
                                 else (STRSCAN_NUM, 0, dig))
                          in
                            do { c \<leftarrow> rd s p;
                                 e \<leftarrow> (if casecmp c (if base = 16 then CHR ''p'' else CHR ''e'') then
                                        do { e \<leftarrow> scan_exponent s (p + 1);
                                             Some (map_option (\<lambda>(xx, p). (STRSCAN_NUM, ex + xx, p)) e) }
                                      else Some (Some (fmt, ex, p)));
                                 case e of
                                   None \<Rightarrow> Some (STRSCAN_ERROR, Untouched)
                                 | Some (fmt, ex, p) \<Rightarrow>
                                     do { f \<leftarrow> scan_suffix s p fmt opt;
                                          case f of
                                            None \<Rightarrow> Some (STRSCAN_ERROR, Untouched)
                                          | Some fmt \<Rightarrow>
                                              do { c0 \<leftarrow> rd s sp;
                                                   if fmt = STRSCAN_INT \<and> base = 10
                                                     \<and> (dig < 10 \<or> (dig = 10 \<and> c0 \<le> 50 \<and> x < (if neg then 0x80000001 else 0x80000000)))
                                                   then (let y = (if neg then - x else x) in
                                                     Some (if has_opt opt STRSCAN_OPT_TONUM then (STRSCAN_NUM, Val_n (dbl_of_int y))
                                                           else (STRSCAN_INT, Val_i y)))
                                                   else dispatch num2int s sp base fmt opt ex neg dig } } }) } }"

definition lj_strscan_scan :: "(dbl \<Rightarrow> 32 word option) \<Rightarrow> bytes \<Rightarrow> 32 word \<Rightarrow> (StrScanFmt \<times> TValue) option" where
  "lj_strscan_scan num2int s opt =
     do { c \<leftarrow> rd s 0;
          if \<not> lj_char_isdigit c then
            do { (neg, p) \<leftarrow> scan_sign s (skip_spaces s 0);
                 c \<leftarrow> rd s p;
                 if c \<ge> 65 then scan_word s p neg else scan_number num2int s p opt neg }
          else scan_number num2int s 0 opt False }"

text \<open>The string of a Lua string object ends for the scanner at its first zero byte.\<close>

definition strdata :: "bytes \<Rightarrow> bytes" where
  "strdata str = takeWhile (\<lambda>c. c \<noteq> 0) str"

definition lj_strscan_num :: "(dbl \<Rightarrow> 32 word option) \<Rightarrow> bytes \<Rightarrow> (bool \<times> TValue) option" where
  "lj_strscan_num num2int str =
     do { (fmt, o') \<leftarrow> lj_strscan_scan num2int (strdata str) STRSCAN_OPT_TONUM; Some (fmt \<noteq> STRSCAN_ERROR, o') }"

definition lj_strscan_number :: "(dbl \<Rightarrow> 32 word option) \<Rightarrow> bytes \<Rightarrow> (bool \<times> TValue) option" where
  "lj_strscan_number num2int str =
     do { (fmt, o') \<leftarrow> lj_strscan_scan num2int (strdata str) STRSCAN_OPT_TOINT; Some (fmt \<noteq> STRSCAN_ERROR, o') }"

end
