(* ===== verification/Lj_Strscan_Correct.thy ===== *)
theory Lj_Strscan_Correct
  imports Lj_Strscan Cron_Text
begin

section \<open>What the number scanner computes\<close>

text \<open>
  The decimal text of every 32-bit integer is scanned to that integer; the hexadecimal digits of a
  number are summed up correctly; and two places where the scanner's result is not the nearest
  double: the sign of zero, and numbers of exactly 800 digits.
\<close>

subsection \<open>Digits\<close>

lemma dig15_byte: "d < 10 \<Longrightarrow> ucast (byte (digit_char d) AND 15) = (of_nat d :: 32 word)"
proof -
  have "list_all (\<lambda>d. ucast (byte (digit_char d) AND 15) = (of_nat d :: 32 word)) [0..<10]" by code_simp
  then show "d < 10 \<Longrightarrow> ?thesis" by (simp add: list_all_iff)
qed

lemma byte_digit: "d < 10 \<Longrightarrow> 48 \<le> byte (digit_char d) \<and> byte (digit_char d) \<le> 57"
proof -
  have "list_all (\<lambda>d. 48 \<le> byte (digit_char d) \<and> byte (digit_char d) \<le> 57) [0..<10]" by code_simp
  then show "d < 10 \<Longrightarrow> ?thesis" by (simp add: list_all_iff)
qed

lemma byte_digit_zero: "d < 10 \<Longrightarrow> byte (digit_char d) = 48 \<Longrightarrow> digit_char d = CHR ''0''"
proof -
  have "list_all (\<lambda>d. byte (digit_char d) = 48 \<longrightarrow> digit_char d = CHR ''0'') [0..<10]" by code_simp
  then show "d < 10 \<Longrightarrow> byte (digit_char d) = 48 \<Longrightarrow> ?thesis" by (simp add: list_all_iff)
qed

lemma dec_bytes_digit: "c \<in> List.set (map byte (dec_nat n)) \<Longrightarrow> lj_char_isa c LJ_CHAR_DIGIT \<and> 48 \<le> c"
  using dec_nat_digits byte_digit lj_char_isdigit_iff [unfolded lj_char_isdigit_def] by auto

lemma scan_digits_all:
  "(\<forall>c \<in> List.set ds. lj_char_isa c m) \<Longrightarrow> s = pre @ ds \<Longrightarrow>
     scan_digits s (length pre) m None dig x
       = Some (Some (length s, None, dig + length ds, foldl (\<lambda>x c. x * 10 + ucast (c AND 15)) x ds))"
proof (induction ds arbitrary: pre dig x)
  case Nil
  then show ?case by (subst scan_digits.simps) simp
next
  case (Cons c ds)
  then show ?case
    using Cons.IH [of "pre @ [c]" "dig + 1" "x * 10 + ucast (c AND 15)"]
    by (subst scan_digits.simps) simp
qed

lemma dec_bytes_value: "foldl (\<lambda>x c. x * 10 + ucast (c AND 15)) 0 (map byte (dec_nat n)) = (of_nat n :: 32 word)"
proof (induction n rule: dec_nat.induct)
  case (1 n)
  show ?case
  proof (cases "n < 10")
    case True
    then show ?thesis by (subst dec_nat.simps) (simp add: dig15_byte)
  next
    case False
    have "(of_nat n :: 32 word) = of_nat (n div 10) * 10 + of_nat (n mod 10)"
      by (metis div_mult_mod_eq of_nat_add of_nat_mult of_nat_numeral)
    then show ?thesis using 1 False by (subst dec_nat.simps) (simp add: dig15_byte)
  qed
qed

lemma digits_value_head: "val * 10 ^ length s \<le> foldl (\<lambda>v c. v * 10 + the (digit_val c)) val s"
proof (induction s arbitrary: val)
  case (Cons c s)
  have "val * 10 ^ length (c # s) \<le> (val * 10 + the (digit_val c)) * 10 ^ length s" by (simp add: algebra_simps)
  also have "\<dots> \<le> foldl (\<lambda>v c. v * 10 + the (digit_val c)) (val * 10 + the (digit_val c)) s" by (rule Cons)
  finally show ?case by simp
qed simp

text \<open>A number of ten digits below three thousand million starts with 1 or 2.\<close>

lemma dec_nat_first:
  assumes "length (dec_nat n) = 10" "n < 3000000000"
  shows "byte (hd (dec_nat n)) \<le> 50"
proof -
  obtain c s where cs: "dec_nat n = c # s" by (cases "dec_nat n") auto
  obtain d where d: "d < 10" "c = digit_char d" using dec_nat_digits [of c n] cs by auto
  have "d * 10 ^ length s \<le> digits_value 10 (dec_nat n)"
    using digits_value_head [of d s] d cs by (simp add: digits_value_def)
  moreover have "length s = 9" using assms(1) cs by simp
  ultimately have "d < 3" using assms(2) by simp
  then have "d = 0 \<or> d = 1 \<or> d = 2" by auto
  then show ?thesis using cs d(2) by (auto simp: digit_char_def byte_def code_def)
qed

subsection \<open>Integers\<close>

lemma rd_end [simp]: "rd s (length s) = Some 0"
  by (simp add: rd_def)

lemma casecmp_0 [simp]: "casecmp 0 CHR ''e'' = False" "casecmp 0 CHR ''x'' = False"
  by code_simp+

lemma scan_number_dec:
  assumes "n < (if neg then 2147483649 else 2147483648)" "s = pre @ map byte (dec_nat n)" "\<not> has_opt opt STRSCAN_OPT_C"
  shows "scan_number num2int s (length pre) opt neg
    = Some (let y = (if neg then - of_nat n else of_nat n) in
        if has_opt opt STRSCAN_OPT_TONUM then (STRSCAN_NUM, Val_n (dbl_of_int y)) else (STRSCAN_INT, Val_i y))"
proof -
  define ds where "ds = map byte (dec_nat n)"
  obtain c ds' where ds: "ds = c # ds'" unfolding ds_def by (cases "dec_nat n") auto
  have c: "c = byte (hd (dec_nat n))" "48 \<le> c" using ds dec_bytes_digit [of c n] unfolding ds_def by (cases "dec_nat n"; auto)+
  have rdc: "rd s (length pre) = Some c" using assms(2) ds by (simp add: rd_def ds_def)
  have suffix: "scan_suffix s (length s) STRSCAN_INT opt = Some (Some STRSCAN_INT)" by (simp add: scan_suffix_def)
  show ?thesis
  proof (cases "n = 0")
    case True
    then have s: "s = pre @ [48]" using assms(2) by (simp add: dec_nat.simps [of 0] digit_char_def byte_def code_def)
    have z: "skip_zeros s (length pre) None False = Some (Some (length s, None, True))"
      using s by (subst skip_zeros.simps, simp) (subst skip_zeros.simps, simp)
    have d: "scan_digits s (length s) LJ_CHAR_DIGIT None 0 0 = Some (Some (length s, None, 0, 0))"
      by (subst scan_digits.simps) simp
    have "rd s (length pre) = Some 48" "casecmp_at s (length pre + 1) ''x'' = Some False" using s by (simp_all add: rd_def)
    then show ?thesis using z d suffix assms(3) True by (simp add: scan_number_def Let_def)
  next
    case False
    moreover obtain d where "d < 10" "hd (dec_nat n) = digit_char d" using dec_nat_digits [of "hd (dec_nat n)" n] by auto
    ultimately have "c \<noteq> 48" using dec_nat_head [of n] byte_digit_zero [of d] c(1) by auto
    then have c48: "\<not> c \<le> 48" using c(2) by (meson order_antisym)
    have d: "scan_digits s (length pre) LJ_CHAR_DIGIT None 0 0 = Some (Some (length s, None, length ds, of_nat n))"
      using scan_digits_all [of ds LJ_CHAR_DIGIT s pre 0 0] dec_bytes_digit [of _ n] assms(2) dec_bytes_value [of n]
      by (auto simp: ds_def)
    have len: "length ds \<le> 10" using length_dec_nat [of 10 n] assms(1) by (auto simp: ds_def split: if_splits)
    have "(of_nat n :: 32 word) < (if neg then 0x80000001 else 0x80000000)"
      using assms(1) by (auto simp: word_less_nat_alt unat_of_nat split: if_splits)
    moreover have "length ds = 10 \<Longrightarrow> c \<le> 50"
      using dec_nat_first [of n] assms(1) c(1) by (auto simp: ds_def split: if_splits)
    ultimately have fast: "length ds < 10 \<or> (length ds = 10 \<and> c \<le> 50 \<and> (of_nat n :: 32 word) < (if neg then 0x80000001 else 0x80000000))"
      using len by auto
    have "length ds \<noteq> 0" using ds by simp
    then show ?thesis using rdc c48 d suffix assms(3) fast by (simp add: scan_number_def Let_def)
  qed
qed

text \<open>C29: Round trip: the decimal text of every 32-bit integer is scanned to that integer, as an
  integer or, on request, as the double with its value; nothing behind the text is read.\<close>

theorem strscan_int_roundtrip:
  "lj_strscan_scan num2int (map byte (dec (sint y))) 0 = Some (STRSCAN_INT, Val_i y)
   \<and> lj_strscan_scan num2int (map byte (dec (sint y))) STRSCAN_OPT_TONUM = Some (STRSCAN_NUM, Val_n (dbl_of_int y))"
proof -
  have b: "- 2147483648 \<le> sint y" "sint y < 2147483648"
    using sint_greater_eq [of y] sint_less [of y] by simp_all
  have o: "\<not> has_opt 0 STRSCAN_OPT_C" "\<not> has_opt STRSCAN_OPT_TONUM STRSCAN_OPT_C" "\<not> has_opt 0 STRSCAN_OPT_TONUM"
    "has_opt STRSCAN_OPT_TONUM STRSCAN_OPT_TONUM" by (simp_all add: has_opt_def opt_defs)
  have scan: "lj_strscan_scan num2int (map byte (dec (sint y))) opt
      = Some (if has_opt opt STRSCAN_OPT_TONUM then (STRSCAN_NUM, Val_n (dbl_of_int y)) else (STRSCAN_INT, Val_i y))"
    if opt: "\<not> has_opt opt STRSCAN_OPT_C" for opt
  proof (cases "sint y < 0")
    case True
    define n where "n = nat (- sint y)"
    have n: "n < 2147483649" "(of_nat n :: 32 word) = - y" "n > 0" using b True by (auto simp: n_def)
    define s where "s = [45] @ map byte (dec_nat n)"
    have s: "map byte (dec (sint y)) = s" using True by (simp add: dec_def s_def n_def byte_def code_def)
    obtain c ds where cs: "map byte (dec_nat n) = c # ds" by (cases "dec_nat n") auto
    have "c \<in> List.set (map byte (dec_nat n))" using cs by simp
    then have c: "48 \<le> c" "c \<le> 57" using dec_bytes_digit [of c n] lj_char_isdigit_iff [of c] by (auto simp: lj_char_isdigit_def)
    have sp: "skip_spaces s 0 = 0" "scan_sign s 0 = Some (True, 1)" "rd s 0 = Some 45" "rd s 1 = Some c"
      using cs by (simp_all add: skip_spaces.simps s_def lj_char_isspace_iff scan_sign_def rd_def)
    have "\<not> c \<ge> 65" using c by (auto simp: word_le_nat_alt)
    moreover have "\<not> lj_char_isdigit 45" by (simp add: lj_char_isdigit_iff)
    ultimately show ?thesis
      using sp scan_number_dec [of n True s "[45]" opt num2int] n opt
      by (simp add: s lj_strscan_scan_def s_def Let_def)
  next
    case False
    define n where "n = nat (sint y)"
    have n: "n < 2147483648" "(of_nat n :: 32 word) = y" using b False by (auto simp: n_def)
    define s where "s = [] @ map byte (dec_nat n)"
    have s: "map byte (dec (sint y)) = s" using False by (simp add: dec_def s_def n_def)
    obtain c ds where cs: "map byte (dec_nat n) = c # ds" by (cases "dec_nat n") auto
    have "c \<in> List.set (map byte (dec_nat n))" using cs by simp
    then have "lj_char_isdigit c" using dec_bytes_digit [of c n] by (simp add: lj_char_isdigit_def)
    moreover have "rd s 0 = Some c" using cs by (simp add: s_def rd_def)
    ultimately show ?thesis
      using scan_number_dec [of n False s "[]" opt num2int] n opt
      by (simp add: s lj_strscan_scan_def s_def Let_def)
  qed
  show ?thesis using scan [OF o(1)] scan [OF o(2)] o(3,4) by simp
qed

text \<open>The sign of zero depends on how it is written: the integer \<open>-0\<close> gives plus zero, while
  \<open>-0.0\<close> gives minus zero.\<close>

lemma minus_zero_loses_sign:
  "lj_strscan_num num2int (map byte ''-0'') = Some (True, Val_n (Ldexp False 0 0))
   \<and> lj_strscan_num num2int (map byte ''-0.0'') = Some (True, Val_n (Ldexp True 0 0))"
  by code_simp

subsection \<open>Hexadecimal numbers\<close>

text \<open>The value of a hexadecimal digit, and of a string of them.\<close>

definition hex_digit_value :: "u8 \<Rightarrow> nat" where
  "hex_digit_value c = (if c \<le> 57 then unat c - 48 else if c \<le> 70 then unat c - 55 else unat c - 87)"

definition hex_value :: "bytes \<Rightarrow> nat" where
  "hex_value ds = foldl (\<lambda>v c. 16 * v + hex_digit_value c) 0 ds"

lemma hex_digit:
  "lj_char_isa c LJ_CHAR_XDIGIT \<longrightarrow> c \<noteq> 46 \<and> c \<noteq> 0 \<and> hex_digit_value c < 16
     \<and> (ucast ((if ucast c > (57 :: 32 word) then ucast c + 9 else ucast c) AND 15 :: 32 word) :: 64 word) = of_nat (hex_digit_value c)"
  by (rule all_bytes [of _ c]) code_simp

lemma hex_loop_digits:
  "(\<forall>c \<in> List.set ds. lj_char_isa c LJ_CHAR_XDIGIT) \<Longrightarrow> s = pre @ ds \<Longrightarrow>
     hex_loop s (length pre) (length ds) (of_nat v) = Some (of_nat (foldl (\<lambda>v c. 16 * v + hex_digit_value c) v ds), length s)"
proof (induction ds arbitrary: pre v)
  case (Cons c ds)
  have "rd_digit s (length pre) = Some (c, length pre)" using Cons.prems hex_digit [of c] by (simp add: rd_digit_def rd_def)
  moreover have "push_bit 4 (of_nat v) + (of_nat (hex_digit_value c) :: 64 word) = of_nat (16 * v + hex_digit_value c)"
    by (simp add: push_bit_eq_mult)
  ultimately show ?case
    using Cons.IH [of "pre @ [c]" "16 * v + hex_digit_value c"] Cons.prems hex_digit [of c] by (simp add: Let_def)
qed simp

lemma hex_value_less: "(\<forall>c \<in> List.set ds. lj_char_isa c LJ_CHAR_XDIGIT) \<Longrightarrow> hex_value ds < 16 ^ length ds"
proof (induction ds rule: rev_induct)
  case (snoc c ds)
  then have "hex_value ds \<le> 16 ^ length ds - 1" "hex_digit_value c < 16" using hex_digit [of c] by fastforce+
  then have "16 * hex_value ds + hex_digit_value c < 16 * (16 ^ length ds - 1) + 16" by linarith
  then show ?case by (simp add: hex_value_def algebra_simps)
qed (simp add: hex_value_def)

lemma casecmp_letters [simp]: "casecmp 0 CHR ''p'' = False" "casecmp 120 CHR ''x'' = True"
  by code_simp+

lemma push_take_bit_disjoint: "take_bit 60 (x :: 64 word) AND push_bit 62 y = 0"
  by (rule bit_word_eqI) (auto simp: bit_simps)

lemma no_high_bits: "v < 2 ^ 60 \<Longrightarrow> (of_nat v :: 64 word) AND 0xc000000000000000 = 0"
proof -
  assume "v < 2 ^ 60"
  then have "(of_nat v :: 64 word) = take_bit 60 (of_nat v)" by (simp add: take_bit_of_nat take_bit_nat_eq_self)
  moreover have "(0xc000000000000000 :: 64 word) = push_bit 62 3" by code_simp
  ultimately show ?thesis
    by (metis (no_types, lifting) push_take_bit_disjoint)
qed

text \<open>C30: A hexadecimal number \<open>0x\<close> with 1 to 15 digits, the first not zero, scanned without options, has
  its value: an integer if it fits into 31 bits, otherwise the double of the 60-bit integer, not
  scaled.\<close>

theorem strscan_hex_value:
  assumes "ds \<noteq> []" "length ds \<le> 15" "\<forall>c \<in> List.set ds. lj_char_isa c LJ_CHAR_XDIGIT" "hd ds \<noteq> 48"
  shows "lj_strscan_scan num2int (map byte ''0x'' @ ds) 0
    = Some (if hex_value ds < 2147483648 then (STRSCAN_INT, Val_i (of_nat (hex_value ds)))
            else (STRSCAN_NUM, Val_n (Ldexp False (of_nat (hex_value ds)) 0)))"
proof -
  define s where "s = [48, 120] @ ds"
  have s: "map byte ''0x'' @ ds = s" by (simp add: s_def byte_def code_def)
  obtain c ds' where ds: "ds = c # ds'" using assms(1) by (cases ds) auto
  have c: "c \<noteq> 46" "c \<noteq> 48" "lj_char_isa c LJ_CHAR_XDIGIT" using assms(3,4) hex_digit [of c] ds by auto
  have r: "rd s 0 = Some 48" "rd s (Suc 0) = Some 120" "rd s 2 = Some c"
    by (simp_all add: s_def rd_def ds)
  have z: "skip_zeros s 2 None False = Some (Some (2, None, False))" using c by (subst skip_zeros.simps) (simp add: s_def ds)
  have d: "scan_digits s 2 LJ_CHAR_XDIGIT None 0 0
      = Some (Some (length s, None, length ds, foldl (\<lambda>x c. x * 10 + ucast (c AND 15)) 0 ds))"
    using scan_digits_all [of ds LJ_CHAR_XDIGIT s "[48, 120]" 0 0] assms(3) by (simp add: s_def numeral_2_eq_2)
  have h: "hex_loop s 2 (length ds) 0 = Some (of_nat (hex_value ds), length s)"
    using hex_loop_digits [of ds s "[48, 120]" 0] assms(3) by (simp add: s_def hex_value_def numeral_2_eq_2)
  have "hex_value ds < 16 ^ length ds" using assms(3) by (rule hex_value_less)
  also have "\<dots> \<le> 16 ^ 15" using assms(2) by (rule power_increasing) simp
  finally have v: "hex_value ds < 2 ^ 60" by simp
  have "(of_nat (hex_value ds) :: 64 word) AND 0xc000000000000000 = 0" using v by (rule no_high_bits)
  moreover have "(of_nat (hex_value ds) :: 64 word) < int_limit False \<longleftrightarrow> hex_value ds < 2147483648"
    using v by (simp add: int_limit_def word_less_nat_alt unat_of_nat)
  moreover have "unat (of_nat (hex_value ds) :: 64 word) = hex_value ds" using v by (simp add: unat_of_nat)
  then have "ucast (of_nat (hex_value ds) :: 64 word) = (of_nat (hex_value ds) :: 32 word)" by (metis of_nat_unat)
  ultimately have "strscan_hex s 2 STRSCAN_INT 0 0 False (length ds)
      = Some (if hex_value ds < 2147483648 then (STRSCAN_INT, Val_i (of_nat (hex_value ds)))
            else (STRSCAN_NUM, Val_n (Ldexp False (of_nat (hex_value ds)) 0)))"
    using h assms(2) v by (simp add: strscan_hex_def has_opt_def Let_def strscan_double_def signed32_def)
  moreover have "scan_suffix s (length s) STRSCAN_INT 0 = Some (Some STRSCAN_INT)" by (simp add: scan_suffix_def)
  ultimately show ?thesis
    unfolding s using r z d assms(1)
    by (simp add: numeral_2_eq_2 [symmetric] lj_strscan_scan_def scan_number_def lj_char_isdigit_iff has_opt_def Let_def dispatch_def)
qed

theorem strscan_hex_value_witness:
  "lj_strscan_scan (\<lambda>_. None) (map byte ''0x'' @ map byte ''fFfFfFfF'') 0
    = Some (if hex_value (map byte ''fFfFfFfF'') < 2147483648 then (STRSCAN_INT, Val_i (of_nat (hex_value (map byte ''fFfFfFfF''))))
            else (STRSCAN_NUM, Val_n (Ldexp False (of_nat (hex_value (map byte ''fFfFfFfF''))) 0)))
   \<and> hex_value (map byte ''fFfFfFfF'') = 4294967295"
proof
  show "lj_strscan_scan (\<lambda>_. None) (map byte ''0x'' @ map byte ''fFfFfFfF'') 0
    = Some (if hex_value (map byte ''fFfFfFfF'') < 2147483648 then (STRSCAN_INT, Val_i (of_nat (hex_value (map byte ''fFfFfFfF''))))
            else (STRSCAN_NUM, Val_n (Ldexp False (of_nat (hex_value (map byte ''fFfFfFfF''))) 0)))"
    by (rule strscan_hex_value) (simp_all add: byte_def code_def lj_char_isxdigit_iff)
  show "hex_value (map byte ''fFfFfFfF'') = 4294967295"
    by (simp add: hex_value_def hex_digit_value_def byte_def code_def)
qed

subsection \<open>Numbers of 800 digits\<close>

lemma dec_pairs_digits:
  "\<forall>c \<in> List.set ds. c \<noteq> 46 \<Longrightarrow> length ds = 2 * n \<Longrightarrow> \<exists>xi'. dec_pairs (pre @ ds @ r) (length pre) n xi = Some (xi', length pre + 2 * n)"
proof (induction n arbitrary: ds pre xi)
  case (Suc n)
  then obtain c c' ds' where ds: "ds = c # c' # ds'" by (cases ds; cases "tl ds") auto
  have "rd_digit (pre @ ds @ r) (length pre) = Some (c, length pre)"
    "rd_digit (pre @ ds @ r) (length pre + 1) = Some (c', length pre + 1)"
    using Suc.prems(1) ds by (simp_all add: rd_digit_def rd_def nth_append)
  then show ?case
    using Suc.IH [of ds' "pre @ [c, c']"] Suc.prems ds by (simp add: Let_def)
qed simp

text \<open>C31: A number of exactly 800 digits with an odd decimal exponent: the scanner counts one digit too
  many and takes the byte behind the digits (the letter of the exponent) for a digit other than zero,
  so that the last base-100 digit is made odd, as if there were more digits.\<close>

theorem digits_800_read_too_far:
  assumes "length ds = 800" "\<forall>d \<in> List.set ds. d \<noteq> 46" "c \<noteq> 46" "c \<noteq> 48" "odd ex10"
  shows "\<exists>xi. dec_digits (ds @ c # r) 0 ex10 800 = Some (xi @ [10 * dig15 (last ds) OR 1], ex10 - 1, 800)"
proof -
  obtain d0 ds1 where d0: "ds = d0 # ds1" using assms(1) by (cases ds) auto
  obtain ds2 dl where dl: "ds1 = ds2 @ [dl]" using assms(1) d0 by (cases ds1 rule: rev_cases) auto
  have s: "ds @ c # r = [d0] @ ds2 @ (dl # c # r)" using d0 dl by simp
  have l2: "length ds2 = 2 * 399" using assms(1) d0 dl by simp
  have "\<exists>xi'. dec_pairs ([d0] @ ds2 @ (dl # c # r)) (length [d0]) 399 [dig15 d0] = Some (xi', length [d0] + 2 * 399)"
    using assms(2) d0 dl l2 by (intro dec_pairs_digits) auto
  then obtain xi where xi: "dec_pairs (ds @ c # r) 1 399 [dig15 d0] = Some (xi, 799)"
    unfolding s by auto
  have rd: "rd_digit (ds @ c # r) 0 = Some (d0, 0)" "rd_digit (ds @ c # r) 799 = Some (dl, 799)" "rd_digit (ds @ c # r) 800 = Some (c, 800)"
    using assms d0 dl l2 by (simp_all add: rd_digit_def rd_def nth_append)
  have "dec_digits (ds @ c # r) 0 ex10 800 = Some (xi @ [10 * dig15 dl OR 1], ex10 - 1, 800)"
    using rd xi assms(4,5) by (simp add: dec_digits_def STRSCAN_MAXDIG_def Let_def)
  moreover have "last ds = dl" using d0 dl by simp
  ultimately show ?thesis by auto
qed

theorem digits_800_read_too_far_witness:
  "\<exists>xi. dec_digits (replicate 800 49 @ 101 # map byte ''-799'') 0 (- 799) 800
     = Some (xi @ [10 * dig15 (last (replicate 800 49)) OR 1], - 799 - 1, 800)"
  by (rule digits_800_read_too_far) simp_all

end
