(* ===== verification/Options.thy ===== *)
theory Options
  imports Usocket
begin

section \<open>Socket options (luasocket, options.c)\<close>

text \<open>
  The handlers of \<open>setoption\<close> and \<open>getoption\<close>. A handler gets the descriptor and the third argument
  of the method (\<open>Nil\<close> when there is none) and gives what is returned to Lua. Numbers and strings are
  not converted into each other here; an \<open>Array\<close> is a table with the keys 1, 2 and so on. The value of an option is the list of the integers of its
  struct. \<open>Lua_error\<close> is an argument error with its message; a conversion of a number that does not
  fit its C type is \<open>None\<close>. The address functions of the C library are fields of \<open>netlib\<close>, and the
  numbers of the options are those of Linux.
\<close>

subsection \<open>Values of Lua\<close>

datatype lua_value =
    Nil_value
  | Bool bool
  | Num int
  | Real real
  | Str string
  | Data bytes
  | Table "(string \<times> lua_value) list"
  | Array "lua_value list"

datatype reply =
    Lua_error string
  | Results "lua_value list"

text \<open>A name in the quotes of an error message.\<close>

definition quoted :: "string \<Rightarrow> string" where
  "quoted s = CHR 0x27 # s @ [CHR 0x27]"

text \<open>\<open>lua_gettable\<close> on the third argument, \<open>lua_pushstring\<close> of a pointer that may be null.\<close>

definition table_field :: "(string \<times> lua_value) list \<Rightarrow> string \<Rightarrow> lua_value" where
  "table_field tab name = (case map_of tab name of None \<Rightarrow> Nil_value | Some v \<Rightarrow> v)"

definition str_value :: "string option \<Rightarrow> lua_value" where
  "str_value s = (case s of None \<Rightarrow> Nil_value | Some s \<Rightarrow> Str s)"

text \<open>What a look-up of a host gives: its name, its other names and its addresses.\<close>

record hostent =
  h_name :: string
  h_aliases :: "string list"
  h_addr_list :: "int list"

text \<open>The functions of the C library, and the address of the sender \<open>recvfrom\<close> has reported.\<close>

record netlib =
  nl_strerror :: "int \<Rightarrow> string"
  nl_gai_strerror :: "int \<Rightarrow> string"
  nl_aton :: "string \<Rightarrow> int option"
  nl_ntoa :: "int \<Rightarrow> string"
  nl_pton6 :: "string \<Rightarrow> int list option"
  nl_hstrerror :: "int \<Rightarrow> string"
  nl_sender :: "world \<Rightarrow> bytes"
  nl_gethostbyaddr :: "bytes \<Rightarrow> hostent option \<times> int \<times> int"
  nl_gethostbyname :: "string \<Rightarrow> hostent option \<times> int \<times> int"

type_synonym handler = "netlib \<Rightarrow> int \<Rightarrow> lua_value \<Rightarrow> world \<Rightarrow> (reply \<times> world) option"

subsection \<open>The names of the options\<close>

abbreviation (input) SOL_SOCKET :: int where "SOL_SOCKET \<equiv> 1"
abbreviation (input) SO_REUSEADDR :: int where "SO_REUSEADDR \<equiv> 2"
abbreviation (input) SO_ERROR :: int where "SO_ERROR \<equiv> 4"
abbreviation (input) SO_DONTROUTE :: int where "SO_DONTROUTE \<equiv> 5"
abbreviation (input) SO_BROADCAST :: int where "SO_BROADCAST \<equiv> 6"
abbreviation (input) SO_SNDBUF :: int where "SO_SNDBUF \<equiv> 7"
abbreviation (input) SO_RCVBUF :: int where "SO_RCVBUF \<equiv> 8"
abbreviation (input) SO_KEEPALIVE :: int where "SO_KEEPALIVE \<equiv> 9"
abbreviation (input) SO_LINGER :: int where "SO_LINGER \<equiv> 13"
abbreviation (input) SO_REUSEPORT :: int where "SO_REUSEPORT \<equiv> 15"
abbreviation (input) IPPROTO_IP :: int where "IPPROTO_IP \<equiv> 0"
abbreviation (input) IPPROTO_TCP :: int where "IPPROTO_TCP \<equiv> 6"
abbreviation (input) IPPROTO_IPV6 :: int where "IPPROTO_IPV6 \<equiv> 41"
abbreviation (input) TCP_NODELAY :: int where "TCP_NODELAY \<equiv> 1"
abbreviation (input) TCP_KEEPIDLE :: int where "TCP_KEEPIDLE \<equiv> 4"
abbreviation (input) TCP_KEEPINTVL :: int where "TCP_KEEPINTVL \<equiv> 5"
abbreviation (input) TCP_KEEPCNT :: int where "TCP_KEEPCNT \<equiv> 6"
abbreviation (input) IP_MULTICAST_IF :: int where "IP_MULTICAST_IF \<equiv> 32"
abbreviation (input) IP_MULTICAST_TTL :: int where "IP_MULTICAST_TTL \<equiv> 33"
abbreviation (input) IP_MULTICAST_LOOP :: int where "IP_MULTICAST_LOOP \<equiv> 34"
abbreviation (input) IP_ADD_MEMBERSHIP :: int where "IP_ADD_MEMBERSHIP \<equiv> 35"
abbreviation (input) IP_DROP_MEMBERSHIP :: int where "IP_DROP_MEMBERSHIP \<equiv> 36"
abbreviation (input) IPV6_UNICAST_HOPS :: int where "IPV6_UNICAST_HOPS \<equiv> 16"
abbreviation (input) IPV6_MULTICAST_HOPS :: int where "IPV6_MULTICAST_HOPS \<equiv> 18"
abbreviation (input) IPV6_MULTICAST_LOOP :: int where "IPV6_MULTICAST_LOOP \<equiv> 19"
abbreviation (input) IPV6_ADD_MEMBERSHIP :: int where "IPV6_ADD_MEMBERSHIP \<equiv> 20"
abbreviation (input) IPV6_DROP_MEMBERSHIP :: int where "IPV6_DROP_MEMBERSHIP \<equiv> 21"
abbreviation (input) IPV6_V6ONLY :: int where "IPV6_V6ONLY \<equiv> 26"

subsection \<open>Setting and getting\<close>

definition opt_set :: "int \<Rightarrow> int \<Rightarrow> int \<Rightarrow> int list \<Rightarrow> world \<Rightarrow> (reply \<times> world) option" where
  "opt_set ps level name val w =
     do { (a, w) \<leftarrow> ask (Setsockopt ps level name val) w;
          case a of
            Fail e \<Rightarrow> Some (Results [Nil_value, Str ''setsockopt failed''], w)
          | _ \<Rightarrow> Some (Results [Num 1], w) }"

text \<open>Either what is pushed on a failure or the value.\<close>

definition opt_get :: "int \<Rightarrow> int \<Rightarrow> int \<Rightarrow> nat \<Rightarrow> world \<Rightarrow> ((reply + int list) \<times> world) option" where
  "opt_get ps level name len w =
     do { (a, w) \<leftarrow> ask (Getsockopt ps level name len) w;
          case a of
            Option vs \<Rightarrow> Some (Inr vs, w)
          | Fail e \<Rightarrow> Some (Inl (Results [Nil_value, Str ''getsockopt failed'']), w)
          | _ \<Rightarrow> None }"

definition opt_getboolean :: "int \<Rightarrow> int \<Rightarrow> int \<Rightarrow> world \<Rightarrow> (reply \<times> world) option" where
  "opt_getboolean ps level name w =
     do { (r, w) \<leftarrow> opt_get ps level name 1 w;
          case r of Inl err \<Rightarrow> Some (err, w) | Inr vs \<Rightarrow> Some (Results [Bool (hd vs \<noteq> 0)], w) }"

definition opt_getint :: "int \<Rightarrow> int \<Rightarrow> int \<Rightarrow> world \<Rightarrow> (reply \<times> world) option" where
  "opt_getint ps level name w =
     do { (r, w) \<leftarrow> opt_get ps level name 1 w;
          case r of Inl err \<Rightarrow> Some (err, w) | Inr vs \<Rightarrow> Some (Results [Num (hd vs)], w) }"

text \<open>\<open>luaL_typename\<close>.\<close>

definition type_name :: "lua_value \<Rightarrow> string" where
  "type_name v =
     (case v of Nil_value \<Rightarrow> ''nil'' | Bool b \<Rightarrow> ''boolean'' | Num n \<Rightarrow> ''number'' | Real x \<Rightarrow> ''number''
      | Str s \<Rightarrow> ''string'' | Data d \<Rightarrow> ''string'' | Table t \<Rightarrow> ''table'' | Array vs \<Rightarrow> ''table'')"

definition auxiliar_typeerror :: "lua_value \<Rightarrow> string \<Rightarrow> reply" where
  "auxiliar_typeerror v tname = Lua_error (tname @ '' expected, got '' @ type_name v)"

definition opt_setboolean :: "int \<Rightarrow> lua_value \<Rightarrow> int \<Rightarrow> int \<Rightarrow> world \<Rightarrow> (reply \<times> world) option" where
  "opt_setboolean ps arg level name w =
     (case arg of
        Bool b \<Rightarrow> opt_set ps level name [if b then 1 else 0] w
      | _ \<Rightarrow> Some (auxiliar_typeerror arg ''boolean'', w))"

text \<open>\<open>lua_tonumber\<close> gives 0 for what is not a number.\<close>

definition opt_setint :: "int \<Rightarrow> lua_value \<Rightarrow> int \<Rightarrow> int \<Rightarrow> world \<Rightarrow> (reply \<times> world) option" where
  "opt_setint ps arg level name w =
     do { val \<leftarrow> (case arg of Num n \<Rightarrow> c_int (of_int n) | Real x \<Rightarrow> c_int x | _ \<Rightarrow> Some 0);
          opt_set ps level name [val] w }"

definition opt_setmembership ::
    "netlib \<Rightarrow> int \<Rightarrow> lua_value \<Rightarrow> int \<Rightarrow> int \<Rightarrow> world \<Rightarrow> (reply \<times> world) option" where
  "opt_setmembership lib ps arg level name w =
     (case arg of
        Table tab \<Rightarrow>
          (case table_field tab ''multiaddr'' of
             Str multiaddr \<Rightarrow>
               (case nl_aton lib multiaddr of
                  None \<Rightarrow> Some (Lua_error (''invalid '' @ quoted ''multiaddr'' @ '' ip address''), w)
                | Some imr_multiaddr \<Rightarrow>
                    (case table_field tab ''interface'' of
                       Str interface \<Rightarrow>
                         (if interface = ''*'' then opt_set ps level name [imr_multiaddr, 0] w
                          else (case nl_aton lib interface of
                                  None \<Rightarrow> Some (Lua_error (''invalid '' @ quoted ''interface'' @ '' ip address''), w)
                                | Some imr_interface \<Rightarrow> opt_set ps level name [imr_multiaddr, imr_interface] w))
                     | _ \<Rightarrow> Some (Lua_error (''string '' @ quoted ''interface'' @ '' field expected''), w)))
           | _ \<Rightarrow> Some (Lua_error (''string '' @ quoted ''multiaddr'' @ '' field expected''), w))
      | _ \<Rightarrow> Some (auxiliar_typeerror arg ''table'', w))"

definition opt_ip6_setmembership ::
    "netlib \<Rightarrow> int \<Rightarrow> lua_value \<Rightarrow> int \<Rightarrow> int \<Rightarrow> world \<Rightarrow> (reply \<times> world) option" where
  "opt_ip6_setmembership lib ps arg level name w =
     (case arg of
        Table tab \<Rightarrow>
          (case table_field tab ''multiaddr'' of
             Str multiaddr \<Rightarrow>
               (case nl_pton6 lib multiaddr of
                  None \<Rightarrow> Some (Lua_error (''invalid '' @ quoted ''multiaddr'' @ '' ip address''), w)
                | Some addr \<Rightarrow>
                    (case table_field tab ''interface'' of
                       Nil_value \<Rightarrow> opt_set ps level name (addr @ [0]) w
                     | Num n \<Rightarrow> (if 0 \<le> n \<and> n \<le> 4294967295 then opt_set ps level name (addr @ [n]) w else None)
                     | _ \<Rightarrow> Some (Lua_error (''number '' @ quoted ''interface'' @ '' field expected''), w)))
           | _ \<Rightarrow> Some (Lua_error (''string '' @ quoted ''multiaddr'' @ '' field expected''), w))
      | _ \<Rightarrow> Some (auxiliar_typeerror arg ''table'', w))"

subsection \<open>The handlers\<close>

definition opt_set_reuseaddr :: handler where "opt_set_reuseaddr lib ps arg w = opt_setboolean ps arg SOL_SOCKET SO_REUSEADDR w"
definition opt_get_reuseaddr :: handler where "opt_get_reuseaddr lib ps arg w = opt_getboolean ps SOL_SOCKET SO_REUSEADDR w"
definition opt_set_reuseport :: handler where "opt_set_reuseport lib ps arg w = opt_setboolean ps arg SOL_SOCKET SO_REUSEPORT w"
definition opt_get_reuseport :: handler where "opt_get_reuseport lib ps arg w = opt_getboolean ps SOL_SOCKET SO_REUSEPORT w"
definition opt_set_tcp_nodelay :: handler where "opt_set_tcp_nodelay lib ps arg w = opt_setboolean ps arg IPPROTO_TCP TCP_NODELAY w"
definition opt_get_tcp_nodelay :: handler where "opt_get_tcp_nodelay lib ps arg w = opt_getboolean ps IPPROTO_TCP TCP_NODELAY w"
definition opt_get_tcp_keepidle :: handler where "opt_get_tcp_keepidle lib ps arg w = opt_getint ps IPPROTO_TCP TCP_KEEPIDLE w"
definition opt_set_tcp_keepidle :: handler where "opt_set_tcp_keepidle lib ps arg w = opt_setint ps arg IPPROTO_TCP TCP_KEEPIDLE w"
definition opt_get_tcp_keepcnt :: handler where "opt_get_tcp_keepcnt lib ps arg w = opt_getint ps IPPROTO_TCP TCP_KEEPCNT w"
definition opt_set_tcp_keepcnt :: handler where "opt_set_tcp_keepcnt lib ps arg w = opt_setint ps arg IPPROTO_TCP TCP_KEEPCNT w"
definition opt_get_tcp_keepintvl :: handler where "opt_get_tcp_keepintvl lib ps arg w = opt_getint ps IPPROTO_TCP TCP_KEEPINTVL w"
definition opt_set_tcp_keepintvl :: handler where "opt_set_tcp_keepintvl lib ps arg w = opt_setint ps arg IPPROTO_TCP TCP_KEEPINTVL w"
definition opt_set_keepalive :: handler where "opt_set_keepalive lib ps arg w = opt_setboolean ps arg SOL_SOCKET SO_KEEPALIVE w"
definition opt_get_keepalive :: handler where "opt_get_keepalive lib ps arg w = opt_getboolean ps SOL_SOCKET SO_KEEPALIVE w"
definition opt_set_dontroute :: handler where "opt_set_dontroute lib ps arg w = opt_setboolean ps arg SOL_SOCKET SO_DONTROUTE w"
definition opt_get_dontroute :: handler where "opt_get_dontroute lib ps arg w = opt_getboolean ps SOL_SOCKET SO_DONTROUTE w"
definition opt_set_broadcast :: handler where "opt_set_broadcast lib ps arg w = opt_setboolean ps arg SOL_SOCKET SO_BROADCAST w"
definition opt_get_broadcast :: handler where "opt_get_broadcast lib ps arg w = opt_getboolean ps SOL_SOCKET SO_BROADCAST w"
definition opt_set_recv_buf_size :: handler where "opt_set_recv_buf_size lib ps arg w = opt_setint ps arg SOL_SOCKET SO_RCVBUF w"
definition opt_get_recv_buf_size :: handler where "opt_get_recv_buf_size lib ps arg w = opt_getint ps SOL_SOCKET SO_RCVBUF w"
definition opt_get_send_buf_size :: handler where "opt_get_send_buf_size lib ps arg w = opt_getint ps SOL_SOCKET SO_SNDBUF w"
definition opt_set_send_buf_size :: handler where "opt_set_send_buf_size lib ps arg w = opt_setint ps arg SOL_SOCKET SO_SNDBUF w"
definition opt_set_ip6_unicast_hops :: handler where "opt_set_ip6_unicast_hops lib ps arg w = opt_setint ps arg IPPROTO_IPV6 IPV6_UNICAST_HOPS w"
definition opt_get_ip6_unicast_hops :: handler where "opt_get_ip6_unicast_hops lib ps arg w = opt_getint ps IPPROTO_IPV6 IPV6_UNICAST_HOPS w"
definition opt_set_ip6_multicast_hops :: handler where "opt_set_ip6_multicast_hops lib ps arg w = opt_setint ps arg IPPROTO_IPV6 IPV6_MULTICAST_HOPS w"
definition opt_get_ip6_multicast_hops :: handler where "opt_get_ip6_multicast_hops lib ps arg w = opt_getint ps IPPROTO_IPV6 IPV6_MULTICAST_HOPS w"
definition opt_set_ip_multicast_loop :: handler where "opt_set_ip_multicast_loop lib ps arg w = opt_setboolean ps arg IPPROTO_IP IP_MULTICAST_LOOP w"
definition opt_get_ip_multicast_loop :: handler where "opt_get_ip_multicast_loop lib ps arg w = opt_getboolean ps IPPROTO_IP IP_MULTICAST_LOOP w"
definition opt_set_ip6_multicast_loop :: handler where "opt_set_ip6_multicast_loop lib ps arg w = opt_setboolean ps arg IPPROTO_IPV6 IPV6_MULTICAST_LOOP w"
definition opt_get_ip6_multicast_loop :: handler where "opt_get_ip6_multicast_loop lib ps arg w = opt_getboolean ps IPPROTO_IPV6 IPV6_MULTICAST_LOOP w"
definition opt_set_ip_multicast_ttl :: handler where "opt_set_ip_multicast_ttl lib ps arg w = opt_setint ps arg IPPROTO_IP IP_MULTICAST_TTL w"
definition opt_set_ip_add_membership :: handler where "opt_set_ip_add_membership lib ps arg w = opt_setmembership lib ps arg IPPROTO_IP IP_ADD_MEMBERSHIP w"
definition opt_set_ip_drop_membersip :: handler where "opt_set_ip_drop_membersip lib ps arg w = opt_setmembership lib ps arg IPPROTO_IP IP_DROP_MEMBERSHIP w"
definition opt_set_ip6_add_membership :: handler where "opt_set_ip6_add_membership lib ps arg w = opt_ip6_setmembership lib ps arg IPPROTO_IPV6 IPV6_ADD_MEMBERSHIP w"
definition opt_set_ip6_drop_membersip :: handler where "opt_set_ip6_drop_membersip lib ps arg w = opt_ip6_setmembership lib ps arg IPPROTO_IPV6 IPV6_DROP_MEMBERSHIP w"
definition opt_get_ip6_v6only :: handler where "opt_get_ip6_v6only lib ps arg w = opt_getboolean ps IPPROTO_IPV6 IPV6_V6ONLY w"
definition opt_set_ip6_v6only :: handler where "opt_set_ip6_v6only lib ps arg w = opt_setboolean ps arg IPPROTO_IPV6 IPV6_V6ONLY w"

text \<open>\<open>lua_tonumber\<close> of a number. As a \<open>u_short\<close> it is truncated; one out of range has no defined result.\<close>

definition tonumber :: "lua_value \<Rightarrow> real option" where
  "tonumber v = (case v of Num n \<Rightarrow> Some (of_int n) | Real x \<Rightarrow> Some x | _ \<Rightarrow> None)"

definition u_short :: "real \<Rightarrow> int option" where
  "u_short x = (if 0 \<le> trunc x \<and> trunc x \<le> 65535 then Some (trunc x) else None)"

definition opt_set_linger :: handler where
  "opt_set_linger lib ps arg w =
     (case arg of
        Table tab \<Rightarrow>
          (case table_field tab ''on'' of
             Bool b \<Rightarrow>
               (case tonumber (table_field tab ''timeout'') of
                  Some x \<Rightarrow> do { n \<leftarrow> u_short x; opt_set ps SOL_SOCKET SO_LINGER [if b then 1 else 0, n] w }
                | None \<Rightarrow> Some (Lua_error (''number '' @ quoted ''timeout'' @ '' field expected''), w))
           | _ \<Rightarrow> Some (Lua_error (''boolean '' @ quoted ''on'' @ '' field expected''), w))
      | _ \<Rightarrow> Some (auxiliar_typeerror arg ''table'', w))"

definition opt_get_linger :: handler where
  "opt_get_linger lib ps arg w =
     do { (r, w) \<leftarrow> opt_get ps SOL_SOCKET SO_LINGER 2 w;
          case r of
            Inl err \<Rightarrow> Some (err, w)
          | Inr vs \<Rightarrow> Some (Results [Table [(''timeout'', Num (vs ! 1)), (''on'', Bool (vs ! 0 \<noteq> 0))]], w) }"

definition opt_set_ip_multicast_if :: handler where
  "opt_set_ip_multicast_if lib ps arg w =
     (case arg of
        Str address \<Rightarrow>
          (if address = ''*'' then opt_set ps IPPROTO_IP IP_MULTICAST_IF [0] w
           else (case nl_aton lib address of
                   None \<Rightarrow> Some (Lua_error ''ip expected'', w)
                 | Some val \<Rightarrow> opt_set ps IPPROTO_IP IP_MULTICAST_IF [val] w))
      | _ \<Rightarrow> Some (auxiliar_typeerror arg ''string'', w))"

definition opt_get_ip_multicast_if :: handler where
  "opt_get_ip_multicast_if lib ps arg w =
     do { (r, w) \<leftarrow> opt_get ps IPPROTO_IP IP_MULTICAST_IF 1 w;
          case r of Inl err \<Rightarrow> Some (err, w) | Inr vs \<Rightarrow> Some (Results [Str (nl_ntoa lib (hd vs))], w) }"

definition opt_get_error :: handler where
  "opt_get_error lib ps arg w =
     do { (r, w) \<leftarrow> opt_get ps SOL_SOCKET SO_ERROR 1 w;
          case r of
            Inl err \<Rightarrow> Some (err, w)
          | Inr vs \<Rightarrow> Some (Results [str_value (socket_strerror (nl_strerror lib) (hd vs))], w) }"

subsection \<open>The methods\<close>

text \<open>The table of handlers is searched from its start; the message holds 35 characters of the name.\<close>

definition opt_meth_setoption :: "(string \<times> handler) list \<Rightarrow> string \<Rightarrow> handler" where
  "opt_meth_setoption opt name lib ps arg w =
     (case map_of opt name of
        None \<Rightarrow> Some (Lua_error (''unsupported option `'' @ take 35 name @ [CHR 0x27]), w)
      | Some func \<Rightarrow> func lib ps arg w)"

definition opt_meth_getoption :: "(string \<times> handler) list \<Rightarrow> string \<Rightarrow> handler" where
  "opt_meth_getoption opt name lib ps arg w =
     (case map_of opt name of
        None \<Rightarrow> Some (Lua_error (''unsupported option `'' @ take 35 name @ [CHR 0x27]), w)
      | Some func \<Rightarrow> func lib ps arg w)"

end
