(* ===== verification/Inet.thy ===== *)
theory Inet
  imports Options C_String
begin

section \<open>Internet sockets (luasocket, inet.c)\<close>

text \<open>
  The functions under the TCP and UDP objects: creating, binding and connecting a socket through the
  addresses the resolver gives, and the functions of the table \<open>dns\<close>. A \<open>p_socket\<close> and an \<open>int*\<close> are
  the value they point to, returned updated; an error message is \<open>None\<close> for the null pointer. Memory
  of the resolver is not modelled. What the resolver answers is part of the transcript.
\<close>

abbreviation (input) AF_UNSPEC :: int where "AF_UNSPEC \<equiv> 0"
abbreviation (input) AF_INET :: int where "AF_INET \<equiv> 2"
abbreviation (input) AF_INET6 :: int where "AF_INET6 \<equiv> 10"
abbreviation (input) SOCK_STREAM :: int where "SOCK_STREAM \<equiv> 1"
abbreviation (input) SOCK_DGRAM :: int where "SOCK_DGRAM \<equiv> 2"
abbreviation (input) AI_PASSIVE :: int where "AI_PASSIVE \<equiv> 1"
abbreviation (input) AI_NUMERICHOST :: int where "AI_NUMERICHOST \<equiv> 4"
abbreviation (input) AI_NUMERICSERV :: int where "AI_NUMERICSERV \<equiv> 1024"
abbreviation (input) NI_NUMERICHOST :: int where "NI_NUMERICHOST \<equiv> 1"
abbreviation (input) NI_NUMERICSERV :: int where "NI_NUMERICSERV \<equiv> 2"

text \<open>Calling the resolver: the message and the addresses, of which there is at least one.\<close>

definition resolve ::
    "netlib \<Rightarrow> string option \<Rightarrow> string option \<Rightarrow> int \<Rightarrow> int \<Rightarrow> int \<Rightarrow> world
      \<Rightarrow> ((string option + addrinfo list) \<times> world) option" where
  "resolve lib host serv family socktype flags w =
     do { (a, w) \<leftarrow> ask (Getaddrinfo host serv family socktype flags) w;
          case a of
            Resolved ais \<Rightarrow> Some (Inr ais, w)
          | Eai e errno \<Rightarrow> Some (Inl (socket_gaistrerror (nl_gai_strerror lib) (nl_strerror lib) errno e), w)
          | _ \<Rightarrow> None }"

subsection \<open>Creating, binding, connecting\<close>

definition inet_trycreate ::
    "netlib \<Rightarrow> int \<Rightarrow> int \<Rightarrow> int \<Rightarrow> world \<Rightarrow> (string option \<times> int \<times> world) option" where
  "inet_trycreate lib family type protocol w =
     do { (e, ps, w) \<leftarrow> socket_create family type protocol w;
          let err = socket_strerror (nl_strerror lib) e;
          if err = None \<and> family = AF_INET6 then
            do { (a, w) \<leftarrow> ask (Setsockopt ps IPPROTO_IPV6 IPV6_V6ONLY [1]) w; Some (err, ps, w) }
          else Some (err, ps, w) }"

text \<open>The addresses \<open>sin\<close> and \<open>sin6\<close> with the family \<open>AF_UNSPEC\<close> are all zeros.\<close>

definition inet_trydisconnect ::
    "netlib \<Rightarrow> int \<Rightarrow> int \<Rightarrow> t_timeout \<Rightarrow> world \<Rightarrow> (string option \<times> world) option" where
  "inet_trydisconnect lib ps family tm w =
     (if family = AF_INET then
        do { (e, w) \<leftarrow> socket_connect ps (replicate 16 0) tm w; Some (socket_strerror (nl_strerror lib) e, w) }
      else if family = AF_INET6 then
        do { (e, w) \<leftarrow> socket_connect ps (replicate 28 0) tm w; Some (socket_strerror (nl_strerror lib) e, w) }
      else Some (None, w))"

text \<open>A new socket if necessary, shared by the two loops over the addresses: the error, the descriptor
  and the current family.\<close>

definition needs_socket :: "int \<Rightarrow> int \<Rightarrow> addrinfo \<Rightarrow> bool" where
  "needs_socket ps current_family ai \<longleftrightarrow> current_family \<noteq> ai_family ai \<or> ps = SOCKET_INVALID"

definition renew_socket ::
    "netlib \<Rightarrow> int \<Rightarrow> int \<Rightarrow> addrinfo \<Rightarrow> world \<Rightarrow> (string option \<times> int \<times> int \<times> world) option" where
  "renew_socket lib ps current_family ai w =
     do { (ps, w) \<leftarrow> socket_destroy ps w;
          (err, ps, w) \<leftarrow> inet_trycreate lib (ai_family ai) (ai_socktype ai) (ai_protocol ai) w;
          Some (err, ps, if err = None then ai_family ai else current_family, w) }"

fun connect_each ::
    "netlib \<Rightarrow> addrinfo list \<Rightarrow> string option \<Rightarrow> int \<Rightarrow> int \<Rightarrow> int \<Rightarrow> t_timeout \<Rightarrow> world
      \<Rightarrow> (string option \<times> int \<times> int \<times> t_timeout \<times> world) option" where
  "connect_each lib [] err ps family current_family tm w = Some (err, ps, family, tm, w)"
| "connect_each lib (ai # ais) err0 ps0 family current_family0 tm0 w0 =
     do { (tm, w) \<leftarrow> timeout_markstart tm0 w0;
          (err, ps, current_family, w) \<leftarrow>
            (if needs_socket ps0 current_family0 ai then
               do { (err, ps, current_family, w) \<leftarrow> renew_socket lib ps0 current_family0 ai w;
                    if err = None then do { w \<leftarrow> socket_setnonblocking ps w; Some (err, ps, current_family, w) }
                    else Some (err, ps, current_family, w) }
             else Some (None, ps0, current_family0, w));
          if err \<noteq> None then connect_each lib ais err ps family current_family tm w
          else
            do { (e, w) \<leftarrow> socket_connect ps (ai_addr ai) tm w;
                 let err = socket_strerror (nl_strerror lib) e;
                 if err = None \<or> timeout_iszero tm then Some (err, ps, current_family, tm, w)
                 else connect_each lib ais err ps family current_family tm w } }"

definition inet_tryconnect ::
    "netlib \<Rightarrow> int \<Rightarrow> int \<Rightarrow> string \<Rightarrow> string \<Rightarrow> t_timeout \<Rightarrow> int \<Rightarrow> int \<Rightarrow> world
      \<Rightarrow> (string option \<times> int \<times> int \<times> t_timeout \<times> world) option" where
  "inet_tryconnect lib ps family address serv tm hint_family hint_socktype w =
     do { (r, w) \<leftarrow> resolve lib (Some address) (Some serv) hint_family hint_socktype 0 w;
          case r of
            Inl err \<Rightarrow> Some (err, ps, family, tm, w)
          | Inr resolved \<Rightarrow> connect_each lib resolved None ps family family tm w }"

text \<open>The client socket is not written when the server socket is invalid; its start value is only
  returned together with an error.\<close>

definition inet_tryaccept ::
    "netlib \<Rightarrow> int \<Rightarrow> t_timeout \<Rightarrow> world \<Rightarrow> (string option \<times> int \<times> world) option" where
  "inet_tryaccept lib server tm w =
     do { (e, client, w) \<leftarrow> socket_accept server SOCKET_INVALID tm w;
          Some (socket_strerror (nl_strerror lib) e, client, w) }"

fun bind_each ::
    "netlib \<Rightarrow> addrinfo list \<Rightarrow> string option \<Rightarrow> int \<Rightarrow> int \<Rightarrow> int \<Rightarrow> world
      \<Rightarrow> (string option \<times> int \<times> int \<times> world) option" where
  "bind_each lib [] err ps family current_family w = Some (err, ps, family, w)"
| "bind_each lib (ai # ais) err0 ps0 family current_family0 w0 =
     do { (err, ps, current_family, w) \<leftarrow>
            (if needs_socket ps0 current_family0 ai then renew_socket lib ps0 current_family0 ai w0
             else Some (None, ps0, current_family0, w0));
          if err \<noteq> None then bind_each lib ais err ps family current_family w
          else
            do { (e, w) \<leftarrow> socket_bind ps (ai_addr ai) w;
                 let err = socket_strerror (nl_strerror lib) e;
                 if err = None then do { w \<leftarrow> socket_setnonblocking ps w; Some (err, ps, current_family, w) }
                 else bind_each lib ais err ps family current_family w } }"

definition inet_trybind ::
    "netlib \<Rightarrow> int \<Rightarrow> int \<Rightarrow> string \<Rightarrow> string option \<Rightarrow> int \<Rightarrow> int \<Rightarrow> int \<Rightarrow> world
      \<Rightarrow> (string option \<times> int \<times> int \<times> world) option" where
  "inet_trybind lib ps family address serv hint_family hint_socktype hint_flags w =
     (let host = (if address = ''*'' then None else Some address);
          serv = (case serv of None \<Rightarrow> Some ''0'' | Some s \<Rightarrow> Some s) in
      do { (r, w) \<leftarrow> resolve lib host serv hint_family hint_socktype hint_flags w;
           case r of
             Inl err \<Rightarrow> Some (err, ps, family, w)
           | Inr resolved \<Rightarrow> bind_each lib resolved None ps family family w })"

subsection \<open>Options of the Lua functions\<close>

text \<open>\<open>luaL_checkoption\<close>: the index of the argument, or of its default, in a list of names.\<close>

definition check_option :: "string option \<Rightarrow> string \<Rightarrow> string list \<Rightarrow> string + nat" where
  "check_option arg def names =
     (let name = (case arg of None \<Rightarrow> def | Some s \<Rightarrow> s) in
      case map_of (zip names [0..<length names]) name of
        None \<Rightarrow> Inl (''invalid option '' @ quoted name)
      | Some i \<Rightarrow> Inr i)"

definition inet_optfamily :: "string option \<Rightarrow> string \<Rightarrow> string + int" where
  "inet_optfamily arg def =
     map_sum id (\<lambda>i. [AF_UNSPEC, AF_INET, AF_INET6] ! i) (check_option arg def [''unspec'', ''inet'', ''inet6''])"

definition inet_optsocktype :: "string option \<Rightarrow> string \<Rightarrow> string + int" where
  "inet_optsocktype arg def =
     map_sum id (\<lambda>i. [SOCK_STREAM, SOCK_DGRAM] ! i) (check_option arg def [''stream'', ''dgram''])"

subsection \<open>Names of a socket\<close>

definition family_name :: "int \<Rightarrow> string" where
  "family_name family =
     (if family = AF_INET then ''inet'' else if family = AF_INET6 then ''inet6''
      else if family = AF_UNSPEC then ''unspec'' else ''unknown'')"

definition inet_meth_getpeername :: "netlib \<Rightarrow> int \<Rightarrow> int \<Rightarrow> world \<Rightarrow> (reply \<times> world) option" where
  "inet_meth_getpeername lib ps family w =
     do { (a, w) \<leftarrow> ask (Getpeername ps) w;
          case a of
            Fail errno \<Rightarrow> Some (Results [Nil_value, str_value (socket_strerror (nl_strerror lib) errno)], w)
          | Address peer \<Rightarrow>
              do { (a, w) \<leftarrow> ask (Getnameinfo peer True True (NI_NUMERICHOST + NI_NUMERICSERV)) w;
                   case a of
                     Names name port \<Rightarrow> Some (Results [Str name, Num (atoi port), Str (family_name family)], w)
                   | Eai e errno \<Rightarrow> Some (Results [Nil_value, Str (nl_gai_strerror lib e)], w)
                   | _ \<Rightarrow> None }
          | _ \<Rightarrow> None }"

definition inet_meth_getsockname :: "netlib \<Rightarrow> int \<Rightarrow> int \<Rightarrow> world \<Rightarrow> (reply \<times> world) option" where
  "inet_meth_getsockname lib ps family w =
     do { (a, w) \<leftarrow> ask (Getsockname ps) w;
          case a of
            Fail errno \<Rightarrow> Some (Results [Nil_value, str_value (socket_strerror (nl_strerror lib) errno)], w)
          | Address peer \<Rightarrow>
              do { (a, w) \<leftarrow> ask (Getnameinfo peer True True (NI_NUMERICHOST + NI_NUMERICSERV)) w;
                   case a of
                     Names name port \<Rightarrow> Some (Results [Str name, Str port, Str (family_name family)], w)
                   | Eai e errno \<Rightarrow> Some (Results [Nil_value, Str (nl_gai_strerror lib e)], w)
                   | _ \<Rightarrow> None }
          | _ \<Rightarrow> None }"

subsection \<open>The table dns\<close>

text \<open>The bytes of an \<open>in_addr\<close> in memory.\<close>

definition in_addr_bytes :: "int \<Rightarrow> bytes" where
  "in_addr_bytes a = map (\<lambda>i. word_of_int (a div 256 ^ i)) [0, 1, 2, 3]"

definition inet_gethost :: "netlib \<Rightarrow> string \<Rightarrow> int \<times> hostent option" where
  "inet_gethost lib address =
     (case nl_aton lib address of
        Some addr \<Rightarrow> socket_gethostbyaddr (nl_gethostbyaddr lib) (in_addr_bytes addr)
      | None \<Rightarrow> socket_gethostbyname (nl_gethostbyname lib) address)"

definition inet_pushresolved :: "netlib \<Rightarrow> hostent \<Rightarrow> lua_value" where
  "inet_pushresolved lib hp =
     Table [(''ip'', Array (map (\<lambda>addr. Str (nl_ntoa lib addr)) (h_addr_list hp))),
            (''alias'', Array (map Str (h_aliases hp))), (''name'', Str (h_name hp))]"

text \<open>A successful look-up without a host entry, or an entry without an address, is a null pointer
  that is followed.\<close>

definition inet_global_tohostname :: "netlib \<Rightarrow> string \<Rightarrow> reply option" where
  "inet_global_tohostname lib address =
     (let (err, hp) = inet_gethost lib address in
      if err \<noteq> IO_DONE then Some (Results [Nil_value, str_value (socket_hoststrerror (nl_hstrerror lib) err)])
      else (case hp of None \<Rightarrow> None | Some hp \<Rightarrow> Some (Results [Str (h_name hp), inet_pushresolved lib hp])))"

definition inet_global_toip :: "netlib \<Rightarrow> string \<Rightarrow> reply option" where
  "inet_global_toip lib address =
     (let (err, hp) = inet_gethost lib address in
      if err \<noteq> IO_DONE then Some (Results [Nil_value, str_value (socket_hoststrerror (nl_hstrerror lib) err)])
      else (case hp of
              None \<Rightarrow> None
            | Some hp \<Rightarrow>
                (case h_addr_list hp of
                   [] \<Rightarrow> None
                 | addr # _ \<Rightarrow> Some (Results [Str (nl_ntoa lib addr), inet_pushresolved lib hp]))))"

text \<open>The loop over the addresses: the list so far, or what is returned on a failure.\<close>

fun addrinfo_table :: "netlib \<Rightarrow> addrinfo list \<Rightarrow> lua_value list \<Rightarrow> world \<Rightarrow> (reply \<times> world) option" where
  "addrinfo_table lib [] entries w = Some (Results [Array entries], w)"
| "addrinfo_table lib (ai # ais) entries w =
     do { (a, w) \<leftarrow> ask (Getnameinfo (ai_addr ai) True False NI_NUMERICHOST) w;
          case a of
            Names hbuf sbuf \<Rightarrow>
              addrinfo_table lib ais
                (entries @ [Table [(''addr'', Str hbuf), (''family'', Str (family_name (ai_family ai)))]]) w
          | Eai e errno \<Rightarrow>
              Some (Results [Nil_value, str_value (socket_gaistrerror (nl_gai_strerror lib) (nl_strerror lib) errno e)], w)
          | _ \<Rightarrow> None }"

definition inet_global_getaddrinfo :: "netlib \<Rightarrow> string \<Rightarrow> world \<Rightarrow> (reply \<times> world) option" where
  "inet_global_getaddrinfo lib hostname w =
     do { (r, w) \<leftarrow> resolve lib (Some hostname) None AF_UNSPEC SOCK_STREAM 0 w;
          case r of
            Inl err \<Rightarrow> Some (Results [Nil_value, str_value err], w)
          | Inr resolved \<Rightarrow> addrinfo_table lib resolved [] w }"

text \<open>The buffers hold the names of the last address; a call that fails leaves them undefined.\<close>

fun nameinfo_table :: "addrinfo list \<Rightarrow> bool \<Rightarrow> bool \<Rightarrow> lua_value list \<Rightarrow> string \<Rightarrow> world \<Rightarrow> (lua_value list \<times> string \<times> world) option" where
  "nameinfo_table [] host serv entries sbuf w = Some (entries, sbuf, w)"
| "nameinfo_table (ai # ais) host serv entries sbuf w =
     do { (a, w) \<leftarrow> ask (Getnameinfo (ai_addr ai) host serv 0) w;
          case a of
            Names hbuf sbuf \<Rightarrow> nameinfo_table ais host serv (if host then entries @ [Str hbuf] else entries) sbuf w
          | _ \<Rightarrow> None }"

definition inet_global_getnameinfo ::
    "netlib \<Rightarrow> string option \<Rightarrow> string option \<Rightarrow> world \<Rightarrow> (reply \<times> world) option" where
  "inet_global_getnameinfo lib host serv w =
     (if host = None \<and> serv = None then Some (Lua_error ''host and serv cannot be both nil'', w)
      else
        do { (r, w) \<leftarrow> resolve lib host serv AF_UNSPEC SOCK_STREAM 0 w;
             case r of
               Inl err \<Rightarrow> Some (Results [Nil_value, str_value err], w)
             | Inr resolved \<Rightarrow>
                 do { (entries, sbuf, w) \<leftarrow> nameinfo_table resolved (host \<noteq> None) (serv \<noteq> None) [] [] w;
                      Some (Results (if serv \<noteq> None then [Array entries, Str sbuf] else [Array entries]), w) } })"

definition inet_global_gethostname :: "netlib \<Rightarrow> world \<Rightarrow> (reply \<times> world) option" where
  "inet_global_gethostname lib w =
     do { (a, w) \<leftarrow> ask Gethostname w;
          case a of
            Names name unused \<Rightarrow> Some (Results [Str (take 256 name)], w)
          | Fail errno \<Rightarrow> Some (Results [Nil_value, str_value (socket_strerror (nl_strerror lib) errno)], w)
          | _ \<Rightarrow> None }"

end
