(* ===== verification/Tcp.thy ===== *)
theory Tcp
  imports Inet Buffer
begin

section \<open>TCP objects (luasocket, tcp.c)\<close>

text \<open>
  The objects of the three classes and their methods. A method gets the object and gives the reply to
  Lua, the object after it and the world. The \<open>t_io\<close> of an object follows from its descriptor
  (\<open>tcp_io\<close>), and its \<open>t_timeout\<close> is the one its buffer points to (\<open>buf_tm\<close>). The class is the
  metatable of the userdata; every class is in the group \<open>tcp{any}\<close>, so that a method of the group
  takes every object. The arguments have the types the methods ask for.
\<close>

datatype tcp_class = Tcp_master | Tcp_client | Tcp_server

record t_tcp =
  tcp_class :: tcp_class
  tcp_sock :: int
  tcp_buf :: t_buffer
  tcp_family :: int

abbreviation tcp_tm :: "t_tcp \<Rightarrow> t_timeout" where "tcp_tm tcp \<equiv> buf_tm (tcp_buf tcp)"

definition set_tm :: "t_tcp \<Rightarrow> t_timeout \<Rightarrow> t_tcp" where
  "set_tm tcp tm = tcp\<lparr>tcp_buf := (tcp_buf tcp)\<lparr>buf_tm := tm\<rparr>\<rparr>"

text \<open>\<open>memset(tcp, 0, sizeof(t_tcp))\<close>.\<close>

definition tcp_zero :: "tcp_class \<Rightarrow> t_tcp" where
  "tcp_zero c =
     \<lparr>tcp_class = c, tcp_sock = 0,
      tcp_buf = \<lparr>birthday = 0, sent = 0, received = 0, buf_tm = \<lparr>tm_block = 0, tm_total = 0, tm_start = 0\<rparr>,
                 buf_first = 0, buf_last = 0, buf_data = replicate BUF_SIZE 0\<rparr>, tcp_family = 0\<rparr>"

text \<open>The three initialisations that follow it.\<close>

definition tcp_init :: "t_tcp \<Rightarrow> world \<Rightarrow> (t_tcp \<times> world) option" where
  "tcp_init tcp w =
     do { (buf, w) \<leftarrow> buffer_init (tcp_buf tcp) (timeout_init (tcp_tm tcp) (- 1) (- 1)) w;
          Some (tcp\<lparr>tcp_buf := buf\<rparr>, w) }"

subsection \<open>Arguments\<close>

definition class_name :: "tcp_class \<Rightarrow> string" where
  "class_name c = (case c of Tcp_master \<Rightarrow> ''tcp{master}'' | Tcp_client \<Rightarrow> ''tcp{client}'' | Tcp_server \<Rightarrow> ''tcp{server}'')"

text \<open>\<open>auxiliar_checkclass\<close>: the error, if the object has another class.\<close>

definition auxiliar_checkclass :: "tcp_class \<Rightarrow> t_tcp \<Rightarrow> reply option" where
  "auxiliar_checkclass c tcp =
     (if tcp_class tcp = c then None else Some (Lua_error (take 35 (class_name c) @ '' expected'')))"

text \<open>The error message and \<open>nil\<close>, or 1.\<close>

definition error_reply :: "string option \<Rightarrow> reply" where
  "error_reply err = (case err of None \<Rightarrow> Results [Num 1] | Some e \<Rightarrow> Results [Nil_value, Str e])"

definition num_value :: "int option \<Rightarrow> lua_value" where
  "num_value n = (case n of None \<Rightarrow> Nil_value | Some n \<Rightarrow> Num n)"

definition data_value :: "bytes option \<Rightarrow> lua_value" where
  "data_value d = (case d of None \<Rightarrow> Nil_value | Some d \<Rightarrow> Data d)"

subsection \<open>Buffered input and output\<close>

definition meth_send ::
    "netlib \<Rightarrow> bytes \<Rightarrow> int option \<Rightarrow> int option \<Rightarrow> t_tcp \<Rightarrow> world \<Rightarrow> (reply \<times> t_tcp \<times> world) option" where
  "meth_send lib data i j tcp w =
     (case auxiliar_checkclass Tcp_client tcp of
        Some e \<Rightarrow> Some (e, tcp, w)
      | None \<Rightarrow>
          do { ((last_byte, err, partial_last), buf, w) \<leftarrow>
                 buffer_meth_send (tcp_io (nl_strerror lib) (tcp_sock tcp)) (tcp_buf tcp) data i j w;
               Some (Results [num_value last_byte, str_value err, num_value partial_last], tcp\<lparr>tcp_buf := buf\<rparr>, w) })"

text \<open>After an argument error only the start of the timeout has changed.\<close>

definition meth_receive ::
    "netlib \<Rightarrow> pattern option \<Rightarrow> bytes option \<Rightarrow> t_tcp \<Rightarrow> world \<Rightarrow> (reply \<times> t_tcp \<times> world) option" where
  "meth_receive lib pat prefix tcp w =
     (case auxiliar_checkclass Tcp_client tcp of
        Some e \<Rightarrow> Some (e, tcp, w)
      | None \<Rightarrow>
          do { r \<leftarrow> buffer_meth_receive (tcp_io (nl_strerror lib) (tcp_sock tcp)) (tcp_buf tcp) pat prefix w;
               case r of
                 Inl msg \<Rightarrow> do { (buf, w) \<leftarrow> mark_start (tcp_buf tcp) w; Some (Lua_error msg, tcp\<lparr>tcp_buf := buf\<rparr>, w) }
               | Inr ((whole, err, partial_data), buf, w) \<Rightarrow>
                   Some (Results [data_value whole, str_value err, data_value partial_data], tcp\<lparr>tcp_buf := buf\<rparr>, w) })"

definition meth_getstats :: "t_tcp \<Rightarrow> world \<Rightarrow> (reply \<times> t_tcp \<times> world) option" where
  "meth_getstats tcp w =
     (case auxiliar_checkclass Tcp_client tcp of
        Some e \<Rightarrow> Some (e, tcp, w)
      | None \<Rightarrow>
          do { (r, s, age, w) \<leftarrow> buffer_meth_getstats (tcp_buf tcp) w;
               Some (Results [Num (int r), Num (int s), Real age], tcp, w) })"

definition meth_setstats ::
    "int option \<Rightarrow> int option \<Rightarrow> real option \<Rightarrow> t_tcp \<Rightarrow> world \<Rightarrow> (reply \<times> t_tcp \<times> world) option" where
  "meth_setstats r s age tcp w =
     (case auxiliar_checkclass Tcp_client tcp of
        Some e \<Rightarrow> Some (e, tcp, w)
      | None \<Rightarrow>
          do { (buf, w) \<leftarrow> buffer_meth_setstats (tcp_buf tcp) r s age w;
               Some (Results [Num 1], tcp\<lparr>tcp_buf := buf\<rparr>, w) })"

subsection \<open>Options\<close>

definition tcp_optget :: "(string \<times> handler) list" where
  "tcp_optget =
     [(''keepalive'', opt_get_keepalive), (''reuseaddr'', opt_get_reuseaddr), (''reuseport'', opt_get_reuseport),
      (''tcp-nodelay'', opt_get_tcp_nodelay), (''tcp-keepidle'', opt_get_tcp_keepidle),
      (''tcp-keepcnt'', opt_get_tcp_keepcnt), (''tcp-keepintvl'', opt_get_tcp_keepintvl),
      (''linger'', opt_get_linger), (''error'', opt_get_error),
      (''recv-buffer-size'', opt_get_recv_buf_size), (''send-buffer-size'', opt_get_send_buf_size)]"

definition tcp_optset :: "(string \<times> handler) list" where
  "tcp_optset =
     [(''keepalive'', opt_set_keepalive), (''reuseaddr'', opt_set_reuseaddr), (''reuseport'', opt_set_reuseport),
      (''tcp-nodelay'', opt_set_tcp_nodelay), (''tcp-keepidle'', opt_set_tcp_keepidle),
      (''tcp-keepcnt'', opt_set_tcp_keepcnt), (''tcp-keepintvl'', opt_set_tcp_keepintvl),
      (''ipv6-v6only'', opt_set_ip6_v6only), (''linger'', opt_set_linger),
      (''recv-buffer-size'', opt_set_recv_buf_size), (''send-buffer-size'', opt_set_send_buf_size)]"

definition meth_getoption :: "netlib \<Rightarrow> string \<Rightarrow> lua_value \<Rightarrow> t_tcp \<Rightarrow> world \<Rightarrow> (reply \<times> t_tcp \<times> world) option" where
  "meth_getoption lib name arg tcp w =
     do { (r, w) \<leftarrow> opt_meth_getoption tcp_optget name lib (tcp_sock tcp) arg w; Some (r, tcp, w) }"

definition meth_setoption :: "netlib \<Rightarrow> string \<Rightarrow> lua_value \<Rightarrow> t_tcp \<Rightarrow> world \<Rightarrow> (reply \<times> t_tcp \<times> world) option" where
  "meth_setoption lib name arg tcp w =
     do { (r, w) \<leftarrow> opt_meth_setoption tcp_optset name lib (tcp_sock tcp) arg w; Some (r, tcp, w) }"

subsection \<open>Select support\<close>

definition meth_getfd :: "t_tcp \<Rightarrow> reply" where
  "meth_getfd tcp = Results [Num (tcp_sock tcp)]"

definition meth_setfd :: "int \<Rightarrow> t_tcp \<Rightarrow> reply \<times> t_tcp" where
  "meth_setfd fd tcp = (Results [], tcp\<lparr>tcp_sock := fd\<rparr>)"

definition meth_dirty :: "t_tcp \<Rightarrow> reply" where
  "meth_dirty tcp = Results [Bool (\<not> buffer_isempty (tcp_buf tcp))]"

subsection \<open>Life of an object\<close>

text \<open>\<open>accept\<close> also gives the new object.\<close>

definition meth_accept :: "netlib \<Rightarrow> t_tcp \<Rightarrow> world \<Rightarrow> (reply \<times> t_tcp \<times> t_tcp option \<times> world) option" where
  "meth_accept lib server w =
     (case auxiliar_checkclass Tcp_server server of
        Some e \<Rightarrow> Some (e, server, None, w)
      | None \<Rightarrow>
          do { (tm, w) \<leftarrow> timeout_markstart (tcp_tm server) w;
               let server = set_tm server tm;
               (err, sock, w) \<leftarrow> inet_tryaccept lib (tcp_sock server) tm w;
               if err = None then
                 do { w \<leftarrow> socket_setnonblocking sock w;
                      (clnt, w) \<leftarrow> tcp_init ((tcp_zero Tcp_client)\<lparr>tcp_sock := sock\<rparr>) w;
                      Some (Results [], server, Some (clnt\<lparr>tcp_family := tcp_family server\<rparr>), w) }
               else Some (Results [Nil_value, str_value err], server, None, w) })"

definition meth_bind ::
    "netlib \<Rightarrow> string \<Rightarrow> string \<Rightarrow> t_tcp \<Rightarrow> world \<Rightarrow> (reply \<times> t_tcp \<times> world) option" where
  "meth_bind lib address port tcp w =
     (case auxiliar_checkclass Tcp_master tcp of
        Some e \<Rightarrow> Some (e, tcp, w)
      | None \<Rightarrow>
          do { (err, sock, family, w) \<leftarrow>
                 inet_trybind lib (tcp_sock tcp) (tcp_family tcp) address (Some port) (tcp_family tcp) SOCK_STREAM AI_PASSIVE w;
               Some (error_reply err, tcp\<lparr>tcp_sock := sock, tcp_family := family\<rparr>, w) })"

definition meth_connect ::
    "netlib \<Rightarrow> string \<Rightarrow> string \<Rightarrow> t_tcp \<Rightarrow> world \<Rightarrow> (reply \<times> t_tcp \<times> world) option" where
  "meth_connect lib address port tcp w =
     do { (tm, w) \<leftarrow> timeout_markstart (tcp_tm tcp) w;
          (err, sock, family, tm, w) \<leftarrow>
            inet_tryconnect lib (tcp_sock tcp) (tcp_family tcp) address port tm (tcp_family tcp) SOCK_STREAM w;
          let tcp = set_tm tcp tm;
          Some (error_reply err, tcp\<lparr>tcp_sock := sock, tcp_family := family, tcp_class := Tcp_client\<rparr>, w) }"

definition meth_close :: "t_tcp \<Rightarrow> world \<Rightarrow> (reply \<times> t_tcp \<times> world) option" where
  "meth_close tcp w =
     do { (sock, w) \<leftarrow> socket_destroy (tcp_sock tcp) w; Some (Results [Num 1], tcp\<lparr>tcp_sock := sock\<rparr>, w) }"

definition meth_getfamily :: "t_tcp \<Rightarrow> reply" where
  "meth_getfamily tcp =
     Results [Str (if tcp_family tcp = AF_INET6 then ''inet6'' else if tcp_family tcp = AF_INET then ''inet4'' else ''inet4'')]"

definition meth_listen :: "netlib \<Rightarrow> int option \<Rightarrow> t_tcp \<Rightarrow> world \<Rightarrow> (reply \<times> t_tcp \<times> world) option" where
  "meth_listen lib arg tcp w =
     (case auxiliar_checkclass Tcp_master tcp of
        Some e \<Rightarrow> Some (e, tcp, w)
      | None \<Rightarrow>
          do { backlog \<leftarrow> c_int (of_int (case arg of None \<Rightarrow> 32 | Some n \<Rightarrow> n));
               (err, w) \<leftarrow> socket_listen (tcp_sock tcp) backlog w;
               if err \<noteq> IO_DONE then Some (Results [Nil_value, str_value (socket_strerror (nl_strerror lib) err)], tcp, w)
               else Some (Results [Num 1], tcp\<lparr>tcp_class := Tcp_server\<rparr>, w) })"

definition meth_shutdown :: "string option \<Rightarrow> t_tcp \<Rightarrow> world \<Rightarrow> (reply \<times> t_tcp \<times> world) option" where
  "meth_shutdown arg tcp w =
     (case auxiliar_checkclass Tcp_client tcp of
        Some e \<Rightarrow> Some (e, tcp, w)
      | None \<Rightarrow>
          (case check_option arg ''both'' [''receive'', ''send'', ''both''] of
             Inl msg \<Rightarrow> Some (Lua_error msg, tcp, w)
           | Inr how \<Rightarrow> do { w \<leftarrow> socket_shutdown (tcp_sock tcp) (int how) w; Some (Results [Num 1], tcp, w) }))"

definition meth_getpeername :: "netlib \<Rightarrow> t_tcp \<Rightarrow> world \<Rightarrow> (reply \<times> t_tcp \<times> world) option" where
  "meth_getpeername lib tcp w =
     do { (r, w) \<leftarrow> inet_meth_getpeername lib (tcp_sock tcp) (tcp_family tcp) w; Some (r, tcp, w) }"

definition meth_getsockname :: "netlib \<Rightarrow> t_tcp \<Rightarrow> world \<Rightarrow> (reply \<times> t_tcp \<times> world) option" where
  "meth_getsockname lib tcp w =
     do { (r, w) \<leftarrow> inet_meth_getsockname lib (tcp_sock tcp) (tcp_family tcp) w; Some (r, tcp, w) }"

definition meth_settimeout :: "real option \<Rightarrow> string option \<Rightarrow> t_tcp \<Rightarrow> reply \<times> t_tcp" where
  "meth_settimeout t mode tcp =
     (case timeout_meth_settimeout t mode (tcp_tm tcp) of
        Inl msg \<Rightarrow> (Lua_error msg, tcp)
      | Inr tm \<Rightarrow> (Results [Num 1], set_tm tcp tm))"

definition meth_gettimeout :: "t_tcp \<Rightarrow> reply" where
  "meth_gettimeout tcp = (let (b, t) = timeout_meth_gettimeout (tcp_tm tcp) in Results [Real b, Real t])"

subsection \<open>Library functions\<close>

text \<open>The reply, and the object when there is one.\<close>

definition tcp_create :: "netlib \<Rightarrow> int \<Rightarrow> world \<Rightarrow> (reply \<times> t_tcp option \<times> world) option" where
  "tcp_create lib family w =
     do { (tcp, w) \<leftarrow> tcp_init ((tcp_zero Tcp_master)\<lparr>tcp_sock := SOCKET_INVALID, tcp_family := family\<rparr>) w;
          if family \<noteq> AF_UNSPEC then
            do { (err, sock, w) \<leftarrow> inet_trycreate lib family SOCK_STREAM 0 w;
                 if err \<noteq> None then Some (Results [Nil_value, str_value err], None, w)
                 else do { w \<leftarrow> socket_setnonblocking sock w; Some (Results [], Some (tcp\<lparr>tcp_sock := sock\<rparr>), w) } }
          else Some (Results [], Some tcp, w) }"

definition global_create :: "netlib \<Rightarrow> world \<Rightarrow> (reply \<times> t_tcp option \<times> world) option" where
  "global_create lib w = tcp_create lib AF_UNSPEC w"

definition global_create4 :: "netlib \<Rightarrow> world \<Rightarrow> (reply \<times> t_tcp option \<times> world) option" where
  "global_create4 lib w = tcp_create lib AF_INET w"

definition global_create6 :: "netlib \<Rightarrow> world \<Rightarrow> (reply \<times> t_tcp option \<times> world) option" where
  "global_create6 lib w = tcp_create lib AF_INET6 w"

text \<open>Until it is connected the userdata has no metatable, so that it is never finalised: on an error
  it is dropped with the descriptor it may hold.\<close>

definition global_connect ::
    "netlib \<Rightarrow> string \<Rightarrow> string \<Rightarrow> string option \<Rightarrow> string option \<Rightarrow> string option \<Rightarrow> world
      \<Rightarrow> (reply \<times> t_tcp option \<times> world) option" where
  "global_connect lib remoteaddr remoteserv localaddr localserv familyname w =
     (case inet_optfamily familyname ''unspec'' of
        Inl msg \<Rightarrow> Some (Lua_error msg, None, w)
      | Inr family \<Rightarrow>
          do { (tcp, w) \<leftarrow> tcp_init (tcp_zero Tcp_client) w;
               (err, sock, current_family, w) \<leftarrow>
                 (case localaddr of
                    None \<Rightarrow> Some (None, SOCKET_INVALID, AF_UNSPEC, w)
                  | Some address \<Rightarrow>
                      inet_trybind lib SOCKET_INVALID AF_UNSPEC address
                        (Some (case localserv of None \<Rightarrow> ''0'' | Some s \<Rightarrow> s)) family SOCK_STREAM AI_PASSIVE w);
               if err \<noteq> None then Some (Results [Nil_value, str_value err], None, w)
               else
                 do { (err, sock, current_family, tm, w) \<leftarrow>
                        inet_tryconnect lib sock current_family remoteaddr remoteserv (tcp_tm tcp) current_family SOCK_STREAM w;
                      if err \<noteq> None then
                        do { (sock, w) \<leftarrow> socket_destroy sock w; Some (Results [Nil_value, str_value err], None, w) }
                      else Some (Results [], Some ((set_tm tcp tm)\<lparr>tcp_sock := sock, tcp_family := current_family\<rparr>), w) } })"

subsection \<open>The table of the methods\<close>

datatype tcp_call =
    Tcp_accept
  | Tcp_bind string string
  | Tcp_close
  | Tcp_connect string string
  | Tcp_dirty
  | Tcp_getfamily
  | Tcp_getfd
  | Tcp_getoption string lua_value
  | Tcp_getpeername
  | Tcp_getsockname
  | Tcp_getstats
  | Tcp_setstats "int option" "int option" "real option"
  | Tcp_listen "int option"
  | Tcp_receive "pattern option" "bytes option"
  | Tcp_send bytes "int option" "int option"
  | Tcp_setfd int
  | Tcp_setoption string lua_value
  | Tcp_settimeout "real option" "string option"
  | Tcp_gettimeout
  | Tcp_shutdown "string option"

text \<open>Calling a method: the reply, the object after it, a new object, the world. \<open>__gc\<close> is \<open>close\<close>,
  \<open>setpeername\<close> and \<open>setsockname\<close> are other names of \<open>connect\<close> and \<open>bind\<close>.\<close>

definition tcp_methods ::
    "netlib \<Rightarrow> tcp_call \<Rightarrow> t_tcp \<Rightarrow> world \<Rightarrow> (reply \<times> t_tcp \<times> t_tcp option \<times> world) option" where
  "tcp_methods lib call tcp w =
     (let same = map_option (\<lambda>(r, tcp, w). (r, tcp, None, w)) in
      case call of
        Tcp_accept \<Rightarrow> meth_accept lib tcp w
      | Tcp_bind address port \<Rightarrow> same (meth_bind lib address port tcp w)
      | Tcp_close \<Rightarrow> same (meth_close tcp w)
      | Tcp_connect address port \<Rightarrow> same (meth_connect lib address port tcp w)
      | Tcp_dirty \<Rightarrow> Some (meth_dirty tcp, tcp, None, w)
      | Tcp_getfamily \<Rightarrow> Some (meth_getfamily tcp, tcp, None, w)
      | Tcp_getfd \<Rightarrow> Some (meth_getfd tcp, tcp, None, w)
      | Tcp_getoption name arg \<Rightarrow> same (meth_getoption lib name arg tcp w)
      | Tcp_getpeername \<Rightarrow> same (meth_getpeername lib tcp w)
      | Tcp_getsockname \<Rightarrow> same (meth_getsockname lib tcp w)
      | Tcp_getstats \<Rightarrow> same (meth_getstats tcp w)
      | Tcp_setstats r s age \<Rightarrow> same (meth_setstats r s age tcp w)
      | Tcp_listen backlog \<Rightarrow> same (meth_listen lib backlog tcp w)
      | Tcp_receive pat prefix \<Rightarrow> same (meth_receive lib pat prefix tcp w)
      | Tcp_send data i j \<Rightarrow> same (meth_send lib data i j tcp w)
      | Tcp_setfd fd \<Rightarrow> (let (r, tcp) = meth_setfd fd tcp in Some (r, tcp, None, w))
      | Tcp_setoption name arg \<Rightarrow> same (meth_setoption lib name arg tcp w)
      | Tcp_settimeout t mode \<Rightarrow> (let (r, tcp) = meth_settimeout t mode tcp in Some (r, tcp, None, w))
      | Tcp_gettimeout \<Rightarrow> Some (meth_gettimeout tcp, tcp, None, w)
      | Tcp_shutdown how \<Rightarrow> same (meth_shutdown how tcp w))"

end
