(* ===== verification/Udp.thy ===== *)
theory Udp
  imports Tcp
begin

section \<open>UDP objects (luasocket, udp.c)\<close>

text \<open>
  The objects of the two classes and their methods, in the way of \<open>Tcp\<close>. A datagram is received into
  a buffer of the size wanted; the allocation of a large one does not fail here. The sender of a
  datagram is what the system reports with it: \<open>recvfrom\<close> on an invalid socket or with an error does
  not write the address, so that looking its name up then is \<open>None\<close>.
\<close>

datatype udp_class = Udp_connected | Udp_unconnected

record t_udp =
  udp_class :: udp_class
  udp_sock :: int
  udp_tm :: t_timeout
  udp_family :: int

definition UDP_DATAGRAMSIZE :: nat where "UDP_DATAGRAMSIZE = 8192"

definition udp_class_name :: "udp_class \<Rightarrow> string" where
  "udp_class_name c = (case c of Udp_connected \<Rightarrow> ''udp{connected}'' | Udp_unconnected \<Rightarrow> ''udp{unconnected}'')"

definition udp_checkclass :: "udp_class \<Rightarrow> t_udp \<Rightarrow> reply option" where
  "udp_checkclass c udp =
     (if udp_class udp = c then None else Some (Lua_error (take 35 (udp_class_name c) @ '' expected'')))"

definition udp_strerror :: "netlib \<Rightarrow> int \<Rightarrow> string option" where
  "udp_strerror lib err = (if err = IO_CLOSED then Some ''refused'' else socket_strerror (nl_strerror lib) err)"

subsection \<open>Options\<close>

definition udp_optset :: "(string \<times> handler) list" where
  "udp_optset =
     [(''dontroute'', opt_set_dontroute), (''broadcast'', opt_set_broadcast), (''reuseaddr'', opt_set_reuseaddr),
      (''reuseport'', opt_set_reuseport), (''ip-multicast-if'', opt_set_ip_multicast_if),
      (''ip-multicast-ttl'', opt_set_ip_multicast_ttl), (''ip-multicast-loop'', opt_set_ip_multicast_loop),
      (''ip-add-membership'', opt_set_ip_add_membership), (''ip-drop-membership'', opt_set_ip_drop_membersip),
      (''ipv6-unicast-hops'', opt_set_ip6_unicast_hops), (''ipv6-multicast-hops'', opt_set_ip6_unicast_hops),
      (''ipv6-multicast-loop'', opt_set_ip6_multicast_loop), (''ipv6-add-membership'', opt_set_ip6_add_membership),
      (''ipv6-drop-membership'', opt_set_ip6_drop_membersip), (''ipv6-v6only'', opt_set_ip6_v6only),
      (''recv-buffer-size'', opt_set_recv_buf_size), (''send-buffer-size'', opt_set_send_buf_size)]"

definition udp_optget :: "(string \<times> handler) list" where
  "udp_optget =
     [(''dontroute'', opt_get_dontroute), (''broadcast'', opt_get_broadcast), (''reuseaddr'', opt_get_reuseaddr),
      (''reuseport'', opt_get_reuseport), (''ip-multicast-if'', opt_get_ip_multicast_if),
      (''ip-multicast-loop'', opt_get_ip_multicast_loop), (''error'', opt_get_error),
      (''ipv6-unicast-hops'', opt_get_ip6_unicast_hops), (''ipv6-multicast-hops'', opt_get_ip6_unicast_hops),
      (''ipv6-multicast-loop'', opt_get_ip6_multicast_loop), (''ipv6-v6only'', opt_get_ip6_v6only),
      (''recv-buffer-size'', opt_get_recv_buf_size), (''send-buffer-size'', opt_get_send_buf_size)]"

definition udp_getoption :: "netlib \<Rightarrow> string \<Rightarrow> lua_value \<Rightarrow> t_udp \<Rightarrow> world \<Rightarrow> (reply \<times> t_udp \<times> world) option" where
  "udp_getoption lib name arg udp w =
     do { (r, w) \<leftarrow> opt_meth_getoption udp_optget name lib (udp_sock udp) arg w; Some (r, udp, w) }"

definition udp_setoption :: "netlib \<Rightarrow> string \<Rightarrow> lua_value \<Rightarrow> t_udp \<Rightarrow> world \<Rightarrow> (reply \<times> t_udp \<times> world) option" where
  "udp_setoption lib name arg udp w =
     do { (r, w) \<leftarrow> opt_meth_setoption udp_optset name lib (udp_sock udp) arg w; Some (r, udp, w) }"

subsection \<open>Datagrams\<close>

definition udp_markstart :: "t_udp \<Rightarrow> world \<Rightarrow> (t_udp \<times> world) option" where
  "udp_markstart udp w = do { (tm, w) \<leftarrow> timeout_markstart (udp_tm udp) w; Some (udp\<lparr>udp_tm := tm\<rparr>, w) }"

text \<open>The reply to a transfer that sends.\<close>

definition sent_reply :: "netlib \<Rightarrow> int \<Rightarrow> nat \<Rightarrow> reply" where
  "sent_reply lib err n =
     (if err \<noteq> IO_DONE then Results [Nil_value, str_value (udp_strerror lib err)] else Results [Num (int n)])"

definition udp_send :: "netlib \<Rightarrow> bytes \<Rightarrow> t_udp \<Rightarrow> world \<Rightarrow> (reply \<times> t_udp \<times> world) option" where
  "udp_send lib data udp w =
     (case udp_checkclass Udp_connected udp of
        Some e \<Rightarrow> Some (e, udp, w)
      | None \<Rightarrow>
          do { (udp, w) \<leftarrow> udp_markstart udp w;
               (err, n, w) \<leftarrow> socket_send (udp_sock udp) data (udp_tm udp) w;
               Some (sent_reply lib err n, udp, w) })"

text \<open>The loop that creates the socket on the first \<open>sendto\<close>.\<close>

fun create_each :: "netlib \<Rightarrow> addrinfo list \<Rightarrow> string option \<Rightarrow> t_udp \<Rightarrow> world \<Rightarrow> (string option \<times> t_udp \<times> world) option" where
  "create_each lib [] errstr udp w = Some (errstr, udp, w)"
| "create_each lib (ap # ais) errstr0 udp w0 =
     do { (errstr, ps, w) \<leftarrow> inet_trycreate lib (ai_family ap) SOCK_DGRAM 0 w0;
          if errstr = None then
            do { w \<leftarrow> socket_setnonblocking ps w; Some (None, udp\<lparr>udp_sock := ps, udp_family := ai_family ap\<rparr>, w) }
          else create_each lib ais errstr (udp\<lparr>udp_sock := ps\<rparr>) w }"

definition udp_sendto ::
    "netlib \<Rightarrow> bytes \<Rightarrow> string \<Rightarrow> string \<Rightarrow> t_udp \<Rightarrow> world \<Rightarrow> (reply \<times> t_udp \<times> world) option" where
  "udp_sendto lib data ip port udp w =
     (case udp_checkclass Udp_unconnected udp of
        Some e \<Rightarrow> Some (e, udp, w)
      | None \<Rightarrow>
          do { (a, w) \<leftarrow> ask (Getaddrinfo (Some ip) (Some port) (udp_family udp) SOCK_DGRAM (AI_NUMERICHOST + AI_NUMERICSERV)) w;
               case a of
                 Eai e errno \<Rightarrow> Some (Results [Nil_value, Str (nl_gai_strerror lib e)], udp, w)
               | Resolved ais \<Rightarrow>
                   do { (errstr, udp, w) \<leftarrow>
                          (if udp_family udp = AF_UNSPEC \<and> udp_sock udp = SOCKET_INVALID then create_each lib ais None udp w
                           else Some (None, udp, w));
                        case errstr of
                          Some e \<Rightarrow> Some (Results [Nil_value, Str e], udp, w)
                        | None \<Rightarrow>
                            do { (udp, w) \<leftarrow> udp_markstart udp w;
                                 (err, n, w) \<leftarrow> socket_sendto (udp_sock udp) data (ai_addr (hd ais)) (udp_tm udp) w;
                                 Some (sent_reply lib err n, udp, w) } }
               | _ \<Rightarrow> None })"

text \<open>The size of the buffer; the conversion of a negative number is undefined.\<close>

definition wanted_size :: "int option \<Rightarrow> nat option" where
  "wanted_size arg = (case arg of None \<Rightarrow> Some UDP_DATAGRAMSIZE | Some n \<Rightarrow> if n < 0 then None else Some (nat n))"

definition udp_receive :: "netlib \<Rightarrow> int option \<Rightarrow> t_udp \<Rightarrow> world \<Rightarrow> (reply \<times> t_udp \<times> world) option" where
  "udp_receive lib arg udp w =
     do { wanted \<leftarrow> wanted_size arg;
          (udp, w) \<leftarrow> udp_markstart udp w;
          (err, dgram, w) \<leftarrow> socket_recv (udp_sock udp) wanted (udp_tm udp) w;
          if err \<noteq> IO_DONE \<and> err \<noteq> IO_CLOSED then Some (Results [Nil_value, str_value (udp_strerror lib err)], udp, w)
          else Some (Results [Data dgram], udp, w) }"

definition udp_receivefrom :: "netlib \<Rightarrow> int option \<Rightarrow> t_udp \<Rightarrow> world \<Rightarrow> (reply \<times> t_udp \<times> world) option" where
  "udp_receivefrom lib arg udp w =
     (case udp_checkclass Udp_unconnected udp of
        Some e \<Rightarrow> Some (e, udp, w)
      | None \<Rightarrow>
          do { wanted \<leftarrow> wanted_size arg;
               (udp, w) \<leftarrow> udp_markstart udp w;
               (err, dgram, w) \<leftarrow> socket_recvfrom (udp_sock udp) wanted (udp_tm udp) w;
               if err \<noteq> IO_DONE \<and> err \<noteq> IO_CLOSED then
                 Some (Results [Nil_value, str_value (udp_strerror lib err)], udp, w)
               else if udp_sock udp = SOCKET_INVALID then None
               else
                 do { (a, w) \<leftarrow> ask (Getnameinfo (nl_sender lib w) True True (NI_NUMERICHOST + NI_NUMERICSERV)) w;
                      case a of
                        Names addrstr portstr \<Rightarrow> Some (Results [Data dgram, Str addrstr, Num (atoi portstr)], udp, w)
                      | Eai e errno \<Rightarrow> Some (Results [Nil_value, Str (nl_gai_strerror lib e)], udp, w)
                      | _ \<Rightarrow> None } })"

subsection \<open>State of an object\<close>

definition udp_getfamily :: "t_udp \<Rightarrow> reply" where
  "udp_getfamily udp = Results [Str (if udp_family udp = AF_INET6 then ''inet6'' else ''inet4'')]"

definition udp_getfd :: "t_udp \<Rightarrow> reply" where
  "udp_getfd udp = Results [Num (udp_sock udp)]"

definition udp_setfd :: "int \<Rightarrow> t_udp \<Rightarrow> reply \<times> t_udp" where
  "udp_setfd fd udp = (Results [], udp\<lparr>udp_sock := fd\<rparr>)"

definition udp_dirty :: "t_udp \<Rightarrow> reply" where
  "udp_dirty udp = Results [Bool False]"

definition udp_getpeername :: "netlib \<Rightarrow> t_udp \<Rightarrow> world \<Rightarrow> (reply \<times> t_udp \<times> world) option" where
  "udp_getpeername lib udp w =
     (case udp_checkclass Udp_connected udp of
        Some e \<Rightarrow> Some (e, udp, w)
      | None \<Rightarrow> do { (r, w) \<leftarrow> inet_meth_getpeername lib (udp_sock udp) (udp_family udp) w; Some (r, udp, w) })"

definition udp_getsockname :: "netlib \<Rightarrow> t_udp \<Rightarrow> world \<Rightarrow> (reply \<times> t_udp \<times> world) option" where
  "udp_getsockname lib udp w =
     do { (r, w) \<leftarrow> inet_meth_getsockname lib (udp_sock udp) (udp_family udp) w; Some (r, udp, w) }"

definition udp_settimeout :: "real option \<Rightarrow> string option \<Rightarrow> t_udp \<Rightarrow> reply \<times> t_udp" where
  "udp_settimeout t mode udp =
     (case timeout_meth_settimeout t mode (udp_tm udp) of
        Inl msg \<Rightarrow> (Lua_error msg, udp)
      | Inr tm \<Rightarrow> (Results [Num 1], udp\<lparr>udp_tm := tm\<rparr>))"

definition udp_gettimeout :: "t_udp \<Rightarrow> reply" where
  "udp_gettimeout udp = (let (b, t) = timeout_meth_gettimeout (udp_tm udp) in Results [Real b, Real t])"

text \<open>The second argument is only looked at when the first is an address.\<close>

definition udp_setpeername ::
    "netlib \<Rightarrow> string \<Rightarrow> string \<Rightarrow> t_udp \<Rightarrow> world \<Rightarrow> (reply \<times> t_udp \<times> world) option" where
  "udp_setpeername lib address port udp w =
     (if address \<noteq> ''*'' then
        do { (err, sock, family, tm, w) \<leftarrow>
               inet_tryconnect lib (udp_sock udp) (udp_family udp) address port (udp_tm udp) (udp_family udp) SOCK_DGRAM w;
             let udp = udp\<lparr>udp_sock := sock, udp_family := family, udp_tm := tm\<rparr>;
             if err \<noteq> None then Some (error_reply err, udp, w)
             else Some (Results [Num 1], udp\<lparr>udp_class := Udp_connected\<rparr>, w) }
      else
        do { (err, w) \<leftarrow> inet_trydisconnect lib (udp_sock udp) (udp_family udp) (udp_tm udp) w;
             Some (Results [Num 1], udp\<lparr>udp_class := Udp_unconnected\<rparr>, w) })"

definition udp_setsockname ::
    "netlib \<Rightarrow> string \<Rightarrow> string \<Rightarrow> t_udp \<Rightarrow> world \<Rightarrow> (reply \<times> t_udp \<times> world) option" where
  "udp_setsockname lib address port udp w =
     (case udp_checkclass Udp_unconnected udp of
        Some e \<Rightarrow> Some (e, udp, w)
      | None \<Rightarrow>
          do { (err, sock, family, w) \<leftarrow>
                 inet_trybind lib (udp_sock udp) (udp_family udp) address (Some port) (udp_family udp) SOCK_DGRAM AI_PASSIVE w;
               Some (error_reply err, udp\<lparr>udp_sock := sock, udp_family := family\<rparr>, w) })"

definition udp_close :: "t_udp \<Rightarrow> world \<Rightarrow> (reply \<times> t_udp \<times> world) option" where
  "udp_close udp w =
     do { (sock, w) \<leftarrow> socket_destroy (udp_sock udp) w; Some (Results [Num 1], udp\<lparr>udp_sock := sock\<rparr>, w) }"

subsection \<open>Library functions\<close>

text \<open>The start of the timeout is not initialised: \<open>junk\<close> is what the memory holds.\<close>

definition udp_create :: "netlib \<Rightarrow> real \<Rightarrow> int \<Rightarrow> world \<Rightarrow> (reply \<times> t_udp option \<times> world) option" where
  "udp_create lib junk family w =
     (let udp = \<lparr>udp_class = Udp_unconnected, udp_sock = SOCKET_INVALID,
                 udp_tm = timeout_init \<lparr>tm_block = junk, tm_total = junk, tm_start = junk\<rparr> (- 1) (- 1),
                 udp_family = family\<rparr> in
      if family \<noteq> AF_UNSPEC then
        do { (err, sock, w) \<leftarrow> inet_trycreate lib family SOCK_DGRAM 0 w;
             if err \<noteq> None then Some (Results [Nil_value, str_value err], None, w)
             else do { w \<leftarrow> socket_setnonblocking sock w; Some (Results [], Some (udp\<lparr>udp_sock := sock\<rparr>), w) } }
      else Some (Results [], Some udp, w))"

definition udp_global_create :: "netlib \<Rightarrow> real \<Rightarrow> world \<Rightarrow> (reply \<times> t_udp option \<times> world) option" where
  "udp_global_create lib junk w = udp_create lib junk AF_UNSPEC w"

definition udp_global_create4 :: "netlib \<Rightarrow> real \<Rightarrow> world \<Rightarrow> (reply \<times> t_udp option \<times> world) option" where
  "udp_global_create4 lib junk w = udp_create lib junk AF_INET w"

definition udp_global_create6 :: "netlib \<Rightarrow> real \<Rightarrow> world \<Rightarrow> (reply \<times> t_udp option \<times> world) option" where
  "udp_global_create6 lib junk w = udp_create lib junk AF_INET6 w"

subsection \<open>The table of the methods\<close>

datatype udp_call =
    Udp_close
  | Udp_dirty
  | Udp_getfamily
  | Udp_getfd
  | Udp_getpeername
  | Udp_getsockname
  | Udp_receive "int option"
  | Udp_receivefrom "int option"
  | Udp_send bytes
  | Udp_sendto bytes string string
  | Udp_setfd int
  | Udp_setoption string lua_value
  | Udp_getoption string lua_value
  | Udp_setpeername string string
  | Udp_setsockname string string
  | Udp_settimeout "real option" "string option"
  | Udp_gettimeout

definition udp_methods :: "netlib \<Rightarrow> udp_call \<Rightarrow> t_udp \<Rightarrow> world \<Rightarrow> (reply \<times> t_udp \<times> world) option" where
  "udp_methods lib call udp w =
     (case call of
        Udp_close \<Rightarrow> udp_close udp w
      | Udp_dirty \<Rightarrow> Some (udp_dirty udp, udp, w)
      | Udp_getfamily \<Rightarrow> Some (udp_getfamily udp, udp, w)
      | Udp_getfd \<Rightarrow> Some (udp_getfd udp, udp, w)
      | Udp_getpeername \<Rightarrow> udp_getpeername lib udp w
      | Udp_getsockname \<Rightarrow> udp_getsockname lib udp w
      | Udp_receive n \<Rightarrow> udp_receive lib n udp w
      | Udp_receivefrom n \<Rightarrow> udp_receivefrom lib n udp w
      | Udp_send data \<Rightarrow> udp_send lib data udp w
      | Udp_sendto data ip port \<Rightarrow> udp_sendto lib data ip port udp w
      | Udp_setfd fd \<Rightarrow> (let (r, udp) = udp_setfd fd udp in Some (r, udp, w))
      | Udp_setoption name arg \<Rightarrow> udp_setoption lib name arg udp w
      | Udp_getoption name arg \<Rightarrow> udp_getoption lib name arg udp w
      | Udp_setpeername address port \<Rightarrow> udp_setpeername lib address port udp w
      | Udp_setsockname address port \<Rightarrow> udp_setsockname lib address port udp w
      | Udp_settimeout t mode \<Rightarrow> (let (r, udp) = udp_settimeout t mode udp in Some (r, udp, w))
      | Udp_gettimeout \<Rightarrow> Some (udp_gettimeout udp, udp, w))"

end
