(* ===== verification/Buffer_Frame.thy ===== *)
theory Buffer_Frame
  imports Buffer Usocket_Correct
begin

section \<open>The system calls of buffered input and output\<close>

text \<open>
  Whatever is known of the calls a transport makes is known of the methods over it: a calculus for
  partial results (\<open>post\<close>), and the locale \<open>io_frame\<close>, interpreted by the TCP sockets for the calls
  that neither open nor close a descriptor.
\<close>

subsection \<open>Partial results\<close>

definition post :: "'a option \<Rightarrow> ('a \<Rightarrow> bool) \<Rightarrow> bool" where
  "post m Q \<longleftrightarrow> (\<forall>x. m = Some x \<longrightarrow> Q x)"

named_theorems post_rules \<open>rules that reduce a \<open>post\<close> to the post of the parts\<close>

lemma postI: "(\<And>x. m = Some x \<Longrightarrow> Q x) \<Longrightarrow> post m Q"
  by (simp add: post_def)

lemma postD: "post m Q \<Longrightarrow> m = Some x \<Longrightarrow> Q x"
  by (simp add: post_def)

lemma post_mono: "post m Q \<Longrightarrow> (\<And>x. Q x \<Longrightarrow> R x) \<Longrightarrow> post m R"
  by (simp add: post_def)

lemma post_None [simp]: "post None Q"
  by (simp add: post_def)

lemma post_Some [simp]: "post (Some x) Q \<longleftrightarrow> Q x"
  by (simp add: post_def)

lemma post_bind [post_rules]: "post m (\<lambda>x. post (f x) Q) \<Longrightarrow> post (do { x \<leftarrow> m; f x }) Q"
  by (cases m) (auto simp: post_def)

lemma post_map [post_rules]: "post m (\<lambda>x. Q (f x)) \<Longrightarrow> post (map_option f m) Q"
  by (auto simp: post_def)

lemma post_if [post_rules]: "(b \<Longrightarrow> post m Q) \<Longrightarrow> (\<not> b \<Longrightarrow> post n Q) \<Longrightarrow> post (if b then m else n) Q"
  by simp

lemma post_prod [post_rules]: "(\<And>a b. x = (a, b) \<Longrightarrow> post (f a b) Q) \<Longrightarrow> post (case x of (a, b) \<Rightarrow> f a b) Q"
  by (cases x) simp

lemma post_option [post_rules]:
  "(x = None \<Longrightarrow> post m Q) \<Longrightarrow> (\<And>a. x = Some a \<Longrightarrow> post (f a) Q) \<Longrightarrow> post (case x of None \<Rightarrow> m | Some a \<Rightarrow> f a) Q"
  by (cases x) simp_all

lemma post_sum [post_rules]:
  "(\<And>a. x = Inl a \<Longrightarrow> post (f a) Q) \<Longrightarrow> (\<And>b. x = Inr b \<Longrightarrow> post (g b) Q)
    \<Longrightarrow> post (case x of Inl a \<Rightarrow> f a | Inr b \<Rightarrow> g b) Q"
  by (cases x) simp_all


lemma post_answer [post_rules]:
  "(\<And>x y. a = Time x y \<Longrightarrow> post (f0 x y) Q)
    \<Longrightarrow> (\<And>x y. a = Remaining x y \<Longrightarrow> post (f1 x y) Q)
    \<Longrightarrow> (\<And>x. a = Revents x \<Longrightarrow> post (f2 x) Q)
    \<Longrightarrow> (\<And>x. a = Put x \<Longrightarrow> post (f3 x) Q)
    \<Longrightarrow> (\<And>x. a = Took x \<Longrightarrow> post (f4 x) Q)
    \<Longrightarrow> (\<And>x. a = Fd x \<Longrightarrow> post (f5 x) Q)
    \<Longrightarrow> (\<And>x. a = Flags x \<Longrightarrow> post (f6 x) Q)
    \<Longrightarrow> (a = Success \<Longrightarrow> post (f7) Q)
    \<Longrightarrow> (\<And>x. a = Fail x \<Longrightarrow> post (f8 x) Q)
    \<Longrightarrow> (\<And>x y z. a = Ready x y z \<Longrightarrow> post (f9 x y z) Q)
    \<Longrightarrow> (\<And>x. a = Resolved x \<Longrightarrow> post (f10 x) Q)
    \<Longrightarrow> (\<And>x y. a = Eai x y \<Longrightarrow> post (f11 x y) Q)
    \<Longrightarrow> (\<And>x y. a = Names x y \<Longrightarrow> post (f12 x y) Q)
    \<Longrightarrow> (\<And>x. a = Address x \<Longrightarrow> post (f13 x) Q)
    \<Longrightarrow> (\<And>x. a = Option x \<Longrightarrow> post (f14 x) Q)
    \<Longrightarrow> post (case a of Time x y \<Rightarrow> f0 x y
      | Remaining x y \<Rightarrow> f1 x y
      | Revents x \<Rightarrow> f2 x
      | Put x \<Rightarrow> f3 x
      | Took x \<Rightarrow> f4 x
      | Fd x \<Rightarrow> f5 x
      | Flags x \<Rightarrow> f6 x
      | Success \<Rightarrow> f7
      | Fail x \<Rightarrow> f8 x
      | Ready x y z \<Rightarrow> f9 x y z
      | Resolved x \<Rightarrow> f10 x
      | Eai x y \<Rightarrow> f11 x y
      | Names x y \<Rightarrow> f12 x y
      | Address x \<Rightarrow> f13 x
      | Option x \<Rightarrow> f14 x) Q"
  by (cases a) simp_all

lemma post_c_int [post_rules]: "(\<And>n. Q n) \<Longrightarrow> post (c_int x) Q"
  by (simp add: post_def)

subsection \<open>Transports whose calls satisfy a predicate\<close>

locale io_frame =
  fixes io :: t_io and P :: "sys_call \<times> answer \<Rightarrow> bool"
  assumes recv_adds: "io_recv io n tm w = Some (e, bs, w') \<Longrightarrow> adds P w w'"
    and send_adds: "io_send io d tm w = Some (e, k, w') \<Longrightarrow> adds P w w'"
    and clock_adds: "waits x \<Longrightarrow> P x"
begin

lemma gettime_frame [post_rules]:
  "(\<And>t w'. adds P w w' \<Longrightarrow> Q (t, w')) \<Longrightarrow> post (timeout_gettime w) Q"
  by (rule postI) (metis adds_mono clock_adds surj_pair timeout_gettime_adds)

lemma recv_frame [post_rules]: "(\<And>e bs w'. adds P w w' \<Longrightarrow> Q (e, bs, w')) \<Longrightarrow> post (io_recv io n tm w) Q"
  by (rule postI) (auto dest: recv_adds)

lemma send_frame [post_rules]: "(\<And>e k w'. adds P w w' \<Longrightarrow> Q (e, k, w')) \<Longrightarrow> post (io_send io d tm w) Q"
  by (rule postI) (auto dest: send_adds)

lemma markstart_frame [post_rules]: "(\<And>buf' w'. adds P w w' \<Longrightarrow> Q (buf', w')) \<Longrightarrow> post (mark_start buf w) Q"
  unfolding mark_start_def timeout_markstart_def by (intro post_rules) auto

lemma buffer_get_frame [post_rules]:
  "(\<And>e d buf' w'. adds P w w' \<Longrightarrow> Q (e, d, buf', w')) \<Longrightarrow> post (buffer_get io buf w) Q"
  unfolding buffer_get_def by (intro post_rules) (auto intro!: post_rules)

lemma sendraw_loop_frame [post_rules]:
  assumes "\<And>e k w'. adds P w w' \<Longrightarrow> Q (e, k, w')"
  shows "post (sendraw_loop io tm data so_far err w) Q"
proof (rule postI)
  fix r assume r: "sendraw_loop io tm data so_far err w = Some r"
  define R where "R = (\<lambda>io' (tm :: t_timeout) (data :: bytes) (so_far :: nat) (err :: int) w r.
    io' = io \<longrightarrow> adds P w (snd (snd (r :: int \<times> nat \<times> world))))"
  have "R io tm data so_far err w r"
  proof (rule sendraw_loop.raw_induct [OF _ r])
    fix loop io' tm data so_far err w r
    assume IH: "\<And>io' tm data so_far err w r. loop io' tm data so_far err w = Some r \<Longrightarrow> R io' tm data so_far err w r"
      and body: "(if so_far < length data \<and> err = IO_DONE then
        (let step = (if length data - so_far \<le> STEPSIZE then length data - so_far else STEPSIZE) in
         do { (err, done, w) \<leftarrow> io_send io' (take step (drop so_far data)) tm w; loop io' tm data (so_far + done) err w })
      else Some (err, so_far, w)) = Some r"
    have loop: "post (loop io tm data so_far err w) Q" if "\<And>r. adds P w (snd (snd r)) \<Longrightarrow> Q r" for tm data so_far err w Q
      using IH that by (auto simp: R_def intro!: postI)
    have "post (if so_far < length data \<and> err = IO_DONE then
        (let step = (if length data - so_far \<le> STEPSIZE then length data - so_far else STEPSIZE) in
         do { (err, done, w) \<leftarrow> io_send io (take step (drop so_far data)) tm w; loop io tm data (so_far + done) err w })
      else Some (err, so_far, w)) (\<lambda>r. adds P w (snd (snd r)))"
      unfolding Let_def by (auto intro!: post_rules loop intro: adds_trans)
    then show "R io' tm data so_far err w r" using body by (auto simp: R_def dest: postD)
  qed
  then show "Q r" using assms by (cases r) (simp add: R_def)
qed

lemma recvraw_loop_frame [post_rules]:
  assumes "\<And>e b' buf' w'. adds P w w' \<Longrightarrow> Q (e, b', buf', w')"
  shows "post (recvraw_loop io wanted so_far err b buf w) Q"
proof (rule postI)
  fix r assume r: "recvraw_loop io wanted so_far err b buf w = Some r"
  define R where "R = (\<lambda>io' (wanted :: nat) (so_far :: nat) (err :: int) (b :: bytes) (buf :: t_buffer) w r. io' = io \<longrightarrow> adds P w ((snd \<circ> snd \<circ> snd) (r :: int \<times> bytes \<times> t_buffer \<times> world)))"
  have "R io wanted so_far err b buf w r"
  proof (rule recvraw_loop.raw_induct [OF _ r])
    fix loop io' wanted so_far err b buf w r
    assume IH: "\<And>io' wanted so_far err b buf w r. loop io' wanted so_far err b buf w = Some r \<Longrightarrow> R io' wanted so_far err b buf w r"
      and body: "(if err = IO_DONE then
        do { (err, data, buf, w) \<leftarrow> buffer_get io' buf w;
             let count = min (length data) (wanted - so_far);
             let b = b @ take count data;
             let buf = buffer_skip buf count;
             let so_far = so_far + count;
             if so_far \<ge> wanted then Some (err, b, buf, w) else loop io' wanted so_far err b buf w }
      else Some (err, b, buf, w)) = Some r"
    have loop: "post (loop io wanted so_far err b buf w) Q" if "\<And>r. adds P w ((snd \<circ> snd \<circ> snd) r) \<Longrightarrow> Q r" for wanted so_far err b buf w Q
      using IH that by (auto simp: R_def intro!: postI)
    have "post (if err = IO_DONE then
        do { (err, data, buf, w) \<leftarrow> buffer_get io buf w;
             let count = min (length data) (wanted - so_far);
             let b = b @ take count data;
             let buf = buffer_skip buf count;
             let so_far = so_far + count;
             if so_far \<ge> wanted then Some (err, b, buf, w) else loop io wanted so_far err b buf w }
      else Some (err, b, buf, w))
        (\<lambda>r. adds P w ((snd \<circ> snd \<circ> snd) r))"
      unfolding Let_def by (auto intro!: post_rules loop intro: adds_trans)
    then show "R io' wanted so_far err b buf w r" using body by (auto simp: R_def dest: postD)
  qed
  then show "Q r" using assms by (cases r) (simp add: R_def)
qed

lemma recvall_loop_frame [post_rules]:
  assumes "\<And>e n b' buf' w'. adds P w w' \<Longrightarrow> Q (e, n, b', buf', w')"
  shows "post (recvall_loop io so_far err b buf w) Q"
proof (rule postI)
  fix r assume r: "recvall_loop io so_far err b buf w = Some r"
  define R where "R = (\<lambda>io' (so_far :: nat) (err :: int) (b :: bytes) (buf :: t_buffer) w r. io' = io \<longrightarrow> adds P w ((snd \<circ> snd \<circ> snd \<circ> snd) (r :: int \<times> nat \<times> bytes \<times> t_buffer \<times> world)))"
  have "R io so_far err b buf w r"
  proof (rule recvall_loop.raw_induct [OF _ r])
    fix loop io' so_far err b buf w r
    assume IH: "\<And>io' so_far err b buf w r. loop io' so_far err b buf w = Some r \<Longrightarrow> R io' so_far err b buf w r"
      and body: "(if err = IO_DONE then
        do { (err, data, buf, w) \<leftarrow> buffer_get io' buf w;
             loop io' (so_far + length data) err (b @ data) (buffer_skip buf (length data)) w }
      else Some (err, so_far, b, buf, w)) = Some r"
    have loop: "post (loop io so_far err b buf w) Q" if "\<And>r. adds P w ((snd \<circ> snd \<circ> snd \<circ> snd) r) \<Longrightarrow> Q r" for so_far err b buf w Q
      using IH that by (auto simp: R_def intro!: postI)
    have "post (if err = IO_DONE then
        do { (err, data, buf, w) \<leftarrow> buffer_get io buf w;
             loop io (so_far + length data) err (b @ data) (buffer_skip buf (length data)) w }
      else Some (err, so_far, b, buf, w))
        (\<lambda>r. adds P w ((snd \<circ> snd \<circ> snd \<circ> snd) r))"
      unfolding Let_def by (auto intro!: post_rules loop intro: adds_trans)
    then show "R io' so_far err b buf w r" using body by (auto simp: R_def dest: postD)
  qed
  then show "Q r" using assms by (cases r) (simp add: R_def)
qed

lemma recvline_loop_frame [post_rules]:
  assumes "\<And>e b' buf' w'. adds P w w' \<Longrightarrow> Q (e, b', buf', w')"
  shows "post (recvline_loop io err b buf w) Q"
proof (rule postI)
  fix r assume r: "recvline_loop io err b buf w = Some r"
  define R where "R = (\<lambda>io' (err :: int) (b :: bytes) (buf :: t_buffer) w r. io' = io \<longrightarrow> adds P w ((snd \<circ> snd \<circ> snd) (r :: int \<times> bytes \<times> t_buffer \<times> world)))"
  have "R io err b buf w r"
  proof (rule recvline_loop.raw_induct [OF _ r])
    fix loop io' err b buf w r
    assume IH: "\<And>io' err b buf w r. loop io' err b buf w = Some r \<Longrightarrow> R io' err b buf w r"
      and body: "(if err = IO_DONE then
        do { (err, data, buf, w) \<leftarrow> buffer_get io' buf w;
             let (b, pos) = line_scan data b 0;
             if pos < length data then Some (err, b, buffer_skip buf (pos + 1), w)
             else loop io' err b (buffer_skip buf pos) w }
      else Some (err, b, buf, w)) = Some r"
    have loop: "post (loop io err b buf w) Q" if "\<And>r. adds P w ((snd \<circ> snd \<circ> snd) r) \<Longrightarrow> Q r" for err b buf w Q
      using IH that by (auto simp: R_def intro!: postI)
    have "post (if err = IO_DONE then
        do { (err, data, buf, w) \<leftarrow> buffer_get io buf w;
             let (b, pos) = line_scan data b 0;
             if pos < length data then Some (err, b, buffer_skip buf (pos + 1), w)
             else loop io err b (buffer_skip buf pos) w }
      else Some (err, b, buf, w))
        (\<lambda>r. adds P w ((snd \<circ> snd \<circ> snd) r))"
      unfolding Let_def by (auto intro!: post_rules loop intro: adds_trans)
    then show "R io' err b buf w r" using body by (auto simp: R_def dest: postD)
  qed
  then show "Q r" using assms by (cases r) (simp add: R_def)
qed

text \<open>The methods.\<close>

lemma meth_send_frame [post_rules]:
  assumes "\<And>vals buf' w'. adds P w w' \<Longrightarrow> Q (vals, buf', w')"
  shows "post (buffer_meth_send io buf data i j w) Q"
proof (rule post_mono)
  show "post (buffer_meth_send io buf data i j w) (\<lambda>(vals, buf', w'). adds P w w')"
    unfolding buffer_meth_send_def sendraw_def Let_def by (auto intro!: post_rules intro: adds_trans)
qed (use assms in auto)

lemma meth_receive_frame [post_rules]:
  assumes "\<And>msg. Q (Inl msg)" "\<And>vals buf' w'. adds P w w' \<Longrightarrow> Q (Inr (vals, buf', w'))"
  shows "post (buffer_meth_receive io buf pat part w) Q"
proof (rule post_mono)
  show "post (buffer_meth_receive io buf pat part w) (\<lambda>r. \<forall>vals buf' w'. r = Inr (vals, buf', w') \<longrightarrow> adds P w w')"
    unfolding buffer_meth_receive_def recvline_def recvraw_def recvall_def Let_def
    by (auto intro!: post_rules split: pattern.split if_split_asm) (erule (1) adds_trans)+
  show "Q r" if "\<forall>vals buf' w'. r = Inr (vals, buf', w') \<longrightarrow> adds P w w'" for r
    using that assms by (cases r) auto
qed

end

end
