(* ===== verification/Descriptors.thy ===== *)
theory Descriptors
  imports Udp Buffer_Frame
begin

section \<open>Who owns a descriptor\<close>

text \<open>
  The descriptors that are open can be read off the transcript: \<open>held w\<close> is their set, and \<open>None\<close> if
  the system has handed out one that was open already. \<open>moves p p' w w'\<close> says that between two worlds
  the only change is that the owner of \<open>p\<close> now owns \<open>p'\<close>; a function that keeps its hands off
  (\<open>adds neutral\<close>) changes nothing.
\<close>

subsection \<open>Open descriptors\<close>

definition fd_track :: "sys_call \<times> answer \<Rightarrow> int set \<Rightarrow> int set option" where
  "fd_track = (\<lambda>(c, a) S.
     let new = (case a of Fd fd \<Rightarrow> if fd \<in> S then None else Some (insert fd S) | _ \<Rightarrow> Some S) in
     case c of
       Close fd \<Rightarrow> Some (S - {fd})
     | Socket d t p \<Rightarrow> new
     | Accept fd \<Rightarrow> new
     | _ \<Rightarrow> Some S)"

definition held :: "world \<Rightarrow> int set option" where
  "held w = fold_option fd_track (transcript w) {}"

fun neutral :: "sys_call \<times> answer \<Rightarrow> bool" where
  "neutral (Close fd, a) = False"
| "neutral (Socket d t p, a) = False"
| "neutral (Accept fd, a) = False"
| "neutral (c, a) = True"

lemma neutral_track: "neutral x \<Longrightarrow> fd_track x S = Some S"
  by (cases x rule: neutral.cases) (simp_all add: fd_track_def)

lemma held_neutral: "adds neutral w w' \<Longrightarrow> held w' = held w"
proof -
  assume "adds neutral w w'"
  then obtain tr where tr: "transcript w' = transcript w @ tr" "list_all neutral tr" by (auto simp: adds_def)
  have "fold_option fd_track tr S = Some S" for S
    using tr(2) by (induction tr) (simp_all add: neutral_track)
  then show ?thesis by (cases "held w") (simp_all add: held_def tr(1) fold_option_append)
qed

lemma held_ask: "ask c w = Some (a, w') \<Longrightarrow> held w' = do { S \<leftarrow> held w; fd_track (c, a) S }"
  by (cases "fold_option fd_track (transcript w) {}"; cases "fd_track (c, a) (the (fold_option fd_track (transcript w) {}))")
    (auto simp: ask_def held_def fold_option_append split: list.splits if_splits)

text \<open>The set of one descriptor, empty for the invalid one.\<close>

definition owns :: "int \<Rightarrow> int set" where
  "owns p = (if p = SOCKET_INVALID then {} else {p})"

definition moves :: "int \<Rightarrow> int \<Rightarrow> world \<Rightarrow> world \<Rightarrow> bool" where
  "moves p p' w w' \<longleftrightarrow> (held w' \<noteq> None \<longrightarrow> held w \<noteq> None)
     \<and> (\<forall>A S. held w = Some (A \<union> owns p) \<and> A \<inter> owns p = {} \<and> held w' = Some S \<longrightarrow> S = A \<union> owns p' \<and> A \<inter> owns p' = {})"

lemma moves_quiet: "adds neutral w w' \<Longrightarrow> moves p p w w'"
  using held_neutral by (auto simp: moves_def)

lemma moves_trans: "moves p p' w w' \<Longrightarrow> moves p' p'' w' w'' \<Longrightarrow> moves p p'' w w''"
  unfolding moves_def by fastforce

lemma moves_then_quiet: "moves p p' w w' \<Longrightarrow> adds neutral w' w'' \<Longrightarrow> moves p p' w w''"
  using moves_trans moves_quiet by blast

lemma quiet_then_moves: "adds neutral w w' \<Longrightarrow> moves p p' w' w'' \<Longrightarrow> moves p p' w w''"
  using moves_trans moves_quiet by blast

lemma fd_opened:
  assumes "ask c w = Some (Fd fd, w')" "(\<exists>d t p. c = Socket d t p) \<or> (\<exists>s. c = Accept s)"
  shows "moves SOCKET_INVALID fd w w'"
proof -
  have "fits c (Fd fd)" using ask_transfer(1) [OF assms(1)] .
  then have "fd \<noteq> SOCKET_INVALID" using assms(2) by (auto simp: fits_def SOCKET_INVALID_def)
  then show ?thesis
    using assms(2) held_ask [OF assms(1)]
    by (cases "held w") (auto simp: moves_def owns_def fd_track_def Let_def split: if_splits)
qed

lemma fd_not_opened:
  assumes "ask c w = Some (Fail e, w')" "(\<exists>d t p. c = Socket d t p) \<or> (\<exists>s. c = Accept s)"
  shows "held w' = held w"
  using assms(2) held_ask [OF assms(1)] by (cases "held w") (auto simp: fd_track_def Let_def)

lemma moves_same_held: "held w' = held w \<Longrightarrow> moves p p w w'"
  by (auto simp: moves_def)

subsection \<open>Functions that neither open nor close\<close>

lemma neutral_call: "neutral (c, a) \<longleftrightarrow> neutral (c, b)"
  by (cases c) simp_all

lemma ask_neutral [post_rules]:
  assumes "neutral (c, Success)" "\<And>a w'. adds neutral w w' \<Longrightarrow> fits c a \<Longrightarrow> Q (a, w')"
  shows "post (ask c w) Q"
proof (rule postI)
  fix x assume "ask c w = Some x"
  then obtain a w' where x: "x = (a, w')" "ask c w = Some (a, w')" by (cases x) auto
  have "adds neutral w w'" using adds_ask [OF x(2), of neutral] assms(1) neutral_call by blast
  then show "Q x" using assms(2) ask_transfer(1) [OF x(2)] x(1) by blast
qed


lemma receiving_adds:
  assumes "receiving c ps tm w e bs w'" "\<And>a. P (c, a)" "\<And>x. waits x \<Longrightarrow> P x"
  shows "adds P w w'"
  using assms(1)
proof (induction rule: receiving.induct)
  case (gave_up w w1 err w2)
  then show ?case using adds_ask [of c w _ w1 P] assms(2,3) adds_mono [OF socket_waitfd_adds] adds_trans by meson
next
  case (woken w w1 w2 err bs w')
  then show ?case using adds_ask [of c w _ w1 P] assms(2,3) adds_mono [OF socket_waitfd_adds] adds_trans by meson
qed (use assms(2) adds_ask adds_trans in \<open>meson\<close>)+

lemma sending_adds:
  assumes "sending c ps tm w e k w'" "\<And>a. P (c, a)" "\<And>x. waits x \<Longrightarrow> P x"
  shows "adds P w w'"
  using assms(1)
proof (induction rule: sending.induct)
  case (gave_up w w1 err w2)
  then show ?case using adds_ask [of c w _ w1 P] assms(2,3) adds_mono [OF socket_waitfd_adds] adds_trans by meson
next
  case (woken w w1 w2 err k w')
  then show ?case using adds_ask [of c w _ w1 P] assms(2,3) adds_mono [OF socket_waitfd_adds] adds_trans by meson
qed (use assms(2) adds_ask adds_trans in \<open>meson\<close>)+

lemma neutral_waits: "waits x \<Longrightarrow> neutral x"
  by (auto elim!: waits.elims)

lemma socket_recv_neutral: "socket_recv ps n tm w = Some (e, bs, w') \<Longrightarrow> adds neutral w w'"
  by (auto simp: socket_recv_def neutral_waits split: if_splits
      intro!: receiving_adds [where P = neutral] dest!: recv_loop_receiving)

lemma socket_recvfrom_neutral: "socket_recvfrom ps n tm w = Some (e, bs, w') \<Longrightarrow> adds neutral w w'"
  by (auto simp: socket_recvfrom_def neutral_waits split: if_splits
      intro!: receiving_adds [where P = neutral] dest!: recv_loop_receiving)

lemma socket_send_neutral: "socket_send ps d tm w = Some (e, k, w') \<Longrightarrow> adds neutral w w'"
  by (auto simp: socket_send_def neutral_waits split: if_splits
      intro!: sending_adds [where P = neutral] dest!: send_loop_sending)

lemma socket_sendto_neutral: "socket_sendto ps d addr tm w = Some (e, k, w') \<Longrightarrow> adds neutral w w'"
  by (auto simp: socket_sendto_def neutral_waits split: if_splits
      intro!: sending_adds [where P = neutral] dest!: send_loop_sending)

interpretation tcp_frame: io_frame "tcp_io strerror ps" neutral for strerror ps
  by unfold_locales
    (auto simp: tcp_io_def io_init_def neutral_waits intro: socket_recv_neutral socket_send_neutral)

lemmas [post_rules] = tcp_frame.gettime_frame tcp_frame.markstart_frame tcp_frame.meth_send_frame
  tcp_frame.meth_receive_frame


subsection \<open>Functions that neither open nor close\<close>

text \<open>\<open>keeps g w m\<close>: whatever \<open>m\<close> returns, the world \<open>g\<close> of it is reached by neutral calls from \<open>w\<close>.\<close>

definition keeps :: "('a \<Rightarrow> world) \<Rightarrow> world \<Rightarrow> 'a option \<Rightarrow> bool" where
  "keeps g w m \<longleftrightarrow> post m (\<lambda>r. adds neutral w (g r))"

lemma post_keeps: "keeps g w m \<Longrightarrow> (\<And>r. adds neutral w (g r) \<Longrightarrow> Q r) \<Longrightarrow> post m Q"
  by (simp add: keeps_def post_def)

lemma keepsI: "(\<And>r. m = Some r \<Longrightarrow> adds neutral w (g r)) \<Longrightarrow> keeps g w m"
  by (simp add: keeps_def post_def)

lemma socket_transfers_keep:
  "keeps (snd \<circ> snd) w (socket_recv ps n tm w)" "keeps (snd \<circ> snd) w (socket_recvfrom ps n tm w)"
  "keeps (snd \<circ> snd) w (socket_send ps d tm w)" "keeps (snd \<circ> snd) w (socket_sendto ps d addr tm w)"
  by (auto intro!: keepsI dest: socket_recv_neutral socket_recvfrom_neutral socket_send_neutral socket_sendto_neutral)

lemma waitfd_keeps: "keeps snd w (socket_waitfd ps sw tm w)"
  by (auto intro!: keepsI dest!: socket_waitfd_adds intro: adds_mono neutral_waits)

lemma getretry_keeps: "keeps snd w (timeout_getretry tm w)"
  by (auto intro!: keepsI dest!: timeout_getretry_adds intro: adds_mono neutral_waits)

lemma markstart_keeps: "keeps snd w (timeout_markstart tm w)"
  unfolding timeout_markstart_def keeps_def by (auto intro!: post_rules)

lemma nonblocking_keeps: "keeps id w (socket_setnonblocking ps w)" "keeps id w (socket_setblocking ps w)"
  unfolding socket_setnonblocking_def socket_setblocking_def getfl_def keeps_def
  by (auto intro!: post_rules) (meson adds_trans)+

lemmas [post_rules] = socket_transfers_keep [THEN post_keeps] waitfd_keeps [THEN post_keeps]
  getretry_keeps [THEN post_keeps] markstart_keeps [THEN post_keeps] nonblocking_keeps [THEN post_keeps]

lemma bind_keeps: "keeps snd w (socket_bind ps addr w)"
  unfolding socket_bind_def keeps_def by (auto intro!: post_rules) (meson adds_trans)

lemma listen_keeps: "keeps snd w (socket_listen ps n w)"
  unfolding socket_listen_def keeps_def by (auto intro!: post_rules)

lemma shutdown_keeps: "keeps id w (socket_shutdown ps how w)"
  unfolding socket_shutdown_def keeps_def by (auto intro!: post_rules)


lemma connect_loop_keeps: "connect_loop ps addr w = Some (e, w') \<Longrightarrow> adds neutral w w'"
proof (induction "left w" arbitrary: w rule: less_induct)
  case less
  obtain a w1 where a: "ask (Connect ps addr) w = Some (a, w1)"
    and r: "(if error_of a = EINTR then connect_loop ps addr w1 else Some (error_of a, w1)) = Some (e, w')"
    using less.prems by (subst (asm) connect_loop.simps) (auto elim!: bind_SomeE)
  have "adds neutral w w1" using adds_ask [OF a, of neutral] by simp
  then show ?case using r less.hyps [OF ask_left [OF a]] adds_trans by (auto split: if_splits)
qed

lemma connect_keeps: "keeps snd w (socket_connect ps addr tm w)"
proof -
  have [post_rules]: "(\<And>e w'. adds neutral w w' \<Longrightarrow> Q (e, w')) \<Longrightarrow> post (connect_loop ps addr w) Q" for w Q
    by (rule postI) (auto dest: connect_loop_keeps)
  show ?thesis unfolding socket_connect_def keeps_def
    by (auto intro!: post_rules) (meson adds_trans)+
qed

lemmas [post_rules] = bind_keeps [THEN post_keeps] listen_keeps [THEN post_keeps] shutdown_keeps [THEN post_keeps]
  connect_keeps [THEN post_keeps]

lemma resolve_keeps: "keeps snd w (resolve lib host serv family socktype flags w)"
  unfolding resolve_def keeps_def by (auto intro!: post_rules)

lemma disconnect_keeps: "keeps snd w (inet_trydisconnect lib ps family tm w)"
  unfolding inet_trydisconnect_def keeps_def by (auto intro!: post_rules)

lemma names_keep: "keeps snd w (inet_meth_getpeername lib ps family w)" "keeps snd w (inet_meth_getsockname lib ps family w)"
  unfolding inet_meth_getpeername_def inet_meth_getsockname_def keeps_def
  by (auto intro!: post_rules) (meson adds_trans)+

lemmas [post_rules] = resolve_keeps [THEN post_keeps] disconnect_keeps [THEN post_keeps] names_keep [THEN post_keeps]

subsubsection \<open>Options\<close>

lemma opt_set_keeps: "keeps snd w (opt_set ps level name val w)"
  unfolding opt_set_def keeps_def by (auto intro!: post_rules)

lemma opt_get_keeps: "keeps snd w (opt_get ps level name len w)"
  unfolding opt_get_def keeps_def by (auto intro!: post_rules)

lemmas [post_rules] = opt_set_keeps [THEN post_keeps] opt_get_keeps [THEN post_keeps]

lemma opt_values_keep:
  "keeps snd w (opt_getboolean ps level name w)" "keeps snd w (opt_getint ps level name w)"
  "keeps snd w (opt_setboolean ps arg level name w)" "keeps snd w (opt_setint ps arg level name w)"
  "keeps snd w (opt_setmembership lib ps arg level name w)" "keeps snd w (opt_ip6_setmembership lib ps arg level name w)"
  unfolding opt_getboolean_def opt_getint_def opt_setboolean_def opt_setint_def opt_setmembership_def
    opt_ip6_setmembership_def keeps_def
  by (auto intro!: post_rules split: lua_value.split)


subsection \<open>Functions that move a descriptor\<close>

lemmas move_rules = moves_trans moves_then_quiet quiet_then_moves adds_trans

lemma if_Some_None: "(if b then Some x else y) = None \<longleftrightarrow> \<not> b \<and> y = None"
  by simp

lemma strerror_None: "socket_strerror f e = None \<longleftrightarrow> e = IO_DONE"
proof (cases "e \<le> 0")
  case True
  then show ?thesis by (simp only: socket_strerror_def io_strerror_def if_True) simp
next
  case False
  then have "e \<noteq> IO_DONE" by (simp add: IO_DONE_def)
  moreover have "socket_strerror f e \<noteq> None"
    using False by (simp only: socket_strerror_def if_False if_Some_None option.distinct simp_thms)
  ultimately show ?thesis by blast
qed

lemma destroy_moves [post_rules]:
  assumes "\<And>w'. moves ps SOCKET_INVALID w w' \<Longrightarrow> Q (SOCKET_INVALID, w')"
  shows "post (socket_destroy ps w) Q"
proof (cases "ps = SOCKET_INVALID")
  case True
  then show ?thesis using assms [of w] moves_quiet [OF adds_refl] by (simp add: socket_destroy_def)
next
  case False
  have "moves ps SOCKET_INVALID w w'" if "ask (Close ps) w = Some (a, w')" for a w'
    using False held_ask [OF that] by (cases "held w") (auto simp: moves_def owns_def fd_track_def)
  then show ?thesis using False assms by (auto simp: socket_destroy_def post_def bind_Some_iff)
qed

lemma create_moves [post_rules]:
  assumes "\<And>e ps w'. moves SOCKET_INVALID ps w w' \<Longrightarrow> e = IO_DONE \<longleftrightarrow> ps \<noteq> SOCKET_INVALID \<Longrightarrow> Q (e, ps, w')"
  shows "post (socket_create d t p w) Q"
proof (rule postI)
  fix r assume "socket_create d t p w = Some r"
  then obtain a w' where a: "ask (Socket d t p) w = Some (a, w')"
    and r: "(case a of Fd fd \<Rightarrow> Some (IO_DONE, fd, w') | Fail errno \<Rightarrow> Some (errno, SOCKET_INVALID, w') | _ \<Rightarrow> None) = Some r"
    by (auto simp: socket_create_def bind_Some_iff)
  show "Q r"
  proof (cases a)
    case (Fd fd)
    then show ?thesis using r a fd_opened [of "Socket d t p" w fd w'] ask_transfer(1) [OF a]
      by (auto simp: fits_def SOCKET_INVALID_def intro!: assms)
  next
    case (Fail e)
    then show ?thesis using r a moves_same_held [OF fd_not_opened [of "Socket d t p" w e w']] ask_transfer(1) [OF a]
      by (auto simp: fits_def io_defs intro!: assms)
  qed (use r in simp_all)
qed

lemma trycreate_moves [post_rules]:
  assumes "\<And>err ps w'. moves SOCKET_INVALID ps w w' \<Longrightarrow> err = None \<longleftrightarrow> ps \<noteq> SOCKET_INVALID \<Longrightarrow> Q (err, ps, w')"
  shows "post (inet_trycreate lib f t p w) Q"
proof (rule post_mono)
  show "post (inet_trycreate lib f t p w) (\<lambda>(err, ps, w'). moves SOCKET_INVALID ps w w' \<and> (err = None \<longleftrightarrow> ps \<noteq> SOCKET_INVALID))"
    unfolding inet_trycreate_def Let_def by (auto intro!: post_rules intro: moves_then_quiet simp: strerror_None)
qed (use assms in auto)

lemma renew_moves [post_rules]:
  assumes "\<And>err ps' cf' w'. moves ps ps' w w' \<Longrightarrow> err = None \<longleftrightarrow> ps' \<noteq> SOCKET_INVALID \<Longrightarrow> Q (err, ps', cf', w')"
  shows "post (renew_socket lib ps cf ai w) Q"
proof (rule post_mono)
  show "post (renew_socket lib ps cf ai w) (\<lambda>(err, ps', cf', w'). moves ps ps' w w' \<and> (err = None \<longleftrightarrow> ps' \<noteq> SOCKET_INVALID))"
    unfolding renew_socket_def by (auto intro!: post_rules intro: moves_trans)
qed (use assms in auto)

lemma connect_each_moves:
  "post (connect_each lib ais err ps family cf tm w) (\<lambda>(err', ps', family', tm', w'). moves ps ps' w w')"
proof (induction ais arbitrary: err ps family cf tm w)
  case Nil
  then show ?case by (simp add: moves_quiet)
next
  case (Cons ai ais)
  have [post_rules]: "(\<And>err' ps' family' tm' w'. moves ps ps' w w' \<Longrightarrow> Q (err', ps', family', tm', w'))
      \<Longrightarrow> post (connect_each lib ais err ps family cf tm w) Q" for err ps family cf tm w Q
    by (rule post_mono [OF Cons.IH]) auto
  show ?case unfolding connect_each.simps Let_def
    by (auto intro!: post_rules) (meson move_rules moves_quiet adds_refl)+
qed


lemma bind_each_moves:
  "post (bind_each lib ais err ps family cf w) (\<lambda>(err', ps', family', w'). moves ps ps' w w')"
proof (induction ais arbitrary: err ps family cf w)
  case Nil
  then show ?case by (simp add: moves_quiet)
next
  case (Cons ai ais)
  have [post_rules]: "(\<And>err' ps' family' w'. moves ps ps' w w' \<Longrightarrow> Q (err', ps', family', w'))
      \<Longrightarrow> post (bind_each lib ais err ps family cf w) Q" for err ps family cf w Q
    by (rule post_mono [OF Cons.IH]) auto
  show ?case unfolding bind_each.simps Let_def
    by (auto intro!: post_rules) (meson move_rules moves_quiet adds_refl)+
qed

lemma tryconnect_moves [post_rules]:
  assumes "\<And>err ps' family' tm' w'. moves ps ps' w w' \<Longrightarrow> Q (err, ps', family', tm', w')"
  shows "post (inet_tryconnect lib ps family address serv tm hf ht w) Q"
proof (rule post_mono)
  have [post_rules]: "(\<And>err' ps' family' tm' w'. moves ps ps' w w' \<Longrightarrow> Q (err', ps', family', tm', w'))
      \<Longrightarrow> post (connect_each lib ais err ps family cf tm w) Q" for ais err ps family cf tm w Q
    by (rule post_mono [OF connect_each_moves]) auto
  show "post (inet_tryconnect lib ps family address serv tm hf ht w) (\<lambda>(err, ps', family', tm', w'). moves ps ps' w w')"
    unfolding inet_tryconnect_def by (auto intro!: post_rules intro: quiet_then_moves moves_quiet)
qed (use assms in auto)

lemma trybind_moves [post_rules]:
  assumes "\<And>err ps' family' w'. moves ps ps' w w' \<Longrightarrow> Q (err, ps', family', w')"
  shows "post (inet_trybind lib ps family address serv hf ht hfl w) Q"
proof (rule post_mono)
  have [post_rules]: "(\<And>err' ps' family' w'. moves ps ps' w w' \<Longrightarrow> Q (err', ps', family', w'))
      \<Longrightarrow> post (bind_each lib ais err ps family cf w) Q" for ais err ps family cf w Q
    by (rule post_mono [OF bind_each_moves]) auto
  show "post (inet_trybind lib ps family address serv hf ht hfl w) (\<lambda>(err, ps', family', w'). moves ps ps' w w')"
    unfolding inet_trybind_def Let_def by (auto intro!: post_rules intro: quiet_then_moves moves_quiet)
qed (use assms in auto)

lemma accept_loop_moves:
  "accept_loop ps tm w = Some (e, fd, w') \<Longrightarrow> moves SOCKET_INVALID fd w w' \<and> (e = IO_DONE \<longleftrightarrow> fd \<noteq> SOCKET_INVALID)"
proof (induction "left w" arbitrary: w rule: less_induct)
  case less
  obtain a w1 where a: "ask (Accept ps) w = Some (a, w1)" and r: "(case a of
      Fd fd \<Rightarrow> Some (IO_DONE, fd, w1)
    | Fail err \<Rightarrow>
        if err = EINTR then accept_loop ps tm w1
        else if err \<noteq> EAGAIN \<and> err \<noteq> ECONNABORTED then Some (err, SOCKET_INVALID, w1)
        else
          do { (err, w2) \<leftarrow> socket_waitfd ps WAITFD_R tm w1;
               if err \<noteq> IO_DONE then Some (err, SOCKET_INVALID, w2) else accept_loop ps tm w2 }
    | _ \<Rightarrow> None) = Some (e, fd, w')"
    using less.prems by (subst (asm) accept_loop.simps) (auto elim!: bind_SomeE)
  note fits = ask_transfer(1) [OF a]
  show ?case
  proof (cases a)
    case (Fd x)
    then show ?thesis using r a fd_opened [of "Accept ps" w x w1] fits by (auto simp: fits_def SOCKET_INVALID_def)
  next
    case (Fail err)
    have m: "moves SOCKET_INVALID SOCKET_INVALID w w1"
      using a Fail by (intro moves_same_held fd_not_opened) auto
    consider "err = EINTR" | "err \<noteq> EINTR" "err \<noteq> EAGAIN" "err \<noteq> ECONNABORTED"
      | "err \<noteq> EINTR" "err = EAGAIN \<or> err = ECONNABORTED" by blast
    then show ?thesis
    proof cases
      case 1
      then have "accept_loop ps tm w1 = Some (e, fd, w')" using r Fail by simp
      then show ?thesis using less.hyps [OF ask_left [OF a]] moves_trans [OF m] by blast
    next
      case 2
      then show ?thesis using r Fail m fits by (auto simp: fits_def IO_DONE_def)
    next
      case 3
      then obtain e' w2 where w2: "socket_waitfd ps WAITFD_R tm w1 = Some (e', w2)"
        "(if e' \<noteq> IO_DONE then Some (e', SOCKET_INVALID, w2) else accept_loop ps tm w2) = Some (e, fd, w')"
        using r Fail by (auto elim!: bind_SomeE)
      have m2: "moves SOCKET_INVALID SOCKET_INVALID w w2"
        using m postD [OF waitfd_keeps [unfolded keeps_def] w2(1)] moves_then_quiet by auto
      have "left w2 < left w" using ask_left [OF a] socket_waitfd_left [OF w2(1)] by simp
      then show ?thesis using w2(2) m2 less.hyps moves_trans by (auto split: if_splits)
    qed
  qed (use r in simp_all)
qed

lemma tryaccept_moves [post_rules]:
  assumes "\<And>err fd w'. moves SOCKET_INVALID fd w w' \<Longrightarrow> err = None \<longleftrightarrow> fd \<noteq> SOCKET_INVALID \<Longrightarrow> Q (err, fd, w')"
  shows "post (inet_tryaccept lib ps tm w) Q"
proof (rule post_mono)
  have [post_rules]: "(\<And>e fd w'. moves SOCKET_INVALID fd w w' \<Longrightarrow> e = IO_DONE \<longleftrightarrow> fd \<noteq> SOCKET_INVALID \<Longrightarrow> Q (e, fd, w'))
      \<Longrightarrow> post (socket_accept ps SOCKET_INVALID tm w) Q" for Q
    by (rule postI) (auto simp: socket_accept_def io_defs moves_quiet split: if_splits dest!: accept_loop_moves)
  show "post (inet_tryaccept lib ps tm w)
      (\<lambda>(err, fd, w'). moves SOCKET_INVALID fd w w' \<and> (err = None \<longleftrightarrow> fd \<noteq> SOCKET_INVALID))"
    unfolding inet_tryaccept_def by (auto intro!: post_rules simp: strerror_None)
qed (use assms in auto)

end
