(* ===== verification/Sock_Life.thy ===== *)
theory Sock_Life
  imports Descriptors
begin

section \<open>The objects of a program and their descriptors\<close>

text \<open>
  A program creates TCP and UDP objects and calls their methods in any order; collecting an object
  calls its \<open>close\<close>. The state machine of all of them (\<open>net_step\<close>) keeps the descriptors of the objects
  and the open descriptors of the process the same, one for one: nothing is leaked and nothing is
  closed or used by two owners. Excluded are \<open>setfd\<close>, which the source calls dangerous, and a
  \<open>socket.connect\<close> with a local address that fails, which can leak.
\<close>

subsection \<open>Methods\<close>

lemmas handler_defs = opt_set_reuseaddr_def opt_get_reuseaddr_def opt_set_reuseport_def opt_get_reuseport_def
  opt_set_tcp_nodelay_def opt_get_tcp_nodelay_def opt_get_tcp_keepidle_def opt_set_tcp_keepidle_def
  opt_get_tcp_keepcnt_def opt_set_tcp_keepcnt_def opt_get_tcp_keepintvl_def opt_set_tcp_keepintvl_def
  opt_set_keepalive_def opt_get_keepalive_def opt_set_dontroute_def opt_get_dontroute_def
  opt_set_broadcast_def opt_get_broadcast_def opt_set_recv_buf_size_def opt_get_recv_buf_size_def
  opt_get_send_buf_size_def opt_set_send_buf_size_def opt_set_ip6_unicast_hops_def
  opt_get_ip6_unicast_hops_def opt_set_ip6_multicast_hops_def opt_get_ip6_multicast_hops_def
  opt_set_ip_multicast_loop_def opt_get_ip_multicast_loop_def opt_set_ip6_multicast_loop_def
  opt_get_ip6_multicast_loop_def opt_set_ip_multicast_ttl_def opt_set_ip_add_membership_def
  opt_set_ip_drop_membersip_def opt_set_ip6_add_membership_def opt_set_ip6_drop_membersip_def
  opt_get_ip6_v6only_def opt_set_ip6_v6only_def opt_set_linger_def opt_get_linger_def
  opt_set_ip_multicast_if_def opt_get_ip_multicast_if_def opt_get_error_def

lemmas [post_rules] = opt_values_keep [THEN post_keeps]

lemma u_short_post [post_rules]: "(\<And>n. Q n) \<Longrightarrow> post (u_short x) Q"
  by (simp add: post_def)

lemma handlers_keep:
  "list_all (\<lambda>(name, h). \<forall>ps arg w. keeps snd w (h lib ps arg w)) (tcp_optget @ tcp_optset @ udp_optget @ udp_optset)"
  unfolding tcp_optget_def tcp_optset_def udp_optget_def udp_optset_def handler_defs append.simps list.pred_inject
    prod.case keeps_def
  by (intro conjI allI TrueI) (auto intro!: post_rules split: lua_value.split)


lemma options_keep:
  assumes "set tbl \<subseteq> set (tcp_optget @ tcp_optset @ udp_optget @ udp_optset)"
  shows "keeps snd w (opt_meth_getoption tbl name lib ps arg w)" "keeps snd w (opt_meth_setoption tbl name lib ps arg w)"
proof -
  have "keeps snd w (h lib ps arg w)" if "map_of tbl name = Some h" for h
  proof -
    have "(name, h) \<in> set (tcp_optget @ tcp_optset @ udp_optget @ udp_optset)" using map_of_SomeD [OF that] assms by blast
    then show ?thesis using handlers_keep [of lib, unfolded list_all_iff, THEN bspec] by blast
  qed
  then show "keeps snd w (opt_meth_getoption tbl name lib ps arg w)" "keeps snd w (opt_meth_setoption tbl name lib ps arg w)"
    by (auto simp: opt_meth_getoption_def opt_meth_setoption_def keeps_def split: option.split)
qed

text \<open>What a method does to the descriptor of its object, and of the object it makes.\<close>

definition new_sock :: "t_tcp option \<Rightarrow> int" where
  "new_sock new = (case new of None \<Rightarrow> SOCKET_INVALID | Some t \<Rightarrow> tcp_sock t)"

lemma tcp_init_keeps: "post (tcp_init tcp w) (\<lambda>(tcp', w'). adds neutral w w' \<and> tcp_sock tcp' = tcp_sock tcp)"
  unfolding tcp_init_def buffer_init_def by (auto intro!: post_rules)

lemma tcp_init_post [post_rules]:
  "(\<And>tcp' w'. adds neutral w w' \<Longrightarrow> tcp_sock tcp' = tcp_sock tcp \<Longrightarrow> Q (tcp', w')) \<Longrightarrow> post (tcp_init tcp w) Q"
  by (rule post_mono [OF tcp_init_keeps]) auto

lemma set_tm_sel [simp]: "tcp_sock (set_tm tcp tm) = tcp_sock tcp" "tcp_class (set_tm tcp tm) = tcp_class tcp"
    "tcp_family (set_tm tcp tm) = tcp_family tcp"
  by (simp_all add: set_tm_def)

lemma buffer_stats_post [post_rules]:
  "(\<And>r s age w'. adds neutral w w' \<Longrightarrow> Q (r, s, age, w')) \<Longrightarrow> post (buffer_meth_getstats buf w) Q"
  "(\<And>buf' w'. adds neutral w w' \<Longrightarrow> Q' (buf', w')) \<Longrightarrow> post (buffer_meth_setstats buf a2 a3 a4 w) Q'"
  unfolding buffer_meth_getstats_def buffer_meth_setstats_def Let_def by (auto intro!: post_rules)

lemmas [post_rules] = options_keep [THEN post_keeps]

lemma tcp_accept_moves:
  "post (meth_accept lib tcp w) (\<lambda>(r, tcp', new, w').
     tcp_sock tcp' = tcp_sock tcp \<and> moves SOCKET_INVALID (new_sock new) w w')"
  unfolding meth_accept_def Let_def
  by (auto intro!: post_rules simp: new_sock_def) (meson move_rules moves_quiet adds_refl)+

lemma tcp_others_move:
  "post (meth_bind lib address port tcp w) (\<lambda>(r, tcp', w'). moves (tcp_sock tcp) (tcp_sock tcp') w w')"
  "post (meth_connect lib address port tcp w) (\<lambda>(r, tcp', w'). moves (tcp_sock tcp) (tcp_sock tcp') w w')"
  "post (meth_close tcp w) (\<lambda>(r, tcp', w'). moves (tcp_sock tcp) (tcp_sock tcp') w w')"
  unfolding meth_bind_def meth_connect_def meth_close_def Let_def
  by (auto intro!: post_rules moves_quiet) (meson move_rules moves_quiet adds_refl)+

lemma tcp_quiet:
  "post (meth_send lib data i j tcp w) (\<lambda>(r, tcp', w'). adds neutral w w' \<and> tcp_sock tcp' = tcp_sock tcp)"
  "post (meth_receive lib pat prefix tcp w) (\<lambda>(r, tcp', w'). adds neutral w w' \<and> tcp_sock tcp' = tcp_sock tcp)"
  "post (meth_getstats tcp w) (\<lambda>(r, tcp', w'). adds neutral w w' \<and> tcp_sock tcp' = tcp_sock tcp)"
  "post (meth_setstats a b c tcp w) (\<lambda>(r, tcp', w'). adds neutral w w' \<and> tcp_sock tcp' = tcp_sock tcp)"
  "post (meth_getoption lib name arg tcp w) (\<lambda>(r, tcp', w'). adds neutral w w' \<and> tcp_sock tcp' = tcp_sock tcp)"
  "post (meth_setoption lib name arg tcp w) (\<lambda>(r, tcp', w'). adds neutral w w' \<and> tcp_sock tcp' = tcp_sock tcp)"
  "post (meth_listen lib n tcp w) (\<lambda>(r, tcp', w'). adds neutral w w' \<and> tcp_sock tcp' = tcp_sock tcp)"
  "post (meth_shutdown how tcp w) (\<lambda>(r, tcp', w'). adds neutral w w' \<and> tcp_sock tcp' = tcp_sock tcp)"
  "post (meth_getpeername lib tcp w) (\<lambda>(r, tcp', w'). adds neutral w w' \<and> tcp_sock tcp' = tcp_sock tcp)"
  "post (meth_getsockname lib tcp w) (\<lambda>(r, tcp', w'). adds neutral w w' \<and> tcp_sock tcp' = tcp_sock tcp)"
  unfolding meth_send_def meth_receive_def meth_getstats_def meth_setstats_def meth_getoption_def meth_setoption_def
    meth_listen_def meth_shutdown_def meth_getpeername_def meth_getsockname_def
  by (auto intro!: post_rules)


lemma tcp_methods_move:
  assumes "\<And>fd. call \<noteq> Tcp_setfd fd"
  shows "post (tcp_methods lib call tcp w) (\<lambda>(r, tcp', new, w').
     if new = None then moves (tcp_sock tcp) (tcp_sock tcp') w w'
     else tcp_sock tcp' = tcp_sock tcp \<and> moves SOCKET_INVALID (new_sock new) w w')"
proof (cases call)
  case Tcp_accept
  have "moves (tcp_sock tcp) (tcp_sock tcp) w w'" if "moves SOCKET_INVALID SOCKET_INVALID w w'" for w'
    using that by (auto simp: moves_def owns_def)
  then show ?thesis using Tcp_accept
    by (auto simp: tcp_methods_def new_sock_def intro!: post_mono [OF tcp_accept_moves])
next
  case (Tcp_setfd fd)
  then show ?thesis using assms by blast
qed (auto simp: tcp_methods_def meth_settimeout_def moves_quiet intro!: post_map post_mono [OF tcp_quiet(1)]
    post_mono [OF tcp_quiet(2)] post_mono [OF tcp_quiet(3)] post_mono [OF tcp_quiet(4)] post_mono [OF tcp_quiet(5)]
    post_mono [OF tcp_quiet(6)] post_mono [OF tcp_quiet(7)] post_mono [OF tcp_quiet(8)] post_mono [OF tcp_quiet(9)]
    post_mono [OF tcp_quiet(10)] post_mono [OF tcp_others_move(1)] post_mono [OF tcp_others_move(2)]
    post_mono [OF tcp_others_move(3)] split: sum.split)

lemma tcp_create_moves:
  "post (tcp_create lib family w) (\<lambda>(r, new, w'). moves SOCKET_INVALID (new_sock new) w w')"
  unfolding tcp_create_def by (auto intro!: post_rules simp: new_sock_def) (meson move_rules moves_quiet)+

lemma global_connect_moves:
  "post (global_connect lib ra rs la ls f w)
    (\<lambda>(r, new, w'). la = None \<or> new \<noteq> None \<longrightarrow> moves SOCKET_INVALID (new_sock new) w w')"
  unfolding global_connect_def
  by (auto intro!: post_rules simp: new_sock_def moves_quiet split: sum.split option.split) (meson move_rules moves_quiet)+


lemma create_each_moves:
  "udp_sock udp = SOCKET_INVALID \<Longrightarrow>
    post (create_each lib ais err udp w) (\<lambda>(err', udp', w'). moves SOCKET_INVALID (udp_sock udp') w w')"
proof (induction ais arbitrary: err udp w)
  case Nil
  then show ?case by (simp add: moves_quiet)
next
  case (Cons ap ais)
  have [post_rules]: "udp_sock udp = SOCKET_INVALID
      \<Longrightarrow> (\<And>err' udp' w'. moves SOCKET_INVALID (udp_sock udp') w w' \<Longrightarrow> Q (err', udp', w'))
      \<Longrightarrow> post (create_each lib ais err udp w) Q" for err udp w Q
    by (rule post_mono [OF Cons.IH]) auto
  show ?case unfolding create_each.simps
    by (auto intro!: post_rules) (meson move_rules)+
qed

lemma udp_markstart_post [post_rules]:
  assumes "\<And>udp' w'. adds neutral w w' \<Longrightarrow> udp_sock udp' = udp_sock udp \<Longrightarrow> Q (udp', w')"
  shows "post (udp_markstart udp w) Q"
proof (rule post_mono)
  show "post (udp_markstart udp w) (\<lambda>(udp', w'). adds neutral w w' \<and> udp_sock udp' = udp_sock udp)"
    unfolding udp_markstart_def by (auto intro!: post_rules)
qed (use assms in auto)

lemma udp_sendto_moves:
  "post (udp_sendto lib data ip port udp w) (\<lambda>(r, udp', w'). moves (udp_sock udp) (udp_sock udp') w w')"
proof -
  have [post_rules]: "udp_sock udp = SOCKET_INVALID
      \<Longrightarrow> (\<And>err' udp' w'. moves SOCKET_INVALID (udp_sock udp') w w' \<Longrightarrow> Q (err', udp', w'))
      \<Longrightarrow> post (create_each lib ais err udp w) Q" for ais err udp w Q
    by (rule post_mono [OF create_each_moves]) auto
  show ?thesis unfolding udp_sendto_def
    by (auto intro!: post_rules moves_quiet) (meson move_rules moves_quiet)+
qed

lemma udp_quiet:
  "post (udp_send lib data udp w) (\<lambda>(r, udp', w'). adds neutral w w' \<and> udp_sock udp' = udp_sock udp)"
  "post (udp_receive lib n udp w) (\<lambda>(r, udp', w'). adds neutral w w' \<and> udp_sock udp' = udp_sock udp)"
  "post (udp_receivefrom lib n udp w) (\<lambda>(r, udp', w'). adds neutral w w' \<and> udp_sock udp' = udp_sock udp)"
  "post (udp_getoption lib name arg udp w) (\<lambda>(r, udp', w'). adds neutral w w' \<and> udp_sock udp' = udp_sock udp)"
  "post (udp_setoption lib name arg udp w) (\<lambda>(r, udp', w'). adds neutral w w' \<and> udp_sock udp' = udp_sock udp)"
  "post (udp_getpeername lib udp w) (\<lambda>(r, udp', w'). adds neutral w w' \<and> udp_sock udp' = udp_sock udp)"
  "post (udp_getsockname lib udp w) (\<lambda>(r, udp', w'). adds neutral w w' \<and> udp_sock udp' = udp_sock udp)"
proof -
  have [post_rules]: "(\<And>n. Q n) \<Longrightarrow> post (wanted_size a) Q" for a Q by (simp add: post_def)
  show "post (udp_send lib data udp w) (\<lambda>(r, udp', w'). adds neutral w w' \<and> udp_sock udp' = udp_sock udp)"
    "post (udp_receive lib n udp w) (\<lambda>(r, udp', w'). adds neutral w w' \<and> udp_sock udp' = udp_sock udp)"
    "post (udp_receivefrom lib n udp w) (\<lambda>(r, udp', w'). adds neutral w w' \<and> udp_sock udp' = udp_sock udp)"
    "post (udp_getoption lib name arg udp w) (\<lambda>(r, udp', w'). adds neutral w w' \<and> udp_sock udp' = udp_sock udp)"
    "post (udp_setoption lib name arg udp w) (\<lambda>(r, udp', w'). adds neutral w w' \<and> udp_sock udp' = udp_sock udp)"
    "post (udp_getpeername lib udp w) (\<lambda>(r, udp', w'). adds neutral w w' \<and> udp_sock udp' = udp_sock udp)"
    "post (udp_getsockname lib udp w) (\<lambda>(r, udp', w'). adds neutral w w' \<and> udp_sock udp' = udp_sock udp)"
    unfolding udp_send_def udp_receive_def udp_receivefrom_def udp_getoption_def udp_setoption_def udp_getpeername_def
      udp_getsockname_def
    by (auto intro!: post_rules) (meson adds_trans)+
qed

lemma udp_others_move:
  "post (udp_setpeername lib address port udp w) (\<lambda>(r, udp', w'). moves (udp_sock udp) (udp_sock udp') w w')"
  "post (udp_setsockname lib address port udp w) (\<lambda>(r, udp', w'). moves (udp_sock udp) (udp_sock udp') w w')"
  "post (udp_close udp w) (\<lambda>(r, udp', w'). moves (udp_sock udp) (udp_sock udp') w w')"
  unfolding udp_setpeername_def udp_setsockname_def udp_close_def Let_def
  by (auto intro!: post_rules moves_quiet)

lemma udp_methods_move:
  assumes "\<And>fd. call \<noteq> Udp_setfd fd"
  shows "post (udp_methods lib call udp w) (\<lambda>(r, udp', w'). moves (udp_sock udp) (udp_sock udp') w w')"
proof (cases call)
  case (Udp_setfd fd)
  then show ?thesis using assms by blast
qed (auto simp: udp_methods_def udp_settimeout_def moves_quiet intro!: udp_sendto_moves udp_others_move
    post_mono [OF udp_quiet(1)] post_mono [OF udp_quiet(2)] post_mono [OF udp_quiet(3)] post_mono [OF udp_quiet(4)]
    post_mono [OF udp_quiet(5)] post_mono [OF udp_quiet(6)] post_mono [OF udp_quiet(7)] split: sum.split)

lemma udp_create_moves:
  "post (udp_create lib junk family w)
    (\<lambda>(r, new, w'). moves SOCKET_INVALID (case new of None \<Rightarrow> SOCKET_INVALID | Some u \<Rightarrow> udp_sock u) w w')"
  unfolding udp_create_def Let_def by (auto intro!: post_rules) (meson move_rules moves_quiet adds_refl)+

subsection \<open>The state machine\<close>

datatype net_object = Tcp t_tcp | Udp t_udp

primrec fd_of :: "net_object \<Rightarrow> int" where
  "fd_of (Tcp t) = tcp_sock t"
| "fd_of (Udp u) = udp_sock u"

definition descriptors :: "net_object list \<Rightarrow> int list" where
  "descriptors os = filter (\<lambda>p. p \<noteq> SOCKET_INVALID) (map fd_of os)"

definition created :: "('a \<Rightarrow> net_object) \<Rightarrow> 'a option \<Rightarrow> net_object list" where
  "created mk new = (case new of None \<Rightarrow> [] | Some t \<Rightarrow> [mk t])"

inductive net_step :: "netlib \<Rightarrow> net_object list \<times> world \<Rightarrow> net_object list \<times> world \<Rightarrow> bool" for lib where
  tcp_new: "tcp_create lib family w = Some (r, new, w') \<Longrightarrow> net_step lib (os, w) (os @ created Tcp new, w')"
| udp_new: "udp_create lib junk family w = Some (r, new, w') \<Longrightarrow> net_step lib (os, w) (os @ created Udp new, w')"
| connected: "la = None \<or> new \<noteq> None \<Longrightarrow> global_connect lib ra rs la ls f w = Some (r, new, w')
    \<Longrightarrow> net_step lib (os, w) (os @ created Tcp new, w')"
| tcp_method: "i < length os \<Longrightarrow> os ! i = Tcp t \<Longrightarrow> (\<And>fd. call \<noteq> Tcp_setfd fd)
    \<Longrightarrow> tcp_methods lib call t w = Some (r, t', new, w') \<Longrightarrow> net_step lib (os, w) (os[i := Tcp t'] @ created Tcp new, w')"
| udp_method: "i < length os \<Longrightarrow> os ! i = Udp u \<Longrightarrow> (\<And>fd. call \<noteq> Udp_setfd fd)
    \<Longrightarrow> udp_methods lib call u w = Some (r, u', w') \<Longrightarrow> net_step lib (os, w) (os[i := Udp u'], w')"

definition net_run :: "netlib \<Rightarrow> net_object list \<times> world \<Rightarrow> net_object list \<times> world \<Rightarrow> bool" where
  "net_run lib = (net_step lib)\<^sup>*\<^sup>*"

definition balanced :: "net_object list \<times> world \<Rightarrow> bool" where
  "balanced = (\<lambda>(os, w). \<forall>S. held w = Some S \<longrightarrow> distinct (descriptors os) \<and> S = set (descriptors os))"


lemma descriptors_append: "descriptors (os @ os') = descriptors os @ descriptors os'"
  by (simp add: descriptors_def)

lemma descriptors_created:
  "descriptors (created Tcp new) = filter (\<lambda>p. p \<noteq> SOCKET_INVALID) [new_sock new]"
  by (simp add: descriptors_def created_def new_sock_def split: option.split)

lemma balanced_moves:
  assumes "balanced (os, w)" "moves p p' w w'"
    and "descriptors os = A @ filter (\<lambda>p. p \<noteq> SOCKET_INVALID) [p] @ B"
    and "descriptors os' = A @ filter (\<lambda>p. p \<noteq> SOCKET_INVALID) [p'] @ B"
  shows "balanced (os', w')"
  unfolding balanced_def
proof (intro case_prodI allI impI)
  fix S assume S: "held w' = Some S"
  then obtain S0 where S0: "held w = Some S0" using assms(2) by (auto simp: moves_def)
  then have d: "distinct (descriptors os)" "S0 = set (descriptors os)" using assms(1) by (auto simp: balanced_def)
  have own: "set (filter (\<lambda>p. p \<noteq> SOCKET_INVALID) [q]) = owns q" for q by (simp add: owns_def)
  have "S0 = (set A \<union> set B) \<union> owns p" "(set A \<union> set B) \<inter> owns p = {}"
    using d own [of p] unfolding assms(3) by auto
  then have "S = (set A \<union> set B) \<union> owns p'" "(set A \<union> set B) \<inter> owns p' = {}"
    using assms(2) S S0 unfolding moves_def by blast+
  then show "distinct (descriptors os') \<and> S = set (descriptors os')"
    using d(1) own [of p'] unfolding assms(3,4) by auto
qed

lemma descriptors_update:
  assumes "i < length os" "os ! i = obj"
  obtains A B where "descriptors os = A @ filter (\<lambda>p. p \<noteq> SOCKET_INVALID) [fd_of obj] @ B"
    "\<And>obj'. descriptors (os[i := obj']) = A @ filter (\<lambda>p. p \<noteq> SOCKET_INVALID) [fd_of obj'] @ B"
proof
  show "descriptors os = descriptors (take i os) @ filter (\<lambda>p. p \<noteq> SOCKET_INVALID) [fd_of obj] @ descriptors (drop (Suc i) os)"
    using assms id_take_nth_drop [OF assms(1)] by (metis append_Cons append_Nil descriptors_append descriptors_def list.map)
  show "descriptors (os[i := obj']) = descriptors (take i os) @ filter (\<lambda>p. p \<noteq> SOCKET_INVALID) [fd_of obj'] @ descriptors (drop (Suc i) os)" for obj'
    using assms(1) by (simp add: upd_conv_take_nth_drop descriptors_def)
qed

lemma net_step_balanced: "net_step lib s s' \<Longrightarrow> balanced s \<Longrightarrow> balanced s'"
proof (induction rule: net_step.induct)
  case (tcp_new family w r new w' os)
  then show ?case
    using balanced_moves [of os w SOCKET_INVALID "new_sock new" w' "descriptors os" "[]" "os @ created Tcp new"]
      postD [OF tcp_create_moves tcp_new.hyps] by (simp add: descriptors_append descriptors_created)
next
  case (udp_new junk family w r new w' os)
  then show ?case
    using balanced_moves [of os w SOCKET_INVALID "case new of None \<Rightarrow> SOCKET_INVALID | Some u \<Rightarrow> udp_sock u" w'
        "descriptors os" "[]" "os @ created Udp new"] postD [OF udp_create_moves udp_new.hyps]
    by (auto simp: descriptors_append created_def descriptors_def split: option.splits)
next
  case (connected la new ra rs ls f w r w' os)
  have "moves SOCKET_INVALID (new_sock new) w w'"
    using postD [OF global_connect_moves connected.hyps(2)] connected.hyps(1) by auto
  then show ?case
    using balanced_moves [of os w SOCKET_INVALID "new_sock new" w' "descriptors os" "[]" "os @ created Tcp new"]
      connected.prems by (simp add: descriptors_append descriptors_created)
next
  case (tcp_method i os t call w r t' new w')
  obtain A B where d: "descriptors os = A @ filter (\<lambda>p. p \<noteq> SOCKET_INVALID) [tcp_sock t] @ B"
    "\<And>obj'. descriptors (os[i := obj']) = A @ filter (\<lambda>p. p \<noteq> SOCKET_INVALID) [fd_of obj'] @ B"
    using descriptors_update [OF tcp_method.hyps(1,2)] by (metis fd_of.simps(1))
  have m: "if new = None then moves (tcp_sock t) (tcp_sock t') w w'
      else tcp_sock t' = tcp_sock t \<and> moves SOCKET_INVALID (new_sock new) w w'"
    using postD [OF tcp_methods_move [OF tcp_method.hyps(3)] tcp_method.hyps(4)] by simp
  show ?case
  proof (cases new)
    case None
    then show ?thesis
      using balanced_moves [OF tcp_method.prems, of "tcp_sock t" "tcp_sock t'" w' A B "os[i := Tcp t']"] m d
      by (simp add: created_def)
  next
    case (Some c)
    then show ?thesis
      using balanced_moves [OF tcp_method.prems, of SOCKET_INVALID "new_sock new" w' "descriptors os" "[]"
          "os[i := Tcp t'] @ created Tcp new"] m d
      by (simp add: descriptors_append descriptors_created)
  qed
next
  case (udp_method i os u call w r u' w')
  obtain A B where d: "descriptors os = A @ filter (\<lambda>p. p \<noteq> SOCKET_INVALID) [udp_sock u] @ B"
    "\<And>obj'. descriptors (os[i := obj']) = A @ filter (\<lambda>p. p \<noteq> SOCKET_INVALID) [fd_of obj'] @ B"
    using descriptors_update [OF udp_method.hyps(1,2)] by (metis fd_of.simps(2))
  have "moves (udp_sock u) (udp_sock u') w w'"
    using postD [OF udp_methods_move [OF udp_method.hyps(3)] udp_method.hyps(4)] by simp
  then show ?case
    using balanced_moves [OF udp_method.prems, of "udp_sock u" "udp_sock u'" w' A B "os[i := Udp u']"] d by simp
qed

text \<open>C32: Descriptors are neither leaked nor shared in the states that a program reaches by creating TCP
  and UDP objects, by \<open>socket.connect\<close> without a local address (or with one when it succeeds) and by
  all methods of the objects but \<open>setfd\<close>, errors and interruptions of the system included: if no
  descriptor was open at the start and the system never handed out one that was open, the open
  descriptors of the process are exactly the descriptors of its objects, and no two objects have the
  same.\<close>

theorem descriptors_balanced:
  assumes "net_run lib ([], w0) (os, w)" "held w0 = Some {}" "held w = Some S"
  shows "distinct (descriptors os) \<and> S = set (descriptors os)"
proof -
  have "balanced s" if "(net_step lib)\<^sup>*\<^sup>* ([], w0) s" for s
    using that by (induction rule: rtranclp_induct)
      (use assms(2) net_step_balanced in \<open>auto simp: balanced_def descriptors_def\<close>)
  then show ?thesis using assms(1,3) by (auto simp: net_run_def balanced_def)
qed


text \<open>A C library whose messages are empty and that knows no names, and a system that is going to give
  some answers.\<close>

definition mute_lib :: netlib where
  "mute_lib = \<lparr>nl_strerror = (\<lambda>e. []), nl_gai_strerror = (\<lambda>e. []), nl_aton = (\<lambda>s. None), nl_ntoa = (\<lambda>a. []),
     nl_pton6 = (\<lambda>s. None), nl_hstrerror = (\<lambda>e. []), nl_sender = (\<lambda>w. []),
     nl_gethostbyaddr = (\<lambda>a. (None, 1, 0)), nl_gethostbyname = (\<lambda>n. (None, 1, 0))\<rparr>"

definition facing :: "answer list \<Rightarrow> world" where
  "facing as = \<lparr>answers = as, transcript = []\<rparr>"

text \<open>Two UDP objects are created, and the first one is closed.\<close>

abbreviation (input) two_sockets_start :: world where
  "two_sockets_start \<equiv> facing [Fd 3, Flags 2, Success, Fd 4, Flags 2, Success, Success]"

definition two_sockets :: "(net_object list \<times> world) option" where
  "two_sockets =
     do { (r, a, w) \<leftarrow> udp_create mute_lib 0 AF_INET two_sockets_start; a \<leftarrow> a;
          (r, b, w) \<leftarrow> udp_create mute_lib 0 AF_INET w; b \<leftarrow> b;
          (r, c, w) \<leftarrow> udp_methods mute_lib Udp_close a w;
          Some ([Udp c, Udp b], w) }"

lemma two_sockets_run:
  assumes "two_sockets = Some (os, w)"
  shows "net_run mute_lib ([], two_sockets_start) (os, w)"
proof -
  obtain r1 a w1 r2 b w2 r3 c where s: "udp_create mute_lib 0 AF_INET two_sockets_start = Some (r1, Some a, w1)"
    "udp_create mute_lib 0 AF_INET w1 = Some (r2, Some b, w2)" "udp_methods mute_lib Udp_close a w2 = Some (r3, c, w)"
    and os: "os = [Udp c, Udp b]"
    using assms unfolding two_sockets_def by (auto simp: bind_Some_iff)
  have "net_step mute_lib ([], two_sockets_start) ([Udp a], w1)"
    using net_step.udp_new [OF s(1), of "[]"] by (simp add: created_def)
  moreover have "net_step mute_lib ([Udp a], w1) ([Udp a, Udp b], w2)"
    using net_step.udp_new [OF s(2), of "[Udp a]"] by (simp add: created_def)
  moreover have "net_step mute_lib ([Udp a, Udp b], w2) (os, w)"
    using net_step.udp_method [of 0 "[Udp a, Udp b]" a Udp_close mute_lib w2 r3 c w] s(3) os by simp
  ultimately show ?thesis unfolding net_run_def by (meson converse_rtranclp_into_rtranclp rtranclp.rtrancl_refl)
qed

theorem descriptors_balanced_witness:
  "distinct (descriptors (fst (the two_sockets))) \<and> {4} = set (descriptors (fst (the two_sockets)))"
proof (rule descriptors_balanced)
  have "two_sockets \<noteq> None" by code_simp
  then show "net_run mute_lib ([], two_sockets_start) (fst (the two_sockets), snd (the two_sockets))"
    by (intro two_sockets_run) auto
  show "held two_sockets_start = Some {}" "held (snd (the two_sockets)) = Some {4}" by code_simp+
qed

subsection \<open>A leak\<close>

definition ipv4 :: "bytes \<Rightarrow> addrinfo" where
  "ipv4 a = \<lparr>ai_family = AF_INET, ai_socktype = SOCK_STREAM, ai_protocol = 6, ai_addr = a\<rparr>"

text \<open>C37: \<open>socket.connect\<close> leaks a descriptor whenever its local address cannot be bound after a socket was
  created for it: for all names and addresses and every behaviour of the system that hands out no open
  descriptor, the program gets an error and no object, but the socket stays open, beside those that
  were open before. As the object has no metatable yet the collector does not close it either.\<close>

theorem connect_leaks:
  assumes "inet_optfamily familyname ''unspec'' = Inr family" "tcp_init (tcp_zero Tcp_client) w = Some (tcp, w1)"
    "inet_trybind lib SOCKET_INVALID AF_UNSPEC address (Some (case localserv of None \<Rightarrow> ''0'' | Some s \<Rightarrow> s)) family
      SOCK_STREAM AI_PASSIVE w1 = Some (Some err, sock, current_family, w')"
    "sock \<noteq> SOCKET_INVALID" "held w = Some S0" "held w' = Some S"
  shows "global_connect lib remoteaddr remoteserv (Some address) localserv familyname w
      = Some (Results [Nil_value, Str err], None, w') \<and> sock \<notin> S0 \<and> S = insert sock S0"
proof
  show "global_connect lib remoteaddr remoteserv (Some address) localserv familyname w
      = Some (Results [Nil_value, Str err], None, w')"
    using assms(1-3) by (simp add: global_connect_def str_value_def)
  have "held w1 = Some S0" using postD [OF tcp_init_keeps assms(2)] held_neutral assms(5) by fastforce
  moreover have "moves SOCKET_INVALID sock w1 w'"
  proof -
    have "post (inet_trybind lib SOCKET_INVALID AF_UNSPEC address (Some (case localserv of None \<Rightarrow> ''0'' | Some s \<Rightarrow> s))
      family SOCK_STREAM AI_PASSIVE w1) (\<lambda>(err, ps, cf, w2). moves SOCKET_INVALID ps w1 w2)"
      by (rule trybind_moves) simp
    then show ?thesis using postD [OF _ assms(3)] by fastforce
  qed
  ultimately show "sock \<notin> S0 \<and> S = insert sock S0" using assms(4,6) by (auto simp: moves_def owns_def)
qed

text \<open>A port that is in use.\<close>

abbreviation (input) busy_port :: world where
  "busy_port \<equiv> facing [Time 0 0, Resolved [ipv4 [1]], Fd 3, Flags 2, Success, Fail EADDRINUSE, Flags 2, Success]"

lemma failed_bindD:
  "(case m of None \<Rightarrow> False | Some (tcp, w1) \<Rightarrow> (case b w1 of Some (Some err, sock, cf, w') \<Rightarrow> P err sock w' | _ \<Rightarrow> False))
    \<Longrightarrow> \<exists>tcp w1 err sock cf w'. m = Some (tcp, w1) \<and> b w1 = Some (Some err, sock, cf, w') \<and> P err sock w'"
  by (cases m; cases "b (snd (the m))"; cases "fst (the (b (snd (the m))))") auto

theorem connect_leaks_witness:
  "\<exists>w'. global_connect mute_lib ''server'' ''80'' (Some ''10.0.0.1'') None None busy_port
      = Some (Results [Nil_value, Str ''address already in use''], None, w') \<and> 3 \<notin> {} \<and> {3} = insert 3 {}"
proof -
  have "\<exists>tcp w1 err sock cf w'. tcp_init (tcp_zero Tcp_client) busy_port = Some (tcp, w1)
    \<and> inet_trybind mute_lib SOCKET_INVALID AF_UNSPEC ''10.0.0.1'' (Some (case None of None \<Rightarrow> ''0'' | Some s \<Rightarrow> s))
        AF_UNSPEC SOCK_STREAM AI_PASSIVE w1 = Some (Some err, sock, cf, w')
    \<and> (err = ''address already in use'' \<and> sock = 3 \<and> held w' = Some {3})"
    by (rule failed_bindD) code_simp
  then obtain tcp w1 cf w' where i: "tcp_init (tcp_zero Tcp_client) busy_port = Some (tcp, w1)"
    and b: "inet_trybind mute_lib SOCKET_INVALID AF_UNSPEC ''10.0.0.1'' (Some (case None of None \<Rightarrow> ''0'' | Some s \<Rightarrow> s))
      AF_UNSPEC SOCK_STREAM AI_PASSIVE w1 = Some (Some ''address already in use'', 3, cf, w')"
    and h: "held w' = Some {3}"
    by (elim exE conjE) (simp only:)
  have "inet_optfamily None ''unspec'' = Inr AF_UNSPEC" "held busy_port = Some {}" "(3 :: int) \<noteq> SOCKET_INVALID" by code_simp+
  from connect_leaks [OF this(1) i b this(3,2) h] show ?thesis by blast
qed

end
