(* ===== verification/Tcp_Class.thy ===== *)
theory Tcp_Class
  imports Sock_Life
begin

section \<open>The classes of TCP objects as types\<close>

text \<open>
  A TCP object starts as a master; \<open>listen\<close> makes it a server and \<open>connect\<close> a client, and there is no
  way back: the classes are ordered, and a method never takes an object down. A method that asks for
  a class refuses every other object without touching it.
\<close>

instantiation tcp_class :: linorder
begin

definition rank :: "tcp_class \<Rightarrow> nat" where
  "rank c = (case c of Tcp_master \<Rightarrow> 0 | Tcp_server \<Rightarrow> 1 | Tcp_client \<Rightarrow> 2)"

definition less_eq_tcp_class :: "tcp_class \<Rightarrow> tcp_class \<Rightarrow> bool" where
  "less_eq_tcp_class c d \<longleftrightarrow> rank c \<le> rank d"

definition less_tcp_class :: "tcp_class \<Rightarrow> tcp_class \<Rightarrow> bool" where
  "less_tcp_class c d \<longleftrightarrow> rank c < rank d"

instance
proof
  show "c = d" if "c \<le> d" "d \<le> c" for c d :: tcp_class
    using that by (cases c; cases d) (simp_all add: less_eq_tcp_class_def rank_def)
qed (auto simp: less_eq_tcp_class_def less_tcp_class_def)

end

lemma class_bounds [simp]: "Tcp_master \<le> c" "c \<le> Tcp_client"
  by (simp_all add: less_eq_tcp_class_def rank_def split: tcp_class.split)

lemma class_steps [simp]: "Tcp_server \<le> Tcp_server" "\<not> Tcp_client \<le> Tcp_server" "\<not> Tcp_server \<le> Tcp_master"
  by (simp_all add: less_eq_tcp_class_def rank_def)

text \<open>The class a method asks for.\<close>

definition receiver_class :: "tcp_call \<Rightarrow> tcp_class option" where
  "receiver_class call =
     (case call of
        Tcp_accept \<Rightarrow> Some Tcp_server
      | Tcp_bind a p \<Rightarrow> Some Tcp_master
      | Tcp_listen n \<Rightarrow> Some Tcp_master
      | Tcp_send d i j \<Rightarrow> Some Tcp_client
      | Tcp_receive p d \<Rightarrow> Some Tcp_client
      | Tcp_getstats \<Rightarrow> Some Tcp_client
      | Tcp_setstats r s a \<Rightarrow> Some Tcp_client
      | Tcp_shutdown how \<Rightarrow> Some Tcp_client
      | _ \<Rightarrow> None)"

definition refusal :: "tcp_class \<Rightarrow> reply" where
  "refusal c = Lua_error (class_name c @ '' expected'')"

lemma checkclass_refuses: "auxiliar_checkclass c tcp = (if tcp_class tcp = c then None else Some (refusal c))"
  by (cases c) (simp_all add: auxiliar_checkclass_def refusal_def class_name_def)

lemma refused:
  assumes "receiver_class call = Some c" "tcp_class tcp \<noteq> c"
  shows "tcp_methods lib call tcp w = Some (refusal c, tcp, None, w)"
  using assms
  by (cases call) (auto simp: receiver_class_def tcp_methods_def checkclass_refuses meth_accept_def meth_bind_def
      meth_listen_def meth_send_def meth_receive_def meth_getstats_def meth_setstats_def meth_shutdown_def)

text \<open>Methods that leave the class alone.\<close>

lemma ask_any: "(\<And>a w'. Q (a, w')) \<Longrightarrow> post (ask c w) Q"
  by (simp add: post_def)

lemma tcp_init_class [post_rules]:
  "(\<And>tcp' w'. tcp_class tcp' = tcp_class tcp \<Longrightarrow> tcp_family tcp' = tcp_family tcp \<Longrightarrow> Q (tcp', w'))
    \<Longrightarrow> post (tcp_init tcp w) Q"
  unfolding tcp_init_def by (auto simp: post_def bind_Some_iff)

lemma class_kept:
  "post (meth_send lib data i j tcp w) (\<lambda>(r, tcp', w'). tcp_class tcp' = tcp_class tcp)"
  "post (meth_receive lib pat prefix tcp w) (\<lambda>(r, tcp', w'). tcp_class tcp' = tcp_class tcp)"
  "post (meth_getstats tcp w) (\<lambda>(r, tcp', w'). tcp_class tcp' = tcp_class tcp)"
  "post (meth_setstats a b c tcp w) (\<lambda>(r, tcp', w'). tcp_class tcp' = tcp_class tcp)"
  "post (meth_getoption lib name arg tcp w) (\<lambda>(r, tcp', w'). tcp_class tcp' = tcp_class tcp)"
  "post (meth_setoption lib name arg tcp w) (\<lambda>(r, tcp', w'). tcp_class tcp' = tcp_class tcp)"
  "post (meth_bind lib address port tcp w) (\<lambda>(r, tcp', w'). tcp_class tcp' = tcp_class tcp)"
  "post (meth_close tcp w) (\<lambda>(r, tcp', w'). tcp_class tcp' = tcp_class tcp)"
  "post (meth_shutdown how tcp w) (\<lambda>(r, tcp', w'). tcp_class tcp' = tcp_class tcp)"
  "post (meth_getpeername lib tcp w) (\<lambda>(r, tcp', w'). tcp_class tcp' = tcp_class tcp)"
  "post (meth_getsockname lib tcp w) (\<lambda>(r, tcp', w'). tcp_class tcp' = tcp_class tcp)"
  unfolding meth_send_def meth_receive_def meth_getstats_def meth_setstats_def meth_getoption_def meth_setoption_def
    meth_bind_def meth_close_def meth_shutdown_def meth_getpeername_def meth_getsockname_def post_def
  by (auto simp: bind_Some_iff split: option.splits prod.splits) (auto simp: bind_Some_iff split: sum.splits)

lemma connect_class: "post (meth_connect lib address port tcp w) (\<lambda>(r, tcp', w'). tcp_class tcp' = Tcp_client)"
  unfolding meth_connect_def post_def by (auto simp: bind_Some_iff Let_def split: prod.splits)

lemma accept_class:
  "post (meth_accept lib tcp w) (\<lambda>(r, tcp', new, w'). tcp_class tcp' = tcp_class tcp \<and>
     (case new of None \<Rightarrow> True
      | Some t \<Rightarrow> tcp_class tcp = Tcp_server \<and> tcp_class t = Tcp_client \<and> tcp_family t = tcp_family tcp))"
  unfolding meth_accept_def post_def tcp_init_def
  by (auto simp: bind_Some_iff Let_def checkclass_refuses tcp_zero_def split: option.splits prod.splits if_splits)

text \<open>A server is one whose socket listens.\<close>

definition listens :: "int \<Rightarrow> sys_call \<times> answer \<Rightarrow> bool" where
  "listens fd = (\<lambda>(c, a). case c of Listen s n \<Rightarrow> s = fd \<and> a = Success | _ \<Rightarrow> False)"

lemma socket_listen_done:
  assumes "socket_listen ps n w = Some (err, w')" "err = IO_DONE"
  shows "transcript w' = transcript w @ [(Listen ps n, Success)]"
  using assms unfolding socket_listen_def
  by (auto simp: bind_Some_iff ask_def fits_def IO_DONE_def error_of_def split: list.splits if_splits answer.splits)

lemma listen_class:
  "post (meth_listen lib n tcp w) (\<lambda>(r, tcp', w'). tcp_class tcp' = tcp_class tcp \<or>
     tcp_class tcp = Tcp_master \<and> tcp_class tcp' = Tcp_server \<and> listens (tcp_sock tcp') (last (transcript w')))"
  unfolding meth_listen_def post_def
  by (auto simp: bind_Some_iff checkclass_refuses listens_def dest!: socket_listen_done split: option.splits if_splits)

definition class_change :: "tcp_call \<Rightarrow> t_tcp \<Rightarrow> t_tcp \<Rightarrow> world \<Rightarrow> bool" where
  "class_change call tcp tcp' w' \<longleftrightarrow>
     (case call of
        Tcp_connect address port \<Rightarrow> tcp_class tcp' = Tcp_client
      | Tcp_listen n \<Rightarrow> tcp_class tcp' = tcp_class tcp \<or>
          tcp_class tcp = Tcp_master \<and> tcp_class tcp' = Tcp_server \<and> listens (tcp_sock tcp') (last (transcript w'))
      | _ \<Rightarrow> tcp_class tcp' = tcp_class tcp)"

lemma methods_class:
  "post (tcp_methods lib call tcp w) (\<lambda>(r, tcp', new, w'). class_change call tcp tcp' w' \<and>
     (case new of None \<Rightarrow> True
      | Some t \<Rightarrow> tcp_class tcp = Tcp_server \<and> tcp_class t = Tcp_client \<and> tcp_family t = tcp_family tcp))"
proof (cases call)
  case Tcp_accept
  then show ?thesis by (auto simp: tcp_methods_def class_change_def intro!: post_mono [OF accept_class])
qed (auto simp: tcp_methods_def class_change_def meth_settimeout_def meth_setfd_def intro!: post_map
    post_mono [OF class_kept(1)] post_mono [OF class_kept(2)] post_mono [OF class_kept(3)] post_mono [OF class_kept(4)]
    post_mono [OF class_kept(5)] post_mono [OF class_kept(6)] post_mono [OF class_kept(7)] post_mono [OF class_kept(8)]
    post_mono [OF class_kept(9)] post_mono [OF class_kept(10)] post_mono [OF class_kept(11)]
    post_mono [OF connect_class] post_mono [OF listen_class] split: sum.split)

lemma class_change_up: "class_change call tcp tcp' w' \<Longrightarrow> tcp_class tcp \<le> tcp_class tcp'"
  by (cases call) (auto simp: class_change_def)

text \<open>C33: The classes of TCP objects are a type discipline. A method called on an object of another class
  than the one it asks for raises the error that names the class, and changes neither the object nor
  the system. A method never takes an object to a lower class; only \<open>connect\<close> and a \<open>listen\<close> that the
  system granted change the class; and a new object, which only a server gives, is a client of its family.\<close>

theorem tcp_methods_typed:
  assumes "tcp_methods lib call tcp w = Some (r, tcp', new, w')"
  shows "(case receiver_class call of None \<Rightarrow> True
      | Some c \<Rightarrow> tcp_class tcp = c \<or> r = refusal c \<and> tcp' = tcp \<and> new = None \<and> w' = w)
    \<and> tcp_class tcp \<le> tcp_class tcp' \<and> class_change call tcp tcp' w'
    \<and> (case new of None \<Rightarrow> True
      | Some t \<Rightarrow> tcp_class tcp = Tcp_server \<and> tcp_class t = Tcp_client \<and> tcp_family t = tcp_family tcp)"
proof -
  have "class_change call tcp tcp' w'"
    and new: "case new of None \<Rightarrow> True
      | Some t \<Rightarrow> tcp_class tcp = Tcp_server \<and> tcp_class t = Tcp_client \<and> tcp_family t = tcp_family tcp"
    using postD [OF methods_class assms] by simp_all
  then show ?thesis
    using assms class_change_up refused [of call _ tcp lib w] by (auto split: option.split)
qed

definition listening_master :: "(reply \<times> t_tcp \<times> t_tcp option \<times> world) option" where
  "listening_master = tcp_methods mute_lib (Tcp_listen (Some 5)) ((tcp_zero Tcp_master)\<lparr>tcp_sock := 3\<rparr>) (facing [Success])"

theorem tcp_methods_typed_witness:
  "Tcp_master \<le> tcp_class (fst (snd (the listening_master)))
    \<and> tcp_class (fst (snd (the listening_master))) = Tcp_server"
proof -
  have s: "listening_master \<noteq> None" "tcp_class (fst (snd (the listening_master))) = Tcp_server" by code_simp+
  then obtain r tcp' new w' where l: "listening_master = Some (r, tcp', new, w')" by auto
  have "tcp_class (tcp_zero Tcp_master\<lparr>tcp_sock := 3\<rparr>) = Tcp_master" by (simp add: tcp_zero_def)
  then show ?thesis using tcp_methods_typed [OF l [unfolded listening_master_def]] s(2) l by simp
qed

subsection \<open>Objects along a run\<close>

lemma net_step_class:
  assumes "net_step lib (os, w) (os', w')" "i < length os" "os ! i = Tcp t"
  shows "i < length os' \<and> (\<exists>t'. os' ! i = Tcp t' \<and> tcp_class t \<le> tcp_class t')"
  using assms(1)
proof (cases rule: net_step.cases)
  case (tcp_method j u call r u' new)
  have "tcp_class u \<le> tcp_class u'" using postD [OF methods_class tcp_method(5)] class_change_up by auto
  then show ?thesis using tcp_method assms(2,3) by (cases "j = i") (auto simp: nth_append)
next
  case (udp_method j u call r u')
  then show ?thesis using assms(2,3) by (cases "j = i") auto
qed (use assms(2,3) in \<open>auto simp: nth_append\<close>)

lemma net_run_class:
  assumes "net_run lib s s'" "i < length (fst s)" "fst s ! i = Tcp t"
  shows "i < length (fst s') \<and> (\<exists>t'. fst s' ! i = Tcp t' \<and> tcp_class t \<le> tcp_class t')"
  using assms(1) unfolding net_run_def
proof (induction rule: rtranclp_induct)
  case (step y z)
  then obtain t' where "i < length (fst y)" "fst y ! i = Tcp t'" "tcp_class t \<le> tcp_class t'" by blast
  then show ?case using net_step_class [of lib "fst y" "snd y" "fst z" "snd z" i t'] step.hyps(2) order_trans by fastforce
qed (use assms in auto)

end
