(* ===== verification/Select.thy ===== *)
theory Select
  imports Udp
begin

section \<open>Waiting for sockets (luasocket, select.c)\<close>

text \<open>
  \<open>socket.select\<close>. A table of Lua is the list of its elements up to the first \<open>nil\<close>, \<open>None\<close> where the
  argument is \<open>nil\<close>; an element is what \<open>select\<close> sees of it (\<open>selectable\<close>): itself, the number its
  method \<open>getfd\<close> gives, if there is the method and it gives a number, and what its method \<open>dirty\<close>
  gives. \<open>selectable_tcp\<close> and \<open>selectable_udp\<close> are those of the objects of this library. An \<open>fd_set\<close> is
  the set of its members; \<open>rtab\<close> and \<open>wtab\<close> are lists, \<open>itab\<close> is a map from descriptors to elements.
\<close>

record 'a selectable =
  itself :: 'a
  getfd_number :: "real option"
  is_dirty :: bool

definition FD_SETSIZE :: int where "FD_SETSIZE = 1024"

definition selectable_tcp :: "'a \<Rightarrow> t_tcp \<Rightarrow> 'a selectable" where
  "selectable_tcp x tcp =
     \<lparr>itself = x,
      getfd_number = (case meth_getfd tcp of Results [Num n] \<Rightarrow> Some (of_int n) | _ \<Rightarrow> None),
      is_dirty = (meth_dirty tcp = Results [Bool True])\<rparr>"

definition selectable_udp :: "'a \<Rightarrow> t_udp \<Rightarrow> 'a selectable" where
  "selectable_udp x udp =
     \<lparr>itself = x,
      getfd_number = (case udp_getfd udp of Results [Num n] \<Rightarrow> Some (of_int n) | _ \<Rightarrow> None),
      is_dirty = (udp_dirty udp = Results [Bool True])\<rparr>"

definition getfd :: "'a selectable \<Rightarrow> int option" where
  "getfd x =
     (case getfd_number x of
        None \<Rightarrow> Some SOCKET_INVALID
      | Some numfd \<Rightarrow> if numfd \<ge> 0 then c_int numfd else Some SOCKET_INVALID)"

definition dirty :: "'a selectable \<Rightarrow> bool" where
  "dirty x = is_dirty x"

text \<open>The map from descriptors to elements, the set and the largest descriptor so far; \<open>Inl\<close> is the
  argument error.\<close>

fun collect_fd ::
    "'a selectable list \<Rightarrow> (int \<rightharpoonup> 'a) \<Rightarrow> int set \<Rightarrow> int \<Rightarrow> (string + (int \<rightharpoonup> 'a) \<times> int set \<times> int) option" where
  "collect_fd [] itab fds max_fd = Some (Inr (itab, fds, max_fd))"
| "collect_fd (x # tab) itab fds max_fd =
     do { fd \<leftarrow> getfd x;
          if fd \<noteq> SOCKET_INVALID then
            if fd \<ge> FD_SETSIZE then Some (Inl ''descriptor too large for set size'')
            else collect_fd tab (itab(fd \<mapsto> itself x)) (insert fd fds)
                   (if max_fd = SOCKET_INVALID \<or> max_fd < fd then fd else max_fd)
          else collect_fd tab itab fds max_fd }"

text \<open>The dirty elements, whose number is \<open>ndirty\<close>, and the set without them.\<close>

fun check_dirty :: "'a selectable list \<Rightarrow> 'a list \<Rightarrow> int set \<Rightarrow> ('a list \<times> int set) option" where
  "check_dirty [] dtab fds = Some (dtab, fds)"
| "check_dirty (x # tab) dtab fds =
     do { fd \<leftarrow> getfd x;
          if fd \<noteq> SOCKET_INVALID \<and> dirty x then check_dirty tab (dtab @ [itself x]) (fds - {fd})
          else check_dirty tab dtab fds }"

text \<open>The elements of the descriptors that are set, appended; \<open>None\<close> would be a hole in the table.\<close>

definition return_fd :: "int set \<Rightarrow> int \<Rightarrow> (int \<rightharpoonup> 'a) \<Rightarrow> 'a list \<Rightarrow> 'a list option" where
  "return_fd fds max_fd itab tab =
     fold_option (\<lambda>fd tab. if fd \<in> fds then map_option (\<lambda>x. tab @ [x]) (itab fd) else Some tab) [0..max_fd - 1] tab"

text \<open>The list and, for every element, its position in it.\<close>

definition make_assoc :: "'a list \<Rightarrow> 'a list \<times> ('a \<rightharpoonup> nat)" where
  "make_assoc tab = (tab, foldl (\<lambda>m (i, x). m(x \<mapsto> i)) Map.empty (zip [1..<length tab + 1] tab))"

text \<open>What is returned: the two tables, two empty tables and \<open>timeout\<close>, or an error.\<close>

datatype 'a selected =
    Selected "'a list \<times> ('a \<rightharpoonup> nat)" "'a list \<times> ('a \<rightharpoonup> nat)"
  | Select_timeout
  | Select_error string

definition elements :: "'a selectable list option \<Rightarrow> 'a selectable list" where
  "elements tab = (case tab of None \<Rightarrow> [] | Some xs \<Rightarrow> xs)"

definition global_select ::
    "'a selectable list option \<Rightarrow> 'a selectable list option \<Rightarrow> real option \<Rightarrow> world \<Rightarrow> ('a selected \<times> world) option" where
  "global_select tab1 tab2 arg w =
     (let t = (case arg of None \<Rightarrow> - 1 | Some t \<Rightarrow> t) in
      do { r \<leftarrow> collect_fd (elements tab1) Map.empty {} SOCKET_INVALID;
           case r of
             Inl msg \<Rightarrow> Some (Select_error msg, w)
           | Inr (itab, rset, max_fd) \<Rightarrow>
               do { r \<leftarrow> collect_fd (elements tab2) itab {} max_fd;
                    case r of
                      Inl msg \<Rightarrow> Some (Select_error msg, w)
                    | Inr (itab, wset, max_fd) \<Rightarrow>
                        do { (rtab, rset) \<leftarrow> check_dirty (elements tab1) [] rset;
                             let ndirty = length rtab;
                             let tm = timeout_init \<lparr>tm_block = 0, tm_total = 0, tm_start = 0\<rparr> (if ndirty > 0 then 0 else t) (- 1);
                             (tm, w) \<leftarrow> timeout_markstart tm w;
                             (ret, rset, wset, w) \<leftarrow> socket_select (max_fd + 1) rset wset tm w;
                             if ret > 0 \<or> ndirty > 0 then
                               do { rtab \<leftarrow> return_fd rset (max_fd + 1) itab rtab;
                                    wtab \<leftarrow> return_fd wset (max_fd + 1) itab [];
                                    Some (Selected (make_assoc rtab) (make_assoc wtab), w) }
                             else if ret = 0 then Some (Select_timeout, w)
                             else Some (Select_error ''select failed'', w) } } })"

end
