(* ===== verification/Select_Correct.thy ===== *)
theory Select_Correct
  imports Select Usocket_Correct
begin

section \<open>What select reports\<close>

text \<open>
  The sets handed to the system are the descriptors of the elements, within the size of an \<open>fd_set\<close>;
  an element with buffered data is taken out of the set and reported without waiting; of the others
  exactly those the system reports are returned. When the call fails while an element is dirty, the
  sets still hold every descriptor, and all elements are reported.
\<close>

subsection \<open>Collecting\<close>

definition members :: "'a selectable list \<Rightarrow> int set" where
  "members tab = {fd. \<exists>x \<in> set tab. getfd x = Some fd \<and> fd \<noteq> SOCKET_INVALID}"

definition hot :: "'a selectable \<Rightarrow> bool" where
  "hot x \<longleftrightarrow> (\<exists>fd. getfd x = Some fd \<and> fd \<noteq> SOCKET_INVALID) \<and> dirty x"

lemma members_simps [simp]:
  "members [] = {}"
  "getfd x = Some fd \<Longrightarrow> members (x # tab) = (if fd = SOCKET_INVALID then {} else {fd}) \<union> members tab"
  by (auto simp: members_def)

lemma c_int_of_nonneg: "c_int x = Some n \<Longrightarrow> x \<ge> 0 \<Longrightarrow> n \<ge> 0"
  by (auto simp: c_int_def trunc_def split: if_splits)

lemma getfd_nonneg: "getfd x = Some fd \<Longrightarrow> fd \<noteq> SOCKET_INVALID \<Longrightarrow> fd \<ge> 0"
  by (auto simp: getfd_def dest: c_int_of_nonneg split: option.splits if_splits)

lemma members_nonneg: "fd \<in> members tab \<Longrightarrow> fd \<ge> 0"
  by (auto simp: members_def dest: getfd_nonneg)

definition owned :: "'a selectable list \<Rightarrow> (int \<rightharpoonup> 'a) \<Rightarrow> bool" where
  "owned tab itab \<longleftrightarrow> (\<forall>fd y. itab fd = Some y \<longrightarrow>
     (\<exists>x \<in> set tab. getfd x = Some fd \<and> fd \<noteq> SOCKET_INVALID \<and> itself x = y))"

lemma owned_mono: "owned tab itab \<Longrightarrow> set tab \<subseteq> set tab' \<Longrightarrow> owned tab' itab"
  unfolding owned_def by blast

lemma collect_fd_spec:
  assumes "collect_fd tab itab fds mx = Some (Inr (itab', fds', mx'))" "SOCKET_INVALID \<le> mx" "owned seen itab"
  shows "fds' = fds \<union> members tab" "members tab \<subseteq> {..<FD_SETSIZE}" "mx \<le> mx'" "members tab \<subseteq> {..mx'}"
    "mx' = mx \<or> mx' \<in> members tab" "dom itab' = dom itab \<union> members tab" "owned (seen @ tab) itab'"
  using assms
proof (atomize (full), induction tab arbitrary: itab fds mx seen)
  case (Cons x tab)
  obtain fd where fd: "getfd x = Some fd" using Cons.prems by (cases "getfd x") auto
  show ?case
  proof (cases "fd = SOCKET_INVALID")
    case True
    have "owned (seen @ [x]) itab" using Cons.prems(3) by (rule owned_mono) auto
    then show ?thesis using Cons.IH [of itab fds mx "seen @ [x]"] Cons.prems fd True by simp
  next
    case False
    let ?mx = "if mx = SOCKET_INVALID \<or> mx < fd then fd else mx"
    have o: "owned (seen @ [x]) (itab(fd \<mapsto> itself x))"
      using Cons.prems(3) fd False by (auto simp: owned_def)
    have c: "fd < FD_SETSIZE" "collect_fd tab (itab(fd \<mapsto> itself x)) (insert fd fds) ?mx = Some (Inr (itab', fds', mx'))"
      using Cons.prems(1) fd False by (auto split: if_splits)
    have m: "SOCKET_INVALID \<le> ?mx" "mx \<le> ?mx" "fd \<le> ?mx" "?mx = mx \<or> ?mx = fd"
      using getfd_nonneg [OF fd False] Cons.prems(2) by (auto simp: SOCKET_INVALID_def)
    show ?thesis using Cons.IH [OF c(2) m(1) o] m(2-4) fd False c(1) by auto
  qed
qed simp

lemma check_dirty_spec:
  "check_dirty tab dtab fds = Some (dtab', fds') \<Longrightarrow>
    dtab' = dtab @ map itself (filter hot tab) \<and> fds' = fds - members (filter hot tab)"
proof (induction tab arbitrary: dtab fds)
  case (Cons x tab)
  obtain fd where fd: "getfd x = Some fd" using Cons.prems by (cases "getfd x") auto
  show ?case
  proof (cases "fd \<noteq> SOCKET_INVALID \<and> dirty x")
    case True
    then have "hot x" using fd by (simp add: hot_def)
    then show ?thesis using Cons.IH [of "dtab @ [itself x]" "fds - {fd}"] Cons.prems fd True by auto
  next
    case False
    then have "\<not> hot x" using fd by (auto simp: hot_def)
    then show ?thesis using Cons.IH [of dtab fds] Cons.prems fd False by auto
  qed
qed simp

lemma return_fd_spec:
  assumes "fds \<subseteq> dom itab"
  shows "return_fd fds n itab tab = Some (tab @ map (the \<circ> itab) (filter (\<lambda>fd. fd \<in> fds) [0..n - 1]))"
proof -
  have "fold_option (\<lambda>fd tab. if fd \<in> fds then map_option (\<lambda>x. tab @ [x]) (itab fd) else Some tab) is tab
      = Some (tab @ map (the \<circ> itab) (filter (\<lambda>fd. fd \<in> fds) is))" for "is"
    using assms by (induction "is" arbitrary: tab) auto
  then show ?thesis by (simp add: return_fd_def)
qed

lemma make_assoc_list [simp]: "fst (make_assoc tab) = tab"
  by (simp add: make_assoc_def)

subsection \<open>The call\<close>

lemma getretry_finite:
  assumes "timeout_getretry tm w = Some (t, w')" "tm_block tm \<ge> 0"
  shows "t \<ge> 0"
  using assms by (auto simp: timeout_getretry_def MAX_double_def MIN_double_def bind_Some_iff Let_def split: if_splits)

lemma ask_last: "ask c w = Some (a, w') \<Longrightarrow> last (transcript w') = (c, a) \<and> fits c a"
  by (auto simp: ask_def split: list.splits if_splits)

lemma socket_select_last:
  "socket_select n rq wq tm w = Some (k, r, s, w') \<Longrightarrow> \<exists>tv a. last (transcript w') = (Select n rq wq tv, a)
    \<and> fits (Select n rq wq tv) a \<and> (a = Ready k r s \<or> (\<exists>e. a = Fail e) \<and> k = - 1 \<and> r = rq \<and> s = wq)
    \<and> (tm_block tm \<ge> 0 \<longrightarrow> tv \<noteq> None)"
proof (induction n rq wq tm w rule: socket_select.induct)
  case (1 n rq wq tm w)
  obtain t w1 sec usec a w2 where s: "timeout_getretry tm w = Some (t, w1)" "c_int t = Some sec"
    "c_int ((t - of_int sec) * 1000000) = Some usec"
    "ask (Select n rq wq (if t \<ge> 0 then Some (sec, usec) else None)) w1 = Some (a, w2)"
    and r: "(case a of
            Fail errno \<Rightarrow> if errno = EINTR then socket_select n rq wq tm w2 else Some (- 1, rq, wq, w2)
          | Ready k r s \<Rightarrow> Some (k, r, s, w2)
          | _ \<Rightarrow> None) = Some (k, r, s, w')"
    using "1.prems" by (subst (asm) socket_select.simps) (auto elim!: bind_SomeE)
  have tv: "tm_block tm \<ge> 0 \<longrightarrow> (if t \<ge> 0 then Some (sec, usec) else None) \<noteq> None"
    using getretry_finite [OF s(1)] by auto
  show ?case
  proof (cases "a = Fail EINTR")
    case True
    then have "socket_select n rq wq tm w2 = Some (k, r, s, w')" using r by simp
    then show ?thesis using "1.IH" [OF s(1) refl s(2,3,4) refl True refl] by blast
  next
    case False
    then have "w2 = w'" "a = Ready k r s \<or> (\<exists>e. a = Fail e) \<and> k = - 1 \<and> r = rq \<and> s = wq"
      using r by (auto split: answer.splits if_splits)
    then show ?thesis using ask_last [OF s(4)] tv by blast
  qed
qed

lemma collect_both:
  assumes "collect_fd tab1 Map.empty {} SOCKET_INVALID = Some (Inr (itab1, rset, mx1))"
    and "collect_fd tab2 itab1 {} mx1 = Some (Inr (itab, wset, mx))"
  shows "rset = members tab1" "wset = members tab2" "rset \<union> wset \<subseteq> {0..mx}" "mx < FD_SETSIZE"
    "dom itab = members tab1 \<union> members tab2" "owned (tab1 @ tab2) itab"
proof -
  have "owned [] Map.empty" by (simp add: owned_def)
  note s1 = collect_fd_spec [OF assms(1) order_refl this]
  note s2 = collect_fd_spec [OF assms(2) s1(3,7)]
  show "rset = members tab1" "wset = members tab2" "dom itab = members tab1 \<union> members tab2" "owned (tab1 @ tab2) itab"
    using s1(1,6) s2(1,6,7) by auto
  show "rset \<union> wset \<subseteq> {0..mx}" using s1(1,4) s2(1,3,4) members_nonneg by fastforce
  show "mx < FD_SETSIZE" using s1(2,5) s2(2,5) by (auto simp: SOCKET_INVALID_def FD_SETSIZE_def)
qed

text \<open>The parts of a call of \<open>select\<close>. The errors of the arguments come before any system call.\<close>

inductive selects :: "'a selectable list \<Rightarrow> 'a selectable list \<Rightarrow> 'a selected \<Rightarrow> world \<Rightarrow> bool" for tab1 tab2 where
  selects: "rset = members tab1 - members (filter hot tab1) \<Longrightarrow> wset = members tab2
    \<Longrightarrow> rset \<union> wset \<subseteq> {0..max_fd} \<Longrightarrow> max_fd < FD_SETSIZE
    \<Longrightarrow> dom itab = members tab1 \<union> members tab2 \<Longrightarrow> owned (tab1 @ tab2) itab
    \<Longrightarrow> last (transcript w') = (Select (max_fd + 1) rset wset tv, a) \<Longrightarrow> fits (Select (max_fd + 1) rset wset tv) a
    \<Longrightarrow> a = Ready ret R S \<or> (\<exists>e. a = Fail e) \<and> ret = - 1 \<and> R = rset \<and> S = wset
    \<Longrightarrow> filter hot tab1 \<noteq> [] \<longrightarrow> tv \<noteq> None \<Longrightarrow> R \<subseteq> rset \<Longrightarrow> S \<subseteq> wset
    \<Longrightarrow> res = (if ret > 0 \<or> filter hot tab1 \<noteq> [] then
          Selected (make_assoc (map itself (filter hot tab1) @ map (the \<circ> itab) (filter (\<lambda>fd. fd \<in> R) [0..max_fd])))
            (make_assoc (map (the \<circ> itab) (filter (\<lambda>fd. fd \<in> S) [0..max_fd])))
        else if ret = 0 then Select_timeout else Select_error ''select failed'')
    \<Longrightarrow> selects tab1 tab2 res w'"

lemma collect_error: "collect_fd tab itab fds mx = Some (Inl msg) \<Longrightarrow> msg = ''descriptor too large for set size''"
  by (induction tab arbitrary: itab fds mx) (auto simp: bind_Some_iff split: if_splits)

lemma global_select_parts:
  assumes "global_select tab1 tab2 arg w = Some (res, w')"
  shows "res = Select_error ''descriptor too large for set size'' \<and> w' = w \<or> selects (elements tab1) (elements tab2) res w'"
proof (cases "\<exists>itab1 rset1 mx1 itab wset mx. collect_fd (elements tab1) Map.empty {} SOCKET_INVALID = Some (Inr (itab1, rset1, mx1))
    \<and> collect_fd (elements tab2) itab1 {} mx1 = Some (Inr (itab, wset, mx))")
  case False
  obtain c1 where c1: "collect_fd (elements tab1) Map.empty {} SOCKET_INVALID = Some c1"
    using assms by (auto simp: global_select_def bind_Some_iff)
  show ?thesis
  proof (cases c1)
    case (Inl msg)
    then show ?thesis using assms c1 collect_error by (auto simp: global_select_def)
  next
    case (Inr r)
    obtain itab1 rset1 mx1 where r: "r = (itab1, rset1, mx1)" by (cases r)
    obtain c2 where c2: "collect_fd (elements tab2) itab1 {} mx1 = Some c2"
      using assms c1 Inr r by (auto simp: global_select_def bind_Some_iff)
    obtain msg where "c2 = Inl msg" using False c1 Inr r c2 by (cases c2) auto
    then show ?thesis using assms c1 c2 Inr r collect_error [of "elements tab2"] by (auto simp: global_select_def)
  qed
next
  case True
  then obtain itab1 rset1 mx1 itab wset mx where
    c: "collect_fd (elements tab1) Map.empty {} SOCKET_INVALID = Some (Inr (itab1, rset1, mx1))"
      "collect_fd (elements tab2) itab1 {} mx1 = Some (Inr (itab, wset, mx))" by blast
  note both = collect_both [OF c]
  obtain rtab rset where d: "check_dirty (elements tab1) [] rset1 = Some (rtab, rset)"
    using assms c by (auto simp: global_select_def bind_Some_iff Let_def)
  have rtab: "rtab = map itself (filter hot (elements tab1))" "rset = members (elements tab1) - members (filter hot (elements tab1))"
    using check_dirty_spec [OF d] both(1) by auto
  let ?tm = "timeout_init \<lparr>tm_block = 0, tm_total = 0, tm_start = 0\<rparr>
    (if rtab \<noteq> [] then 0 else case arg of None \<Rightarrow> - 1 | Some t \<Rightarrow> t) (- 1)"
  have "do { (tm, w) \<leftarrow> timeout_markstart ?tm w;
             (ret, R, S, w) \<leftarrow> socket_select (mx + 1) rset wset tm w;
             if ret > 0 \<or> rtab \<noteq> [] then
               do { rtab \<leftarrow> return_fd R (mx + 1) itab rtab; wtab \<leftarrow> return_fd S (mx + 1) itab [];
                    Some (Selected (make_assoc rtab) (make_assoc wtab), w) }
             else if ret = 0 then Some (Select_timeout, w) else Some (Select_error ''select failed'', w) } = Some (res, w')"
    using assms c d by (simp add: global_select_def Let_def)
  then obtain tm w1 ret R S w2 where m: "timeout_markstart ?tm w = Some (tm, w1)"
    and s: "socket_select (mx + 1) rset wset tm w1 = Some (ret, R, S, w2)"
    and r: "(if ret > 0 \<or> rtab \<noteq> [] then
               do { rtab \<leftarrow> return_fd R (mx + 1) itab rtab; wtab \<leftarrow> return_fd S (mx + 1) itab [];
                    Some (Selected (make_assoc rtab) (make_assoc wtab), w2) }
             else if ret = 0 then Some (Select_timeout, w2) else Some (Select_error ''select failed'', w2)) = Some (res, w')"
    by (auto elim!: bind_SomeE)
  have tm: "rtab \<noteq> [] \<Longrightarrow> tm_block tm = 0" using m by (auto simp: timeout_markstart_def timeout_init_def bind_Some_iff)
  obtain tv a where l: "last (transcript w2) = (Select (mx + 1) rset wset tv, a)" "fits (Select (mx + 1) rset wset tv) a"
    "a = Ready ret R S \<or> (\<exists>e. a = Fail e) \<and> ret = - 1 \<and> R = rset \<and> S = wset" "tm_block tm \<ge> 0 \<longrightarrow> tv \<noteq> None"
    using socket_select_last [OF s] by blast
  have sub: "R \<subseteq> rset" "S \<subseteq> wset" using l(2,3) by (auto simp: fits_def)
  have "R \<subseteq> dom itab" "S \<subseteq> dom itab" using sub rtab both by auto
  then have "w2 = w'" "res = (if ret > 0 \<or> rtab \<noteq> [] then
          Selected (make_assoc (rtab @ map (the \<circ> itab) (filter (\<lambda>fd. fd \<in> R) [0..mx])))
            (make_assoc (map (the \<circ> itab) (filter (\<lambda>fd. fd \<in> S) [0..mx])))
        else if ret = 0 then Select_timeout else Select_error ''select failed'')"
    using r by (auto simp: return_fd_spec split: if_splits)
  note res = this(2) [unfolded rtab(1)] and ww = this(1)
  have bounded: "rset \<union> wset \<subseteq> {0..mx}" using both(1,3) rtab(2) by auto
  have finite_wait: "filter hot (elements tab1) \<noteq> [] \<longrightarrow> tv \<noteq> None" using l(4) tm rtab(1) by auto
  have "res = (if ret > 0 \<or> filter hot (elements tab1) \<noteq> [] then
          Selected (make_assoc (map itself (filter hot (elements tab1)) @ map (the \<circ> itab) (filter (\<lambda>fd. fd \<in> R) [0..mx])))
            (make_assoc (map (the \<circ> itab) (filter (\<lambda>fd. fd \<in> S) [0..mx])))
        else if ret = 0 then Select_timeout else Select_error ''select failed'')"
    using res by simp
  then have "selects (elements tab1) (elements tab2) res w'"
    by (rule selects.intros [OF rtab(2) both(2) bounded both(4-6) l(1,2) [unfolded ww] l(3) finite_wait sub])
  then show ?thesis ..
qed

subsection \<open>What is reported\<close>

text \<open>No two elements have the same descriptor.\<close>

definition one_owner :: "'a selectable list \<Rightarrow> bool" where
  "one_owner tab \<longleftrightarrow> (\<forall>x \<in> set tab. \<forall>y \<in> set tab. getfd x = getfd y \<longrightarrow> getfd x = Some SOCKET_INVALID \<or> x = y)"

definition with_fd_in :: "int set \<Rightarrow> 'a selectable list \<Rightarrow> 'a set" where
  "with_fd_in S tab = {itself x | x. x \<in> set tab \<and> (\<exists>fd \<in> S. getfd x = Some fd)}"

lemma owner_set:
  assumes "owned (tab @ tab') itab" "R \<subseteq> members tab" "R \<subseteq> dom itab" "R \<subseteq> {0..mx}" "one_owner (tab @ tab')"
  shows "set (map (the \<circ> itab) (filter (\<lambda>fd. fd \<in> R) [0..mx])) = with_fd_in R tab"
proof -
  have own: "(the \<circ> itab) fd = itself x" if "fd \<in> R" "x \<in> set tab" "getfd x = Some fd" for fd x
  proof -
    have "fd \<in> dom itab" using that(1) assms(3) by blast
    then obtain y where "itab fd = Some y" by blast
    then obtain z where "z \<in> set (tab @ tab')" "getfd z = Some fd" "fd \<noteq> SOCKET_INVALID" "itself z = y" "itab fd = Some y"
      using assms(1) unfolding owned_def by blast
    moreover then have "z = x" using assms(5) that(2,3) unfolding one_owner_def by (metis UnI1 option.inject set_append)
    ultimately show ?thesis by simp
  qed
  have "set (map (the \<circ> itab) (filter (\<lambda>fd. fd \<in> R) [0..mx])) = (the \<circ> itab) ` R" using assms(4) by auto
  also have "\<dots> = with_fd_in R tab"
  proof
    show "(the \<circ> itab) ` R \<subseteq> with_fd_in R tab"
      using assms(2) own unfolding with_fd_in_def members_def by blast
    show "with_fd_in R tab \<subseteq> (the \<circ> itab) ` R"
      using own unfolding with_fd_in_def by (auto simp flip: own)
  qed
  finally show ?thesis .
qed

lemma owner_set_right:
  assumes "owned (tab @ tab') itab" "S \<subseteq> members tab'" "S \<subseteq> dom itab" "S \<subseteq> {0..mx}" "one_owner (tab @ tab')"
  shows "set (map (the \<circ> itab) (filter (\<lambda>fd. fd \<in> S) [0..mx])) = with_fd_in S tab'"
proof (rule owner_set)
  show "owned (tab' @ tab) itab" using assms(1) by (rule owned_mono) auto
  show "one_owner (tab' @ tab)" using assms(5) by (auto simp: one_owner_def)
qed (use assms in auto)

lemma hot_members:
  assumes "one_owner tab"
  shows "with_fd_in (members (filter hot tab)) tab = itself ` set (filter hot tab)"
proof
  show "itself ` set (filter hot tab) \<subseteq> with_fd_in (members (filter hot tab)) tab"
    by (auto simp: with_fd_in_def members_def hot_def)
  show "with_fd_in (members (filter hot tab)) tab \<subseteq> itself ` set (filter hot tab)"
  proof
    fix z assume "z \<in> with_fd_in (members (filter hot tab)) tab"
    then obtain x fd where x: "z = itself x" "x \<in> set tab" "getfd x = Some fd" "fd \<in> members (filter hot tab)"
      by (auto simp: with_fd_in_def)
    then obtain y where y: "y \<in> set tab" "hot y" "getfd y = Some fd" "fd \<noteq> SOCKET_INVALID" by (auto simp: members_def)
    then have "x = y" using assms x(2,3) unfolding one_owner_def by (metis option.inject)
    then show "z \<in> itself ` set (filter hot tab)" using x(1) y by simp
  qed
qed

definition reported :: "'a selectable list option \<Rightarrow> 'a selectable list option \<Rightarrow> int set \<Rightarrow> int set \<Rightarrow> 'a selected \<Rightarrow> bool" where
  "reported tab1 tab2 R S res \<longleftrightarrow> (\<exists>r s. res = Selected r s
     \<and> set (fst r) = with_fd_in R (elements tab1) \<and> set (fst s) = with_fd_in S (elements tab2))"

lemma with_fd_in_Un: "with_fd_in (A \<union> B) tab = with_fd_in A tab \<union> with_fd_in B tab"
  by (auto simp: with_fd_in_def)

lemma hot_subset: "members (filter hot tab) \<union> members tab = members tab"
  by (auto simp: members_def)

text \<open>C34: What \<open>socket.select\<close> asks and reports. For tables in which no two elements share a descriptor,
  and apart from the error for a descriptor that does not fit into an \<open>fd_set\<close>: the last call to the
  system was about exactly the valid descriptors of the two tables without those of the readable
  elements that are dirty, all of them below \<open>FD_SETSIZE\<close>, and with a dirty element it could not wait for
  ever. When the system answers with the sets \<open>R\<close> and \<open>S\<close>, the first table returned holds the dirty
  elements and those in \<open>R\<close>, the second those in \<open>S\<close>; it is a time-out when no element is dirty and
  the system counts none. When the call fails the result is an error, but with a dirty element
  all valid elements of both tables are reported.\<close>

theorem select_reports:
  assumes "global_select tab1 tab2 arg w = Some (res, w')" "one_owner (elements tab1 @ elements tab2)"
    and "res \<noteq> Select_error ''descriptor too large for set size''"
  shows "\<exists>n rset wset tv a. last (transcript w') = (Select n rset wset tv, a)
    \<and> rset = members (elements tab1) - members (filter hot (elements tab1)) \<and> wset = members (elements tab2)
    \<and> rset \<union> wset \<subseteq> {0..<n} \<and> n \<le> FD_SETSIZE \<and> (filter hot (elements tab1) = [] \<or> tv \<noteq> None)
    \<and> (case a of
         Ready k R S \<Rightarrow>
           if k > 0 \<or> filter hot (elements tab1) \<noteq> []
           then reported tab1 tab2 (members (filter hot (elements tab1)) \<union> R) S res
           else res = (if k = 0 then Select_timeout else Select_error ''select failed'')
       | Fail e \<Rightarrow>
           if filter hot (elements tab1) \<noteq> [] then reported tab1 tab2 (members (elements tab1)) (members (elements tab2)) res
           else res = Select_error ''select failed''
       | _ \<Rightarrow> False)"
proof -
  let ?t1 = "elements tab1" and ?t2 = "elements tab2"
  have "selects ?t1 ?t2 res w'" using global_select_parts [OF assms(1)] assms(3) by blast
  then show ?thesis
  proof (cases rule: selects.cases)
    case (selects rset wset mx itab tv a ret R S)
    have sub: "R \<subseteq> members ?t1" "R \<subseteq> dom itab" "R \<subseteq> {0..mx}" "S \<subseteq> members ?t2" "S \<subseteq> dom itab" "S \<subseteq> {0..mx}"
      using selects(1-3,5,11,12) by auto
    have rep: "reported tab1 tab2 (members (filter hot ?t1) \<union> R) S res" if "ret > 0 \<or> filter hot ?t1 \<noteq> []"
      using that selects(13) owner_set [OF selects(6) sub(1-3) assms(2)] owner_set_right [OF selects(6) sub(4-6) assms(2)]
        hot_members [of ?t1] assms(2) by (auto simp: reported_def with_fd_in_Un one_owner_def)
    have all: "reported tab1 tab2 (members ?t1) (members ?t2) res" if "filter hot ?t1 \<noteq> []" "R = rset" "S = wset"
      using rep that selects(1,2) by (simp add: hot_subset)
    have bounds: "rset \<union> wset \<subseteq> {0..<mx + 1}" "mx + 1 \<le> FD_SETSIZE" using selects(3,4) by auto
    have res: "res = (if ret = 0 then Select_timeout else Select_error ''select failed'')"
      if "\<not> (ret > 0 \<or> filter hot ?t1 \<noteq> [])"
      using that selects(13) by simp
    have answer: "case a of
         Ready k R S \<Rightarrow>
           if k > 0 \<or> filter hot ?t1 \<noteq> [] then reported tab1 tab2 (members (filter hot ?t1) \<union> R) S res
           else res = (if k = 0 then Select_timeout else Select_error ''select failed'')
       | Fail e \<Rightarrow>
           if filter hot ?t1 \<noteq> [] then reported tab1 tab2 (members ?t1) (members ?t2) res
           else res = Select_error ''select failed''
       | _ \<Rightarrow> False"
      using selects(9)
    proof (elim disjE exE conjE)
      assume "a = Ready ret R S"
      then show ?thesis using rep res by simp
    next
      fix e assume "a = Fail e" "ret = - 1" "R = rset" "S = wset"
      then show ?thesis using all res by simp
    qed
    have wait: "filter hot ?t1 = [] \<or> tv \<noteq> None" using selects(10) by blast
    show ?thesis by (intro exI conjI) (rule selects(7) selects(1,2) bounds wait answer)+
  qed
qed


text \<open>Two sockets, of which the first has been read ahead and the second is reported by the system.\<close>

definition two_readers :: "nat selectable list option" where
  "two_readers = Some [\<lparr>itself = 1, getfd_number = Some 5, is_dirty = True\<rparr>, \<lparr>itself = 2, getfd_number = Some 7, is_dirty = False\<rparr>]"

definition select_two :: "(nat selected \<times> world) option" where
  "select_two = global_select two_readers None (Some 10) \<lparr>answers = [Time 0 0, Time 0 0, Ready 1 {7} {}], transcript = []\<rparr>"

lemma select_two_result:
  "map_option snd select_two = Some \<lparr>answers = [], transcript = [(Gettimeofday, Time 0 0), (Gettimeofday, Time 0 0),
     (Select 8 {7} {} (Some (0, 0)), Ready 1 {7} {})]\<rparr>"
  "(case select_two of Some (Selected r s, w) \<Rightarrow> fst r = [1, 2] \<and> fst s = [] | _ \<Rightarrow> False)"
  by code_simp+

lemma two_readers_parts:
  "elements two_readers = [\<lparr>itself = 1, getfd_number = Some 5, is_dirty = True\<rparr>, \<lparr>itself = 2, getfd_number = Some 7, is_dirty = False\<rparr>]"
  "one_owner (elements two_readers @ elements None)" "members (elements two_readers) = {5, 7}"
  "members (filter hot (elements two_readers)) = {5}" "members (elements (None :: nat selectable list option)) = {}"
  by (auto simp: members_def hot_def dirty_def one_owner_def two_readers_def elements_def getfd_def c_int_def trunc_def
      SOCKET_INVALID_def)

theorem select_reports_witness:
  "\<exists>res w' tv. select_two = Some (res, w') \<and> last (transcript w') = (Select 8 {7} {} tv, Ready 1 {7} {})
    \<and> reported two_readers None {5, 7} {} res"
proof -
  obtain r s w' where s: "select_two = Some (Selected r s, w')"
    using select_two_result(2) by (auto split: option.splits prod.splits selected.splits)
  have l: "last (transcript w') = (Select 8 {7} {} (Some (0, 0)), Ready 1 {7} {})" using select_two_result(1) unfolding s(1) by simp
  have "filter hot (elements two_readers) \<noteq> []" using two_readers_parts(4) by auto
  with select_reports [OF s [unfolded select_two_def] two_readers_parts(2)] l
  have "reported two_readers None {5, 7} {} (Selected r s)" by (simp add: two_readers_parts(3-5) insert_commute)
  then show ?thesis using s l by blast
qed

subsection \<open>Data in a buffer\<close>

lemma global_select_hot:
  assumes "global_select tab1 tab2 arg w = Some (res, w')" "x \<in> set (elements tab1)" "hot x"
  shows "res = Select_error ''descriptor too large for set size'' \<or> (\<exists>r s. res = Selected r s \<and> itself x \<in> set (fst r))"
proof -
  have hots: "filter hot (elements tab1) \<noteq> []" "itself x \<in> set (map itself (filter hot (elements tab1)))"
    using assms(2,3) by (auto simp: filter_empty_conv)
  have "\<exists>r s. res = Selected r s \<and> itself x \<in> set (fst r)" if "selects (elements tab1) (elements tab2) res w'"
    using that by (cases rule: selects.cases) (use hots in auto)
  then show ?thesis using global_select_parts [OF assms(1)] by blast
qed

text \<open>C35: A TCP socket with data in its buffer is readable for \<open>socket.select\<close>, whatever the system
  says: the result is never a time-out, and if the descriptors fit into an \<open>fd_set\<close> the socket is in
  the first table.\<close>

theorem select_buffered:
  assumes "global_select tab1 tab2 arg w = Some (res, w')" "selectable_tcp x tcp \<in> set (elements tab1)"
    and "\<not> buffer_isempty (tcp_buf tcp)" "tcp_sock tcp \<in> {0..2147483647}"
  shows "res = Select_error ''descriptor too large for set size'' \<or> (\<exists>r s. res = Selected r s \<and> x \<in> set (fst r))"
proof -
  have "hot (selectable_tcp x tcp)"
    using assms(3,4) by (simp add: hot_def getfd_def dirty_def selectable_tcp_def meth_getfd_def meth_dirty_def
        c_int_def trunc_def SOCKET_INVALID_def)
  then show ?thesis using global_select_hot [OF assms(1,2)] by (simp add: selectable_tcp_def)
qed

definition read_ahead :: t_tcp where
  "read_ahead = (let t = tcp_zero Tcp_client in t\<lparr>tcp_sock := 9, tcp_buf := (tcp_buf t)\<lparr>buf_last := 1\<rparr>\<rparr>)"

definition select_one :: "(nat selected \<times> world) option" where
  "select_one = global_select (Some [selectable_tcp 1 read_ahead]) None (Some 10)
     \<lparr>answers = [Time 0 0, Time 0 0, Ready 0 {} {}], transcript = []\<rparr>"

theorem select_buffered_witness: "\<exists>r s w'. select_one = Some (Selected r s, w') \<and> 1 \<in> set (fst r)"
proof -
  have "select_one \<noteq> None" and not_error: "(case select_one of Some (Select_error e, w) \<Rightarrow> False | _ \<Rightarrow> True)" by code_simp+
  then obtain res w' where s: "select_one = Some (res, w')" by auto
  have e: "res \<noteq> Select_error e" for e using not_error unfolding s by auto
  have "\<not> buffer_isempty (tcp_buf read_ahead)" "tcp_sock read_ahead \<in> {0..2147483647}"
    by (simp_all add: read_ahead_def tcp_zero_def buffer_isempty_def Let_def)
  then have "\<exists>r s. res = Selected r s \<and> 1 \<in> set (fst r)"
    using select_buffered [OF s(1) [unfolded select_one_def], of 1 read_ahead] e by (auto simp: elements_def)
  then show ?thesis using s by blast
qed

text \<open>A call that fails while an element is dirty leaves every descriptor in the sets, and all elements
  are reported as readable and writable: here descriptor 7 is not open.\<close>

lemma select_failure_hidden:
  "(case global_select two_readers (Some [\<lparr>itself = 3 :: nat, getfd_number = Some 8, is_dirty = False\<rparr>]) None
      \<lparr>answers = [Time 0 0, Time 0 0, Fail 9], transcript = []\<rparr> of
     Some (Selected r s, w) \<Rightarrow> fst r = [1, 2] \<and> fst s = [3] | _ \<Rightarrow> False)"
  by code_simp

end
