(* ===== verification/Udp_Correct.thy ===== *)
theory Udp_Correct
  imports Sock_Life
begin

section \<open>Datagrams\<close>

text \<open>
  A receive on a UDP socket hands over one datagram, the empty one included, and nothing when it
  fails. An object without a socket is another matter: the code for a closed socket is the one that
  stands for an empty datagram.
\<close>

lemma receiving_last:
  assumes "receiving c ps tm w err bs w'" "err = IO_DONE \<or> err = IO_CLOSED"
  shows "last (transcript w') = (c, Took bs)"
  using assms
proof (induction rule: receiving.induct)
  case (data w bs w1)
  then show ?case by (auto simp: ask_def split: list.splits if_splits)
next
  case (eof w w1)
  then show ?case by (auto simp: ask_def split: list.splits if_splits)
next
  case (fatal w err w1)
  then show ?case using ask_transfer(1) [OF fatal(1)]
    by (cases c) (auto simp: fits_def io_defs)
next
  case (gave_up w w1 err w2)
  then show ?case using socket_waitfd_code [OF gave_up(2)] not_WAITFD_C by (auto simp: io_defs)
qed auto

text \<open>C36: A receive on a UDP object that has a socket, with the size omitted or an integer, hands over
  exactly the bytes of one datagram, the one the last call to the system delivered, which may be empty;
  or it reports an error, and then no byte has been taken from the socket.\<close>

theorem udp_receive_datagram:
  assumes "udp_receive lib arg udp w = Some (r, udp', w')" "udp_sock udp \<noteq> SOCKET_INVALID" "wanted_size arg = Some n"
  shows "(\<exists>d. r = Results [Data d] \<and> length d \<le> n \<and> last (transcript w') = (Recv (udp_sock udp) n, Took d)
        \<and> taken (udp_sock udp) w' = taken (udp_sock udp) w @ d)
    \<or> (\<exists>e. r = Results [Nil_value, e]) \<and> taken (udp_sock udp) w' = taken (udp_sock udp) w"
proof -
  let ?fd = "udp_sock udp"
  obtain udp1 w1 err d where m: "udp_markstart udp w = Some (udp1, w1)"
    "socket_recv (udp_sock udp1) n (udp_tm udp1) w1 = Some (err, d, w')"
    and r: "r = (if err \<noteq> IO_DONE \<and> err \<noteq> IO_CLOSED then Results [Nil_value, str_value (udp_strerror lib err)] else Results [Data d])"
    using assms(1,3) unfolding udp_receive_def by (auto elim!: bind_SomeE split: if_splits)
  obtain tm where tm: "timeout_markstart (udp_tm udp) w = Some (tm, w1)" "udp1 = udp\<lparr>udp_tm := tm\<rparr>"
    using m(1) unfolding udp_markstart_def by (auto elim!: bind_SomeE)
  then have fd: "udp_sock udp1 = ?fd" by simp
  have w1: "taken ?fd w1 = taken ?fd w"
  proof -
    have "adds waits w w1" using tm(1) by (auto simp: timeout_markstart_def elim!: bind_SomeE dest: timeout_gettime_adds)
    then show ?thesis using adds_silent waits_silent by blast
  qed
  have rcv: "receiving (Recv ?fd n) ?fd (udp_tm udp1) w1 err d w'"
    using m(2) assms(2) fd by (auto simp: socket_recv_def intro: recv_loop_receiving)
  have out: "length d \<le> n" "taken ?fd w' = taken ?fd w1 @ d" "err = IO_DONE \<longleftrightarrow> d \<noteq> []"
    using receiver_outcome [where receiver = socket_recv, OF _ m(2)] fd by auto
  show ?thesis
  proof (cases "err = IO_DONE \<or> err = IO_CLOSED")
    case True
    then show ?thesis using receiving_last [OF rcv True] r out w1 by auto
  next
    case False
    then show ?thesis using r out w1 by auto
  qed
qed

definition reader :: t_udp where
  "reader = \<lparr>udp_class = Udp_unconnected, udp_sock = 4, udp_tm = \<lparr>tm_block = - 1, tm_total = - 1, tm_start = 0\<rparr>, udp_family = AF_INET\<rparr>"

text \<open>An empty datagram after an interruption.\<close>

definition read_empty :: "(reply \<times> t_udp \<times> world) option" where
  "read_empty = udp_receive mute_lib None reader (facing [Time 0 0, Fail EINTR, Took []])"

theorem udp_receive_datagram_witness:
  "\<exists>r udp' w'. read_empty = Some (r, udp', w') \<and>
    ((\<exists>d. r = Results [Data d] \<and> length d \<le> 8192 \<and> last (transcript w') = (Recv 4 8192, Took d)
        \<and> taken 4 w' = taken 4 (facing [Time 0 0, Fail EINTR, Took []]) @ d)
    \<or> (\<exists>e. r = Results [Nil_value, e]) \<and> taken 4 w' = taken 4 (facing [Time 0 0, Fail EINTR, Took []]))"
proof -
  have "read_empty \<noteq> None" by code_simp
  then obtain r udp' w' where r: "read_empty = Some (r, udp', w')" by (cases read_empty) auto
  have "udp_sock reader = 4" "wanted_size None = Some 8192"
    by (simp_all add: reader_def wanted_size_def UDP_DATAGRAMSIZE_def)
  then have "(\<exists>d. r = Results [Data d] \<and> length d \<le> 8192 \<and> last (transcript w') = (Recv 4 8192, Took d)
        \<and> taken 4 w' = taken 4 (facing [Time 0 0, Fail EINTR, Took []]) @ d)
    \<or> (\<exists>e. r = Results [Nil_value, e]) \<and> taken 4 w' = taken 4 (facing [Time 0 0, Fail EINTR, Took []])"
    using udp_receive_datagram [OF r [unfolded read_empty_def], of 8192] by (simp add: SOCKET_INVALID_def)
  then show ?thesis using r by blast
qed

text \<open>C38: A UDP object that has no socket, because none was created yet or because it was closed,
  receives an empty datagram instead of an error; an unconnected one that receives with the name of the
  sender looks at an address that was never written (a connected one is refused there).\<close>

theorem udp_receive_without_socket:
  assumes "udp_sock udp = SOCKET_INVALID" "udp_markstart udp w = Some (udp', w')" "wanted_size arg = Some n"
  shows "udp_receive lib arg udp w = Some (Results [Data []], udp', w')
    \<and> (if udp_class udp = Udp_unconnected then udp_receivefrom lib arg udp w = None
       else udp_receivefrom lib arg udp w = Some (Lua_error ''udp{unconnected} expected'', udp, w))"
proof -
  have "udp_sock udp' = SOCKET_INVALID" "udp_class udp' = udp_class udp"
    using assms(1,2) unfolding udp_markstart_def by (auto elim!: bind_SomeE)
  then show ?thesis
    using assms by (cases "udp_class udp") (simp_all add: udp_receive_def udp_receivefrom_def udp_checkclass_def
        udp_class_name_def socket_recv_def socket_recvfrom_def io_defs)
qed

theorem udp_receive_without_socket_witness:
  "udp_receive mute_lib None (reader\<lparr>udp_sock := SOCKET_INVALID\<rparr>) (facing [Time 3 0])
     = Some (Results [Data []], reader\<lparr>udp_sock := SOCKET_INVALID, udp_tm := \<lparr>tm_block = - 1, tm_total = - 1, tm_start = 3\<rparr>\<rparr>,
         \<lparr>answers = [], transcript = [(Gettimeofday, Time 3 0)]\<rparr>)"
proof -
  have "udp_markstart (reader\<lparr>udp_sock := SOCKET_INVALID\<rparr>) (facing [Time 3 0])
      = Some (reader\<lparr>udp_sock := SOCKET_INVALID, udp_tm := \<lparr>tm_block = - 1, tm_total = - 1, tm_start = 3\<rparr>\<rparr>,
         \<lparr>answers = [], transcript = [(Gettimeofday, Time 3 0)]\<rparr>)"
    by (simp add: udp_markstart_def timeout_markstart_def timeout_gettime_def ask_def fits_def facing_def reader_def)
  then show ?thesis
    using udp_receive_without_socket [of "reader\<lparr>udp_sock := SOCKET_INVALID\<rparr>" "facing [Time 3 0]" _ _ None 8192 mute_lib]
    by (simp add: wanted_size_def UDP_DATAGRAMSIZE_def)
qed

subsection \<open>Two slips\<close>

text \<open>The option for the hops of multicast datagrams sets those of unicast datagrams (number 16, not 18).\<close>

lemma multicast_hops_are_unicast:
  assumes "udp_setoption lib ''ipv6-multicast-hops'' (Num n) udp w = Some (r, udp', w')" "n \<in> {- 2147483648..2147483647}"
  shows "\<exists>a. transcript w' = transcript w @ [(Setsockopt (udp_sock udp) IPPROTO_IPV6 16 [n], a)]"
  using assms unfolding udp_setoption_def udp_optset_def opt_meth_setoption_def
  by (auto elim!: bind_SomeE simp: opt_set_ip6_unicast_hops_def opt_setint_def opt_set_def ask_def c_int_def trunc_def
      split: list.splits if_splits answer.splits)

text \<open>Without a local address the family given to \<open>socket.connect\<close> has no effect.\<close>

lemma connect_ignores_family:
  assumes "f \<in> {''unspec'', ''inet'', ''inet6''}"
  shows "global_connect lib ra rs None ls (Some f) w = global_connect lib ra rs None ls None w"
proof -
  obtain n where "inet_optfamily (Some f) ''unspec'' = Inr n"
    using assms by (auto simp: inet_optfamily_def check_option_def)
  moreover have "inet_optfamily None ''unspec'' = Inr 0" by (simp add: inet_optfamily_def check_option_def)
  ultimately show ?thesis by (simp add: global_connect_def)
qed

end
