(* ===== verification/Lj_Bcwrite.thy ===== *)
theory Lj_Bcwrite
  imports Mime
begin

section \<open>The bytecode writer of LuaJIT (lj_bcwrite.c)\<close>

text \<open>
  A compiled function (\<open>gcproto\<close>) is turned into bytes and passed to a callback piece by piece. The
  buffer is an array with a fill count; a byte written behind the array is \<open>None\<close>. The host is little
  endian and has the FFI; \<open>dual\<close> says whether numbers that are integers have a representation of
  their own (\<open>LJ_DUALNUM\<close>, not on x86 and x64). A double is given by its two words. The instructions
  are those behind the header instruction. The sizes are unbounded numbers, cut to 32 bits where
  they are written.
\<close>

subsection \<open>Values\<close>

datatype tvalue = Tv_nil | Tv_false | Tv_true | Tv_int u32 | Tv_num u32 u32 | Tv_str bytes

text \<open>A table: the array part and the nodes of the hash part, of which an empty hash part has one.\<close>

datatype gctab = Gctab (tab_array: "tvalue list") (tab_node: "(tvalue \<times> tvalue) list")

datatype gcproto =
    Gcproto (pt_flags: u8) (pt_numparams: u8) (pt_framesize: u8) (pt_trace: "16 word") (pt_bc: "u32 list")
      (pt_uv: "16 word list") (pt_kgc: "gcobj list") (pt_kn: "tvalue list") (pt_firstline: u32) (pt_numline: u32)
      (pt_lineinfo: "bytes option")
and gcobj = K_str bytes | K_proto gcproto | K_tab gctab | K_int64 u32 u32 | K_uint64 u32 u32 | K_complex u32 u32 u32 u32

definition PROTO_CHILD :: u8 where "PROTO_CHILD = 0x01"
definition PROTO_VARARG :: u8 where "PROTO_VARARG = 0x02"
definition PROTO_FFI :: u8 where "PROTO_FFI = 0x04"
definition PROTO_ILOOP :: u8 where "PROTO_ILOOP = 0x10"

lemmas proto_flags = PROTO_CHILD_def PROTO_VARARG_def PROTO_FFI_def PROTO_ILOOP_def

text \<open>What the writer needs of the host: the representation of numbers and the first instruction of
  each compiled trace.\<close>

record host =
  dual :: bool
  startins :: "nat \<Rightarrow> u32"

subsection \<open>Numbers\<close>

text \<open>\<open>lj_num2int\<close> and the comparison that follows it: the \<open>int32_t\<close> a double equals, if there is one.
  Minus zero equals zero.\<close>

definition num_int :: "u32 \<Rightarrow> u32 \<Rightarrow> u32 option" where
  "num_int lo hi =
     (let e = unat hi div 2 ^ 20 mod 2 ^ 11;
          m = unat hi mod 2 ^ 20 * 2 ^ 32 + unat lo;
          fits = (\<lambda>v. let i = (if unat hi \<ge> 2 ^ 31 then - int v else int v) in
                     if - 2147483648 \<le> i \<and> i \<le> 2147483647 then Some (word_of_int i) else None) in
      if e = 2047 then None
      else if e = 0 then (if m = 0 then Some 0 else None)
      else if e \<ge> 1075 then fits ((2 ^ 52 + m) * 2 ^ (e - 1075))
      else if 2 ^ (1075 - e) dvd 2 ^ 52 + m then fits ((2 ^ 52 + m) div 2 ^ (1075 - e))
      else None)"

subsection \<open>The buffer\<close>

record sbuf =
  sb_buf :: bytes
  sb_n :: nat

text \<open>Doubling the size until it is enough; a size of zero would be doubled forever.\<close>

function grow :: "nat \<Rightarrow> nat \<Rightarrow> nat" where
  "grow need sz = (if sz = 0 \<or> need \<le> sz then sz else grow need (2 * sz))"
  by pat_completeness auto
termination by (relation "measure (\<lambda>(need, sz). need - sz)") auto

declare grow.simps [simp del]

text \<open>The bytes a larger array has more are undefined; they are never passed on.\<close>

definition lj_str_resizebuf :: "nat \<Rightarrow> sbuf \<Rightarrow> sbuf" where
  "lj_str_resizebuf sz sb = sb\<lparr>sb_buf := take sz (sb_buf sb) @ replicate (sz - length (sb_buf sb)) 0\<rparr>"

definition bcwrite_resize :: "nat \<Rightarrow> sbuf \<Rightarrow> sbuf" where
  "bcwrite_resize len sb = lj_str_resizebuf (grow (sb_n sb + len) (length (sb_buf sb) * 2)) sb"

definition bcwrite_need :: "nat \<Rightarrow> sbuf \<Rightarrow> sbuf" where
  "bcwrite_need len sb = (if sb_n sb + len > length (sb_buf sb) then bcwrite_resize len sb else sb)"

definition bcwrite_byte :: "u8 \<Rightarrow> sbuf \<Rightarrow> sbuf option" where
  "bcwrite_byte b sb =
     (if sb_n sb < length (sb_buf sb) then Some (sb\<lparr>sb_buf := (sb_buf sb)[sb_n sb := b], sb_n := sb_n sb + 1\<rparr>) else None)"

definition bcwrite_block :: "bytes \<Rightarrow> sbuf \<Rightarrow> sbuf option" where
  "bcwrite_block p sb = fold_option bcwrite_byte p sb"

function bcwrite_uleb128 :: "u32 \<Rightarrow> sbuf \<Rightarrow> sbuf option" where
  "bcwrite_uleb128 v sb =
     (if v \<ge> 0x80 then do { sb \<leftarrow> bcwrite_byte (ucast ((v AND 0x7f) OR 0x80)) sb; bcwrite_uleb128 (drop_bit 7 v) sb }
      else bcwrite_byte (ucast v) sb)"
  by pat_completeness auto
termination
proof (relation "measure (\<lambda>(v, sb). unat v)")
  fix v :: u32 and sb sb' :: sbuf
  assume "0x80 \<le> v"
  then have "0x80 \<le> unat v" by (simp add: word_le_nat_alt)
  then show "((drop_bit 7 v, sb'), (v, sb)) \<in> measure (\<lambda>(v, sb). unat v)"
    by (simp add: drop_bit_eq_div unat_div)
qed simp

declare bcwrite_uleb128.simps [simp del]

subsection \<open>Constants\<close>

definition BCDUMP_KTAB_NIL :: u32 where "BCDUMP_KTAB_NIL = 0"
definition BCDUMP_KTAB_INT :: u32 where "BCDUMP_KTAB_INT = 3"
definition BCDUMP_KTAB_NUM :: u32 where "BCDUMP_KTAB_NUM = 4"
definition BCDUMP_KTAB_STR :: nat where "BCDUMP_KTAB_STR = 5"
definition BCDUMP_KGC_CHILD :: u32 where "BCDUMP_KGC_CHILD = 0"
definition BCDUMP_KGC_TAB :: u32 where "BCDUMP_KGC_TAB = 1"
definition BCDUMP_KGC_I64 :: u32 where "BCDUMP_KGC_I64 = 2"
definition BCDUMP_KGC_U64 :: u32 where "BCDUMP_KGC_U64 = 3"
definition BCDUMP_KGC_COMPLEX :: u32 where "BCDUMP_KGC_COMPLEX = 4"
definition BCDUMP_KGC_STR :: nat where "BCDUMP_KGC_STR = 5"

lemmas bcdump_types = BCDUMP_KTAB_NIL_def BCDUMP_KTAB_INT_def BCDUMP_KTAB_NUM_def BCDUMP_KTAB_STR_def
  BCDUMP_KGC_CHILD_def BCDUMP_KGC_TAB_def BCDUMP_KGC_I64_def BCDUMP_KGC_U64_def BCDUMP_KGC_COMPLEX_def
  BCDUMP_KGC_STR_def

definition bcwrite_ktabk :: "host \<Rightarrow> tvalue \<Rightarrow> bool \<Rightarrow> sbuf \<Rightarrow> sbuf option" where
  "bcwrite_ktabk h v narrow sb =
     (let sb = bcwrite_need 11 sb in
      case v of
        Tv_str s \<Rightarrow>
          do { sb \<leftarrow> bcwrite_uleb128 (of_nat (BCDUMP_KTAB_STR + length s)) (bcwrite_need (5 + length s) sb);
               bcwrite_block s sb }
      | Tv_int k \<Rightarrow> do { sb \<leftarrow> bcwrite_byte (ucast BCDUMP_KTAB_INT) sb; bcwrite_uleb128 k sb }
      | Tv_num lo hi \<Rightarrow>
          (case (if \<not> dual h \<and> narrow then num_int lo hi else None) of
             Some k \<Rightarrow> do { sb \<leftarrow> bcwrite_byte (ucast BCDUMP_KTAB_INT) sb; bcwrite_uleb128 k sb }
           | None \<Rightarrow>
               do { sb \<leftarrow> bcwrite_byte (ucast BCDUMP_KTAB_NUM) sb; sb \<leftarrow> bcwrite_uleb128 lo sb; bcwrite_uleb128 hi sb })
      | Tv_nil \<Rightarrow> bcwrite_byte (ucast BCDUMP_KTAB_NIL) sb
      | Tv_false \<Rightarrow> bcwrite_byte (ucast BCDUMP_KTAB_NIL + 1) sb
      | Tv_true \<Rightarrow> bcwrite_byte (ucast BCDUMP_KTAB_NIL + 2) sb)"

text \<open>The array part up to its last value, and the nodes with a value from the last to the first.\<close>

definition used_array :: "gctab \<Rightarrow> tvalue list" where
  "used_array t = rev (dropWhile (\<lambda>v. v = Tv_nil) (rev (tab_array t)))"

definition used_nodes :: "gctab \<Rightarrow> (tvalue \<times> tvalue) list" where
  "used_nodes t = (if length (tab_node t) > 1 then filter (\<lambda>(k, v). v \<noteq> Tv_nil) (rev (tab_node t)) else [])"

definition bcwrite_ktab :: "host \<Rightarrow> gctab \<Rightarrow> sbuf \<Rightarrow> sbuf option" where
  "bcwrite_ktab h t sb =
     do { sb \<leftarrow> bcwrite_uleb128 (of_nat (length (used_array t))) sb;
          sb \<leftarrow> bcwrite_uleb128 (of_nat (length (used_nodes t))) sb;
          sb \<leftarrow> fold_option (\<lambda>v. bcwrite_ktabk h v True) (used_array t) sb;
          fold_option (\<lambda>(k, v) sb. do { sb \<leftarrow> bcwrite_ktabk h k False sb; bcwrite_ktabk h v True sb }) (used_nodes t) sb }"

definition kgc_type :: "gcobj \<Rightarrow> u32" where
  "kgc_type obj =
     (case obj of
        K_str s \<Rightarrow> of_nat (BCDUMP_KGC_STR + length s)
      | K_proto pt \<Rightarrow> BCDUMP_KGC_CHILD
      | K_int64 lo hi \<Rightarrow> BCDUMP_KGC_I64
      | K_uint64 lo hi \<Rightarrow> BCDUMP_KGC_U64
      | K_complex rlo rhi ilo ihi \<Rightarrow> BCDUMP_KGC_COMPLEX
      | K_tab t \<Rightarrow> BCDUMP_KGC_TAB)"

definition kgc_need :: "gcobj \<Rightarrow> nat" where
  "kgc_need obj =
     (case obj of
        K_str s \<Rightarrow> 5 + length s
      | K_proto pt \<Rightarrow> 1
      | K_tab t \<Rightarrow> 1 + 2 * 5
      | _ \<Rightarrow> 1 + 4 * 5)"

definition bcwrite_kgc1 :: "host \<Rightarrow> gcobj \<Rightarrow> sbuf \<Rightarrow> sbuf option" where
  "bcwrite_kgc1 h obj sb =
     do { sb \<leftarrow> bcwrite_uleb128 (kgc_type obj) (bcwrite_need (kgc_need obj) sb);
          case obj of
            K_str s \<Rightarrow> bcwrite_block s sb
          | K_tab t \<Rightarrow> bcwrite_ktab h t sb
          | K_proto pt \<Rightarrow> Some sb
          | K_int64 lo hi \<Rightarrow> do { sb \<leftarrow> bcwrite_uleb128 lo sb; bcwrite_uleb128 hi sb }
          | K_uint64 lo hi \<Rightarrow> do { sb \<leftarrow> bcwrite_uleb128 lo sb; bcwrite_uleb128 hi sb }
          | K_complex rlo rhi ilo ihi \<Rightarrow>
              do { sb \<leftarrow> bcwrite_uleb128 rlo sb; sb \<leftarrow> bcwrite_uleb128 rhi sb;
                   sb \<leftarrow> bcwrite_uleb128 ilo sb; bcwrite_uleb128 ihi sb } }"

definition bcwrite_kgc :: "host \<Rightarrow> gcobj list \<Rightarrow> sbuf \<Rightarrow> sbuf option" where
  "bcwrite_kgc h objs sb = fold_option (bcwrite_kgc1 h) objs sb"

text \<open>The last byte of a 33-bit number with the top bit of its 32 upper bits set: the two bits that
  the shift has lost are put in.\<close>

definition bcwrite_patch :: "u32 \<Rightarrow> sbuf \<Rightarrow> sbuf option" where
  "bcwrite_patch k sb =
     (if k \<ge> 0x80000000 then
        (if 0 < sb_n sb \<and> sb_n sb \<le> length (sb_buf sb) then
           Some (sb\<lparr>sb_buf := (sb_buf sb)[sb_n sb - 1 := (sb_buf sb ! (sb_n sb - 1) AND 7) OR ucast (drop_bit 27 k AND 0x18)]\<rparr>)
         else None)
      else Some sb)"

definition save_int :: "u32 \<Rightarrow> sbuf \<Rightarrow> sbuf option" where
  "save_int k sb = do { sb \<leftarrow> bcwrite_uleb128 (2 * k OR (k AND 0x80000000)) sb; bcwrite_patch k sb }"

definition bcwrite_knum1 :: "host \<Rightarrow> tvalue \<Rightarrow> sbuf \<Rightarrow> sbuf option" where
  "bcwrite_knum1 h v sb =
     (case v of
        Tv_int k \<Rightarrow> save_int k sb
      | Tv_num lo hi \<Rightarrow>
          (case (if dual h then None else num_int lo hi) of
             Some k \<Rightarrow> save_int k sb
           | None \<Rightarrow>
               do { sb \<leftarrow> bcwrite_uleb128 (1 + (2 * lo OR (lo AND 0x80000000))) sb; sb \<leftarrow> bcwrite_patch lo sb;
                    bcwrite_uleb128 hi sb })
      | _ \<Rightarrow> None)"

definition bcwrite_knum :: "host \<Rightarrow> tvalue list \<Rightarrow> sbuf \<Rightarrow> sbuf option" where
  "bcwrite_knum h kn sb = fold_option (bcwrite_knum1 h) kn (bcwrite_need (10 * length kn) sb)"

subsection \<open>Instructions\<close>

definition bc_op :: "u32 \<Rightarrow> u32" where "bc_op i = i AND 0xff"
definition bc_d :: "u32 \<Rightarrow> u32" where "bc_d i = drop_bit 16 i"

definition BC_FORL :: u32 where "BC_FORL = 75"
definition BC_JFORI :: u32 where "BC_JFORI = 74"
definition BC_IFORL :: u32 where "BC_IFORL = 76"
definition BC_JFORL :: u32 where "BC_JFORL = 77"
definition BC_IITERL :: u32 where "BC_IITERL = 79"
definition BC_JITERL :: u32 where "BC_JITERL = 80"
definition BC_ILOOP :: u32 where "BC_ILOOP = 82"
definition BC_JLOOP :: u32 where "BC_JLOOP = 83"

text \<open>An instruction as it was before the compiler of traces patched it: the opcode, or the opcode and
  the operands B and C, which are the upper half.\<close>

definition unpatch :: "host \<Rightarrow> u32 \<Rightarrow> u32" where
  "unpatch h i =
     (let oper = bc_op i in
      if oper \<in> {BC_IFORL, BC_IITERL, BC_ILOOP, BC_JFORI} then (i AND NOT 0xff) OR (oper - BC_IFORL + BC_FORL)
      else if oper \<in> {BC_JFORL, BC_JITERL, BC_JLOOP} then
        (i AND 0xff00) OR (oper - BC_JFORL + BC_FORL) OR (startins h (unat (bc_d i)) AND 0xffff0000)
      else i)"

definition bytes_of_u16 :: "16 word \<Rightarrow> bytes" where
  "bytes_of_u16 v = [ucast v, ucast (drop_bit 8 v)]"

definition bytes_of_u32 :: "u32 \<Rightarrow> bytes" where
  "bytes_of_u32 v = [ucast v, ucast (drop_bit 8 v), ucast (drop_bit 16 v), ucast (drop_bit 24 v)]"

text \<open>The source copies first and unpatches the copy.\<close>

definition bcwrite_bytecode :: "host \<Rightarrow> gcproto \<Rightarrow> sbuf \<Rightarrow> sbuf option" where
  "bcwrite_bytecode h pt sb =
     (let patched = pt_flags pt AND PROTO_ILOOP \<noteq> 0 \<or> pt_trace pt \<noteq> 0 in
      bcwrite_block (concat (map bytes_of_u32 (if patched then map (unpatch h) (pt_bc pt) else pt_bc pt))) sb)"

subsection \<open>Prototypes\<close>

record 's bcwctx =
  ctx_sb :: sbuf
  ctx_status :: int
  ctx_data :: 's

text \<open>The contents of one prototype in the buffer, behind the five bytes for the size.\<close>

definition bcwrite_pdata :: "host \<Rightarrow> bool \<Rightarrow> gcproto \<Rightarrow> sbuf \<Rightarrow> sbuf option" where
  "bcwrite_pdata h strip pt sb =
     (let sb = bcwrite_need (4 + 6 * 5 + length (pt_bc pt) * 4 + length (pt_uv pt) * 2) (sb\<lparr>sb_n := 5\<rparr>);
          sizedbg = (if strip then 0 else case pt_lineinfo pt of None \<Rightarrow> 0 | Some dbg \<Rightarrow> length dbg) in
      do { sb \<leftarrow> bcwrite_byte (pt_flags pt AND (PROTO_CHILD OR PROTO_VARARG OR PROTO_FFI)) sb;
           sb \<leftarrow> bcwrite_byte (pt_numparams pt) sb;
           sb \<leftarrow> bcwrite_byte (pt_framesize pt) sb;
           sb \<leftarrow> bcwrite_byte (of_nat (length (pt_uv pt))) sb;
           sb \<leftarrow> bcwrite_uleb128 (of_nat (length (pt_kgc pt))) sb;
           sb \<leftarrow> bcwrite_uleb128 (of_nat (length (pt_kn pt))) sb;
           sb \<leftarrow> bcwrite_uleb128 (of_nat (length (pt_bc pt))) sb;
           sb \<leftarrow> (if strip then Some sb
                 else do { sb \<leftarrow> bcwrite_uleb128 (of_nat sizedbg) sb;
                           if sizedbg > 0 then do { sb \<leftarrow> bcwrite_uleb128 (pt_firstline pt) sb; bcwrite_uleb128 (pt_numline pt) sb }
                           else Some sb });
           sb \<leftarrow> bcwrite_bytecode h pt sb;
           sb \<leftarrow> bcwrite_block (concat (map bytes_of_u16 (pt_uv pt))) sb;
           sb \<leftarrow> bcwrite_kgc h (pt_kgc pt) sb;
           sb \<leftarrow> bcwrite_knum h (pt_kn pt) sb;
           if sizedbg > 0 then bcwrite_block (the (pt_lineinfo pt)) (bcwrite_need sizedbg sb) else Some sb })"

text \<open>The index of the highest bit set.\<close>

fun lj_fls :: "nat \<Rightarrow> nat" where
  "lj_fls n = (if n < 2 then 0 else Suc (lj_fls (n div 2)))"

declare lj_fls.simps [simp del]

text \<open>Passing the buffer on, with the size in front of the contents.\<close>

definition bcwrite_flush :: "(bytes \<Rightarrow> 's \<Rightarrow> int \<times> 's) \<Rightarrow> 's bcwctx \<Rightarrow> 's bcwctx option" where
  "bcwrite_flush wfunc ctx =
     (if ctx_status ctx = 0 then
        (let n = sb_n (ctx_sb ctx) - 5;
             nn = (lj_fls n + 8) * 9 div 64 in
         do { sb \<leftarrow> bcwrite_uleb128 (of_nat n) ((ctx_sb ctx)\<lparr>sb_n := 5 - nn\<rparr>);
              let (status, s) = wfunc (take (nn + n) (drop (5 - nn) (sb_buf sb))) (ctx_data ctx);
              Some \<lparr>ctx_sb = sb, ctx_status = status, ctx_data = s\<rparr> })
      else Some ctx)"

text \<open>The children are written from the last constant to the first.\<close>

fun bcwrite_proto :: "host \<Rightarrow> (bytes \<Rightarrow> 's \<Rightarrow> int \<times> 's) \<Rightarrow> bool \<Rightarrow> gcproto \<Rightarrow> 's bcwctx \<Rightarrow> 's bcwctx option"
  and bcwrite_children :: "host \<Rightarrow> (bytes \<Rightarrow> 's \<Rightarrow> int \<times> 's) \<Rightarrow> bool \<Rightarrow> gcobj list \<Rightarrow> 's bcwctx \<Rightarrow> 's bcwctx option" where
  "bcwrite_proto h wfunc strip (Gcproto fl np fs tr bc uv kgc kn first num dbg) ctx =
     do { ctx \<leftarrow> (if fl AND PROTO_CHILD \<noteq> 0 then bcwrite_children h wfunc strip kgc ctx else Some ctx);
          sb \<leftarrow> bcwrite_pdata h strip (Gcproto fl np fs tr bc uv kgc kn first num dbg) (ctx_sb ctx);
          bcwrite_flush wfunc (ctx\<lparr>ctx_sb := sb\<rparr>) }"
| "bcwrite_children h wfunc strip [] ctx = Some ctx"
| "bcwrite_children h wfunc strip (obj # objs) ctx =
     do { ctx \<leftarrow> bcwrite_children h wfunc strip objs ctx;
          case obj of K_proto pt \<Rightarrow> bcwrite_proto h wfunc strip pt ctx | _ \<Rightarrow> Some ctx }"

subsection \<open>A dump\<close>

definition BCDUMP_HEAD1 :: u8 where "BCDUMP_HEAD1 = 0x1b"
definition BCDUMP_HEAD2 :: u8 where "BCDUMP_HEAD2 = 0x4c"
definition BCDUMP_HEAD3 :: u8 where "BCDUMP_HEAD3 = 0x4a"
definition BCDUMP_VERSION :: u8 where "BCDUMP_VERSION = 1"
definition BCDUMP_F_BE :: u32 where "BCDUMP_F_BE = 0x01"
definition BCDUMP_F_STRIP :: u32 where "BCDUMP_F_STRIP = 0x02"
definition BCDUMP_F_FFI :: u32 where "BCDUMP_F_FFI = 0x04"

lemmas bcdump_head = BCDUMP_HEAD1_def BCDUMP_HEAD2_def BCDUMP_HEAD3_def BCDUMP_VERSION_def BCDUMP_F_BE_def
  BCDUMP_F_STRIP_def BCDUMP_F_FFI_def

definition bcwrite_header ::
    "(bytes \<Rightarrow> 's \<Rightarrow> int \<times> 's) \<Rightarrow> bool \<Rightarrow> bytes \<Rightarrow> gcproto \<Rightarrow> 's bcwctx \<Rightarrow> 's bcwctx option" where
  "bcwrite_header wfunc strip name pt ctx =
     do { let sb = bcwrite_need (5 + 5 + length name) ((ctx_sb ctx)\<lparr>sb_n := 0\<rparr>);
          sb \<leftarrow> bcwrite_byte BCDUMP_HEAD1 sb;
          sb \<leftarrow> bcwrite_byte BCDUMP_HEAD2 sb;
          sb \<leftarrow> bcwrite_byte BCDUMP_HEAD3 sb;
          sb \<leftarrow> bcwrite_byte BCDUMP_VERSION sb;
          sb \<leftarrow> bcwrite_byte (ucast ((if strip then BCDUMP_F_STRIP else 0)
                 + (if pt_flags pt AND PROTO_FFI \<noteq> 0 then BCDUMP_F_FFI else 0))) sb;
          sb \<leftarrow> (if strip then Some sb else do { sb \<leftarrow> bcwrite_uleb128 (of_nat (length name)) sb; bcwrite_block name sb });
          let (status, s) = wfunc (take (sb_n sb) (sb_buf sb)) (ctx_data ctx);
          Some \<lparr>ctx_sb = sb, ctx_status = status, ctx_data = s\<rparr> }"

definition bcwrite_footer :: "(bytes \<Rightarrow> 's \<Rightarrow> int \<times> 's) \<Rightarrow> 's bcwctx \<Rightarrow> 's bcwctx" where
  "bcwrite_footer wfunc ctx =
     (if ctx_status ctx = 0 then
        (let (status, s) = wfunc [0] (ctx_data ctx) in ctx\<lparr>ctx_status := status, ctx_data := s\<rparr>)
      else ctx)"

definition cpwriter ::
    "host \<Rightarrow> (bytes \<Rightarrow> 's \<Rightarrow> int \<times> 's) \<Rightarrow> bool \<Rightarrow> bytes \<Rightarrow> gcproto \<Rightarrow> 's bcwctx \<Rightarrow> 's bcwctx option" where
  "cpwriter h wfunc strip name pt ctx =
     do { ctx \<leftarrow> bcwrite_header wfunc strip name pt (ctx\<lparr>ctx_sb := lj_str_resizebuf 1024 (ctx_sb ctx)\<rparr>);
          ctx \<leftarrow> bcwrite_proto h wfunc strip pt ctx;
          Some (bcwrite_footer wfunc ctx) }"

text \<open>The status and the data of the callback. No error is thrown: memory does not run out.\<close>

definition lj_bcwrite ::
    "host \<Rightarrow> bytes \<Rightarrow> gcproto \<Rightarrow> (bytes \<Rightarrow> 's \<Rightarrow> int \<times> 's) \<Rightarrow> 's \<Rightarrow> bool \<Rightarrow> (int \<times> 's) option" where
  "lj_bcwrite h name pt wfunc s strip =
     do { ctx \<leftarrow> cpwriter h wfunc strip name pt \<lparr>ctx_sb = \<lparr>sb_buf = [], sb_n = 0\<rparr>, ctx_status = 0, ctx_data = s\<rparr>;
          Some (ctx_status ctx, ctx_data ctx) }"

end
