(* ===== verification/Lj_Bcread.thy ===== *)
theory Lj_Bcread
  imports Lj_Bcwrite
begin

section \<open>The bytecode reader of LuaJIT (lj_bcread.c)\<close>

text \<open>
  The reader gets its input in pieces from a callback: \<open>ls_p\<close> are the bytes at hand (there are
  \<open>ls->n\<close>), \<open>ls_more\<close> the pieces to come, the end of the list or an empty piece is the end of the
  input. \<open>Inl\<close> is an error that is thrown; \<open>None\<close> is what has no defined result: a read behind the
  bytes at hand, an assertion that fails, a shift by 32 or more, an array that does not fit into
  the memory. Of a table that is read, the nodes are in the order of their insertion. The prototypes
  read so far are a list, the top of the stack first; the stack does not overflow. Loading the FFI
  library leaves nothing the reader sees.
\<close>

datatype bcerror = LJ_ERR_BCBAD | LJ_ERR_BCFMT | LJ_ERR_NILIDX | LJ_ERR_NANIDX

record lexstate =
  ls_p :: bytes
  ls_more :: "bytes list"
  ls_eof :: bool
  ls_flags :: u32
  ls_chunkname :: bytes

definition LJ_MAX_MEM :: nat where "LJ_MAX_MEM = 0x7fffff00"

subsection \<open>Input\<close>

text \<open>Asking for pieces until there are \<open>len\<close> bytes. The end of the input is an error, or noted.\<close>

fun fill_loop :: "nat \<Rightarrow> bool \<Rightarrow> bytes \<Rightarrow> bytes list \<Rightarrow> bcerror + bytes \<times> bytes list \<times> bool" where
  "fill_loop len need p [] = (if need then Inl LJ_ERR_BCBAD else Inr (p, [], True))"
| "fill_loop len need p (buf # pieces) =
     (if buf = [] then (if need then Inl LJ_ERR_BCBAD else Inr (p, pieces, True))
      else if length (p @ buf) < len then fill_loop len need (p @ buf) pieces
      else Inr (p @ buf, pieces, False))"

definition bcread_fill :: "nat \<Rightarrow> bool \<Rightarrow> lexstate \<Rightarrow> bcerror + lexstate" where
  "bcread_fill len need ls =
     (if len > LJ_MAX_MEM \<or> ls_eof ls then Inl LJ_ERR_BCBAD
      else map_sum id (\<lambda>(p, pieces, eof). ls\<lparr>ls_p := p, ls_more := pieces, ls_eof := eof\<rparr>)
             (fill_loop len need (ls_p ls) (ls_more ls)))"

definition bcread_need :: "nat \<Rightarrow> lexstate \<Rightarrow> bcerror + lexstate" where
  "bcread_need len ls = (if length (ls_p ls) < len then bcread_fill len True ls else Inr ls)"

definition bcread_want :: "nat \<Rightarrow> lexstate \<Rightarrow> bcerror + lexstate" where
  "bcread_want len ls = (if length (ls_p ls) < len then bcread_fill len False ls else Inr ls)"

definition bcread_mem :: "nat \<Rightarrow> bytes \<Rightarrow> (bytes \<times> bytes) option" where
  "bcread_mem len p = (if len \<le> length p then Some (take len p, drop len p) else None)"

definition bcread_byte :: "bytes \<Rightarrow> (u8 \<times> bytes) option" where
  "bcread_byte p = (case p of [] \<Rightarrow> None | b # p \<Rightarrow> Some (b, p))"

text \<open>The loop of the two functions below, from the second byte on.\<close>

fun uleb128_rest :: "u32 \<Rightarrow> nat \<Rightarrow> bytes \<Rightarrow> (u32 \<times> bytes) option" where
  "uleb128_rest v sh [] = None"
| "uleb128_rest v sh (b # p) =
     (if sh \<ge> 32 then None
      else let v = v OR push_bit sh (ucast b AND 0x7f) in
           if b \<ge> 0x80 then uleb128_rest v (sh + 7) p else Some (v, p))"

definition bcread_uleb128 :: "bytes \<Rightarrow> (u32 \<times> bytes) option" where
  "bcread_uleb128 p =
     (case p of
        [] \<Rightarrow> None
      | b # p \<Rightarrow> if b \<ge> 0x80 then uleb128_rest (ucast b AND 0x7f) 7 p else Some (ucast b, p))"

definition bcread_uleb128_33 :: "bytes \<Rightarrow> (u32 \<times> bytes) option" where
  "bcread_uleb128_33 p =
     (case p of
        [] \<Rightarrow> None
      | b # p \<Rightarrow>
          let v = drop_bit 1 (ucast b) in
          if v \<ge> 0x40 then uleb128_rest (v AND 0x3f) 6 p else Some (v, p))"

subsection \<open>Numbers\<close>

text \<open>The words of the double of an \<open>int32_t\<close>.\<close>

definition int_num :: "u32 \<Rightarrow> u32 \<times> u32" where
  "int_num k =
     (if k = 0 then (0, 0)
      else let v = nat \<bar>sint k\<bar>;
               m = (v - 2 ^ lj_fls v) * 2 ^ (52 - lj_fls v) in
           (of_nat (m mod 2 ^ 32),
            of_nat (m div 2 ^ 32 + (1023 + lj_fls v) * 2 ^ 20 + (if sint k < 0 then 2 ^ 31 else 0))))"

definition setintV :: "host \<Rightarrow> u32 \<Rightarrow> tvalue" where
  "setintV h k = (if dual h then Tv_int k else case int_num k of (lo, hi) \<Rightarrow> Tv_num lo hi)"

subsection \<open>Constants\<close>

definition bcread_ktabk :: "host \<Rightarrow> bytes \<Rightarrow> (tvalue \<times> bytes) option" where
  "bcread_ktabk h p =
     do { (tp, p) \<leftarrow> bcread_uleb128 p;
          if unat tp \<ge> BCDUMP_KTAB_STR then
            do { (s, p) \<leftarrow> bcread_mem (unat tp - BCDUMP_KTAB_STR) p; Some (Tv_str s, p) }
          else if tp = BCDUMP_KTAB_INT then
            do { (k, p) \<leftarrow> bcread_uleb128 p; Some (setintV h k, p) }
          else if tp = BCDUMP_KTAB_NUM then
            do { (lo, p) \<leftarrow> bcread_uleb128 p; (hi, p) \<leftarrow> bcread_uleb128 p; Some (Tv_num lo hi, p) }
          else Some ([Tv_nil, Tv_false, Tv_true] ! unat tp, p) }"

definition is_nan :: "u32 \<Rightarrow> u32 \<Rightarrow> bool" where
  "is_nan lo hi \<longleftrightarrow> unat hi div 2 ^ 20 mod 2 ^ 11 = 2047 \<and> (unat hi mod 2 ^ 20 \<noteq> 0 \<or> lo \<noteq> 0)"

fun set_node :: "tvalue \<Rightarrow> tvalue \<Rightarrow> (tvalue \<times> tvalue) list \<Rightarrow> (tvalue \<times> tvalue) list" where
  "set_node k v [] = [(k, v)]"
| "set_node k v (n # ns) = (if fst n = k then (k, v) # ns else n # set_node k v ns)"

text \<open>\<open>lj_tab_setint\<close> and \<open>lj_tab_set\<close> return the slot of a key; the table has room for its nodes.
  The key of a node is never an integer, but the double of it.\<close>

datatype slot = Slot_array nat | Slot_node tvalue

definition lj_tab_setint :: "gctab \<Rightarrow> u32 \<Rightarrow> slot" where
  "lj_tab_setint t k =
     (if unat k < length (tab_array t) then Slot_array (unat k)
      else Slot_node (case int_num k of (lo, hi) \<Rightarrow> Tv_num lo hi))"

definition lj_tab_set :: "gctab \<Rightarrow> tvalue \<Rightarrow> bcerror + slot" where
  "lj_tab_set t key =
     (case key of
        Tv_str s \<Rightarrow> Inr (Slot_node key)
      | Tv_int k \<Rightarrow> Inr (lj_tab_setint t k)
      | Tv_num lo hi \<Rightarrow>
          (case num_int lo hi of
             Some k \<Rightarrow> Inr (lj_tab_setint t k)
           | None \<Rightarrow> if is_nan lo hi then Inl LJ_ERR_NANIDX else Inr (Slot_node key))
      | Tv_nil \<Rightarrow> Inl LJ_ERR_NILIDX
      | _ \<Rightarrow> Inr (Slot_node key))"

fun set_slot :: "slot \<Rightarrow> tvalue \<Rightarrow> gctab \<Rightarrow> gctab" where
  "set_slot (Slot_array i) v t = Gctab ((tab_array t)[i := v]) (tab_node t)"
| "set_slot (Slot_node k) v t = Gctab (tab_array t) (set_node k v (tab_node t))"

fun read_array :: "host \<Rightarrow> nat \<Rightarrow> bytes \<Rightarrow> (tvalue list \<times> bytes) option" where
  "read_array h 0 p = Some ([], p)"
| "read_array h (Suc n) p = do { (v, p) \<leftarrow> bcread_ktabk h p; (vs, p) \<leftarrow> read_array h n p; Some (v # vs, p) }"

text \<open>The slot of a key is found before the value is read.\<close>

fun read_hash :: "host \<Rightarrow> nat \<Rightarrow> gctab \<Rightarrow> bytes \<Rightarrow> (bcerror + gctab \<times> bytes) option" where
  "read_hash h 0 t p = Some (Inr (t, p))"
| "read_hash h (Suc n) t p =
     do { (key, p) \<leftarrow> bcread_ktabk h p;
          case lj_tab_set t key of
            Inl e \<Rightarrow> Some (Inl e)
          | Inr slot \<Rightarrow> do { (v, p) \<leftarrow> bcread_ktabk h p; read_hash h n (set_slot slot v t) p } }"

definition bcread_ktab :: "host \<Rightarrow> bytes \<Rightarrow> (bcerror + gctab \<times> bytes) option" where
  "bcread_ktab h p =
     do { (narray, p) \<leftarrow> bcread_uleb128 p;
          (nhash, p) \<leftarrow> bcread_uleb128 p;
          (vs, p) \<leftarrow> read_array h (unat narray) p;
          read_hash h (unat nhash) (Gctab vs []) p }"

text \<open>One collectable constant; a child is popped from the stack.\<close>

definition bcread_kgc1 ::
    "host \<Rightarrow> gcproto list \<Rightarrow> bytes \<Rightarrow> (bcerror + gcobj \<times> gcproto list \<times> bytes) option" where
  "bcread_kgc1 h st p =
     do { (tp, p) \<leftarrow> bcread_uleb128 p;
          if unat tp \<ge> BCDUMP_KGC_STR then
            do { (s, p) \<leftarrow> bcread_mem (unat tp - BCDUMP_KGC_STR) p; Some (Inr (K_str s, st, p)) }
          else if tp = BCDUMP_KGC_TAB then
            do { r \<leftarrow> bcread_ktab h p; Some (map_sum id (\<lambda>(t, p). (K_tab t, st, p)) r) }
          else if tp \<noteq> BCDUMP_KGC_CHILD then
            do { (lo, p) \<leftarrow> bcread_uleb128 p;
                 (hi, p) \<leftarrow> bcread_uleb128 p;
                 if tp = BCDUMP_KGC_COMPLEX then
                   do { (ilo, p) \<leftarrow> bcread_uleb128 p; (ihi, p) \<leftarrow> bcread_uleb128 p;
                        Some (Inr (K_complex lo hi ilo ihi, st, p)) }
                 else if tp = BCDUMP_KGC_I64 then Some (Inr (K_int64 lo hi, st, p))
                 else Some (Inr (K_uint64 lo hi, st, p)) }
          else (case st of [] \<Rightarrow> Some (Inl LJ_ERR_BCBAD) | pt # st \<Rightarrow> Some (Inr (K_proto pt, st, p))) }"

fun bcread_kgc ::
    "host \<Rightarrow> nat \<Rightarrow> gcproto list \<Rightarrow> bytes \<Rightarrow> (bcerror + gcobj list \<times> gcproto list \<times> bytes) option" where
  "bcread_kgc h 0 st p = Some (Inr ([], st, p))"
| "bcread_kgc h (Suc n) st p =
     do { r \<leftarrow> bcread_kgc1 h st p;
          case r of
            Inl e \<Rightarrow> Some (Inl e)
          | Inr (obj, st, p) \<Rightarrow>
              do { r \<leftarrow> bcread_kgc h n st p;
                   Some (map_sum id (\<lambda>(objs, st, p). (obj # objs, st, p)) r) } }"

definition bcread_knum1 :: "host \<Rightarrow> bytes \<Rightarrow> (tvalue \<times> bytes) option" where
  "bcread_knum1 h p =
     (case p of
        [] \<Rightarrow> None
      | b # _ \<Rightarrow>
          do { (lo, p) \<leftarrow> bcread_uleb128_33 p;
               if b AND 1 \<noteq> 0 then do { (hi, p) \<leftarrow> bcread_uleb128 p; Some (Tv_num lo hi, p) }
               else Some (setintV h lo, p) })"

fun bcread_knum :: "host \<Rightarrow> nat \<Rightarrow> bytes \<Rightarrow> (tvalue list \<times> bytes) option" where
  "bcread_knum h 0 p = Some ([], p)"
| "bcread_knum h (Suc n) p = do { (v, p) \<leftarrow> bcread_knum1 h p; (vs, p) \<leftarrow> bcread_knum h n p; Some (v # vs, p) }"

subsection \<open>Instructions and upvalues\<close>

definition bcread_swap :: "u32 \<Rightarrow> bool" where
  "bcread_swap flags \<longleftrightarrow> flags AND BCDUMP_F_BE \<noteq> 0"

fun u32s_of_bytes :: "bool \<Rightarrow> bytes \<Rightarrow> u32 list" where
  "u32s_of_bytes swap (a # b # c # d # p) =
     (let (a, b, c, d) = (if swap then (d, c, b, a) else (a, b, c, d)) in
      (ucast a OR push_bit 8 (ucast b) OR push_bit 16 (ucast c) OR push_bit 24 (ucast d)) # u32s_of_bytes swap p)"
| "u32s_of_bytes swap _ = []"

fun u16s_of_bytes :: "bool \<Rightarrow> bytes \<Rightarrow> 16 word list" where
  "u16s_of_bytes swap (a # b # p) =
     (let (a, b) = (if swap then (b, a) else (a, b)) in (ucast a OR push_bit 8 (ucast b)) # u16s_of_bytes swap p)"
| "u16s_of_bytes swap _ = []"

definition bcread_bytecode :: "u32 \<Rightarrow> nat \<Rightarrow> bytes \<Rightarrow> (u32 list \<times> bytes) option" where
  "bcread_bytecode flags nbc p =
     do { (q, p) \<leftarrow> bcread_mem (nbc * 4) p; Some (u32s_of_bytes (bcread_swap flags) q, p) }"

definition bcread_uv :: "u32 \<Rightarrow> nat \<Rightarrow> bytes \<Rightarrow> (16 word list \<times> bytes) option" where
  "bcread_uv flags sizeuv p =
     do { (q, p) \<leftarrow> bcread_mem (sizeuv * 2) p; Some (u16s_of_bytes (bcread_swap flags) q, p) }"

subsection \<open>Debug information\<close>

fun swap16 :: "nat \<Rightarrow> bytes \<Rightarrow> bytes" where
  "swap16 (Suc n) (a # b # p) = b # a # swap16 n p"
| "swap16 _ p = p"

fun swap32 :: "nat \<Rightarrow> bytes \<Rightarrow> bytes" where
  "swap32 (Suc n) (a # b # c # d # p) = d # c # b # a # swap32 n p"
| "swap32 _ p = p"

text \<open>The lines of the instructions come first, in one, two or four bytes each.\<close>

definition bcread_dbg :: "u32 \<Rightarrow> nat \<Rightarrow> u32 \<Rightarrow> nat \<Rightarrow> bytes \<Rightarrow> (bytes \<times> bytes) option" where
  "bcread_dbg flags nbc numline sizedbg p =
     do { (lineinfo, p) \<leftarrow> bcread_mem sizedbg p;
          if bcread_swap flags \<and> 256 \<le> sint numline then
            (if sint numline < 65536 then (if length lineinfo < nbc * 2 then None else Some (swap16 nbc lineinfo, p))
             else if length lineinfo < nbc * 4 then None else Some (swap32 nbc lineinfo, p))
          else Some (lineinfo, p) }"

text \<open>The names of the variables begin behind as many zeros as there are upvalues.\<close>

fun skip_names :: "nat \<Rightarrow> bytes \<Rightarrow> bytes option" where
  "skip_names 0 p = Some p"
| "skip_names (Suc n) [] = None"
| "skip_names (Suc n) (b # p) = (if b = 0 then skip_names n p else skip_names (Suc n) p)"

definition bcread_varinfo :: "nat \<Rightarrow> bytes \<Rightarrow> bytes option" where
  "bcread_varinfo sizeuv uvinfo = skip_names sizeuv uvinfo"

definition lineinfo_size :: "nat \<Rightarrow> u32 \<Rightarrow> nat" where
  "lineinfo_size nbc numline = nbc * (if sint numline < 256 then 1 else if sint numline < 65536 then 2 else 4)"

subsection \<open>Prototypes\<close>

text \<open>The contents of a prototype: the prototype, the stack without its children, the rest of the bytes.\<close>

definition bcread_pdata ::
    "host \<Rightarrow> u32 \<Rightarrow> gcproto list \<Rightarrow> bytes \<Rightarrow> (bcerror + gcproto \<times> gcproto list \<times> bytes) option" where
  "bcread_pdata h lsflags st p =
     do { (flags, p) \<leftarrow> bcread_byte p;
          (numparams, p) \<leftarrow> bcread_byte p;
          (framesize, p) \<leftarrow> bcread_byte p;
          (sizeuv, p) \<leftarrow> bcread_byte p;
          (sizekgc, p) \<leftarrow> bcread_uleb128 p;
          (sizekn, p) \<leftarrow> bcread_uleb128 p;
          (nbc, p) \<leftarrow> bcread_uleb128 p;
          (sizedbg, firstline, numline, p) \<leftarrow>
            (if lsflags AND BCDUMP_F_STRIP \<noteq> 0 then Some (0, 0, 0, p)
             else do { (sizedbg, p) \<leftarrow> bcread_uleb128 p;
                       if sizedbg \<noteq> 0 then
                         do { (firstline, p) \<leftarrow> bcread_uleb128 p; (numline, p) \<leftarrow> bcread_uleb128 p;
                              Some (sizedbg, firstline, numline, p) }
                       else Some (sizedbg, 0, 0, p) });
          (bc, p) \<leftarrow> bcread_bytecode lsflags (unat nbc) p;
          (uv, p) \<leftarrow> bcread_uv lsflags (unat sizeuv) p;
          r \<leftarrow> bcread_kgc h (unat sizekgc) st p;
          case r of
            Inl e \<Rightarrow> Some (Inl e)
          | Inr (kgc, st, p) \<Rightarrow>
              do { (kn, p) \<leftarrow> bcread_knum h (unat sizekn) p;
                   if sizedbg \<noteq> 0 then
                     do { (lineinfo, p) \<leftarrow> bcread_dbg lsflags (unat nbc) numline (unat sizedbg) p;
                          varinfo \<leftarrow> (if lineinfo_size (unat nbc) numline \<le> length lineinfo
                                     then bcread_varinfo (unat sizeuv) (drop (lineinfo_size (unat nbc) numline) lineinfo)
                                     else None);
                          Some (Inr (Gcproto flags numparams framesize 0 bc uv kgc kn firstline numline (Some lineinfo), st, p)) }
                   else Some (Inr (Gcproto flags numparams framesize 0 bc uv kgc kn firstline numline None, st, p)) } }"

text \<open>The part behind the length, which is not zero.\<close>

definition bcread_sized ::
    "host \<Rightarrow> gcproto list \<Rightarrow> nat \<Rightarrow> lexstate \<Rightarrow> (bcerror + gcproto \<times> gcproto list \<times> lexstate) option" where
  "bcread_sized h st len ls =
     (case bcread_need len ls of
        Inl e \<Rightarrow> Some (Inl e)
      | Inr ls \<Rightarrow>
          do { r \<leftarrow> bcread_pdata h (ls_flags ls) st (ls_p ls);
               case r of
                 Inl e \<Rightarrow> Some (Inl e)
               | Inr (pt, st, p) \<Rightarrow>
                   if len \<noteq> length (ls_p ls) - length p then Some (Inl LJ_ERR_BCBAD)
                   else Some (Inr (pt, st, ls\<lparr>ls_p := p\<rparr>)) })"

text \<open>The first component of the result is \<open>None\<close> at the end mark.\<close>

definition bcread_proto ::
    "host \<Rightarrow> gcproto list \<Rightarrow> lexstate \<Rightarrow> (bcerror + gcproto option \<times> gcproto list \<times> lexstate) option" where
  "bcread_proto h st ls =
     (if ls_p ls \<noteq> [] \<and> ls_p ls ! 0 = 0 then Some (Inr (None, st, ls\<lparr>ls_p := tl (ls_p ls)\<rparr>))
      else case bcread_want 5 ls of
        Inl e \<Rightarrow> Some (Inl e)
      | Inr ls \<Rightarrow>
          do { (len, p) \<leftarrow> bcread_uleb128 (ls_p ls);
               if len = 0 then Some (Inr (None, st, ls\<lparr>ls_p := p\<rparr>))
               else do { r \<leftarrow> bcread_sized h st (unat len) (ls\<lparr>ls_p := p\<rparr>);
                         Some (map_sum id (\<lambda>(pt, st, ls). (Some pt, st, ls)) r) } })"

lemma case_sum_iff: "(case r of Inl a \<Rightarrow> f a | Inr b \<Rightarrow> g b) = y \<longleftrightarrow> (\<exists>a. r = Inl a \<and> f a = y) \<or> (\<exists>b. r = Inr b \<and> g b = y)"
  by (cases r) auto

lemma map_sum_Inr_iff: "map_sum id f r = Inr y \<longleftrightarrow> (\<exists>x. r = Inr x \<and> f x = y)"
  by (cases r) auto

definition bcread_left :: "lexstate \<Rightarrow> nat" where
  "bcread_left ls = length (ls_p ls) + length (concat (ls_more ls))"

lemma fill_loop_left:
  "fill_loop len need p pieces = Inr (p', pieces', eof) \<Longrightarrow> length p' + length (concat pieces') = length p + length (concat pieces)"
  by (induction len need p pieces rule: fill_loop.induct) (auto split: if_splits)

lemma bcread_fill_left: "bcread_fill len need ls = Inr ls' \<Longrightarrow> bcread_left ls' = bcread_left ls"
  using fill_loop_left
  by (auto simp: bcread_fill_def bcread_left_def map_sum_def split: if_splits sum.splits prod.splits)

lemma bcread_want_left: "bcread_want len ls = Inr ls' \<Longrightarrow> bcread_left ls' = bcread_left ls"
  "bcread_need len ls = Inr ls' \<Longrightarrow> bcread_left ls' = bcread_left ls"
  by (auto simp: bcread_want_def bcread_need_def dest: bcread_fill_left split: if_splits)

lemma uleb128_rest_length: "uleb128_rest v sh p = Some (x, p') \<Longrightarrow> length p' \<le> length p"
  by (induction v sh p rule: uleb128_rest.induct) (auto simp: Let_def split: if_splits)

lemma bcread_uleb128_length: "bcread_uleb128 p = Some (x, p') \<Longrightarrow> length p' < length p"
  by (auto simp: bcread_uleb128_def dest: uleb128_rest_length split: list.splits if_splits)

lemma bcread_sized_left:
  assumes "bcread_sized h st len ls = Some (Inr (pt, st', ls'))" "len \<noteq> 0"
  shows "bcread_left ls' < bcread_left ls"
proof -
  obtain ls1 where n: "bcread_need len ls = Inr ls1" using assms(1) by (auto simp: bcread_sized_def split: sum.splits)
  then obtain p where "len = length (ls_p ls1) - length p" "ls' = ls1\<lparr>ls_p := p\<rparr>"
    using assms(1) by (auto simp: bcread_sized_def bind_Some_iff case_sum_iff split: if_splits)
  then show ?thesis using bcread_want_left(2) [OF n] assms(2) by (simp add: bcread_left_def)
qed

lemma bcread_proto_left:
  assumes "bcread_proto h st ls = Some (Inr (Some pt, st', ls'))"
  shows "bcread_left ls' < bcread_left ls"
proof -
  obtain ls1 where w: "bcread_want 5 ls = Inr ls1"
    using assms by (auto simp: bcread_proto_def split: sum.splits if_splits)
  obtain len p where u: "bcread_uleb128 (ls_p ls1) = Some (len, p)" "len \<noteq> 0"
    and s: "bcread_sized h st (unat len) (ls1\<lparr>ls_p := p\<rparr>) = Some (Inr (pt, st', ls'))"
    using assms w by (auto simp: bcread_proto_def bind_Some_iff map_sum_Inr_iff split: if_splits)
  have "bcread_left (ls1\<lparr>ls_p := p\<rparr>) < bcread_left ls1" using bcread_uleb128_length [OF u(1)] by (simp add: bcread_left_def)
  then show ?thesis using bcread_sized_left [OF s] bcread_want_left(1) [OF w] u(2) by (simp add: unat_eq_0)
qed

subsection \<open>A dump\<close>

text \<open>The first byte has been read by the lexer, whose name of the input is \<open>chunkarg\<close>. \<open>False\<close> is a
  header of another format.\<close>

definition bcread_header :: "bytes \<Rightarrow> lexstate \<Rightarrow> (bcerror + bool \<times> lexstate) option" where
  "bcread_header chunkarg ls =
     (case bcread_want (3 + 5 + 5) ls of
        Inl e \<Rightarrow> Some (Inl e)
      | Inr ls \<Rightarrow>
          do { (b2, p) \<leftarrow> bcread_byte (ls_p ls);
               if b2 \<noteq> BCDUMP_HEAD2 then Some (Inr (False, ls\<lparr>ls_p := p\<rparr>)) else
               do { (b3, p) \<leftarrow> bcread_byte p;
               if b3 \<noteq> BCDUMP_HEAD3 then Some (Inr (False, ls\<lparr>ls_p := p\<rparr>)) else
               do { (version, p) \<leftarrow> bcread_byte p;
               if version \<noteq> BCDUMP_VERSION then Some (Inr (False, ls\<lparr>ls_p := p\<rparr>)) else
               do { (flags, p) \<leftarrow> bcread_uleb128 p;
                    let ls = ls\<lparr>ls_p := p, ls_flags := flags\<rparr>;
                    if flags AND NOT 7 \<noteq> 0 then Some (Inr (False, ls))
                    else if flags AND BCDUMP_F_STRIP \<noteq> 0 then Some (Inr (True, ls\<lparr>ls_chunkname := chunkarg\<rparr>))
                    else
                      do { (len, p) \<leftarrow> bcread_uleb128 p;
                           case bcread_need (unat len) (ls\<lparr>ls_p := p\<rparr>) of
                             Inl e \<Rightarrow> Some (Inl e)
                           | Inr ls \<Rightarrow>
                               do { (name, p) \<leftarrow> bcread_mem (unat len) (ls_p ls);
                                    Some (Inr (True, ls\<lparr>ls_p := p, ls_chunkname := name\<rparr>)) } } } } } })"

text \<open>Reading prototypes up to the end mark.\<close>

function bcread_protos :: "host \<Rightarrow> gcproto list \<Rightarrow> lexstate \<Rightarrow> (bcerror + gcproto list \<times> lexstate) option" where
  "bcread_protos h st ls =
     (case bcread_proto h st ls of
        None \<Rightarrow> None
      | Some (Inl e) \<Rightarrow> Some (Inl e)
      | Some (Inr (None, st, ls)) \<Rightarrow> Some (Inr (st, ls))
      | Some (Inr (Some pt, st, ls)) \<Rightarrow> bcread_protos h (pt # st) ls)"
  by pat_completeness auto
termination by (relation "measure (\<lambda>(h, st, ls). bcread_left ls)") (auto dest: bcread_proto_left)

declare bcread_protos.simps [simp del]

text \<open>The prototype and the name of its chunk.\<close>

definition lj_bcread :: "host \<Rightarrow> bytes \<Rightarrow> lexstate \<Rightarrow> (bcerror + gcproto \<times> bytes) option" where
  "lj_bcread h chunkarg ls =
     do { r \<leftarrow> bcread_header chunkarg ls;
          case r of
            Inl e \<Rightarrow> Some (Inl e)
          | Inr (ok, ls) \<Rightarrow>
              if \<not> ok then Some (Inl LJ_ERR_BCFMT)
              else
                do { r \<leftarrow> bcread_protos h [] ls;
                     case r of
                       Inl e \<Rightarrow> Some (Inl e)
                     | Inr (st, ls) \<Rightarrow>
                         if ls_p ls \<noteq> [] then Some (Inl LJ_ERR_BCBAD)
                         else (case st of [pt] \<Rightarrow> Some (Inr (pt, ls_chunkname ls)) | _ \<Rightarrow> Some (Inl LJ_ERR_BCBAD)) } }"

end
