(* ===== verification/Lj_Bc_Codec.thy ===== *)
theory Lj_Bc_Codec
  imports Lj_Bcread
begin

section \<open>Numbers in a bytecode dump\<close>

text \<open>
  The variable-length numbers of the dump format as a function on the natural numbers (\<open>uleb\<close>): what
  the two writers leave in the buffer and what the two readers make of it. The words of a double
  whose value is an \<open>int32_t\<close> are determined by it.
\<close>

subsection \<open>The format\<close>

fun uleb :: "nat \<Rightarrow> bytes" where
  "uleb n = (if n < 128 then [of_nat n] else of_nat (n mod 128 + 128) # uleb (n div 128))"

declare uleb.simps [simp del]

lemma uleb_not_Nil [simp]: "uleb n \<noteq> []"
  by (subst uleb.simps) simp

lemma length_uleb_pos: "0 < length (uleb n)"
  by simp

lemma length_uleb: "n < 128 ^ k \<Longrightarrow> 0 < k \<Longrightarrow> length (uleb n) \<le> k"
proof (induction n arbitrary: k rule: uleb.induct)
  case (1 n)
  show ?case
  proof (cases "n < 128")
    case True
    then show ?thesis using "1.prems" by (simp add: uleb.simps)
  next
    case False
    then obtain j where j: "k = Suc j" "0 < j" using "1.prems" by (cases k; cases "k - 1") auto
    have "n div 128 < 128 ^ j" using "1.prems"(1) j(1) by (simp add: less_mult_imp_div_less mult.commute)
    then have "length (uleb (n div 128)) \<le> j" using "1.IH" False j(2) by simp
    then show ?thesis using False j(1) by (subst uleb.simps) simp
  qed
qed

lemma length_uleb32: "n < 2 ^ 33 \<Longrightarrow> length (uleb n) \<le> 5"
  by (rule length_uleb) simp_all

subsection \<open>Reading\<close>

lemma word_of_natI: "unat (w :: 'a :: len word) = n \<Longrightarrow> w = of_nat n"
  by auto

lemma unat_byte: "n < 256 \<Longrightarrow> unat (of_nat n :: u8) = n"
  by (simp add: unat_of_nat)

lemma and_mask_nat: "unat (x AND mask k :: 'a :: len word) = unat x mod 2 ^ k"
  by (subst take_bit_eq_mask [symmetric], subst unsigned_take_bit_eq, rule take_bit_eq_mod)

lemma and_7f: "unat (x AND 0x7f :: u32) = unat x mod 128"
  using and_mask_nat [of x 7] by (simp add: mask_eq_exp_minus_1)

lemma and_3f: "unat (x AND 0x3f :: u32) = unat x mod 64"
  using and_mask_nat [of x 6] by (simp add: mask_eq_exp_minus_1)

lemma unat_ucast_byte [simp]: "unat (ucast (b :: u8) :: u32) = unat b"
proof -
  have "unat b < 2 ^ LENGTH(8)" by (rule unsigned_less)
  then have "unat b < 2 ^ 8" by simp
  then have "unat b < 2 ^ 32" by (rule order_less_le_trans) simp
  then show ?thesis by (subst unsigned_ucast_eq) (simp add: take_bit_eq_mod)
qed

text \<open>Digits that do not overlap are added.\<close>

lemma or_shifted:
  fixes v x :: u32
  assumes "unat v < 2 ^ sh" "unat v + unat x * 2 ^ sh < 2 ^ 32"
  shows "unat (v OR push_bit sh x) = unat v + unat x * 2 ^ sh"
proof -
  have x: "unat (push_bit sh x) = unat x * 2 ^ sh"
    using assms(2) by (subst unsigned_push_bit_eq) (simp add: push_bit_eq_mult take_bit_eq_mod)
  have v: "take_bit sh (unat v) = unat v" using assms(1) by (simp add: take_bit_eq_mod)
  have "unat v AND push_bit sh (unat x) = 0"
    by (subst v [symmetric]) (simp add: bit_eq_iff bit_simps)
  then have "unat v + push_bit sh (unat x) = unat v OR push_bit sh (unat x)" by (rule disjunctive_add_eq_or)
  then show ?thesis using x by (simp add: unsigned_or_eq push_bit_eq_mult)
qed

text \<open>The loop reads the digits of \<open>m\<close> on top of what it has.\<close>

lemma uleb128_rest_uleb:
  assumes "unat v < 2 ^ sh" "unat v + m * 2 ^ sh < 2 ^ 32" "0 < m"
  shows "uleb128_rest v sh (uleb m @ p) = Some (of_nat (unat v + m * 2 ^ sh), p)"
  using assms
proof (induction m arbitrary: v sh rule: uleb.induct)
  case (1 m)
  have sh: "sh < 32"
  proof (rule ccontr)
    assume "\<not> sh < 32"
    then have "(2 :: nat) ^ 32 \<le> 2 ^ sh" by (intro power_increasing) auto
    then show False using "1.prems"(2,3) by (metis add.commute le_add_same_cancel1 mult_le_mono1 nat_mult_1 not_less Suc_leI le_trans One_nat_def zero_le)
  qed
  show ?case
  proof (cases "m < 128")
    case True
    have b: "unat (of_nat m :: u8) = m" using True by (simp add: unat_of_nat)
    have x: "unat (ucast (of_nat m :: u8) AND 0x7f :: u32) = m" using True b by (simp add: and_7f)
    have "unat (v OR push_bit sh (ucast (of_nat m :: u8) AND 0x7f)) = unat v + m * 2 ^ sh"
      using or_shifted [of v sh "ucast (of_nat m :: u8) AND 0x7f"] "1.prems" x by simp
    then have "v OR push_bit sh (ucast (of_nat m :: u8) AND 0x7f) = of_nat (unat v + m * 2 ^ sh)" by (rule word_of_natI)
    moreover have "\<not> (of_nat m :: u8) \<ge> 0x80" using True b by (simp add: word_le_nat_alt)
    ultimately show ?thesis using sh True by (subst uleb.simps) (simp add: Let_def)
  next
    case False
    let ?b = "of_nat (m mod 128 + 128) :: u8"
    let ?v = "v OR push_bit sh (ucast ?b AND 0x7f)"
    have b: "unat ?b = m mod 128 + 128" by (rule unat_byte) simp
    have x: "unat (ucast ?b AND 0x7f :: u32) = m mod 128" using b by (simp add: and_7f)
    have split: "m * 2 ^ sh = m mod 128 * 2 ^ sh + m div 128 * 2 ^ (sh + 7)"
    proof -
      have "m * 2 ^ sh = (m mod 128 + m div 128 * 128) * 2 ^ sh" by (simp only: mod_div_mult_eq)
      also have "\<dots> = m mod 128 * 2 ^ sh + m div 128 * 2 ^ (sh + 7)"
        by (simp only: add_mult_distrib power_add mult.assoc) simp
      finally show ?thesis .
    qed
    have v: "unat ?v = unat v + m mod 128 * 2 ^ sh"
    proof -
      have "unat v + m mod 128 * 2 ^ sh < 2 ^ 32" using "1.prems"(2) split by linarith
      then show ?thesis using or_shifted [OF "1.prems"(1), of "ucast ?b AND 0x7f"] unfolding x by blast
    qed
    have "unat v + m mod 128 * 2 ^ sh < 2 ^ (sh + 7)"
    proof -
      have "m mod 128 \<le> 127" using mod_less_divisor [of 128 m] by linarith
      then have "m mod 128 * 2 ^ sh \<le> 127 * 2 ^ sh" by (rule mult_le_mono1)
      moreover have "(2 :: nat) ^ (sh + 7) = 127 * 2 ^ sh + 2 ^ sh" by (simp add: power_add)
      ultimately show ?thesis using "1.prems"(1) by linarith
    qed
    moreover have m: "0 < m div 128" using False by (simp add: div_greater_zero_iff)
    ultimately have "uleb128_rest ?v (sh + 7) (uleb (m div 128) @ p) = Some (of_nat (unat ?v + m div 128 * 2 ^ (sh + 7)), p)"
      using "1.IH" [OF False, of ?v "sh + 7"] "1.prems"(2) v split by (simp only: add.assoc)
    moreover have "unat ?v + m div 128 * 2 ^ (sh + 7) = unat v + m * 2 ^ sh" using v split by linarith
    moreover have "?b \<ge> 0x80" using b by (simp add: word_le_nat_alt)
    then have "uleb128_rest v sh (?b # uleb (m div 128) @ p) = uleb128_rest ?v (sh + 7) (uleb (m div 128) @ p)"
      using not_le [of 32 sh] sh by (simp only: uleb128_rest.simps Let_def if_True if_False simp_thms)
    ultimately show ?thesis using False by (subst uleb.simps) (simp only: if_False append_Cons)
  qed
qed

lemma bcread_uleb128_uleb: "n < 2 ^ 32 \<Longrightarrow> bcread_uleb128 (uleb n @ p) = Some (of_nat n, p)"
proof (cases "n < 128")
  case True
  then have "unat (of_nat n :: u8) = n" by (simp add: unat_of_nat)
  moreover from this have "(ucast (of_nat n :: u8) :: u32) = of_nat n" by (intro word_of_natI) simp
  ultimately show ?thesis using True by (subst uleb.simps) (simp add: bcread_uleb128_def word_le_nat_alt)
next
  case False
  assume n: "n < 2 ^ 32"
  let ?b = "of_nat (n mod 128 + 128) :: u8"
  have b: "unat ?b = n mod 128 + 128" by (rule unat_byte) simp
  have "unat (ucast ?b AND 0x7f :: u32) = n mod 128" using b by (simp add: and_7f)
  moreover have "n mod 128 + n div 128 * 2 ^ 7 = n" by simp
  moreover have "?b \<ge> 0x80" using b by (simp add: word_le_nat_alt)
  ultimately show ?thesis
    using uleb128_rest_uleb [of "ucast ?b AND 0x7f" 7 "n div 128" p] False n
    by (subst uleb.simps) (simp add: bcread_uleb128_def)
qed

lemma bcread_uleb128_33_uleb:
  "n < 2 ^ 33 \<Longrightarrow> bcread_uleb128_33 (uleb n @ p) = Some (of_nat (n div 2), p)"
proof (cases "n < 128")
  case True
  then have "unat (of_nat n :: u8) = n" by (simp add: unat_of_nat)
  then have d: "unat (drop_bit 1 (ucast (of_nat n :: u8) :: u32)) = n div 2" by (subst unat_drop_bit_eq) (simp add: drop_bit_eq_div)
  then have "drop_bit 1 (ucast (of_nat n :: u8) :: u32) = of_nat (n div 2)" by (rule word_of_natI)
  moreover have "n div 2 < 64" using True by simp
  ultimately show ?thesis using True d by (subst uleb.simps) (simp add: bcread_uleb128_33_def word_le_nat_alt Let_def)
next
  case False
  assume n: "n < 2 ^ 33"
  let ?b = "of_nat (n mod 128 + 128) :: u8"
  let ?v = "drop_bit 1 (ucast ?b :: u32)"
  have b: "unat ?b = n mod 128 + 128" by (rule unat_byte) simp
  have v: "unat ?v = n mod 128 div 2 + 64" using b by (subst unat_drop_bit_eq) (simp add: drop_bit_eq_div)
  have low: "unat (?v AND 0x3f) = n mod 128 div 2" using v by (simp add: and_3f)
  have sum: "n mod 128 div 2 + n div 128 * 2 ^ 6 = n div 2"
  proof -
    have "n div 2 = (n mod 128 + 64 * (n div 128) * 2) div 2" by simp
    also have "\<dots> = 64 * (n div 128) + n mod 128 div 2" by (rule div_mult_self1) simp
    finally show ?thesis by simp
  qed
  have "uleb128_rest (?v AND 0x3f) 6 (uleb (n div 128) @ p) = Some (of_nat (n div 2), p)"
  proof -
    have "n mod 128 div 2 < 2 ^ 6" "n div 2 < 2 ^ 32" "0 < n div 128" using n False by (simp_all add: div_greater_zero_iff)
    then show ?thesis using uleb128_rest_uleb [of "?v AND 0x3f" 6 "n div 128" p] unfolding low sum by blast
  qed
  moreover have "?v \<ge> 0x40" using v by (simp add: word_le_nat_alt)
  ultimately show ?thesis using False
    by (subst uleb.simps) (simp only: bcread_uleb128_33_def Let_def if_False if_True append_Cons list.case)
qed

subsection \<open>Writing\<close>

text \<open>What is in the buffer, and what a function adds to it when there is room for \<open>k\<close> bytes.\<close>

definition content :: "sbuf \<Rightarrow> bytes" where
  "content sb = take (sb_n sb) (sb_buf sb)"

definition room :: "nat \<Rightarrow> sbuf \<Rightarrow> bool" where
  "room k sb \<longleftrightarrow> 0 < length (sb_buf sb) \<and> sb_n sb + k \<le> length (sb_buf sb)"

definition emits :: "nat \<Rightarrow> bytes \<Rightarrow> (sbuf \<Rightarrow> sbuf option) \<Rightarrow> bool" where
  "emits k enc f \<longleftrightarrow> (\<forall>sb. room k sb \<longrightarrow> (\<exists>sb'. f sb = Some sb' \<and> content sb' = content sb @ enc
     \<and> sb_n sb' = sb_n sb + length enc \<and> length (sb_buf sb) \<le> length (sb_buf sb') \<and> sb_n sb' \<le> length (sb_buf sb')))"

lemma emitsD:
  assumes "emits k enc f" "room k sb"
  obtains sb' where "f sb = Some sb'" "content sb' = content sb @ enc" "sb_n sb' = sb_n sb + length enc"
    "length (sb_buf sb) \<le> length (sb_buf sb')" "sb_n sb' \<le> length (sb_buf sb')"
  using assms unfolding emits_def by blast

lemma emits_bind:
  assumes "emits k1 e1 f" "emits k2 e2 g" "k1 \<le> k" "length e1 + k2 \<le> k"
  shows "emits k (e1 @ e2) (\<lambda>sb. do { sb \<leftarrow> f sb; g sb })"
  unfolding emits_def
proof (intro allI impI)
  fix sb assume r: "room k sb"
  then obtain sb1 where 1: "f sb = Some sb1" "content sb1 = content sb @ e1" "sb_n sb1 = sb_n sb + length e1"
    "length (sb_buf sb) \<le> length (sb_buf sb1)"
    using emitsD [OF assms(1), of sb] assms(3) by (auto simp: room_def)
  then have "room k2 sb1" using r assms(4) by (auto simp: room_def)
  then show "\<exists>sb'. (do { sb \<leftarrow> f sb; g sb }) = Some sb' \<and> content sb' = content sb @ e1 @ e2
     \<and> sb_n sb' = sb_n sb + length (e1 @ e2) \<and> length (sb_buf sb) \<le> length (sb_buf sb') \<and> sb_n sb' \<le> length (sb_buf sb')"
    using emitsD [OF assms(2), of sb1] 1 by (smt (verit, ccfv_threshold) add.assoc append.assoc bind.bind_lunit le_trans length_append)
qed

lemma emits_Some [simp]: "emits k [] Some"
  by (auto simp: emits_def room_def)

lemma emits_mono: "emits k enc f \<Longrightarrow> k \<le> k' \<Longrightarrow> emits k' enc f"
  by (auto simp: emits_def room_def)

lemma grow_enough: "0 < sz \<Longrightarrow> need \<le> grow need sz \<and> sz \<le> grow need sz"
proof (induction need sz rule: grow.induct)
  case (1 need sz)
  then show ?case by (subst (1 2) grow.simps) auto
qed

lemma need_room:
  assumes "room 0 sb"
  shows "room k (bcwrite_need k sb)" "content (bcwrite_need k sb) = content sb" "sb_n (bcwrite_need k sb) = sb_n sb"
    "length (sb_buf sb) \<le> length (sb_buf (bcwrite_need k sb))"
  using assms grow_enough [of "length (sb_buf sb) * 2" "sb_n sb + k"]
  by (auto simp: bcwrite_need_def bcwrite_resize_def lj_str_resizebuf_def room_def content_def)

lemma emits_need:
  assumes "emits k enc f"
  shows "emits 0 enc (\<lambda>sb. f (bcwrite_need k sb))"
  unfolding emits_def
proof (intro allI impI)
  fix sb assume "room 0 sb"
  then show "\<exists>sb'. f (bcwrite_need k sb) = Some sb' \<and> content sb' = content sb @ enc
     \<and> sb_n sb' = sb_n sb + length enc \<and> length (sb_buf sb) \<le> length (sb_buf sb') \<and> sb_n sb' \<le> length (sb_buf sb')"
    using need_room [of sb k] emitsD [OF assms, of "bcwrite_need k sb"] by (smt (verit) le_trans)
qed

lemma emits_byte: "emits 1 [b] (bcwrite_byte b)"
  by (auto simp: emits_def room_def bcwrite_byte_def content_def take_Suc_conv_app_nth)

lemma emits_block: "emits (length p) p (bcwrite_block p)"
proof (induction p)
  case (Cons b p)
  have "bcwrite_block (b # p) = (\<lambda>sb. do { sb \<leftarrow> bcwrite_byte b sb; bcwrite_block p sb })"
    by (simp add: bcwrite_block_def fun_eq_iff)
  then show ?case using emits_bind [OF emits_byte Cons.IH, of "length (b # p)" b] by simp
qed (simp add: bcwrite_block_def emits_def room_def)

lemma digit_byte: "(ucast ((v AND 0x7f) OR 0x80 :: u32) :: u8) = of_nat (unat v mod 128 + 128)"
proof -
  have "unat v mod 128 < 128" by simp
  then have "unat ((v AND 0x7f) OR push_bit 7 1) = unat v mod 128 + 128"
    using or_shifted [of "v AND 0x7f" 7 1] by (simp add: and_7f)
  then have "unat ((v AND 0x7f) OR 0x80) = unat v mod 128 + 128" by simp
  then show ?thesis by (metis of_nat_unat)
qed

lemma unat_drop7: "unat (drop_bit 7 v) = unat v div 128" for v :: u32
  by (subst unat_drop_bit_eq) (simp add: drop_bit_eq_div)

lemma emits_uleb: "emits (length (uleb (unat v))) (uleb (unat v)) (bcwrite_uleb128 v)"
proof (induction "unat v" arbitrary: v rule: less_induct)
  case less
  show ?case
  proof (cases "v \<ge> 0x80")
    case False
    then have "unat v < 128" by (simp add: word_le_nat_alt)
    moreover from False have "bcwrite_uleb128 v = bcwrite_byte (of_nat (unat v))"
      by (simp add: bcwrite_uleb128.simps fun_eq_iff)
    ultimately show ?thesis using emits_byte by (simp add: uleb.simps)
  next
    case True
    then have v: "\<not> unat v < 128" by (simp add: word_le_nat_alt)
    have "bcwrite_uleb128 v = (\<lambda>sb. do { sb \<leftarrow> bcwrite_byte (of_nat (unat v mod 128 + 128)) sb; bcwrite_uleb128 (drop_bit 7 v) sb })"
      using True unfolding fun_eq_iff by (subst bcwrite_uleb128.simps) (simp only: if_True digit_byte simp_thms)
    moreover have "emits (length (uleb (unat v div 128))) (uleb (unat v div 128)) (bcwrite_uleb128 (drop_bit 7 v))"
      using less.hyps [of "drop_bit 7 v"] v unfolding unat_drop7 by simp
    ultimately show ?thesis
      using v emits_bind [OF emits_byte, of "length (uleb (unat v div 128))" "uleb (unat v div 128)"
          "bcwrite_uleb128 (drop_bit 7 v)" "Suc (length (uleb (unat v div 128)))"]
      by (subst (1 2) uleb.simps) simp
  qed
qed

lemma emits_uleb5: "emits 5 (uleb (unat v)) (bcwrite_uleb128 v)"
proof (rule emits_mono [OF emits_uleb])
  have "unat v < 2 ^ LENGTH(32)" by (rule unsigned_less)
  then show "length (uleb (unat v)) \<le> 5" by (intro length_uleb32) simp
qed

lemma emits_uleb_nat: "n < 2 ^ 32 \<Longrightarrow> emits 5 (uleb n) (bcwrite_uleb128 (of_nat n))"
  using emits_uleb5 [of "of_nat n"] by (simp add: unat_of_nat)

subsection \<open>Numbers of 33 bits\<close>

lemma bit31: "bit (k :: u32) 31 \<longleftrightarrow> 2147483648 \<le> unat k"
proof -
  have "unat k < 2 ^ LENGTH(32)" by (rule unsigned_less)
  then have "unat k div 2147483648 = (if 2147483648 \<le> unat k then 1 else 0)" by auto
  then have "odd (unat k div 2 ^ 31) \<longleftrightarrow> 2147483648 \<le> unat k" by simp
  moreover have "bit k 31 \<longleftrightarrow> bit (unat k) 31" by (simp add: bit_unsigned_iff)
  ultimately show ?thesis by (simp add: bit_iff_odd)
qed

lemma and_power: "(k :: 'a :: len word) AND 2 ^ n = (if bit k n then 2 ^ n else 0)"
  by (rule bit_word_eqI) (auto simp: bit_simps)

lemma top_only: "(k :: u32) AND 0x80000000 = (if 2147483648 \<le> unat k then 0x80000000 else 0)"
proof -
  show ?thesis using and_power [of k 31] by (simp add: bit31)
qed

lemma top_set: "unat ((y :: u32) OR 0x80000000) = unat y mod 2147483648 + 2147483648"
proof -
  have "unat y < 2 ^ LENGTH(32)" by (rule unsigned_less)
  then have y: "unat y < 4294967296" by simp
  have "y OR 0x80000000 = set_bit 31 y" by (simp add: set_bit_eq_or)
  also have "\<dots> = y + of_bool (\<not> 2147483648 \<le> unat y) * 2147483648" by (simp add: set_bit_eq bit31)
  also have "unat \<dots> = unat y mod 2147483648 + 2147483648"
  proof (cases "2147483648 \<le> unat y")
    case True
    then have "unat y mod 2147483648 = unat y - 2147483648" using y by (simp add: mod_if)
    then show ?thesis using True by simp
  next
    case False
    then show ?thesis by (simp add: unat_word_ariths unat_of_nat)
  qed
  finally show ?thesis .
qed

lemma patch_table: "list_all (\<lambda>(a, z). ((of_nat (a + 8) :: u8) AND 7) OR of_nat (8 * z) = of_nat (a + 8 * z))
    (List.product [0..<8] [0..<4]) \<and> list_all (\<lambda>y. (of_nat y :: u32) AND 0x18 = of_nat (8 * (y div 8))) [0..<32]"
  by code_simp

lemma ucast_of_nat_byte: "m < 256 \<Longrightarrow> (ucast (of_nat m :: u32) :: u8) = of_nat m"
  by (intro word_of_natI) (simp add: unat_of_nat unsigned_ucast_eq take_bit_eq_mod)

lemma patched_byte:
  assumes "a < 8" "y < 32"
  shows "((of_nat (a + 8) :: u8) AND 7) OR ucast ((of_nat y :: u32) AND 0x18) = of_nat (a + 8 * (y div 8))"
proof -
  have "(of_nat y :: u32) AND 0x18 = of_nat (8 * (y div 8))"
    using patch_table assms(2) by (auto simp: list_all_iff)
  moreover have "(ucast (of_nat (8 * (y div 8)) :: u32) :: u8) = of_nat (8 * (y div 8))"
    using assms(2) by (intro ucast_of_nat_byte) simp
  moreover have "((of_nat (a + 8) :: u8) AND 7) OR of_nat (8 * (y div 8)) = of_nat (a + 8 * (y div 8))"
    using patch_table assms by (auto simp: list_all_iff simp del: of_nat_mult of_nat_add)
  ultimately show ?thesis by simp
qed

text \<open>Five digits.\<close>

lemma uleb_five:
  assumes "2 ^ 28 \<le> n" "n < 2 ^ 35"
  shows "uleb n = map (\<lambda>i. of_nat (n div 128 ^ i mod 128 + 128)) [0..<4] @ [of_nat (n div 2 ^ 28)]"
proof -
  have step: "uleb m = of_nat (m mod 128 + 128) # uleb (m div 128)" if "128 \<le> m" for m
    using that by (subst uleb.simps) simp
  have big: "128 \<le> n" "128 \<le> n div 128" "128 \<le> n div 128 div 128" "128 \<le> n div 128 div 128 div 128"
    using assms(1) div_le_mono [OF assms(1), of 128] div_le_mono [OF assms(1), of "128 * 128"]
      div_le_mono [OF assms(1), of "128 * 128 * 128"] by (simp_all add: div_mult2_eq [symmetric])
  have "uleb n = of_nat (n mod 128 + 128) # of_nat (n div 128 mod 128 + 128) # of_nat (n div 128 div 128 mod 128 + 128)
      # of_nat (n div 128 div 128 div 128 mod 128 + 128) # uleb (n div 128 div 128 div 128 div 128)"
    by (simp only: step [OF big(1)] step [OF big(2)] step [OF big(3)] step [OF big(4)])
  moreover have "uleb (n div 2 ^ 28) = [of_nat (n div 2 ^ 28)]" using assms(2) by (subst uleb.simps) simp
  ultimately show ?thesis by (simp add: upt_rec div_mult2_eq [symmetric])
qed

lemma digit_shift:
  assumes "i < 4"
  shows "(w + 2 ^ 28 * d) div 128 ^ i mod 128 = w div 128 ^ i mod (128 :: nat)"
proof -
  have "i = 0 \<or> i = 1 \<or> i = 2 \<or> i = 3" using assms by auto
  then have "(2 :: nat) ^ 28 = 128 ^ i * (128 * 128 ^ (3 - i))" by auto
  then have "(w + 2 ^ 28 * d) div 128 ^ i = 128 * (128 ^ (3 - i) * d) + w div 128 ^ i"
    by (simp only: mult.assoc div_mult_self2 power_eq_0_iff) simp
  then show ?thesis by simp
qed

lemma uleb_patch:
  assumes "2147483648 \<le> k" "k < 4294967296" "b < 2"
  defines "w \<equiv> 2 * k mod 2147483648 + 2147483648 + b"
  shows "length (uleb w) = 5 \<and>
    (uleb w)[4 := (uleb w ! 4 AND 7) OR ucast ((of_nat (k div 2 ^ 27) :: u32) AND 0x18)] = uleb (2 * k + b)"
proof -
  define x where "x = k - 2147483648"
  define c where "c = 2 * x div 2147483648"
  define r where "r = 2 * x mod 2147483648"
  have k: "k = x + 2147483648" "x < 2147483648" using assms(1,2) by (auto simp: x_def)
  have x: "2 * x = c * 2147483648 + r" by (simp only: c_def r_def div_mult_mod_eq)
  have "even r" "r < 2147483648" by (simp_all add: r_def dvd_mod)
  moreover from this have "r \<noteq> 2147483647" by (intro notI) simp
  ultimately have r: "r \<le> 2147483646" by linarith
  have "2 * k = 2 * x + 2 * 2147483648" using k(1) by simp
  then have w: "w = r + 2147483648 + b" unfolding w_def r_def by (simp only: mod_mult_self1)
  have c: "c < 2" using k(2) unfolding c_def by (simp add: less_mult_imp_div_less)
  have wr: "2 ^ 28 \<le> w" "w < 2 ^ 35" "2 ^ 28 \<le> 2 * k + b" "2 * k + b < 2 ^ 35" using r assms(1-3) w by auto
  have n: "2 * k + b = w + 2 ^ 28 * (8 * c + 8)" using k(1) x w by simp
  define a where "a = (r + b) div 2 ^ 28"
  have a: "a < 8" using r assms(3) unfolding a_def by (simp add: less_mult_imp_div_less)
  have "w = r + b + 2 ^ 28 * 8" using w by simp
  then have top: "w div 2 ^ 28 = a + 8" unfolding a_def by (simp only: div_mult_self2) simp
  have top': "(2 * k + b) div 2 ^ 28 = a + 8 + (8 * c + 8)" using top by (simp only: n div_mult_self2) simp
  have "k div 2 ^ 27 = (2 * k + b) div 2 ^ 28"
    using assms(3) div_mult2_eq [of "2 * k + b" 2 "2 ^ 27"] by (simp add: less_2_cases_iff)
  then have y: "k div 2 ^ 27 = a + 8 + (8 * c + 8)" using top' by simp
  then have yb: "k div 2 ^ 27 < 32" "k div 2 ^ 27 div 8 = c + 2" using a c by auto
  have "((of_nat (a + 8) :: u8) AND 7) OR ucast ((of_nat (k div 2 ^ 27) :: u32) AND 0x18) = of_nat ((2 * k + b) div 2 ^ 28)"
    using patched_byte [OF a yb(1)] yb(2) top' by (simp add: algebra_simps)
  moreover have "map (\<lambda>i. of_nat (w div 128 ^ i mod 128 + 128)) [0..<4]
      = (map (\<lambda>i. of_nat ((2 * k + b) div 128 ^ i mod 128 + 128)) [0..<4] :: bytes)"
    unfolding n by (intro map_cong) (simp_all only: digit_shift set_upt atLeastLessThan_iff)
  ultimately show ?thesis
    unfolding uleb_five [OF wr(1,2)] uleb_five [OF wr(3,4)] top by (simp add: nth_append list_update_append)
qed

lemma word33:
  fixes k :: u32
  assumes "b < 2"
  shows "unat (of_nat b + (2 * k OR (k AND 0x80000000))) =
    (if unat k < 2147483648 then 2 * unat k + b else 2 * unat k mod 2147483648 + 2147483648 + b)"
proof -
  have "unat k < 2 ^ LENGTH(32)" by (rule unsigned_less)
  then have k: "unat k < 4294967296" by simp
  have two: "unat (2 * k) = 2 * unat k mod 4294967296" by (simp add: unat_word_ariths)
  have b: "unat (of_nat b :: u32) = b" using assms by (simp add: unat_of_nat)
  show ?thesis
  proof (cases "unat k < 2147483648")
    case True
    then have "2 * k OR (k AND 0x80000000) = 2 * k" by (simp add: top_only)
    moreover have "unat (of_nat b + 2 * k) = 2 * unat k + b"
      using True b two assms by (simp add: unat_word_ariths(1))
    ultimately show ?thesis using True by simp
  next
    case False
    have "2 * unat k mod 4294967296 mod 2147483648 = 2 * unat k mod 2147483648" by (rule mod_mod_cancel) simp
    then have o: "unat (2 * k OR (k AND 0x80000000)) = 2 * unat k mod 2147483648 + 2147483648"
      using False two by (simp add: top_only top_set)
    have "even (2 * unat k mod 2147483648)" by (simp add: dvd_mod)
    then have "2 * unat k mod 2147483648 + 1 < 2147483648"
      using mod_less_divisor [of 2147483648 "2 * unat k"] by (cases "2 * unat k mod 2147483648 = 2147483647") auto
    then show ?thesis using False o b assms by (simp add: unat_word_ariths(1))
  qed
qed

lemma emits_33:
  assumes "b < 2" and w: "w = of_nat b + (2 * k OR (k AND 0x80000000))"
  shows "emits 5 (uleb (2 * unat k + b)) (\<lambda>sb. do { sb \<leftarrow> bcwrite_uleb128 w sb; bcwrite_patch k sb })"
proof (cases "unat k < 2147483648")
  case True
  then have "bcwrite_patch k = Some" by (simp add: bcwrite_patch_def fun_eq_iff word_le_nat_alt)
  then show ?thesis using emits_uleb5 [of w] word33 [OF assms(1), of k] True w by simp
next
  case False
  have "unat k < 2 ^ LENGTH(32)" by (rule unsigned_less)
  then have k: "2147483648 \<le> unat k" "unat k < 4294967296" using False by simp_all
  note patch = uleb_patch [OF k assms(1)]
  have u: "unat w = 2 * unat k mod 2147483648 + 2147483648 + b" using word33 [OF assms(1), of k] False w by simp
  have d: "drop_bit 27 k = of_nat (unat k div 2 ^ 27)"
    by (rule word_of_natI) (subst unat_drop_bit_eq, simp add: drop_bit_eq_div)
  show ?thesis unfolding emits_def
  proof (intro allI impI)
    fix sb assume "room 5 sb"
    then obtain sb1 where 1: "bcwrite_uleb128 w sb = Some sb1" "content sb1 = content sb @ uleb (unat w)"
      "sb_n sb1 = sb_n sb + length (uleb (unat w))" "length (sb_buf sb) \<le> length (sb_buf sb1)" "sb_n sb1 \<le> length (sb_buf sb1)"
      using emitsD [OF emits_uleb5] by blast
    define e where "e = uleb (unat w)"
    have e: "length e = 5" using patch u by (simp add: e_def)
    have c: "length (content sb) = sb_n sb" using \<open>room 5 sb\<close> by (simp add: content_def room_def)
    have last: "sb_buf sb1 ! (sb_n sb1 - 1) = e ! 4"
    proof -
      have "sb_buf sb1 ! (sb_n sb1 - 1) = content sb1 ! (sb_n sb1 - 1)" using 1(3) e by (simp add: content_def e_def)
      then show ?thesis using 1(2,3) c e by (simp add: e_def nth_append)
    qed
    define sb2 where "sb2 = sb1\<lparr>sb_buf := (sb_buf sb1)[sb_n sb1 - 1 := (e ! 4 AND 7) OR ucast (drop_bit 27 k AND 0x18)]\<rparr>"
    have "bcwrite_patch k sb1 = Some sb2"
      using k 1(3,5) e last by (simp add: bcwrite_patch_def sb2_def e_def word_le_nat_alt)
    moreover have "content sb2 = (content sb1)[sb_n sb1 - 1 := (e ! 4 AND 7) OR ucast (drop_bit 27 k AND 0x18)]"
      by (simp add: content_def sb2_def take_update_swap)
    then have "content sb2 = content sb @ uleb (2 * unat k + b)"
      using 1(2,3) c e patch u d by (simp add: e_def list_update_append)
    moreover have "length (uleb (2 * unat k + b)) = 5" using patch by (metis length_list_update)
    ultimately show "\<exists>sb'. (do { sb \<leftarrow> bcwrite_uleb128 w sb; bcwrite_patch k sb }) = Some sb'
        \<and> content sb' = content sb @ uleb (2 * unat k + b) \<and> sb_n sb' = sb_n sb + length (uleb (2 * unat k + b))
        \<and> length (sb_buf sb) \<le> length (sb_buf sb') \<and> sb_n sb' \<le> length (sb_buf sb')"
      using 1 e by (simp add: sb2_def e_def)
  qed
qed

lemma emits_save_int: "emits 5 (uleb (2 * unat k)) (save_int k)"
  using emits_33 [of 0 "2 * k OR (k AND 0x80000000)" k] by (simp add: save_int_def [abs_def])

subsection \<open>The highest bit\<close>

lemma lj_fls_shift: "2 ^ k \<le> n \<Longrightarrow> lj_fls n = k + lj_fls (n div 2 ^ k)"
proof (induction k arbitrary: n)
  case (Suc k)
  then have "2 \<le> n" using order_trans [of 2 "2 ^ Suc k" n] by simp
  then have "lj_fls n = Suc (lj_fls (n div 2))" by (simp add: lj_fls.simps [of n])
  moreover have "2 ^ k \<le> n div 2" using div_le_mono [OF Suc.prems, of 2] by simp
  ultimately show ?case using Suc.IH [of "n div 2"] by (simp add: div_mult2_eq)
qed simp

lemma lj_fls_eq: "2 ^ p \<le> n \<Longrightarrow> n < 2 ^ Suc p \<Longrightarrow> lj_fls n = p"
  using lj_fls_shift [of p n] by (simp add: less_mult_imp_div_less lj_fls.simps [of "n div 2 ^ p"])

lemma lj_fls_bound: "n < 2 ^ Suc p \<Longrightarrow> lj_fls n \<le> p"
proof (induction p arbitrary: n)
  case 0
  then show ?case by (simp add: lj_fls.simps)
next
  case (Suc p)
  then have "lj_fls (n div 2) \<le> p" by simp
  then show ?case by (subst lj_fls.simps) simp
qed

text \<open>The length of a number is found from its highest bit.\<close>

lemma length_uleb_fls: "0 < n \<Longrightarrow> length (uleb n) = lj_fls n div 7 + 1"
proof (induction n rule: uleb.induct)
  case (1 n)
  show ?case
  proof (cases "n < 128")
    case True
    then have "lj_fls n \<le> 6" by (intro lj_fls_bound) simp
    then show ?thesis using True by (simp add: uleb.simps)
  next
    case False
    then have "lj_fls n = 7 + lj_fls (n div 128)" using lj_fls_shift [of 7 n] by simp
    then show ?thesis using False "1.IH" by (subst uleb.simps) (simp add: div_greater_zero_iff)
  qed
qed

lemma flush_table: "list_all (\<lambda>f. (f + 8) * 9 div 64 = f div 7 + 1) [0..<32 :: nat]"
  by code_simp

lemma flush_length:
  assumes "0 < n" "n < 2 ^ 32"
  shows "(lj_fls n + 8) * 9 div 64 = length (uleb n)"
proof -
  have "lj_fls n \<le> 31" using assms(2) by (intro lj_fls_bound) simp
  then have "lj_fls n \<in> List.set [0..<32]" by simp
  then show ?thesis using flush_table length_uleb_fls [OF assms(1)] unfolding list_all_iff by metis
qed

subsection \<open>Doubles that are integers\<close>

lemma double_digits:
  fixes m e v :: nat
  assumes "m < 2 ^ 52" "e < 1075" "2 ^ (1075 - e) dvd 2 ^ 52 + m" "v = (2 ^ 52 + m) div 2 ^ (1075 - e)"
  shows "0 < v \<and> 1023 + lj_fls v = e \<and> (v - 2 ^ lj_fls v) * 2 ^ (52 - lj_fls v) = m"
proof -
  define q where "q = 1075 - e"
  have eq: "2 ^ 52 + m = v * 2 ^ q" using assms(3,4) by (simp add: q_def)
  then have v: "0 < v" by (cases v) auto
  have "q \<le> 52"
  proof (rule ccontr)
    assume "\<not> q \<le> 52"
    then have "(2 :: nat) ^ 53 \<le> 2 ^ q" by (intro power_increasing) auto
    also have "\<dots> \<le> v * 2 ^ q" using v by simp
    finally show False using eq assms(1) by simp
  qed
  then obtain p where p: "52 = p + q" by (metis le_add_diff_inverse2)
  have two: "(2 :: nat) ^ 52 = 2 ^ p * 2 ^ q" unfolding p by (rule power_add)
  have "2 ^ p * 2 ^ q \<le> v * 2 ^ q" using eq two by linarith
  then have low: "2 ^ p \<le> v" by simp
  have "v * 2 ^ q < 2 ^ p * 2 ^ q + 2 ^ p * 2 ^ q" using eq two assms(1) by linarith
  then have "v * 2 ^ q < 2 ^ Suc p * 2 ^ q" by (simp add: mult_2 algebra_simps)
  then have "v < 2 ^ Suc p" using mult_less_cancel2 by blast
  then have f: "lj_fls v = p" using low by (intro lj_fls_eq)
  have "(v - 2 ^ p) * 2 ^ q = m" using eq two by (simp add: diff_mult_distrib)
  then show ?thesis using v f p q_def assms(2) by auto
qed

lemma sint_of_small: "- 2147483648 \<le> i \<Longrightarrow> i \<le> 2147483647 \<Longrightarrow> sint (word_of_int i :: u32) = i"
  by (subst int_word_sint) simp

text \<open>The words of a double that equals an \<open>int32_t\<close> are those the integer is converted to, but for
  minus zero.\<close>

lemma int_num_num_int:
  assumes n: "num_int lo hi = Some k" and z: "(lo, hi) \<noteq> (0, 0x80000000)"
  shows "int_num k = (lo, hi)"
proof -
  define e where "e = unat hi div 2 ^ 20 mod 2 ^ 11"
  define m where "m = unat hi mod 2 ^ 20 * 2 ^ 32 + unat lo"
  define s :: nat where "s = (if unat hi \<ge> 2 ^ 31 then 2 ^ 31 else 0)"
  have "unat lo < 2 ^ LENGTH(32)" "unat hi < 2 ^ LENGTH(32)" by (rule unsigned_less)+
  then have w: "unat lo < 2 ^ 32" "unat hi < 2 ^ 32" by simp_all
  have ml: "m mod 2 ^ 32 = unat lo" "m div 2 ^ 32 = unat hi mod 2 ^ 20" using w(1) by (simp_all add: m_def)
  have "unat hi mod 2 ^ 20 < 2 ^ 20" by simp
  then have "unat hi mod 2 ^ 20 * 2 ^ 32 \<le> (2 ^ 20 - 1) * 2 ^ 32" by (intro mult_le_mono1) linarith
  then have m: "m < 2 ^ 52" using w(1) by (simp add: m_def)
  have "unat hi div 2 ^ 20 div 2 ^ 11 = unat hi div 2 ^ 31" by (simp add: div_mult2_eq [symmetric])
  have "unat hi div 2 ^ 31 * 2 ^ 31 = s" using w(2) by (cases "unat hi < 2 ^ 31") (auto simp: s_def div_nat_eqI)
  then have hi: "unat hi = m div 2 ^ 32 + e * 2 ^ 20 + s"
  proof -
    define d where "d = unat hi div 2 ^ 20"
    have "unat hi = d * 2 ^ 20 + unat hi mod 2 ^ 20" unfolding d_def by (rule div_mult_mod_eq [symmetric])
    moreover have "d = d div 2 ^ 11 * 2 ^ 11 + e" unfolding d_def e_def by (rule div_mult_mod_eq [symmetric])
    moreover have "d div 2 ^ 11 * 2 ^ 31 = s"
      using \<open>unat hi div 2 ^ 20 div 2 ^ 11 = unat hi div 2 ^ 31\<close> \<open>unat hi div 2 ^ 31 * 2 ^ 31 = s\<close> by (simp only: d_def)
    moreover have "x = r + e * 2 ^ 20 + s" if "x = d * 2 ^ 20 + r" "d = q * 2 ^ 11 + e" "q * 2 ^ 31 = s" for x r q :: nat
      using that by simp
    ultimately show ?thesis unfolding ml(2) by blast
  qed
  note n' = n [unfolded num_int_def Let_def, folded e_def m_def]
  show ?thesis
  proof (cases "e = 0")
    case True
    then have "m = 0" "k = 0" using n' by (simp_all split: if_splits)
    then have "unat lo = 0" "unat hi = s" using ml(1) hi True by simp_all
    moreover have "unat hi \<noteq> 2 ^ 31"
    proof
      assume "unat hi = 2 ^ 31"
      then have "hi = of_nat (2 ^ 31)" by (rule word_of_natI)
      then have "hi = 0x80000000" by simp
      then show False using z \<open>unat lo = 0\<close> by (simp add: unat_eq_0)
    qed
    ultimately have "lo = 0" "hi = 0" by (auto simp: s_def unat_eq_0 split: if_splits)
    then show ?thesis using \<open>k = 0\<close> by (simp add: int_num_def)
  next
    case False
    define v where "v = (if e \<ge> 1075 then (2 ^ 52 + m) * 2 ^ (e - 1075) else (2 ^ 52 + m) div 2 ^ (1075 - e))"
    define i where "i = (if unat hi \<ge> 2 ^ 31 then - int v else int v)"
    have i: "- 2147483648 \<le> i" "i \<le> 2147483647" "k = word_of_int i" and d: "e < 1075 \<longrightarrow> 2 ^ (1075 - e) dvd 2 ^ 52 + m"
      using n' False by (auto simp: v_def i_def simp del: of_nat_mult of_nat_add of_nat_power word_of_int_minus split: if_splits)
    then have v: "v \<le> 2147483648" by (auto simp: i_def split: if_splits)
    have e: "e < 1075"
    proof (rule ccontr)
      assume "\<not> e < 1075"
      then have "2 ^ 52 + m \<le> v" by (simp add: v_def)
      then show False using v by simp
    qed
    have dd: "0 < v" "1023 + lj_fls v = e" "(v - 2 ^ lj_fls v) * 2 ^ (52 - lj_fls v) = m"
      using double_digits [OF m e, of v] d e by (auto simp: v_def)
    have si: "sint k = i" using i sint_of_small by simp
    then have "k \<noteq> 0" using dd(1) by (auto simp: i_def split: if_splits)
    moreover have "nat \<bar>sint k\<bar> = v" using si by (simp add: i_def)
    moreover have "(if sint k < 0 then 2 ^ 31 else 0) = s" using si dd(1) by (auto simp: i_def s_def)
    ultimately have "int_num k = (of_nat (m mod 2 ^ 32), of_nat (m div 2 ^ 32 + e * 2 ^ 20 + s))"
      using dd(3) by (simp only: int_num_def Let_def if_False dd(2))
    then show ?thesis unfolding ml(1) hi [symmetric] by simp
  qed
qed

end
