(* ===== verification/Lj_Bcwrite_Correct.thy ===== *)
theory Lj_Bcwrite_Correct
  imports Lj_Bc_Codec
begin

section \<open>What the bytecode writer passes on\<close>

text \<open>
  The bytes of a constant, a table and a prototype as functions without a buffer, and the pieces of a
  dump: the header, a block for every prototype, children before their parent, and a zero. The
  functions on the buffer emit these bytes and stay inside the array they have made room in.
\<close>

subsection \<open>Sequences\<close>

lemma emits_seq:
  assumes "emits k1 e1 f" "length e1 \<le> k1" "emits k2 e2 g"
  shows "emits (k1 + k2) (e1 @ e2) (\<lambda>sb. do { sb \<leftarrow> f sb; g sb })"
  using emits_bind [OF assms(1,3)] assms(2) by simp

lemma emits_then:
  assumes "emits k e1 f" "emits 0 e2 g"
  shows "emits k (e1 @ e2) (\<lambda>sb. do { sb \<leftarrow> f sb; g sb })"
  unfolding emits_def
proof (intro allI impI)
  fix sb assume r: "room k sb"
  then obtain sb1 where 1: "f sb = Some sb1" "content sb1 = content sb @ e1" "sb_n sb1 = sb_n sb + length e1"
    "length (sb_buf sb) \<le> length (sb_buf sb1)" "sb_n sb1 \<le> length (sb_buf sb1)"
    using emitsD [OF assms(1)] by blast
  then have "room 0 sb1" using r by (auto simp: room_def)
  then show "\<exists>sb'. (do { sb \<leftarrow> f sb; g sb }) = Some sb' \<and> content sb' = content sb @ e1 @ e2
     \<and> sb_n sb' = sb_n sb + length (e1 @ e2) \<and> length (sb_buf sb) \<le> length (sb_buf sb') \<and> sb_n sb' \<le> length (sb_buf sb')"
    using emitsD [OF assms(2), of sb1] 1 by (smt (verit, ccfv_threshold) add.assoc append.assoc bind.bind_lunit le_trans length_append)
qed

lemma fold_option_Nil: "fold_option f [] = Some"
  by (simp add: fun_eq_iff)

lemma emits_fold:
  assumes "\<And>x. x \<in> List.set xs \<Longrightarrow> emits k (enc x) (f x) \<and> length (enc x) \<le> k"
  shows "emits (k * length xs) (concat (map enc xs)) (fold_option f xs)"
  using assms
proof (induction xs)
  case (Cons x xs)
  have "fold_option f (x # xs) = (\<lambda>sb. do { sb \<leftarrow> f x sb; fold_option f xs sb })" by (simp add: fun_eq_iff)
  moreover have "emits (k + k * length xs) (enc x @ concat (map enc xs)) (\<lambda>sb. do { sb \<leftarrow> f x sb; fold_option f xs sb })"
    using Cons by (intro emits_seq) auto
  ultimately show ?case by simp
qed (simp add: fold_option_Nil)

lemma emits_fold0:
  assumes "\<And>x. x \<in> List.set xs \<Longrightarrow> emits 0 (enc x) (f x)"
  shows "emits 0 (concat (map enc xs)) (fold_option f xs)"
  using assms
proof (induction xs)
  case (Cons x xs)
  have "fold_option f (x # xs) = (\<lambda>sb. do { sb \<leftarrow> f x sb; fold_option f xs sb })" by (simp add: fun_eq_iff)
  moreover have "emits 0 (enc x @ concat (map enc xs)) (\<lambda>sb. do { sb \<leftarrow> f x sb; fold_option f xs sb })"
    using Cons by (intro emits_then) auto
  ultimately show ?case by simp
qed (simp add: fold_option_Nil)

definition word_bytes :: "u32 \<Rightarrow> bytes" where
  "word_bytes v = uleb (unat v)"

lemma emits_word: "emits 5 (word_bytes v) (bcwrite_uleb128 v)"
  unfolding word_bytes_def by (rule emits_uleb5)

lemma length_word_bytes: "length (word_bytes v) \<le> 5"
proof -
  have "unat v < 2 ^ LENGTH(32)" by (rule unsigned_less)
  then show ?thesis unfolding word_bytes_def by (intro length_uleb32) simp
qed

lemma word_bytes_not_Nil [simp]: "word_bytes v \<noteq> []"
  by (simp add: word_bytes_def)

subsection \<open>Constants\<close>

definition ktabk_bytes :: "host \<Rightarrow> bool \<Rightarrow> tvalue \<Rightarrow> bytes" where
  "ktabk_bytes h narrow v =
     (case v of
        Tv_str s \<Rightarrow> word_bytes (of_nat (BCDUMP_KTAB_STR + length s)) @ s
      | Tv_int k \<Rightarrow> [ucast BCDUMP_KTAB_INT] @ word_bytes k
      | Tv_num lo hi \<Rightarrow>
          (case (if \<not> dual h \<and> narrow then num_int lo hi else None) of
             Some k \<Rightarrow> [ucast BCDUMP_KTAB_INT] @ word_bytes k
           | None \<Rightarrow> [ucast BCDUMP_KTAB_NUM] @ word_bytes lo @ word_bytes hi)
      | Tv_nil \<Rightarrow> [ucast BCDUMP_KTAB_NIL]
      | Tv_false \<Rightarrow> [ucast BCDUMP_KTAB_NIL + 1]
      | Tv_true \<Rightarrow> [ucast BCDUMP_KTAB_NIL + 2])"

lemma emits_byte_word: "emits 11 ([b] @ word_bytes v) (\<lambda>sb. do { sb \<leftarrow> bcwrite_byte b sb; bcwrite_uleb128 v sb })"
  by (rule emits_mono [OF emits_seq [OF emits_byte _ emits_word]]) simp_all

lemma emits_byte_words:
  "emits 11 ([b] @ word_bytes v @ word_bytes w)
     (\<lambda>sb. do { sb \<leftarrow> bcwrite_byte b sb; sb \<leftarrow> bcwrite_uleb128 v sb; bcwrite_uleb128 w sb })"
  by (rule emits_mono [OF emits_seq [OF emits_byte _ emits_seq [OF emits_word length_word_bytes emits_word]]]) simp_all

lemma emits_word_block:
  "emits (5 + length s) (word_bytes v @ s) (\<lambda>sb. do { sb \<leftarrow> bcwrite_uleb128 v sb; bcwrite_block s sb })"
  by (rule emits_seq [OF emits_word length_word_bytes emits_block])

lemma emits_ktabk: "emits 0 (ktabk_bytes h narrow v) (bcwrite_ktabk h v narrow)"
proof -
  define F where "F sb = bcwrite_ktabk h v narrow sb" for sb
  have byte: "emits 11 [b] (bcwrite_byte b)" for b by (rule emits_mono [OF emits_byte]) simp
  show ?thesis
  proof (cases v)
    case (Tv_str s)
    have "emits 0 (ktabk_bytes h narrow v)
        (\<lambda>sb. do { sb \<leftarrow> bcwrite_uleb128 (of_nat (BCDUMP_KTAB_STR + length s)) (bcwrite_need (5 + length s) sb); bcwrite_block s sb })"
      using Tv_str emits_need [OF emits_word_block [of s "of_nat (BCDUMP_KTAB_STR + length s)"]] by (simp add: ktabk_bytes_def)
    from emits_need [OF emits_mono [OF this, of 11]] show ?thesis
      using Tv_str by (simp add: bcwrite_ktabk_def [abs_def] Let_def)
  next
    case (Tv_num lo hi)
    show ?thesis
    proof (cases "if \<not> dual h \<and> narrow then num_int lo hi else None")
      case None
      from emits_need [OF emits_byte_words, of "ucast BCDUMP_KTAB_NUM" lo hi] show ?thesis
        using Tv_num None by (simp add: bcwrite_ktabk_def [abs_def] ktabk_bytes_def Let_def split: if_splits)
    next
      case (Some k)
      from emits_need [OF emits_byte_word, of "ucast BCDUMP_KTAB_INT" k] show ?thesis
        using Tv_num Some by (simp add: bcwrite_ktabk_def [abs_def] ktabk_bytes_def Let_def split: if_splits)
    qed
  qed (use emits_need [OF byte] emits_need [OF emits_byte_word] in
      \<open>simp_all add: bcwrite_ktabk_def [abs_def] ktabk_bytes_def Let_def\<close>)
qed

definition node_bytes :: "host \<Rightarrow> tvalue \<times> tvalue \<Rightarrow> bytes" where
  "node_bytes h n = (case n of (k, v) \<Rightarrow> ktabk_bytes h False k @ ktabk_bytes h True v)"

definition ktab_bytes :: "host \<Rightarrow> gctab \<Rightarrow> bytes" where
  "ktab_bytes h t =
     word_bytes (of_nat (length (used_array t))) @ word_bytes (of_nat (length (used_nodes t)))
     @ concat (map (ktabk_bytes h True) (used_array t)) @ concat (map (node_bytes h) (used_nodes t))"

lemma emits_ktab: "emits 10 (ktab_bytes h t) (bcwrite_ktab h t)"
proof -
  have nodes: "emits 0 (concat (map (node_bytes h) (used_nodes t)))
      (fold_option (\<lambda>(k, v) sb. do { sb \<leftarrow> bcwrite_ktabk h k False sb; bcwrite_ktabk h v True sb }) (used_nodes t))"
    by (rule emits_fold0) (auto simp: node_bytes_def intro: emits_then emits_ktabk)
  have "emits 0 (concat (map (ktabk_bytes h True) (used_array t))) (fold_option (\<lambda>v. bcwrite_ktabk h v True) (used_array t))"
    by (rule emits_fold0) (rule emits_ktabk)
  from emits_seq [OF emits_word length_word_bytes emits_seq [OF emits_word length_word_bytes emits_then [OF this nodes]]]
  show ?thesis by (simp add: bcwrite_ktab_def [abs_def] ktab_bytes_def)
qed

definition kgc_bytes :: "host \<Rightarrow> gcobj \<Rightarrow> bytes" where
  "kgc_bytes h obj =
     word_bytes (kgc_type obj) @
     (case obj of
        K_str s \<Rightarrow> s
      | K_tab t \<Rightarrow> ktab_bytes h t
      | K_proto pt \<Rightarrow> []
      | K_int64 lo hi \<Rightarrow> word_bytes lo @ word_bytes hi
      | K_uint64 lo hi \<Rightarrow> word_bytes lo @ word_bytes hi
      | K_complex rlo rhi ilo ihi \<Rightarrow> word_bytes rlo @ word_bytes rhi @ word_bytes ilo @ word_bytes ihi)"


lemma emits_kgc1: "emits 0 (kgc_bytes h obj) (bcwrite_kgc1 h obj)"
proof -
  define R where "R sb = (case obj of
      K_str s \<Rightarrow> bcwrite_block s sb
    | K_tab t \<Rightarrow> bcwrite_ktab h t sb
    | K_proto pt \<Rightarrow> Some sb
    | K_int64 lo hi \<Rightarrow> do { sb \<leftarrow> bcwrite_uleb128 lo sb; bcwrite_uleb128 hi sb }
    | K_uint64 lo hi \<Rightarrow> do { sb \<leftarrow> bcwrite_uleb128 lo sb; bcwrite_uleb128 hi sb }
    | K_complex rlo rhi ilo ihi \<Rightarrow>
        do { sb \<leftarrow> bcwrite_uleb128 rlo sb; sb \<leftarrow> bcwrite_uleb128 rhi sb;
             sb \<leftarrow> bcwrite_uleb128 ilo sb; bcwrite_uleb128 ihi sb })" for sb
  obtain e where e: "kgc_bytes h obj = word_bytes (kgc_type obj) @ e" "emits (kgc_need obj - length (word_bytes (kgc_type obj))) e R"
    and l: "length (word_bytes (kgc_type obj)) \<le> kgc_need obj"
  proof (cases obj)
    case (K_str s)
    have "emits (kgc_need obj - length (word_bytes (kgc_type obj))) s R"
      using K_str emits_mono [OF emits_block, of s "5 + length s - length (word_bytes (kgc_type obj))"]
        length_word_bytes [of "kgc_type obj"] by (simp add: R_def [abs_def] kgc_need_def)
    then show thesis using that [of s] K_str le_trans [OF length_word_bytes, of "5 + length s" "kgc_type obj"]
      by (simp add: kgc_bytes_def kgc_need_def)
  next
    case (K_proto pt)
    then show thesis using that [of "[]"]
      by (simp add: kgc_bytes_def kgc_need_def kgc_type_def bcdump_types word_bytes_def uleb.simps R_def [abs_def])
  next
    case (K_tab t)
    then show thesis using that [of "ktab_bytes h t"] emits_ktab
      by (simp add: kgc_bytes_def kgc_need_def kgc_type_def bcdump_types word_bytes_def uleb.simps R_def [abs_def])
  next
    case (K_int64 lo hi)
    then show thesis using that [of "word_bytes lo @ word_bytes hi"]
        emits_mono [OF emits_seq [OF emits_word length_word_bytes emits_word], of 20 lo hi]
      by (simp add: kgc_bytes_def kgc_need_def kgc_type_def bcdump_types word_bytes_def [of 2] uleb.simps R_def [abs_def])
  next
    case (K_uint64 lo hi)
    then show thesis using that [of "word_bytes lo @ word_bytes hi"]
        emits_mono [OF emits_seq [OF emits_word length_word_bytes emits_word], of 20 lo hi]
      by (simp add: kgc_bytes_def kgc_need_def kgc_type_def bcdump_types word_bytes_def [of 3] uleb.simps R_def [abs_def])
  next
    case (K_complex rlo rhi ilo ihi)
    then show thesis using that [of "word_bytes rlo @ word_bytes rhi @ word_bytes ilo @ word_bytes ihi"]
        emits_mono [OF emits_seq [OF emits_word length_word_bytes emits_seq [OF emits_word length_word_bytes
          emits_seq [OF emits_word length_word_bytes emits_word]]], of 20 rlo rhi ilo ihi]
      by (simp add: kgc_bytes_def kgc_need_def kgc_type_def bcdump_types word_bytes_def [of 4] uleb.simps R_def [abs_def])
  qed
  have tp: "emits (length (word_bytes (kgc_type obj))) (word_bytes (kgc_type obj)) (bcwrite_uleb128 (kgc_type obj))"
    unfolding word_bytes_def by (rule emits_uleb)
  have "emits (kgc_need obj) (kgc_bytes h obj) (\<lambda>sb. do { sb \<leftarrow> bcwrite_uleb128 (kgc_type obj) sb; R sb })"
    unfolding e(1) by (rule emits_bind [OF tp e(2)]) (use l in simp_all)
  from emits_need [OF this] show ?thesis by (simp add: bcwrite_kgc1_def [abs_def] R_def [abs_def])
qed

lemma emits_kgc: "emits 0 (concat (map (kgc_bytes h) objs)) (bcwrite_kgc h objs)"
  unfolding bcwrite_kgc_def [abs_def] by (rule emits_fold0) (rule emits_kgc1)

text \<open>Numbers of the constant table.\<close>

fun is_number :: "tvalue \<Rightarrow> bool" where
  "is_number (Tv_int k) = True"
| "is_number (Tv_num lo hi) = True"
| "is_number v = False"

definition knum_bytes :: "host \<Rightarrow> tvalue \<Rightarrow> bytes" where
  "knum_bytes h v =
     (case v of
        Tv_int k \<Rightarrow> uleb (2 * unat k)
      | Tv_num lo hi \<Rightarrow>
          (case (if dual h then None else num_int lo hi) of
             Some k \<Rightarrow> uleb (2 * unat k)
           | None \<Rightarrow> uleb (2 * unat lo + 1) @ word_bytes hi)
      | _ \<Rightarrow> [])"

lemma length_uleb_33: "b < 2 \<Longrightarrow> length (uleb (2 * unat (k :: u32) + b)) \<le> 5"
proof -
  assume "b < 2"
  moreover have "unat k < 2 ^ LENGTH(32)" by (rule unsigned_less)
  ultimately show ?thesis by (intro length_uleb32) simp
qed

lemma emits_knum1: "is_number v \<Longrightarrow> emits 10 (knum_bytes h v) (bcwrite_knum1 h v) \<and> length (knum_bytes h v) \<le> 10"
proof -
  assume v: "is_number v"
  have int: "emits 10 (uleb (2 * unat k)) (save_int k) \<and> length (uleb (2 * unat k)) \<le> 10" for k
    using emits_mono [OF emits_save_int, of 10 k] length_uleb_33 [of 0 k] by simp
  have num: "emits 10 (uleb (2 * unat lo + 1) @ word_bytes hi) (\<lambda>sb. do { sb \<leftarrow> bcwrite_uleb128 (1 + (2 * lo OR (lo AND 0x80000000))) sb;
      sb \<leftarrow> bcwrite_patch lo sb; bcwrite_uleb128 hi sb })" for lo hi :: u32
    using emits_mono [OF emits_seq [OF emits_33 [of 1 _ lo, OF _ refl] length_uleb_33 [of 1 lo] emits_word], of 10 hi]
    by (simp add: bind_assoc)
  have "length (uleb (2 * unat lo + 1) @ word_bytes hi) \<le> 10" for lo hi :: u32
    using length_uleb_33 [of 1 lo] length_word_bytes [of hi] by simp
  then show ?thesis using v int num
    by (cases v) (auto simp: bcwrite_knum1_def [abs_def] knum_bytes_def split: option.splits)
qed

lemma emits_knum:
  assumes "list_all is_number kn"
  shows "emits 0 (concat (map (knum_bytes h) kn)) (bcwrite_knum h kn)"
proof -
  have "emits (10 * length kn) (concat (map (knum_bytes h) kn)) (fold_option (bcwrite_knum1 h) kn)"
    using assms by (intro emits_fold) (simp add: emits_knum1 list_all_iff)
  from emits_need [OF this] show ?thesis by (simp add: bcwrite_knum_def [abs_def])
qed

subsection \<open>A prototype\<close>

definition written_bc :: "host \<Rightarrow> gcproto \<Rightarrow> u32 list" where
  "written_bc h pt = (if pt_flags pt AND PROTO_ILOOP \<noteq> 0 \<or> pt_trace pt \<noteq> 0 then map (unpatch h) (pt_bc pt) else pt_bc pt)"

definition written_dbg :: "bool \<Rightarrow> gcproto \<Rightarrow> bytes" where
  "written_dbg strip pt = (if strip then [] else case pt_lineinfo pt of None \<Rightarrow> [] | Some dbg \<Rightarrow> dbg)"

definition head_bytes :: "bool \<Rightarrow> gcproto \<Rightarrow> bytes" where
  "head_bytes strip pt =
     [pt_flags pt AND (PROTO_CHILD OR PROTO_VARARG OR PROTO_FFI)] @ [pt_numparams pt] @ [pt_framesize pt] @ [of_nat (length (pt_uv pt))]
     @ word_bytes (of_nat (length (pt_kgc pt))) @ word_bytes (of_nat (length (pt_kn pt))) @ word_bytes (of_nat (length (pt_bc pt)))
     @ (if strip then []
        else word_bytes (of_nat (length (written_dbg strip pt)))
             @ (if written_dbg strip pt = [] then [] else word_bytes (pt_firstline pt) @ word_bytes (pt_numline pt)))"

definition pdata_bytes :: "host \<Rightarrow> bool \<Rightarrow> gcproto \<Rightarrow> bytes" where
  "pdata_bytes h strip pt =
     head_bytes strip pt @ concat (map bytes_of_u32 (written_bc h pt)) @ concat (map bytes_of_u16 (pt_uv pt))
     @ concat (map (kgc_bytes h) (pt_kgc pt)) @ concat (map (knum_bytes h) (pt_kn pt)) @ written_dbg strip pt"

lemma length_bytes_of: "length (concat (map bytes_of_u32 xs)) = length xs * 4" "length (concat (map bytes_of_u16 ys)) = length ys * 2"
  by (induction xs) (simp_all add: bytes_of_u32_def, induction ys, simp_all add: bytes_of_u16_def)

lemma length_written_bc [simp]: "length (written_bc h pt) = length (pt_bc pt)"
  by (simp add: written_bc_def)


lemma emits_pdata:
  assumes "list_all is_number (pt_kn pt)" "5 \<le> length (sb_buf sb)"
  obtains sb' where "bcwrite_pdata h strip pt sb = Some sb'" "sb_n sb' = 5 + length (pdata_bytes h strip pt)"
    "take (length (pdata_bytes h strip pt)) (drop 5 (sb_buf sb')) = pdata_bytes h strip pt"
    "5 + length (pdata_bytes h strip pt) \<le> length (sb_buf sb')"
proof -
  let ?dbg = "written_dbg strip pt"
  let ?K = "4 + 6 * 5 + length (pt_bc pt) * 4 + length (pt_uv pt) * 2"
  define D where "D sb = (if strip then Some sb
    else do { sb \<leftarrow> bcwrite_uleb128 (of_nat (length ?dbg)) sb;
              if ?dbg = [] then Some sb
              else do { sb \<leftarrow> bcwrite_uleb128 (pt_firstline pt) sb; bcwrite_uleb128 (pt_numline pt) sb } })" for sb
  define T where "T sb = (if ?dbg = [] then Some sb else bcwrite_block ?dbg (bcwrite_need (length ?dbg) sb))" for sb
  let ?d = "if strip then [] else word_bytes (of_nat (length ?dbg))
    @ (if ?dbg = [] then [] else word_bytes (pt_firstline pt) @ word_bytes (pt_numline pt))"
  have lines: "emits 10 (if ?dbg = [] then [] else word_bytes (pt_firstline pt) @ word_bytes (pt_numline pt))
      (\<lambda>sb. if ?dbg = [] then Some sb else do { sb \<leftarrow> bcwrite_uleb128 (pt_firstline pt) sb; bcwrite_uleb128 (pt_numline pt) sb })"
    using emits_seq [OF emits_word length_word_bytes emits_word] by simp
  have D: "emits 15 ?d D"
  proof (cases strip)
    case False
    then show ?thesis using emits_seq [OF emits_word [of "of_nat (length ?dbg)"] length_word_bytes lines] by (simp add: D_def [abs_def])
  qed (simp add: D_def [abs_def])
  have d: "length ?d \<le> 15"
    using length_word_bytes [of "of_nat (length ?dbg)"] length_word_bytes [of "pt_firstline pt"] length_word_bytes [of "pt_numline pt"]
    by (cases strip; cases "?dbg = []") simp_all
  have T: "emits 0 ?dbg T" using emits_need [OF emits_block, of ?dbg] by (cases "?dbg = []") (simp_all add: T_def [abs_def])
  have code: "emits (length (pt_bc pt) * 4) (concat (map bytes_of_u32 (written_bc h pt))) (bcwrite_bytecode h pt)"
  proof -
    have "bcwrite_bytecode h pt = bcwrite_block (concat (map bytes_of_u32 (written_bc h pt)))"
      by (simp add: fun_eq_iff bcwrite_bytecode_def written_bc_def Let_def)
    then show ?thesis using emits_block [of "concat (map bytes_of_u32 (written_bc h pt))"] by (simp add: length_bytes_of)
  qed
  have uv: "emits (length (pt_uv pt) * 2) (concat (map bytes_of_u16 (pt_uv pt))) (bcwrite_block (concat (map bytes_of_u16 (pt_uv pt))))"
    using emits_block [of "concat (map bytes_of_u16 (pt_uv pt))"] by (simp add: length_bytes_of)
  note tail = emits_seq [OF D d emits_seq [OF code _ emits_then [OF uv emits_then [OF emits_kgc emits_then [OF emits_knum [OF assms(1)] T]]]]]
  have "emits (1 + (1 + (1 + (1 + (5 + (5 + (5 + (15 + (length (pt_bc pt) * 4 + length (pt_uv pt) * 2))))))))) (pdata_bytes h strip pt)
     (\<lambda>sb. do { sb \<leftarrow> bcwrite_byte (pt_flags pt AND (PROTO_CHILD OR PROTO_VARARG OR PROTO_FFI)) sb;
           sb \<leftarrow> bcwrite_byte (pt_numparams pt) sb;
           sb \<leftarrow> bcwrite_byte (pt_framesize pt) sb;
           sb \<leftarrow> bcwrite_byte (of_nat (length (pt_uv pt))) sb;
           sb \<leftarrow> bcwrite_uleb128 (of_nat (length (pt_kgc pt))) sb;
           sb \<leftarrow> bcwrite_uleb128 (of_nat (length (pt_kn pt))) sb;
           sb \<leftarrow> bcwrite_uleb128 (of_nat (length (pt_bc pt))) sb;
           sb \<leftarrow> D sb;
           sb \<leftarrow> bcwrite_bytecode h pt sb;
           sb \<leftarrow> bcwrite_block (concat (map bytes_of_u16 (pt_uv pt))) sb;
           sb \<leftarrow> bcwrite_kgc h (pt_kgc pt) sb;
           sb \<leftarrow> bcwrite_knum h (pt_kn pt) sb;
           T sb })"
    unfolding pdata_bytes_def head_bytes_def append_assoc
    by (intro emits_seq emits_byte emits_word length_word_bytes tail) (simp_all add: length_bytes_of)
  from emits_need [OF emits_mono [OF this, of ?K]]
  have all: "emits 0 (pdata_bytes h strip pt) (\<lambda>sb.
      do { sb \<leftarrow> bcwrite_byte (pt_flags pt AND (PROTO_CHILD OR PROTO_VARARG OR PROTO_FFI)) (bcwrite_need ?K sb);
           sb \<leftarrow> bcwrite_byte (pt_numparams pt) sb;
           sb \<leftarrow> bcwrite_byte (pt_framesize pt) sb;
           sb \<leftarrow> bcwrite_byte (of_nat (length (pt_uv pt))) sb;
           sb \<leftarrow> bcwrite_uleb128 (of_nat (length (pt_kgc pt))) sb;
           sb \<leftarrow> bcwrite_uleb128 (of_nat (length (pt_kn pt))) sb;
           sb \<leftarrow> bcwrite_uleb128 (of_nat (length (pt_bc pt))) sb;
           sb \<leftarrow> D sb;
           sb \<leftarrow> bcwrite_bytecode h pt sb;
           sb \<leftarrow> bcwrite_block (concat (map bytes_of_u16 (pt_uv pt))) sb;
           sb \<leftarrow> bcwrite_kgc h (pt_kgc pt) sb;
           sb \<leftarrow> bcwrite_knum h (pt_kn pt) sb;
           T sb })" (is "emits 0 _ ?F") by simp
  have size: "(if strip then 0 else case pt_lineinfo pt of None \<Rightarrow> 0 | Some dbg \<Rightarrow> length dbg) = length ?dbg"
    by (simp add: written_dbg_def split: option.split)
  have "?dbg \<noteq> [] \<Longrightarrow> the (pt_lineinfo pt) = ?dbg" by (auto simp: written_dbg_def split: if_splits option.splits)
  then have T': "T = (\<lambda>sb. if length ?dbg > 0 then bcwrite_block (the (pt_lineinfo pt)) (bcwrite_need (length ?dbg) sb) else Some sb)"
    by (auto simp: T_def fun_eq_iff)
  have D': "D = (\<lambda>sb. if strip then Some sb
    else do { sb \<leftarrow> bcwrite_uleb128 (of_nat (length ?dbg)) sb;
              if length ?dbg > 0 then do { sb \<leftarrow> bcwrite_uleb128 (pt_firstline pt) sb; bcwrite_uleb128 (pt_numline pt) sb }
              else Some sb })"
    unfolding D_def [abs_def] by (cases strip; cases "?dbg = []") simp_all
  have "?F (sb\<lparr>sb_n := 5\<rparr>) = bcwrite_pdata h strip pt sb"
    unfolding bcwrite_pdata_def Let_def size T' D' ..
  moreover have "room 0 (sb\<lparr>sb_n := 5\<rparr>)" "content (sb\<lparr>sb_n := 5\<rparr>) = take 5 (sb_buf sb)"
    using assms(2) by (auto simp: room_def content_def)
  ultimately obtain sb' where s: "bcwrite_pdata h strip pt sb = Some sb'"
    "content sb' = take 5 (sb_buf sb) @ pdata_bytes h strip pt" "sb_n sb' = 5 + length (pdata_bytes h strip pt)"
    "sb_n sb' \<le> length (sb_buf sb')"
    using emitsD [OF all, of "sb\<lparr>sb_n := 5\<rparr>"] by auto
  have "drop 5 (content sb') = pdata_bytes h strip pt" using s(2) assms(2) by simp
  then have "take (length (pdata_bytes h strip pt)) (drop 5 (sb_buf sb')) = pdata_bytes h strip pt"
    using s(3) by (simp add: content_def drop_take)
  then show thesis using that s by simp
qed

subsection \<open>The pieces of a dump\<close>

text \<open>The callback gets the pieces in order until it returns a status other than zero.\<close>

definition pass :: "(bytes \<Rightarrow> 's \<Rightarrow> int \<times> 's) \<Rightarrow> bytes list \<Rightarrow> int \<times> 's \<Rightarrow> int \<times> 's" where
  "pass wfunc ps r = foldl (\<lambda>(status, s) p. if status = 0 then wfunc p s else (status, s)) r ps"

definition sized :: "bytes \<Rightarrow> bytes" where
  "sized p = uleb (length p) @ p"

fun proto_blocks :: "host \<Rightarrow> bool \<Rightarrow> gcproto \<Rightarrow> bytes list"
  and children_blocks :: "host \<Rightarrow> bool \<Rightarrow> gcobj list \<Rightarrow> bytes list" where
  "proto_blocks h strip (Gcproto fl np fs tr bc uv kgc kn first num dbg) =
     (if fl AND PROTO_CHILD \<noteq> 0 then children_blocks h strip kgc else [])
     @ [sized (pdata_bytes h strip (Gcproto fl np fs tr bc uv kgc kn first num dbg))]"
| "children_blocks h strip [] = []"
| "children_blocks h strip (obj # objs) =
     children_blocks h strip objs @ (case obj of K_proto pt \<Rightarrow> proto_blocks h strip pt | _ \<Rightarrow> [])"

definition header_bytes :: "bool \<Rightarrow> bytes \<Rightarrow> gcproto \<Rightarrow> bytes" where
  "header_bytes strip name pt =
     [BCDUMP_HEAD1] @ [BCDUMP_HEAD2] @ [BCDUMP_HEAD3] @ [BCDUMP_VERSION]
     @ [ucast ((if strip then BCDUMP_F_STRIP else 0) + (if pt_flags pt AND PROTO_FFI \<noteq> 0 then BCDUMP_F_FFI else 0))]
     @ (if strip then [] else word_bytes (of_nat (length name)) @ name)"

definition dump_pieces :: "host \<Rightarrow> bool \<Rightarrow> bytes \<Rightarrow> gcproto \<Rightarrow> bytes list" where
  "dump_pieces h strip name pt = [header_bytes strip name pt] @ proto_blocks h strip pt @ [[0]]"

text \<open>What the writer assumes: the constants of the second table are numbers, and the size of a block
  fits into 32 bits.\<close>

fun writable :: "host \<Rightarrow> bool \<Rightarrow> gcproto \<Rightarrow> bool"
  and writable_objs :: "host \<Rightarrow> bool \<Rightarrow> gcobj list \<Rightarrow> bool" where
  "writable h strip (Gcproto fl np fs tr bc uv kgc kn first num dbg) \<longleftrightarrow>
     list_all is_number kn \<and> length (pdata_bytes h strip (Gcproto fl np fs tr bc uv kgc kn first num dbg)) < 2 ^ 32
     \<and> (fl AND PROTO_CHILD \<noteq> 0 \<longrightarrow> writable_objs h strip kgc)"
| "writable_objs h strip [] \<longleftrightarrow> True"
| "writable_objs h strip (obj # objs) \<longleftrightarrow> (case obj of K_proto pt \<Rightarrow> writable h strip pt | _ \<Rightarrow> True) \<and> writable_objs h strip objs"

lemma pass_append: "pass wfunc (ps @ qs) r = pass wfunc qs (pass wfunc ps r)"
  by (simp add: pass_def)

lemma pass_Nil [simp]: "pass wfunc [] r = r"
  by (simp add: pass_def)

lemma pass_Cons: "pass wfunc (p # ps) (status, s) = pass wfunc ps (if status = 0 then wfunc p s else (status, s))"
  by (simp add: pass_def)

lemma bcwrite_uleb128_frame:
  "bcwrite_uleb128 v sb = Some sb' \<Longrightarrow> sb_n sb < sb_n sb' \<and> length (sb_buf sb') = length (sb_buf sb)
     \<and> drop (sb_n sb') (sb_buf sb') = drop (sb_n sb') (sb_buf sb)"
proof (induction v sb arbitrary: sb' rule: bcwrite_uleb128.induct)
  case (1 v sb)
  have byte: "sb_n s' = Suc (sb_n s) \<and> length (sb_buf s') = length (sb_buf s)
      \<and> (\<forall>n > sb_n s. drop n (sb_buf s') = drop n (sb_buf s))" if "bcwrite_byte b s = Some s'" for b s s'
    using that by (auto simp: bcwrite_byte_def split: if_splits)
  show ?case
  proof (cases "v \<ge> 0x80")
    case True
    then obtain sb1 where sb1: "bcwrite_byte (ucast ((v AND 0x7f) OR 0x80)) sb = Some sb1" "bcwrite_uleb128 (drop_bit 7 v) sb1 = Some sb'"
      using "1.prems" by (auto simp: bcwrite_uleb128.simps [of v] bind_Some_iff)
    show ?thesis using "1.IH" [OF True sb1] byte [OF sb1(1)] by auto
  next
    case False
    then have "bcwrite_byte (ucast v) sb = Some sb'" using "1.prems" by (simp add: bcwrite_uleb128.simps [of v])
    then show ?thesis using byte by fastforce
  qed
qed

lemma flush_sized:
  assumes n: "sb_n (ctx_sb ctx) = 5 + length p" "take (length p) (drop 5 (sb_buf (ctx_sb ctx))) = p"
    "5 + length p \<le> length (sb_buf (ctx_sb ctx))" and p: "p \<noteq> []" "length p < 2 ^ 32"
  shows "\<exists>ctx'. bcwrite_flush wfunc ctx = Some ctx' \<and> 5 \<le> length (sb_buf (ctx_sb ctx'))
    \<and> (ctx_status ctx', ctx_data ctx') = pass wfunc [sized p] (ctx_status ctx, ctx_data ctx)"
proof (cases "ctx_status ctx = 0")
  case False
  then show ?thesis using n by (simp add: bcwrite_flush_def pass_def)
next
  case True
  define e where "e = uleb (length p)"
  have nn: "(lj_fls (length p) + 8) * 9 div 64 = length e" unfolding e_def using p by (intro flush_length) auto
  have u: "unat (of_nat (length p) :: u32) = length p" using p(2) by (simp add: unat_of_nat)
  have e: "length e \<le> 5" unfolding e_def using p(2) by (intro length_uleb32) simp
  define sb1 where "sb1 = (ctx_sb ctx)\<lparr>sb_n := 5 - length e\<rparr>"
  have "room (length e) sb1" using n(3) e by (auto simp: sb1_def room_def)
  then obtain sb2 where sb2: "bcwrite_uleb128 (of_nat (length p)) sb1 = Some sb2" "content sb2 = content sb1 @ e" "sb_n sb2 = 5"
    using emitsD [OF emits_uleb [of "of_nat (length p)"], of sb1] e unfolding u e_def [symmetric] by (auto simp: sb1_def)
  have frame: "length (sb_buf sb2) = length (sb_buf sb1)" "drop 5 (sb_buf sb2) = drop 5 (sb_buf sb1)"
    using bcwrite_uleb128_frame [OF sb2(1)] sb2(3) by simp_all
  have "length (content sb1) = 5 - length e" using n(3) by (simp add: content_def sb1_def)
  moreover have "sb_buf sb2 = content sb2 @ drop 5 (sb_buf sb2)" using sb2(3) by (simp add: content_def)
  ultimately have "drop (5 - length e) (sb_buf sb2) = e @ drop 5 (sb_buf sb1)" using sb2(2) frame(2) by (metis append.assoc append_eq_conv_conj)
  then have "take (length e + length p) (drop (5 - length e) (sb_buf sb2)) = sized p"
    using n(2) by (simp add: sb1_def sized_def e_def)
  moreover have "bcwrite_flush wfunc ctx = (let (status, s) = wfunc (take (length e + length p) (drop (5 - length e) (sb_buf sb2))) (ctx_data ctx) in
      Some \<lparr>ctx_sb = sb2, ctx_status = status, ctx_data = s\<rparr>)"
    using True n(1) sb2(1) nn by (simp add: bcwrite_flush_def Let_def sb1_def)
  moreover have "5 \<le> length (sb_buf sb2)" using frame(1) n(3) by (simp add: sb1_def)
  ultimately show ?thesis using True by (simp add: pass_def split: prod.split)
qed


text \<open>Both procedures pass on the blocks and keep room for a size.\<close>

lemma bcwrite_proto_passes:
  "writable h strip pt \<Longrightarrow> 5 \<le> length (sb_buf (ctx_sb ctx)) \<Longrightarrow>
    \<exists>ctx'. bcwrite_proto h wfunc strip pt ctx = Some ctx' \<and> 5 \<le> length (sb_buf (ctx_sb ctx'))
      \<and> (ctx_status ctx', ctx_data ctx') = pass wfunc (proto_blocks h strip pt) (ctx_status ctx, ctx_data ctx)"
  and bcwrite_children_passes:
  "writable_objs h strip objs \<Longrightarrow> 5 \<le> length (sb_buf (ctx_sb ctx)) \<Longrightarrow>
    \<exists>ctx'. bcwrite_children h wfunc strip objs ctx = Some ctx' \<and> 5 \<le> length (sb_buf (ctx_sb ctx'))
      \<and> (ctx_status ctx', ctx_data ctx') = pass wfunc (children_blocks h strip objs) (ctx_status ctx, ctx_data ctx)"
proof (induction h strip pt and h strip objs arbitrary: ctx and ctx rule: writable_writable_objs.induct)
  case (1 h strip fl np fs tr bc uv kgc kn first num dbg)
  let ?pt = "Gcproto fl np fs tr bc uv kgc kn first num dbg"
  let ?P = "pdata_bytes h strip ?pt"
  obtain ctx1 where 1: "(if fl AND PROTO_CHILD \<noteq> 0 then bcwrite_children h wfunc strip kgc ctx else Some ctx) = Some ctx1"
    "5 \<le> length (sb_buf (ctx_sb ctx1))" "(ctx_status ctx1, ctx_data ctx1)
      = pass wfunc (if fl AND PROTO_CHILD \<noteq> 0 then children_blocks h strip kgc else []) (ctx_status ctx, ctx_data ctx)"
    using "1.IH" "1.prems" by (cases "fl AND PROTO_CHILD = 0") auto
  obtain sb where sb: "bcwrite_pdata h strip ?pt (ctx_sb ctx1) = Some sb" "sb_n sb = 5 + length ?P"
    "take (length ?P) (drop 5 (sb_buf sb)) = ?P" "5 + length ?P \<le> length (sb_buf sb)"
    using emits_pdata [of ?pt "ctx_sb ctx1" h strip] "1.prems"(1) 1(2) by auto
  have "?P \<noteq> []" by (simp add: pdata_bytes_def head_bytes_def)
  then obtain ctx2 where "bcwrite_flush wfunc (ctx1\<lparr>ctx_sb := sb\<rparr>) = Some ctx2" "5 \<le> length (sb_buf (ctx_sb ctx2))"
    "(ctx_status ctx2, ctx_data ctx2) = pass wfunc [sized ?P] (ctx_status ctx1, ctx_data ctx1)"
    using flush_sized [of "ctx1\<lparr>ctx_sb := sb\<rparr>" ?P wfunc] sb "1.prems"(1) by auto
  then show ?case using 1 sb(1) by (simp add: pass_append)
next
  case (3 h strip obj objs)
  obtain ctx1 where 1: "bcwrite_children h wfunc strip objs ctx = Some ctx1" "5 \<le> length (sb_buf (ctx_sb ctx1))"
    "(ctx_status ctx1, ctx_data ctx1) = pass wfunc (children_blocks h strip objs) (ctx_status ctx, ctx_data ctx)"
    using "3.IH"(2) [of ctx] "3.prems" by auto
  show ?case
  proof (cases obj)
    case (K_proto pt)
    then obtain ctx2 where "bcwrite_proto h wfunc strip pt ctx1 = Some ctx2" "5 \<le> length (sb_buf (ctx_sb ctx2))"
      "(ctx_status ctx2, ctx_data ctx2) = pass wfunc (proto_blocks h strip pt) (ctx_status ctx1, ctx_data ctx1)"
      using "3.IH"(1) [OF K_proto, of ctx1] "3.prems"(1) 1(2) by auto
    then show ?thesis using 1 K_proto by (simp add: pass_append)
  qed (use 1 in simp_all)
qed simp

lemma bcwrite_header_passes:
  assumes "1024 \<le> length (sb_buf (ctx_sb ctx))" "ctx_status ctx = 0"
  shows "\<exists>ctx'. bcwrite_header wfunc strip name pt ctx = Some ctx' \<and> 5 \<le> length (sb_buf (ctx_sb ctx'))
    \<and> (ctx_status ctx', ctx_data ctx') = pass wfunc [header_bytes strip name pt] (ctx_status ctx, ctx_data ctx)"
proof -
  define flags :: u8 where "flags = ucast ((if strip then BCDUMP_F_STRIP else 0) + (if pt_flags pt AND PROTO_FFI \<noteq> 0 then BCDUMP_F_FFI else 0))"
  define F where "F sb =
     do { sb \<leftarrow> bcwrite_byte BCDUMP_HEAD1 sb;
          sb \<leftarrow> bcwrite_byte BCDUMP_HEAD2 sb;
          sb \<leftarrow> bcwrite_byte BCDUMP_HEAD3 sb;
          sb \<leftarrow> bcwrite_byte BCDUMP_VERSION sb;
          sb \<leftarrow> bcwrite_byte flags sb;
          if strip then Some sb else do { sb \<leftarrow> bcwrite_uleb128 (of_nat (length name)) sb; bcwrite_block name sb } }" for sb
  have "emits (5 + length name) (if strip then [] else word_bytes (of_nat (length name)) @ name)
      (\<lambda>sb. if strip then Some sb else do { sb \<leftarrow> bcwrite_uleb128 (of_nat (length name)) sb; bcwrite_block name sb })"
    using emits_word_block by simp
  then have "emits (1 + (1 + (1 + (1 + (1 + (5 + length name)))))) (header_bytes strip name pt) F"
    unfolding header_bytes_def F_def [abs_def] flags_def by (intro emits_seq emits_byte) simp_all
  then have "emits (5 + 5 + length name) (header_bytes strip name pt) F" by simp
  from emits_need [OF this]
  have e: "emits 0 (header_bytes strip name pt) (\<lambda>sb. F (bcwrite_need (5 + 5 + length name) sb))" .
  have "room 0 ((ctx_sb ctx)\<lparr>sb_n := 0\<rparr>)" using assms(1) by (auto simp: room_def)
  then obtain sb where sb: "F (bcwrite_need (5 + 5 + length name) ((ctx_sb ctx)\<lparr>sb_n := 0\<rparr>)) = Some sb"
    "content sb = content ((ctx_sb ctx)\<lparr>sb_n := 0\<rparr>) @ header_bytes strip name pt"
    "length (sb_buf ((ctx_sb ctx)\<lparr>sb_n := 0\<rparr>)) \<le> length (sb_buf sb)"
    by (rule emitsD [OF e])
  have c: "take (sb_n sb) (sb_buf sb) = header_bytes strip name pt" using sb(2) by (simp add: content_def)
  have "bcwrite_header wfunc strip name pt ctx =
     do { sb \<leftarrow> F (bcwrite_need (5 + 5 + length name) ((ctx_sb ctx)\<lparr>sb_n := 0\<rparr>));
          let (status, s) = wfunc (take (sb_n sb) (sb_buf sb)) (ctx_data ctx);
          Some \<lparr>ctx_sb = sb, ctx_status = status, ctx_data = s\<rparr> }"
    unfolding bcwrite_header_def Let_def F_def flags_def bind_assoc ..
  then have "bcwrite_header wfunc strip name pt ctx = (case wfunc (header_bytes strip name pt) (ctx_data ctx) of
      (status, s) \<Rightarrow> Some \<lparr>ctx_sb = sb, ctx_status = status, ctx_data = s\<rparr>)"
    by (simp only: sb(1) c Let_def bind.bind_lunit)
  then show ?thesis using sb(3) assms by (simp add: pass_def split: prod.split)
qed

lemma lj_bcwrite_passes:
  assumes "writable h strip pt"
  shows "lj_bcwrite h name pt wfunc s strip = Some (pass wfunc (dump_pieces h strip name pt) (0, s))"
proof -
  let ?ctx = "\<lparr>ctx_sb = lj_str_resizebuf 1024 \<lparr>sb_buf = [], sb_n = 0\<rparr>, ctx_status = 0, ctx_data = s\<rparr>"
  obtain ctx1 where 1: "bcwrite_header wfunc strip name pt ?ctx = Some ctx1" "5 \<le> length (sb_buf (ctx_sb ctx1))"
    "(ctx_status ctx1, ctx_data ctx1) = pass wfunc [header_bytes strip name pt] (0, s)"
    using bcwrite_header_passes [of ?ctx wfunc strip name pt] by (auto simp: lj_str_resizebuf_def)
  obtain ctx2 where 2: "bcwrite_proto h wfunc strip pt ctx1 = Some ctx2"
    "(ctx_status ctx2, ctx_data ctx2) = pass wfunc (proto_blocks h strip pt) (ctx_status ctx1, ctx_data ctx1)"
    using bcwrite_proto_passes [OF assms 1(2)] by blast
  have "(ctx_status (bcwrite_footer wfunc ctx2), ctx_data (bcwrite_footer wfunc ctx2))
      = pass wfunc [[0]] (ctx_status ctx2, ctx_data ctx2)"
    by (simp add: bcwrite_footer_def pass_def split: prod.split)
  then have "(ctx_status (bcwrite_footer wfunc ctx2), ctx_data (bcwrite_footer wfunc ctx2)) = pass wfunc (dump_pieces h strip name pt) (0, s)"
    by (simp only: dump_pieces_def pass_append 1(3) [symmetric] 2(2) [symmetric])
  then show ?thesis using 1(1) 2(1) by (simp add: lj_bcwrite_def cpwriter_def)
qed

text \<open>C40: The bytecode writer never writes behind its buffer, and its callback gets exactly the header, the
  blocks of the prototypes, children before their parent, and the end mark, up to the first status
  that is not zero, which is returned.\<close>

theorem lj_bcwrite_pieces:
  assumes "writable h strip pt"
  shows "lj_bcwrite h name pt wfunc s strip = Some (pass wfunc (dump_pieces h strip name pt) (0, s))"
  by (rule lj_bcwrite_passes [OF assms])


text \<open>A function with a child, constants of every kind and a loop that a trace has patched.\<close>

definition x64_host :: host where
  "x64_host = \<lparr>dual = False, startins = (\<lambda>_. 0)\<rparr>"

definition sample_child :: gcproto where
  "sample_child = Gcproto 0 1 3 0 [0x0001024c, 0x0002014b] [] [] [] 2 1 (Some [1, 1, 0])"

definition sample :: gcproto where
  "sample = Gcproto 0x11 0 2 0 [0x80000052, 0x00010047] [0x8001]
     [K_proto sample_child, K_str [112, 114], K_tab (Gctab [Tv_nil, Tv_num 0 0x3ff00000, Tv_nil] [(Tv_str [107], Tv_true), (Tv_nil, Tv_nil)]),
      K_int64 1 0]
     [Tv_num 0 0xc0000000, Tv_num 0x9999999a 0x3fb99999] 1 5 (Some [0, 1, 65, 0, 0])"

lemma sample_numbers: "num_int 0 0xc0000000 = Some (- 2)" "num_int 0x9999999a 0x3fb99999 = None" "num_int 0 0x3ff00000 = Some 1"
  by (simp_all add: num_int_def Let_def)

lemma sample_lengths: "length (pdata_bytes x64_host False sample) \<le> 1000" "length (pdata_bytes x64_host False sample_child) \<le> 1000"
  by (simp_all add: pdata_bytes_def head_bytes_def sample_def sample_child_def word_bytes_def uleb.simps kgc_bytes_def
      knum_bytes_def ktab_bytes_def ktabk_bytes_def written_dbg_def written_bc_def used_array_def used_nodes_def
      bcdump_types kgc_type_def node_bytes_def bytes_of_u32_def bytes_of_u16_def sample_numbers x64_host_def)

lemma sample_writable: "writable x64_host False sample"
  using sample_lengths by (simp add: sample_def sample_child_def)

lemma sample_blocks: "\<exists>a b. proto_blocks x64_host False sample = [a, b]"
  by (simp add: sample_def sample_child_def PROTO_CHILD_def)

lemma lj_bcwrite_pieces_witness:
  "lj_bcwrite x64_host [64, 120] sample (\<lambda>p n. (if n = 1 then 7 else 0, n + 1)) (0 :: nat) False = Some (7, 2)"
  using lj_bcwrite_pieces [OF sample_writable, of "[64, 120]" "\<lambda>p n. (if n = 1 then 7 else 0, n + 1)" "0 :: nat"] sample_blocks
  by (auto simp: pass_Cons dump_pieces_def)

end
