(* ===== verification/Lj_Bcread_Correct.thy ===== *)
theory Lj_Bcread_Correct
  imports Lj_Bcwrite_Correct
begin

section \<open>What the bytecode reader makes of a dump\<close>

text \<open>
  The reader gives back what the writer was given, for every way the input comes in pieces:
  \<open>loaded\<close> is the prototype that results (the instructions unpatched, the flags and the debug
  information that are written, tables reduced to the values in them), under \<open>dumpable\<close>: what the
  compiler guarantees of a prototype, and a limit on the size of a block.
\<close>

subsection \<open>Values\<close>

lemma read_word [simp]: "bcread_uleb128 (word_bytes v @ p) = Some (v, p)"
proof -
  have "unat v < 2 ^ LENGTH(32)" by (rule unsigned_less)
  then show ?thesis using bcread_uleb128_uleb [of "unat v" p] by (simp add: word_bytes_def)
qed

text \<open>A number is an integer only on a host with integers, and minus zero is no constant of another.\<close>

fun value_ok :: "host \<Rightarrow> tvalue \<Rightarrow> bool" where
  "value_ok h (Tv_int k) = dual h"
| "value_ok h (Tv_num lo hi) = (dual h \<or> (lo, hi) \<noteq> (0, 0x80000000))"
| "value_ok h v = True"

text \<open>A key of the hash part: not nil, not a NaN, not minus zero, not an index of the array part.\<close>

fun key_ok :: "nat \<Rightarrow> tvalue \<Rightarrow> bool" where
  "key_ok n Tv_nil = False"
| "key_ok n (Tv_int k) = False"
| "key_ok n (Tv_num lo hi) =
     ((lo, hi) \<noteq> (0, 0x80000000) \<and> \<not> is_nan lo hi \<and> (case num_int lo hi of None \<Rightarrow> True | Some k \<Rightarrow> n \<le> unat k))"
| "key_ok n k = True"

lemma key_value_ok: "key_ok n k \<Longrightarrow> value_ok h k"
  by (cases k) auto

lemma setintV_num_int:
  assumes "num_int lo hi = Some k" "(lo, hi) \<noteq> (0, 0x80000000)" "\<not> dual h"
  shows "setintV h k = Tv_num lo hi"
  using int_num_num_int [OF assms(1,2)] assms(3) by (simp add: setintV_def)

lemma length_of_u32: "n < 2 ^ 32 \<Longrightarrow> unat (of_nat n :: u32) = n"
  by (simp add: unat_of_nat)

lemma read_small: "n < 2 ^ 32 \<Longrightarrow> bcread_uleb128 (b # p) = Some (of_nat n, p)" if "n < 128" "b = of_nat n"
  using that bcread_uleb128_uleb [of n p] by (simp add: uleb.simps)

lemma read_tags [simp]:
  "bcread_uleb128 (0 # p) = Some (0, p)" "bcread_uleb128 (1 # p) = Some (1, p)" "bcread_uleb128 (2 # p) = Some (2, p)"
  "bcread_uleb128 (3 # p) = Some (3, p)" "bcread_uleb128 (4 # p) = Some (4, p)"
  using read_small [of 0 0 p] read_small [of 1 1 p] read_small [of 2 2 p] read_small [of 3 3 p] read_small [of 4 4 p] by simp_all

lemma read_ktabk:
  assumes "value_ok h v" "length (ktabk_bytes h narrow v) < 2 ^ 31"
  shows "bcread_ktabk h (ktabk_bytes h narrow v @ p) = Some (v, p)"
proof (cases v)
  case (Tv_str s)
  then have "unat (of_nat (5 + length s) :: u32) = 5 + length s"
    using assms(2) by (intro length_of_u32) (simp add: ktabk_bytes_def)
  then show ?thesis using Tv_str by (simp add: bcread_ktabk_def ktabk_bytes_def bcdump_types bcread_mem_def del: of_nat_add)
next
  case (Tv_num lo hi)
  then show ?thesis using assms(1) setintV_num_int [of lo hi _ h]
    by (auto simp: bcread_ktabk_def ktabk_bytes_def bcdump_types split: option.splits)
qed (use assms in \<open>simp_all add: bcread_ktabk_def ktabk_bytes_def bcdump_types setintV_def\<close>)

lemma ktabk_not_Nil [simp]: "ktabk_bytes h narrow v \<noteq> []"
  by (simp add: ktabk_bytes_def split: tvalue.split option.split)

lemma length_concat_ge: "(\<And>x. x \<in> List.set xs \<Longrightarrow> f x \<noteq> []) \<Longrightarrow> length xs \<le> length (concat (map f xs))"
proof (induction xs)
  case (Cons x xs)
  then have "0 < length (f x)" "length xs \<le> length (concat (map f xs))" by auto
  then have "Suc (length xs) \<le> length (f x) + length (concat (map f xs))" by linarith
  then show ?case by simp
qed simp

lemma read_array_values:
  "list_all (value_ok h) vs \<Longrightarrow> length (concat (map (ktabk_bytes h True) vs)) < 2 ^ 31
    \<Longrightarrow> read_array h (length vs) (concat (map (ktabk_bytes h True) vs) @ p) = Some (vs, p)"
  by (induction vs) (simp_all add: read_ktabk)

lemma set_node_new: "k \<notin> fst ` List.set ns \<Longrightarrow> set_node k v ns = ns @ [(k, v)]"
  by (induction ns) auto

lemma lj_tab_set_node:
  assumes "key_ok (length arr) k"
  shows "lj_tab_set (Gctab arr ns) k = Inr (Slot_node k)"
proof (cases k)
  case (Tv_num lo hi)
  then show ?thesis using assms int_num_num_int [of lo hi]
    by (auto simp: lj_tab_set_def lj_tab_setint_def split: option.splits)
qed (use assms in \<open>simp_all add: lj_tab_set_def\<close>)

lemma node_bytes_pair: "node_bytes h (k, v) = ktabk_bytes h False k @ ktabk_bytes h True v"
  by (simp add: node_bytes_def)

lemma read_hash_nodes:
  "(\<And>k v. (k, v) \<in> List.set ns \<Longrightarrow> key_ok (length arr) k \<and> value_ok h v) \<Longrightarrow> distinct (map fst (acc @ ns))
    \<Longrightarrow> length (concat (map (node_bytes h) ns)) < 2 ^ 31
    \<Longrightarrow> read_hash h (length ns) (Gctab arr acc) (concat (map (node_bytes h) ns) @ p) = Some (Inr (Gctab arr (acc @ ns), p))"
proof (induction ns arbitrary: acc)
  case (Cons n ns)
  obtain k v where n: "n = (k, v)" by fastforce
  have ok: "key_ok (length arr) k" "value_ok h v" "value_ok h k" using Cons.prems(1) [of k v] n key_value_ok by auto
  have "length (ktabk_bytes h False k) < 2 ^ 31" "length (ktabk_bytes h True v) < 2 ^ 31"
    using Cons.prems(3) n by (simp_all add: node_bytes_def)
  moreover have "read_hash h (length ns) (Gctab arr (acc @ [(k, v)])) (concat (map (node_bytes h) ns) @ p)
      = Some (Inr (Gctab arr ((acc @ [(k, v)]) @ ns), p))"
    using Cons.prems n by (intro Cons.IH) auto
  moreover have "set_node k v acc = acc @ [(k, v)]" using Cons.prems(2) n by (intro set_node_new) auto
  ultimately show ?case using ok by (simp add: n node_bytes_pair read_ktabk lj_tab_set_node)
qed simp

subsection \<open>Tables\<close>

definition template :: "gctab \<Rightarrow> gctab" where
  "template t = Gctab (used_array t) (used_nodes t)"

definition tab_ok :: "host \<Rightarrow> gctab \<Rightarrow> bool" where
  "tab_ok h t \<longleftrightarrow> list_all (value_ok h) (used_array t) \<and> distinct (map fst (used_nodes t))
     \<and> list_all (\<lambda>(k, v). key_ok (length (used_array t)) k \<and> value_ok h v) (used_nodes t)"

lemma read_ktab:
  assumes "tab_ok h t" "length (ktab_bytes h t) < 2 ^ 31"
  shows "bcread_ktab h (ktab_bytes h t @ p) = Some (Inr (template t, p))"
proof -
  have b: "length (concat (map (ktabk_bytes h True) (used_array t))) < 2 ^ 31"
    "length (concat (map (node_bytes h) (used_nodes t))) < 2 ^ 31" using assms(2) by (simp_all add: ktab_bytes_def)
  have "length (used_array t) < 2 ^ 32" using length_concat_ge [of "used_array t" "ktabk_bytes h True"] b(1) by simp
  moreover have "length (used_nodes t) < 2 ^ 32"
    using length_concat_ge [of "used_nodes t" "node_bytes h"] b(2) by (auto simp: node_bytes_def)
  ultimately have u: "unat (of_nat (length (used_array t)) :: u32) = length (used_array t)"
    "unat (of_nat (length (used_nodes t)) :: u32) = length (used_nodes t)" by (simp_all add: length_of_u32)
  have "read_hash h (length (used_nodes t)) (Gctab (used_array t) []) (concat (map (node_bytes h) (used_nodes t)) @ p)
      = Some (Inr (Gctab (used_array t) ([] @ used_nodes t), p))"
    using assms(1) b(2) by (intro read_hash_nodes) (auto simp: tab_ok_def list_all_iff)
  moreover have "read_array h (length (used_array t)) (concat (map (ktabk_bytes h True) (used_array t)) @ q) = Some (used_array t, q)" for q
    using assms(1) b(1) by (intro read_array_values) (simp_all add: tab_ok_def)
  ultimately show ?thesis by (simp add: bcread_ktab_def ktab_bytes_def u template_def)
qed


subsection \<open>Constants\<close>

definition protos_of :: "gcobj list \<Rightarrow> gcproto list" where
  "protos_of objs = concat (map (\<lambda>obj. case obj of K_proto pt \<Rightarrow> [pt] | _ \<Rightarrow> []) objs)"

text \<open>What the reader makes of a prototype.\<close>

fun loaded :: "host \<Rightarrow> bool \<Rightarrow> gcproto \<Rightarrow> gcproto"
  and loaded_objs :: "host \<Rightarrow> bool \<Rightarrow> gcobj list \<Rightarrow> gcobj list" where
  "loaded h strip (Gcproto fl np fs tr bc uv kgc kn first num dbg) =
     (let pt = Gcproto fl np fs tr bc uv kgc kn first num dbg;
          d = written_dbg strip pt in
      Gcproto (fl AND (PROTO_CHILD OR PROTO_VARARG OR PROTO_FFI)) np fs 0 (written_bc h pt) uv (loaded_objs h strip kgc) kn
        (if d = [] then 0 else first) (if d = [] then 0 else num) (if d = [] then None else Some d))"
| "loaded_objs h strip [] = []"
| "loaded_objs h strip (obj # objs) =
     (case obj of K_proto pt \<Rightarrow> K_proto (loaded h strip pt) | K_tab t \<Rightarrow> K_tab (template t) | _ \<Rightarrow> obj) # loaded_objs h strip objs"

definition obj_ok :: "host \<Rightarrow> gcobj \<Rightarrow> bool" where
  "obj_ok h obj = (case obj of K_tab t \<Rightarrow> tab_ok h t | _ \<Rightarrow> True)"

lemma kgc_not_Nil [simp]: "kgc_bytes h obj \<noteq> []"
  by (simp add: kgc_bytes_def)

lemma loaded_objs_Cons:
  "loaded_objs h strip (obj # objs) = loaded_objs h strip [obj] @ loaded_objs h strip objs"
  "protos_of (loaded_objs h strip (obj # objs)) = protos_of (loaded_objs h strip [obj]) @ protos_of (loaded_objs h strip objs)"
  by (simp_all add: protos_of_def)

lemma read_kgc1:
  assumes "obj_ok h obj" "length (kgc_bytes h obj) < 2 ^ 31"
  shows "bcread_kgc1 h (protos_of (loaded_objs h strip [obj]) @ st) (kgc_bytes h obj @ p)
    = Some (Inr (hd (loaded_objs h strip [obj]), st, p))"
proof (cases obj)
  case (K_str s)
  then have "unat (of_nat (5 + length s) :: u32) = 5 + length s"
    using assms(2) by (intro length_of_u32) (simp add: kgc_bytes_def)
  then show ?thesis using K_str
    by (simp add: bcread_kgc1_def kgc_bytes_def kgc_type_def bcdump_types bcread_mem_def protos_of_def del: of_nat_add)
next
  case (K_tab t)
  then have "bcread_ktab h (ktab_bytes h t @ p) = Some (Inr (template t, p))"
    using assms by (intro read_ktab) (simp_all add: obj_ok_def kgc_bytes_def)
  then show ?thesis using K_tab by (simp add: bcread_kgc1_def kgc_bytes_def kgc_type_def bcdump_types protos_of_def)
qed (simp_all add: bcread_kgc1_def kgc_bytes_def kgc_type_def bcdump_types protos_of_def)

lemma read_kgc:
  "list_all (obj_ok h) objs \<Longrightarrow> length (concat (map (kgc_bytes h) objs)) < 2 ^ 31
    \<Longrightarrow> bcread_kgc h (length objs) (protos_of (loaded_objs h strip objs) @ st) (concat (map (kgc_bytes h) objs) @ p)
      = Some (Inr (loaded_objs h strip objs, st, p))"
proof (induction objs)
  case (Cons obj objs)
  have "bcread_kgc1 h (protos_of (loaded_objs h strip [obj]) @ protos_of (loaded_objs h strip objs) @ st)
      (kgc_bytes h obj @ concat (map (kgc_bytes h) objs) @ p)
    = Some (Inr (hd (loaded_objs h strip [obj]), protos_of (loaded_objs h strip objs) @ st, concat (map (kgc_bytes h) objs) @ p))"
    using Cons.prems by (intro read_kgc1) simp_all
  moreover have "bcread_kgc h (length objs) (protos_of (loaded_objs h strip objs) @ st) (concat (map (kgc_bytes h) objs) @ p)
      = Some (Inr (loaded_objs h strip objs, st, p))" using Cons by simp
  moreover have "loaded_objs h strip (obj # objs) = hd (loaded_objs h strip [obj]) # loaded_objs h strip objs" by simp
  ultimately show ?case by (subst loaded_objs_Cons(2)) simp
qed (simp add: protos_of_def)

subsection \<open>Numbers and instructions\<close>

lemma uleb_first_odd: "uleb n = b # bs \<Longrightarrow> b AND 1 \<noteq> 0 \<longleftrightarrow> odd n"
proof -
  assume "uleb n = b # bs"
  then have "b = of_nat (if n < 128 then n else n mod 128 + 128)" by (subst (asm) uleb.simps) (simp split: if_splits)
  then have "odd b \<longleftrightarrow> odd (if n < 128 then n else n mod 128 + 128)" by (simp only: even_of_nat)
  also have "\<dots> \<longleftrightarrow> odd n" by (simp add: dvd_mod_iff)
  finally show ?thesis by (simp add: and_one_eq mod2_eq_if)
qed

lemma read_33:
  assumes "c < 2"
  shows "bcread_uleb128_33 (uleb (2 * unat (k :: u32) + c) @ p) = Some (k, p)"
proof -
  have "unat k < 2 ^ LENGTH(32)" by (rule unsigned_less)
  then have "2 * unat k + c < 2 ^ 33" using assms by simp
  moreover have "(2 * unat k + c) div 2 = unat k" using assms by simp
  ultimately show ?thesis using bcread_uleb128_33_uleb [of "2 * unat k + c" p] by simp
qed

lemma read_knum1:
  assumes "is_number v" "value_ok h v"
  shows "bcread_knum1 h (knum_bytes h v @ p) = Some (v, p)"
proof -
  have int: "bcread_knum1 h (uleb (2 * unat k) @ q) = Some (setintV h k, q)" for k q
  proof -
    obtain b bs where b: "uleb (2 * unat k) = b # bs" by (cases "uleb (2 * unat k)") simp_all
    then have "\<not> b AND 1 \<noteq> 0" using uleb_first_odd [OF b] by simp
    then show ?thesis using read_33 [of 0 k q] b by (simp add: bcread_knum1_def)
  qed
  have num: "bcread_knum1 h (uleb (2 * unat lo + 1) @ word_bytes hi @ q) = Some (Tv_num lo hi, q)" for lo hi q
  proof -
    obtain b bs where b: "uleb (2 * unat lo + 1) = b # bs" by (cases "uleb (2 * unat lo + 1)") simp_all
    then have "b AND 1 \<noteq> 0" using uleb_first_odd [OF b] by simp
    then show ?thesis using read_33 [of 1 lo "word_bytes hi @ q"] b by (simp add: bcread_knum1_def)
  qed
  show ?thesis
  proof (cases v)
    case (Tv_int k)
    then show ?thesis using int assms(2) by (simp add: knum_bytes_def setintV_def)
  next
    case (Tv_num lo hi)
    then show ?thesis using int num assms(2) setintV_num_int [of lo hi _ h]
      by (auto simp: knum_bytes_def split: option.splits if_splits)
  qed (use assms(1) in simp_all)
qed

lemma read_knum:
  "list_all is_number kn \<Longrightarrow> list_all (value_ok h) kn
    \<Longrightarrow> bcread_knum h (length kn) (concat (map (knum_bytes h) kn) @ p) = Some (kn, p)"
  by (induction kn) (simp_all add: read_knum1)

lemma knum_not_Nil: "is_number v \<Longrightarrow> knum_bytes h v \<noteq> []"
  by (cases v) (simp_all add: knum_bytes_def split: option.split)

lemma join_u32: "(ucast (ucast v :: u8) OR push_bit 8 (ucast (ucast (drop_bit 8 v) :: u8))
    OR push_bit 16 (ucast (ucast (drop_bit 16 v) :: u8)) OR push_bit 24 (ucast (ucast (drop_bit 24 v) :: u8))) = (v :: u32)"
proof (rule bit_word_eqI)
  fix n :: nat
  assume "n < LENGTH(32)"
  then show "bit (ucast (ucast v :: u8) OR push_bit 8 (ucast (ucast (drop_bit 8 v) :: u8)) OR push_bit 16 (ucast (ucast (drop_bit 16 v) :: u8))
      OR push_bit 24 (ucast (ucast (drop_bit 24 v) :: u8)) :: u32) n = bit v n"
    by (cases "24 \<le> n"; cases "16 \<le> n") (auto simp: bit_simps)
qed

lemma join_u16: "(ucast (ucast v :: u8) OR push_bit 8 (ucast (ucast (drop_bit 8 v) :: u8))) = (v :: 16 word)"
  by (rule bit_word_eqI) (auto simp: bit_simps)

lemma u32s_bytes: "u32s_of_bytes False (concat (map bytes_of_u32 xs)) = xs"
  by (induction xs) (simp_all add: bytes_of_u32_def join_u32 or.assoc)

lemma u16s_bytes: "u16s_of_bytes False (concat (map bytes_of_u16 xs)) = xs"
  by (induction xs) (simp_all add: bytes_of_u16_def join_u16)


subsection \<open>A prototype\<close>

text \<open>What the compiler guarantees: a child only under the flag for children, debug information with a
  line for every instruction and a name for every upvalue, at most 255 upvalues.\<close>

definition dbg_ok :: "gcproto \<Rightarrow> bytes \<Rightarrow> bool" where
  "dbg_ok pt dbg \<longleftrightarrow> lineinfo_size (length (pt_bc pt)) (pt_numline pt) \<le> length dbg
     \<and> skip_names (length (pt_uv pt)) (drop (lineinfo_size (length (pt_bc pt)) (pt_numline pt)) dbg) \<noteq> None"

definition pt_ok :: "host \<Rightarrow> bool \<Rightarrow> gcproto \<Rightarrow> bool" where
  "pt_ok h strip pt \<longleftrightarrow>
     length (pt_uv pt) < 256 \<and> list_all is_number (pt_kn pt) \<and> list_all (value_ok h) (pt_kn pt) \<and> list_all (obj_ok h) (pt_kgc pt)
     \<and> (written_dbg strip pt = [] \<or> dbg_ok pt (written_dbg strip pt))
     \<and> length (pdata_bytes h strip pt) \<le> LJ_MAX_MEM"

lemma read_word_of_nat: "n < 2 ^ 32 \<Longrightarrow> bcread_uleb128 (word_bytes (of_nat n) @ p) = Some (of_nat n, p) \<and> unat (of_nat n :: u32) = n"
  by (simp add: length_of_u32)

lemma read_pdata:
  assumes ok: "pt_ok h strip pt" and fl: "\<not> bcread_swap lsflags" "(lsflags AND BCDUMP_F_STRIP \<noteq> 0) = strip"
  shows "bcread_pdata h lsflags (protos_of (loaded_objs h strip (pt_kgc pt)) @ st) (pdata_bytes h strip pt @ p)
    = Some (Inr (loaded h strip pt, st, p))"
proof -
  let ?dbg = "written_dbg strip pt"
  have small: "length (pdata_bytes h strip pt) < 2 ^ 31" using ok by (simp add: pt_ok_def LJ_MAX_MEM_def)
  have parts: "length (concat (map (kgc_bytes h) (pt_kgc pt))) < 2 ^ 31" "length (concat (map (knum_bytes h) (pt_kn pt))) < 2 ^ 31"
    "length (pt_bc pt) * 4 < 2 ^ 31" "length ?dbg < 2 ^ 31"
    using small by (simp_all add: pdata_bytes_def length_bytes_of)
  have "length (pt_kgc pt) < 2 ^ 32" using length_concat_ge [of "pt_kgc pt" "kgc_bytes h"] parts(1) by simp
  moreover have "length (pt_kn pt) < 2 ^ 32"
    using length_concat_ge [of "pt_kn pt" "knum_bytes h"] parts(2) ok knum_not_Nil by (simp add: pt_ok_def list_all_iff)
  ultimately have u: "unat (of_nat (length (pt_kgc pt)) :: u32) = length (pt_kgc pt)"
    "unat (of_nat (length (pt_kn pt)) :: u32) = length (pt_kn pt)" "unat (of_nat (length (pt_bc pt)) :: u32) = length (pt_bc pt)"
    "unat (of_nat (length ?dbg) :: u32) = length ?dbg" "unat (of_nat (length (pt_uv pt)) :: u8) = length (pt_uv pt)"
    using parts ok by (simp_all add: length_of_u32 unat_byte pt_ok_def)
  have dz: "(of_nat (length ?dbg) :: u32) = 0 \<longleftrightarrow> ?dbg = []" using u(4) by (metis length_0_conv unat_eq_0)
  have code: "bcread_bytecode lsflags (length (pt_bc pt)) (concat (map bytes_of_u32 (written_bc h pt)) @ q) = Some (written_bc h pt, q)" for q
    using fl(1) by (simp add: bcread_bytecode_def bcread_mem_def length_bytes_of u32s_bytes)
  have uv: "bcread_uv lsflags (length (pt_uv pt)) (concat (map bytes_of_u16 (pt_uv pt)) @ q) = Some (pt_uv pt, q)" for q
    using fl(1) by (simp add: bcread_uv_def bcread_mem_def length_bytes_of u16s_bytes)
  have kgc: "bcread_kgc h (length (pt_kgc pt)) (protos_of (loaded_objs h strip (pt_kgc pt)) @ st) (concat (map (kgc_bytes h) (pt_kgc pt)) @ q)
      = Some (Inr (loaded_objs h strip (pt_kgc pt), st, q))" for q
    using ok parts(1) by (intro read_kgc) (simp_all add: pt_ok_def)
  have kn: "bcread_knum h (length (pt_kn pt)) (concat (map (knum_bytes h) (pt_kn pt)) @ q) = Some (pt_kn pt, q)" for q
    using ok by (intro read_knum) (simp_all add: pt_ok_def)
  have dbg: "bcread_dbg lsflags n l (length ?dbg) (?dbg @ q) = Some (?dbg, q)" for n l q
    using fl(1) by (simp add: bcread_dbg_def bcread_mem_def)
  obtain fl' np fs tr bc uv' kgc' kn' first num dbg' where pt: "pt = Gcproto fl' np fs tr bc uv' kgc' kn' first num dbg'" by (cases pt)
  have loaded: "loaded h strip pt = Gcproto (pt_flags pt AND (PROTO_CHILD OR PROTO_VARARG OR PROTO_FFI)) (pt_numparams pt) (pt_framesize pt) 0
      (written_bc h pt) (pt_uv pt) (loaded_objs h strip (pt_kgc pt)) (pt_kn pt) (if ?dbg = [] then 0 else pt_firstline pt)
      (if ?dbg = [] then 0 else pt_numline pt) (if ?dbg = [] then None else Some ?dbg)" by (simp add: pt Let_def)
  show ?thesis
  proof (cases "?dbg = []")
    case True
    then show ?thesis using fl(2) u(1-3,5) kgc loaded
      by (cases strip) (simp_all add: bcread_pdata_def pdata_bytes_def head_bytes_def bcread_byte_def code uv kn)
  next
    case False
    then have "\<not> strip" by (auto simp: written_dbg_def)
    moreover obtain varinfo where "lineinfo_size (length (pt_bc pt)) (pt_numline pt) \<le> length ?dbg"
      "bcread_varinfo (length (pt_uv pt)) (drop (lineinfo_size (length (pt_bc pt)) (pt_numline pt)) ?dbg) = Some varinfo"
      using ok False by (auto simp: pt_ok_def dbg_ok_def bcread_varinfo_def)
    ultimately show ?thesis using fl(2) u dz False kgc loaded dbg
      by (simp add: bcread_pdata_def pdata_bytes_def head_bytes_def bcread_byte_def code uv kn)
  qed
qed

end
