(* ===== verification/Lj_Bc_Roundtrip.thy ===== *)
theory Lj_Bc_Roundtrip
  imports Lj_Bcread_Correct
begin

section \<open>Loading a dump\<close>

text \<open>
  The reader on the pieces of its input: what is at hand and what is to come together are the rest of
  the dump, and every step consumes a block of it. The round trip of a function through the writer
  and the reader.
\<close>

subsection \<open>Input\<close>

definition rest :: "lexstate \<Rightarrow> bytes" where
  "rest ls = ls_p ls @ concat (ls_more ls)"

text \<open>A state in which the end of the input has not been met.\<close>

definition open_input :: "lexstate \<Rightarrow> bool" where
  "open_input ls \<longleftrightarrow> \<not> ls_eof ls \<and> [] \<notin> List.set (ls_more ls)"

definition same_dump :: "lexstate \<Rightarrow> lexstate \<Rightarrow> bool" where
  "same_dump ls ls' \<longleftrightarrow> ls_flags ls' = ls_flags ls \<and> ls_chunkname ls' = ls_chunkname ls"

lemma same_dump_trans: "same_dump a b \<Longrightarrow> same_dump b c \<Longrightarrow> same_dump a c"
  by (simp add: same_dump_def)

lemma fill_loop_enough:
  "[] \<notin> List.set pieces \<Longrightarrow> length p < len \<Longrightarrow> len \<le> length (p @ concat pieces)
    \<Longrightarrow> \<exists>p' pieces'. (\<forall>need. fill_loop len need p pieces = Inr (p', pieces', False))
      \<and> p' @ concat pieces' = p @ concat pieces \<and> len \<le> length p' \<and> [] \<notin> List.set pieces'"
proof (induction pieces arbitrary: p)
  case (Cons buf pieces)
  have buf: "buf \<noteq> []" using Cons.prems(1) by auto
  show ?case
  proof (cases "length (p @ buf) < len")
    case True
    then show ?thesis using Cons.IH [of "p @ buf"] Cons.prems buf by simp
  next
    case False
    then show ?thesis using Cons.prems buf by simp
  qed
qed simp

lemma bcread_have:
  assumes "open_input ls" "len \<le> LJ_MAX_MEM" "len \<le> length (rest ls)"
  obtains ls' where "bcread_need len ls = Inr ls'" "bcread_want len ls = Inr ls'" "rest ls' = rest ls" "len \<le> length (ls_p ls')"
    "open_input ls'" "same_dump ls ls'"
proof (cases "length (ls_p ls) < len")
  case True
  obtain p pieces where p: "\<And>need. fill_loop len need (ls_p ls) (ls_more ls) = Inr (p, pieces, False)"
    "p @ concat pieces = rest ls" "len \<le> length p" "[] \<notin> List.set pieces"
    using fill_loop_enough [of "ls_more ls" "ls_p ls" len] assms True by (auto simp: open_input_def rest_def)
  show thesis
    by (rule that [of "ls\<lparr>ls_p := p, ls_more := pieces, ls_eof := False\<rparr>"])
      (use assms True p in \<open>simp_all add: bcread_need_def bcread_want_def bcread_fill_def open_input_def rest_def same_dump_def\<close>)
next
  case False
  then show thesis using that [of ls] assms by (simp add: bcread_need_def bcread_want_def same_dump_def)
qed

lemma at_hand:
  assumes "rest ls = a @ b" "length a \<le> length (ls_p ls)"
  obtains q where "ls_p ls = a @ q" "q @ concat (ls_more ls) = b"
proof -
  have "ls_p ls = a @ drop (length a) (ls_p ls)"
    using assms by (metis append_eq_append_conv_if append_take_drop_id rest_def)
  then show thesis using that assms(1) by (metis append.assoc rest_def same_append_eq)
qed

subsection \<open>One block\<close>

lemma uleb_head: "0 < n \<Longrightarrow> \<exists>b bs. uleb n = b # bs \<and> b \<noteq> 0"
proof -
  assume n: "0 < n"
  have "unat (of_nat (n mod 128 + 128) :: u8) = n mod 128 + 128" by (rule unat_byte) simp
  then have "(of_nat (n mod 128 + 128) :: u8) \<noteq> 0" by (metis add_is_0 unat_0 zero_neq_numeral)
  moreover have "(of_nat n :: u8) \<noteq> 0" if "n < 128" 
  proof -
    have "unat (of_nat n :: u8) = n" using that by (intro unat_byte) simp
    then show ?thesis using n by (metis less_irrefl unat_0)
  qed
  ultimately show ?thesis by (subst uleb.simps) simp
qed

lemma length_pdata: "7 \<le> length (pdata_bytes h strip pt)"
proof -
  have "1 \<le> length (word_bytes v)" for v by (simp add: Suc_le_eq)
  from this [of "of_nat (length (pt_kgc pt))"] this [of "of_nat (length (pt_kn pt))"] this [of "of_nat (length (pt_bc pt))"]
  show ?thesis by (simp add: pdata_bytes_def head_bytes_def)
qed

lemma read_block:
  assumes ok: "pt_ok h strip pt" and fl: "\<not> bcread_swap (ls_flags ls)" "(ls_flags ls AND BCDUMP_F_STRIP \<noteq> 0) = strip"
    and ls: "open_input ls" "rest ls = sized (pdata_bytes h strip pt) @ tail"
  obtains ls' where "bcread_proto h (protos_of (loaded_objs h strip (pt_kgc pt)) @ st) ls = Some (Inr (Some (loaded h strip pt), st, ls'))"
    "open_input ls'" "rest ls' = tail" "same_dump ls ls'"
proof -
  let ?P = "pdata_bytes h strip pt"
  let ?st = "protos_of (loaded_objs h strip (pt_kgc pt)) @ st"
  let ?n = "length ?P"
  have n: "?n \<le> LJ_MAX_MEM" "?n < 2 ^ 32" using ok by (simp_all add: pt_ok_def LJ_MAX_MEM_def)
  have pos: "0 < ?n" using length_pdata [of h strip pt] by linarith
  obtain b bs where b: "uleb ?n = b # bs" "b \<noteq> 0" using uleb_head [OF pos] by blast
  have e: "length (uleb ?n) \<le> 5" using n(2) by (intro length_uleb32) simp
  have "\<not> (ls_p ls \<noteq> [] \<and> ls_p ls ! 0 = 0)"
  proof
    assume z: "ls_p ls \<noteq> [] \<and> ls_p ls ! 0 = 0"
    then have "rest ls ! 0 = 0" by (simp add: rest_def nth_append)
    then show False using ls(2) b by (simp add: sized_def)
  qed
  moreover have "5 \<le> length (rest ls)" using ls(2) length_pdata [of h strip pt] by (simp add: sized_def)
  then obtain ls1 where ls1: "bcread_want 5 ls = Inr ls1" "rest ls1 = rest ls" "5 \<le> length (ls_p ls1)" "open_input ls1" "same_dump ls ls1"
    using bcread_have [OF ls(1), of 5] by (auto simp: LJ_MAX_MEM_def)
  have "rest ls1 = uleb ?n @ ?P @ tail" using ls1(2) ls(2) by (simp add: sized_def)
  then obtain q where q: "ls_p ls1 = uleb ?n @ q" "q @ concat (ls_more ls1) = ?P @ tail"
    using at_hand [of ls1 "uleb ?n" "?P @ tail"] ls1(3) e by auto
  have u: "bcread_uleb128 (ls_p ls1) = Some (of_nat ?n, q)" "unat (of_nat ?n :: u32) = ?n"
    using bcread_uleb128_uleb [OF n(2)] q(1) n(2) by (simp_all add: length_of_u32)
  let ?ls = "ls1\<lparr>ls_p := q\<rparr>"
  have "open_input ?ls" "rest ?ls = ?P @ tail" using ls1(4) q(2) by (simp_all add: open_input_def rest_def)
  then obtain ls2 where ls2: "bcread_need ?n ?ls = Inr ls2" "rest ls2 = ?P @ tail" "?n \<le> length (ls_p ls2)" "open_input ls2" "same_dump ?ls ls2"
    using bcread_have [of ?ls ?n] n(1) by auto
  obtain q2 where q2: "ls_p ls2 = ?P @ q2" "q2 @ concat (ls_more ls2) = tail" using at_hand [OF ls2(2,3)] by blast
  have f: "ls_flags ls2 = ls_flags ls" using ls1(5) ls2(5) by (simp add: same_dump_def)
  have "bcread_pdata h (ls_flags ls2) ?st (ls_p ls2) = Some (Inr (loaded h strip pt, st, q2))"
    unfolding q2(1) f by (rule read_pdata [OF ok fl])
  then have "bcread_sized h ?st ?n ?ls = Some (Inr (loaded h strip pt, st, ls2\<lparr>ls_p := q2\<rparr>))"
    using ls2(1) q2(1) by (simp add: bcread_sized_def)
  moreover have "(of_nat ?n :: u32) \<noteq> 0" using u(2) pos by (metis less_irrefl unat_0)
  ultimately have "bcread_proto h ?st ls = Some (Inr (Some (loaded h strip pt), st, ls2\<lparr>ls_p := q2\<rparr>))"
    using ls1(1) u unfolding bcread_proto_def by simp
  then show thesis using that [of "ls2\<lparr>ls_p := q2\<rparr>"] ls2(4,5) ls1(5) q2(2) by (simp add: open_input_def rest_def same_dump_def)
qed

subsection \<open>All blocks\<close>

text \<open>A prototype that can be dumped: every prototype below it is as the compiler makes it.\<close>

fun dumpable :: "host \<Rightarrow> bool \<Rightarrow> gcproto \<Rightarrow> bool"
  and dumpable_objs :: "host \<Rightarrow> bool \<Rightarrow> bool \<Rightarrow> gcobj list \<Rightarrow> bool" where
  "dumpable h strip (Gcproto fl np fs tr bc uv kgc kn first num dbg) \<longleftrightarrow>
     pt_ok h strip (Gcproto fl np fs tr bc uv kgc kn first num dbg) \<and> dumpable_objs h strip (fl AND PROTO_CHILD \<noteq> 0) kgc"
| "dumpable_objs h strip children [] \<longleftrightarrow> True"
| "dumpable_objs h strip children (obj # objs) \<longleftrightarrow>
     (case obj of K_proto pt \<Rightarrow> children \<and> dumpable h strip pt | _ \<Rightarrow> True) \<and> dumpable_objs h strip children objs"

lemma dumpable_writable: "dumpable h strip pt \<Longrightarrow> writable h strip pt"
  and dumpable_objs_writable: "dumpable_objs h strip c objs \<Longrightarrow> writable_objs h strip objs"
  by (induction h strip pt and h strip c objs rule: dumpable_dumpable_objs.induct)
    (auto simp: pt_ok_def LJ_MAX_MEM_def split: gcobj.splits)

lemma no_children: "dumpable_objs h strip False objs \<Longrightarrow> protos_of (loaded_objs h strip objs) = []"
  by (induction objs) (auto simp: protos_of_def split: gcobj.splits)

lemma read_blocks:
  "dumpable h strip pt \<Longrightarrow> \<not> bcread_swap (ls_flags ls) \<Longrightarrow> (ls_flags ls AND BCDUMP_F_STRIP \<noteq> 0) = strip \<Longrightarrow> open_input ls
    \<Longrightarrow> rest ls = concat (proto_blocks h strip pt) @ tail
    \<Longrightarrow> \<exists>ls'. bcread_protos h st ls = bcread_protos h (loaded h strip pt # st) ls' \<and> open_input ls' \<and> rest ls' = tail \<and> same_dump ls ls'"
  and read_children:
  "dumpable_objs h strip c objs \<Longrightarrow> \<not> bcread_swap (ls_flags ls) \<Longrightarrow> (ls_flags ls AND BCDUMP_F_STRIP \<noteq> 0) = strip \<Longrightarrow> open_input ls
    \<Longrightarrow> rest ls = concat (children_blocks h strip objs) @ tail
    \<Longrightarrow> \<exists>ls'. bcread_protos h st ls = bcread_protos h (protos_of (loaded_objs h strip objs) @ st) ls'
      \<and> open_input ls' \<and> rest ls' = tail \<and> same_dump ls ls'"
proof (induction h strip pt and h strip c objs arbitrary: ls st tail and ls st tail rule: dumpable_dumpable_objs.induct)
  case (1 h strip fl np fs tr bc uv kgc kn first num dbg)
  let ?pt = "Gcproto fl np fs tr bc uv kgc kn first num dbg"
  let ?st = "protos_of (loaded_objs h strip kgc) @ st"
  let ?block = "sized (pdata_bytes h strip ?pt)"
  have ok: "pt_ok h strip ?pt" "dumpable_objs h strip (fl AND PROTO_CHILD \<noteq> 0) kgc" using "1.prems"(1) by simp_all
  obtain ls1 where ls1: "bcread_protos h st ls = bcread_protos h ?st ls1" "open_input ls1" "rest ls1 = ?block @ tail" "same_dump ls ls1"
  proof (cases "fl AND PROTO_CHILD = 0")
    case True
    then have "?st = st" using ok(2) no_children by simp
    then show thesis using that [of ls] "1.prems" True by (simp add: same_dump_def)
  next
    case False
    then show thesis using that "1.IH" [OF ok(2) "1.prems"(2-4), of "?block @ tail" st] "1.prems"(5) by auto
  qed
  have "\<not> bcread_swap (ls_flags ls1)" "(ls_flags ls1 AND BCDUMP_F_STRIP \<noteq> 0) = strip"
    using "1.prems"(2,3) ls1(4) by (simp_all add: same_dump_def)
  from read_block [OF ok(1) this ls1(2,3), of st] obtain ls2 where
    "bcread_proto h ?st ls1 = Some (Inr (Some (loaded h strip ?pt), st, ls2))" "open_input ls2" "rest ls2 = tail" "same_dump ls1 ls2"
    by auto
  then show ?case using ls1(1) same_dump_trans [OF ls1(4)] by (subst (asm) (2) bcread_protos.simps) (auto simp del: loaded.simps)
next
  case (3 h strip c obj objs)
  obtain ls1 where ls1: "bcread_protos h st ls = bcread_protos h (protos_of (loaded_objs h strip objs) @ st) ls1" "open_input ls1"
    "rest ls1 = concat (children_blocks h strip [obj]) @ tail" "same_dump ls ls1"
    using "3.IH"(2) [of ls "concat (children_blocks h strip [obj]) @ tail" st] "3.prems" by auto
  have f: "\<not> bcread_swap (ls_flags ls1)" "(ls_flags ls1 AND BCDUMP_F_STRIP \<noteq> 0) = strip"
    using "3.prems"(2,3) ls1(4) by (simp_all add: same_dump_def)
  show ?case
  proof (cases obj)
    case (K_proto pt)
    then show ?thesis using "3.IH"(1) [OF K_proto _ f ls1(2), of tail "protos_of (loaded_objs h strip objs) @ st"] "3.prems"(1) ls1
        same_dump_trans [OF ls1(4)] by (auto simp: protos_of_def)
  qed (use ls1 in \<open>auto simp: protos_of_def\<close>)
next
  case (2 h strip c)
  then show ?case by (auto simp: protos_of_def same_dump_def)
qed

text \<open>The end mark.\<close>

lemma read_end:
  assumes "open_input ls" "rest ls = [0]"
  shows "\<exists>ls'. bcread_protos h st ls = Some (Inr (st, ls')) \<and> ls_p ls' = [] \<and> same_dump ls ls'"
proof (cases "ls_p ls")
  case Nil
  have "concat (ls_more ls) = [0]" "[] \<notin> List.set (ls_more ls)" using assms Nil by (simp_all add: open_input_def rest_def)
  then obtain buf pieces where more: "ls_more ls = buf # pieces" "buf @ concat pieces = [0]" "buf \<noteq> []" "[] \<notin> List.set pieces"
    by (cases "ls_more ls") auto
  then have "buf = [0]" "concat pieces = []" by (auto simp: append_eq_Cons_conv)
  then have "ls_more ls = [[0]]" using more by (cases pieces) auto
  then have "bcread_want 5 ls = Inr (ls\<lparr>ls_p := [0], ls_more := [], ls_eof := True\<rparr>)"
    using assms Nil by (simp add: bcread_want_def bcread_fill_def open_input_def LJ_MAX_MEM_def)
  then have "bcread_proto h st ls = Some (Inr (None, st, ls\<lparr>ls_p := [], ls_more := [], ls_eof := True\<rparr>))"
    using Nil by (simp add: bcread_proto_def)
  then show ?thesis by (subst bcread_protos.simps) (simp add: same_dump_def)
next
  case (Cons b p)
  then have "b = 0" "p = []" using assms(2) by (auto simp: rest_def)
  then have "bcread_proto h st ls = Some (Inr (None, st, ls\<lparr>ls_p := []\<rparr>))" using Cons by (simp add: bcread_proto_def)
  then show ?thesis by (subst bcread_protos.simps) (simp add: same_dump_def)
qed


subsection \<open>The header\<close>

lemma header_flags:
  obtains b :: u8 where "ucast ((if strip then BCDUMP_F_STRIP else 0) + (if ffi then BCDUMP_F_FFI else 0)) = b"
    "\<And>p. bcread_uleb128 (b # p) = Some (ucast b, p)" "(ucast b :: u32) AND NOT 7 = 0"
    "((ucast b :: u32) AND BCDUMP_F_STRIP \<noteq> 0) = strip" "\<not> bcread_swap (ucast b)"
proof -
  have six: "bcread_uleb128 (6 # p) = Some (6, p)" for p using read_small [of 6 6 p] by simp
  have "\<exists>b :: u8. ucast ((if strip then BCDUMP_F_STRIP else 0) + (if ffi then BCDUMP_F_FFI else 0)) = b
    \<and> (\<forall>p. bcread_uleb128 (b # p) = Some (ucast b, p)) \<and> (ucast b :: u32) AND NOT 7 = 0
    \<and> ((ucast b :: u32) AND BCDUMP_F_STRIP \<noteq> 0) = strip \<and> \<not> bcread_swap (ucast b)"
    using six by (cases strip; cases ffi) (simp_all add: bcdump_head bcread_swap_def)
  then show thesis using that by blast
qed

lemma read_header:
  assumes ls: "open_input ls" "rest ls = tl (header_bytes strip name pt) @ tail" and tail: "9 \<le> length tail" "length name \<le> LJ_MAX_MEM"
  shows "\<exists>ls'. bcread_header chunkarg ls = Some (Inr (True, ls')) \<and> open_input ls' \<and> rest ls' = tail \<and> \<not> bcread_swap (ls_flags ls')
    \<and> (ls_flags ls' AND BCDUMP_F_STRIP \<noteq> 0) = strip \<and> ls_chunkname ls' = (if strip then chunkarg else name)"
proof -
  obtain b :: u8 where b: "ucast ((if strip then BCDUMP_F_STRIP else 0) + (if pt_flags pt AND PROTO_FFI \<noteq> 0 then BCDUMP_F_FFI else 0)) = b"
    "\<And>p. bcread_uleb128 (b # p) = Some (ucast b, p)" "(ucast b :: u32) AND NOT 7 = 0"
    "((ucast b :: u32) AND BCDUMP_F_STRIP \<noteq> 0) = strip" "\<not> bcread_swap (ucast b)"
    using header_flags [of strip "pt_flags pt AND PROTO_FFI \<noteq> 0"] by metis
  let ?size = "word_bytes (of_nat (length name))"
  have all: "rest ls = [BCDUMP_HEAD2, BCDUMP_HEAD3, BCDUMP_VERSION, b] @ (if strip then [] else ?size @ name) @ tail"
    using ls(2) b(1) by (simp add: header_bytes_def)
  have "1 \<le> length ?size" by (simp add: Suc_le_eq)
  then have "13 \<le> length (rest ls)" using tail(1) all by simp
  then obtain ls1 where ls1: "bcread_want 13 ls = Inr ls1" "rest ls1 = rest ls" "13 \<le> length (ls_p ls1)" "open_input ls1"
    using bcread_have [OF ls(1), of 13] by (auto simp: LJ_MAX_MEM_def)
  show ?thesis
  proof (cases strip)
    case True
    then obtain q where q: "ls_p ls1 = [BCDUMP_HEAD2, BCDUMP_HEAD3, BCDUMP_VERSION, b] @ q" "q @ concat (ls_more ls1) = tail"
      using at_hand [of ls1 "[BCDUMP_HEAD2, BCDUMP_HEAD3, BCDUMP_VERSION, b]" tail] ls1(2,3) all by auto
    then have "bcread_header chunkarg ls
        = Some (Inr (True, ls1\<lparr>ls_p := q, ls_flags := ucast b, ls_chunkname := chunkarg\<rparr>))"
      using ls1(1) b(2-4) True by (simp add: bcread_header_def bcread_byte_def Let_def)
    then show ?thesis using q(2) b(4,5) ls1(4) True by (simp add: open_input_def rest_def)
  next
    case False
    have "length ([BCDUMP_HEAD2, BCDUMP_HEAD3, BCDUMP_VERSION, b] @ ?size) \<le> length (ls_p ls1)"
      using ls1(3) length_word_bytes [of "of_nat (length name)"] by simp
    then obtain q where q: "ls_p ls1 = ([BCDUMP_HEAD2, BCDUMP_HEAD3, BCDUMP_VERSION, b] @ ?size) @ q" "q @ concat (ls_more ls1) = name @ tail"
      using at_hand [of ls1 "[BCDUMP_HEAD2, BCDUMP_HEAD3, BCDUMP_VERSION, b] @ ?size" "name @ tail"] ls1(2) all False by auto
    let ?ls = "ls1\<lparr>ls_flags := ucast b, ls_p := q\<rparr>"
    have "open_input ?ls" "rest ?ls = name @ tail" using ls1(4) q(2) by (simp_all add: open_input_def rest_def)
    then obtain ls2 where ls2: "bcread_need (length name) ?ls = Inr ls2" "rest ls2 = name @ tail" "length name \<le> length (ls_p ls2)"
      "open_input ls2" "same_dump ?ls ls2"
      using bcread_have [of ?ls "length name"] tail(2) by auto
    obtain q2 where q2: "ls_p ls2 = name @ q2" "q2 @ concat (ls_more ls2) = tail" using at_hand [OF ls2(2,3)] by blast
    have u: "unat (of_nat (length name) :: u32) = length name" using tail(2) by (simp add: length_of_u32 LJ_MAX_MEM_def)
    have "bcread_header chunkarg ls = Some (Inr (True, ls2\<lparr>ls_p := q2, ls_chunkname := name\<rparr>))"
      using ls1(1) b(2-4) False q(1) ls2(1) q2(1) u by (simp add: bcread_header_def bcread_byte_def bcread_mem_def Let_def)
    then show ?thesis using q2(2) b(4,5) ls2(4,5) False by (simp add: open_input_def rest_def same_dump_def)
  qed
qed

subsection \<open>The round trip\<close>

lemma lj_bcread_dump:
  assumes "dumpable h strip pt" "length name \<le> LJ_MAX_MEM" "open_input ls" "rest ls = tl (concat (dump_pieces h strip name pt))"
  shows "lj_bcread h chunkarg ls = Some (Inr (loaded h strip pt, if strip then chunkarg else name))"
proof -
  let ?blocks = "concat (proto_blocks h strip pt)"
  have "8 \<le> length ?blocks"
  proof -
    have "1 \<le> length (uleb (length (pdata_bytes h strip pt)))" by (simp add: Suc_le_eq)
    then have "8 \<le> length (sized (pdata_bytes h strip pt))" using length_pdata [of h strip pt] by (simp add: sized_def)
    then show ?thesis by (cases pt) simp
  qed
  moreover have "rest ls = tl (header_bytes strip name pt) @ ?blocks @ [0]"
    using assms(4) by (simp add: dump_pieces_def header_bytes_def)
  ultimately obtain ls1 where ls1: "bcread_header chunkarg ls = Some (Inr (True, ls1))" "open_input ls1" "rest ls1 = ?blocks @ [0]"
    "\<not> bcread_swap (ls_flags ls1)" "(ls_flags ls1 AND BCDUMP_F_STRIP \<noteq> 0) = strip" "ls_chunkname ls1 = (if strip then chunkarg else name)"
    using read_header [of ls strip name pt "?blocks @ [0]" chunkarg] assms(2,3) by auto
  obtain ls2 where ls2: "bcread_protos h [] ls1 = bcread_protos h [loaded h strip pt] ls2" "open_input ls2" "rest ls2 = [0]" "same_dump ls1 ls2"
    using read_blocks [OF assms(1) ls1(4,5,2,3), of "[]"] by blast
  obtain ls3 where "bcread_protos h [loaded h strip pt] ls2 = Some (Inr ([loaded h strip pt], ls3))" "ls_p ls3 = []" "same_dump ls2 ls3"
    using read_end [OF ls2(2,3)] by blast
  then show ?thesis using ls1(1,6) ls2(1,4) by (simp add: lj_bcread_def same_dump_def)
qed

lemma pass_collect: "pass (\<lambda>p out. (0, out @ p)) ps (0, out) = (0, out @ concat ps)"
proof (induction ps arbitrary: out)
  case (Cons p ps)
  then show ?case using pass_append [of "\<lambda>p out. (0, out @ p)" "[p]" ps "(0, out)"] by (simp add: pass_def)
qed simp

text \<open>C39: A function that is dumped and loaded again is the function: the bytes the writer passes on, handed to
  the reader in pieces of any sizes, give the same prototype with the same constants, tables, children and
  debug information, instructions that were patched for traces restored.\<close>

theorem bytecode_round_trip:
  assumes "dumpable h strip pt" "length name \<le> LJ_MAX_MEM"
  shows "\<exists>dump. lj_bcwrite h name pt (\<lambda>p out. (0, out @ p)) [] strip = Some (0, BCDUMP_HEAD1 # dump)
    \<and> (\<forall>p pieces flags oldname. p @ concat pieces = dump \<and> [] \<notin> List.set pieces \<longrightarrow>
        lj_bcread h chunkarg \<lparr>ls_p = p, ls_more = pieces, ls_eof = False, ls_flags = flags, ls_chunkname = oldname\<rparr>
          = Some (Inr (loaded h strip pt, if strip then chunkarg else name)))"
proof (intro exI conjI allI impI)
  have "concat (dump_pieces h strip name pt) = BCDUMP_HEAD1 # tl (concat (dump_pieces h strip name pt))"
    by (simp add: dump_pieces_def header_bytes_def)
  moreover have "lj_bcwrite h name pt (\<lambda>p out. (0, out @ p)) [] strip = Some (pass (\<lambda>p out. (0, out @ p)) (dump_pieces h strip name pt) (0, []))"
    by (rule lj_bcwrite_passes [OF dumpable_writable [OF assms(1)]])
  ultimately show "lj_bcwrite h name pt (\<lambda>p out. (0, out @ p)) [] strip = Some (0, BCDUMP_HEAD1 # tl (concat (dump_pieces h strip name pt)))"
    by (simp add: pass_collect)
  fix p pieces flags oldname
  assume "p @ concat pieces = tl (concat (dump_pieces h strip name pt)) \<and> [] \<notin> List.set pieces"
  then show "lj_bcread h chunkarg \<lparr>ls_p = p, ls_more = pieces, ls_eof = False, ls_flags = flags, ls_chunkname = oldname\<rparr>
      = Some (Inr (loaded h strip pt, if strip then chunkarg else name))"
    by (intro lj_bcread_dump [OF assms]) (simp_all add: open_input_def rest_def)
qed


lemma sample_tab_ok:
  "tab_ok x64_host (Gctab [Tv_nil, Tv_num 0 0x3ff00000, Tv_nil] [(Tv_str [107], Tv_true), (Tv_nil, Tv_nil)])"
  by (simp add: tab_ok_def used_array_def used_nodes_def x64_host_def)

lemma sample_ok: "pt_ok x64_host False sample" "pt_ok x64_host False sample_child"
proof -
  have len: "length (pdata_bytes x64_host False sample) \<le> LJ_MAX_MEM" "length (pdata_bytes x64_host False sample_child) \<le> LJ_MAX_MEM"
    using sample_lengths by (simp_all add: LJ_MAX_MEM_def)
  show "pt_ok x64_host False sample" unfolding pt_ok_def
    by (intro conjI len) (use sample_tab_ok in \<open>simp_all add: sample_def x64_host_def obj_ok_def dbg_ok_def written_dbg_def
      lineinfo_size_def\<close>)
  show "pt_ok x64_host False sample_child" unfolding pt_ok_def
    by (intro conjI len) (simp_all add: sample_child_def x64_host_def dbg_ok_def written_dbg_def lineinfo_size_def)
qed

lemma sample_dumpable: "dumpable x64_host False sample"
  using sample_ok by (simp add: sample_def sample_child_def PROTO_CHILD_def)

text \<open>The dump is handed over byte by byte.\<close>

lemma bytewise: "concat (map (\<lambda>b. [b]) xs) = xs" "[] \<notin> List.set (map (\<lambda>b. [b]) xs)"
  by (induction xs) auto

lemma bytecode_round_trip_witness:
  "\<exists>dump. lj_bcwrite x64_host [64, 120] sample (\<lambda>p out. (0, out @ p)) [] False = Some (0, BCDUMP_HEAD1 # dump)
    \<and> lj_bcread x64_host [61] \<lparr>ls_p = [], ls_more = map (\<lambda>b. [b]) dump, ls_eof = False, ls_flags = 0, ls_chunkname = []\<rparr>
      = Some (Inr (loaded x64_host False sample, [64, 120]))"
proof -
  have "length [64 :: u8, 120] \<le> LJ_MAX_MEM" by (simp add: LJ_MAX_MEM_def)
  from bytecode_round_trip [OF sample_dumpable this, of "[61]"] obtain dump where
    "lj_bcwrite x64_host [64, 120] sample (\<lambda>p out. (0, out @ p)) [] False = Some (0, BCDUMP_HEAD1 # dump)"
    "\<forall>p pieces flags oldname. p @ concat pieces = dump \<and> [] \<notin> List.set pieces \<longrightarrow>
        lj_bcread x64_host [61] \<lparr>ls_p = p, ls_more = pieces, ls_eof = False, ls_flags = flags, ls_chunkname = oldname\<rparr>
          = Some (Inr (loaded x64_host False sample, if False then [61] else [64, 120]))" by blast
  then show ?thesis using bytewise [of dump] by (intro exI [of _ dump]) simp
qed

text \<open>The loop that was patched is one again.\<close>

lemma sample_loaded: "pt_bc (loaded x64_host False sample) = [0x80000051, 0x00010047]"
  by (simp add: sample_def Let_def written_bc_def PROTO_ILOOP_def unpatch_def bc_op_def BC_IFORL_def BC_IITERL_def BC_ILOOP_def
      BC_JFORI_def BC_JFORL_def BC_JITERL_def BC_JLOOP_def BC_FORL_def)

text \<open>A dump that ends in the header is read behind its end: the reader asks for 13 bytes it may not get
  and does not look how many it has.\<close>

lemma truncated_header_is_read:
  "lj_bcread h chunkarg \<lparr>ls_p = [BCDUMP_HEAD2], ls_more = [], ls_eof = False, ls_flags = 0, ls_chunkname = []\<rparr> = None"
  by (simp add: lj_bcread_def bcread_header_def bcread_want_def bcread_fill_def bcread_byte_def LJ_MAX_MEM_def)

end
