(* ===== verification/Spec2Isabelle.thy ===== *)
theory Spec2Isabelle
  imports Cron_Next_Correct Cron_Meaning Cron_Tool_Correct Cron_Deviations Mime_Text Mime_Safety Timeout_Correct
    Buffer_Stream Lj_Strscan_Correct Sock_Life Tcp_Class Select_Correct Udp_Correct Lj_Bc_Roundtrip
begin

text \<open>
  The C code of smart_device_svr.

  The repository is a device server written in Lua. Its C code is the two programs that tell when a
  crontab line is to be executed next or was executed last
  (\<open>cron_next_epoch_time_this_line_should_execute.c\<close>,
  \<open>cron_last_epoch_time_this_line_was_supposedly_executed.c\<close>), the library under them
  (\<open>ccronexpr.c\<close>), and what the server runs on: the network library \<open>luasocket\<close> and the interpreter
  \<open>LuaJIT\<close>, which are part of the repository.

  Theories and sources.

  \<open>Prelude\<close> holds the lemma collections and the conversions every component uses. \<open>Civil_Time\<close> and
  \<open>C_Time\<close> are the calendar and \<open>struct tm\<close> of the C library, \<open>C_String\<close> its string functions. The
  time zone of the host is a record of functions, an argument of every definition that calls
  \<open>mktime\<close> or \<open>localtime\<close>; \<open>fixed_zone\<close> is the instance of a constant offset.

  \<open>Cron_Bits\<close>, \<open>Cron_Calendar\<close>, \<open>Cron_Next\<close>, \<open>Cron_Prev\<close>, \<open>Cron_Text\<close> and \<open>Cron_Parse\<close> model
  \<open>ccronexpr.c\<close> function by function under the names of the source. A struct is a record, a byte
  array a list of 8-bit words, an error code the integer it is; \<open>None\<close> is what has no defined
  result (an access outside of an array, a write behind an allocated block) or a recursion that
  exceeds its fuel. \<open>Cron_Match\<close> is the specification: \<open>matches e s\<close> says that every field of the
  instant \<open>s\<close> is set in the expression \<open>e\<close>, \<open>next_match\<close> and \<open>prev_match\<close> are the least later and
  the greatest earlier match. \<open>Cron_Find\<close>, \<open>Cron_Next_Correct\<close>, \<open>Cron_Find_Prev\<close> and
  \<open>Cron_Prev_Correct\<close> prove that the searches meet it for regular expressions: the seconds are one
  value or an interval, one of the two day fields is unrestricted, the days are at most 28 (27 for
  the search back) unless the months are. \<open>Cron_Termination\<close> shows that \<open>do_next\<close> ends for
  every expression, at a later instant or with an error, and that \<open>do_prev\<close> has no bound;
  \<open>Cron_Deviations\<close> evaluates three expressions outside of the regular ones. \<open>Cron_Parse_Correct\<close> shows that the parser is safe and \<open>Cron_Meaning\<close>
  what it computes, up to reading back the canonical text of an expression.

  \<open>Cron_Tool_Last\<close> and \<open>Cron_Tool_Next\<close> model the two programs from the arguments to what is
  printed and the exit status, \<open>Cron_Tool_Correct\<close> composes them with the parser and the searches.

  \<open>Mime\<close> models the filters of \<open>mime.c\<close> with their tables; \<open>Mime_Base64\<close>, \<open>Mime_QP\<close>, \<open>Mime_Text\<close> and
  \<open>Mime_Safety\<close> hold the round trips, the chunk-by-chunk behaviour, the line lengths and the bounds.

  \<open>Sys_Calls\<close> is the operating system as a transcript: a \<open>world\<close> holds the answers to come and the
  calls made, so that a theorem about all worlds is one about every behaviour of the system.
  \<open>Timeout\<close> models \<open>timeout.c\<close> (a double is a real number), \<open>Usocket\<close> models \<open>usocket.c\<close> and
  \<open>io.c\<close>, \<open>Buffer\<close> models \<open>buffer.c\<close>. \<open>Timeout_Correct\<close>, \<open>Usocket_Correct\<close>, \<open>Buffer_Correct\<close> and
  \<open>Buffer_Stream\<close> show what a transfer hands over, that every wait ends at the deadline its timeouts
  set, and that the stream a Lua program sees does not depend on how the system cuts it.

  \<open>Options\<close> models \<open>options.c\<close> with the option tables of the two kinds of sockets, \<open>Inet\<close> models
  \<open>inet.c\<close> (names and addresses, binding and connecting), \<open>Tcp\<close> and \<open>Udp\<close> the methods of
  \<open>tcp.c\<close> and \<open>udp.c\<close> with the results they leave on the stack of Lua, \<open>Select\<close> models
  \<open>select.c\<close>. \<open>Descriptors\<close> is the table of open descriptors that a transcript of calls leaves;
  \<open>Sock_Life\<close> shows of every function which descriptors it opens and closes, composed from the rules
  for its calls. \<open>Tcp_Class\<close> has the three classes of a TCP object as an ordered type and which
  method keeps or changes the class, \<open>Buffer_Frame\<close> that a transfer over a buffer leaves the rest of
  the object alone, \<open>Select_Correct\<close> and \<open>Udp_Correct\<close> what \<open>select\<close> reports and what a datagram
  socket hands over.

  \<open>Lj_Char\<close> and \<open>Lj_Strscan\<close> model the number scanner of LuaJIT (\<open>lj_strscan.c\<close>, \<open>lj_char.c\<close>),
  \<open>Lj_Strscan_Correct\<close> what it returns. The last step, the rounding to a double by the hardware, is
  kept as a term.

  \<open>Lj_Bcwrite\<close> and \<open>Lj_Bcread\<close> model the writer and the reader of bytecode dumps (\<open>lj_bcwrite.c\<close>,
  \<open>lj_bcread.c\<close>), with the buffer of the one as an array and the input of the other as pieces from a
  callback. \<open>Lj_Bc_Codec\<close> shows that the two agree on numbers of 32 and 33 bits and that a double
  whose value is an integer is determined by it, \<open>Lj_Bcwrite_Correct\<close> which bytes the writer passes
  on (\<open>pdata_bytes\<close>, \<open>dump_pieces\<close>), \<open>Lj_Bcread_Correct\<close> what the reader makes of them, and
  \<open>Lj_Bc_Roundtrip\<close> composes both.

  Interfaces.

  The searches rely on \<open>cron_clock\<close> (a calendar stands for an instant, and each operation moves it
  to another), interpreted by the UTC and the local-time build, and on \<open>bit_store\<close>, interpreted by
  the byte arrays. The buffer relies on \<open>io_driver\<close>, interpreted by the functions of a TCP socket
  and of a serial port; \<open>io_frame\<close> extends it by what such a driver leaves unchanged.

  Fuel and bounds.

  \<open>do_next\<close>, \<open>do_prev\<close>, \<open>cron_next\<close> and \<open>cron_prev\<close> take the depth of the recursion as an argument.
  The theorems on results say that from some depth on every depth gives the result, so that they
  include termination; for \<open>cron_prev\<close> of every expression no such depth exists. The loops over
  system calls end because each round takes an answer. The other loops have measures. Dates are
  from 0 to \<open>2 ^ 50\<close> in the theorems on zones, offsets at most a day.

  Not modelled.

  The Lua programs and the shell and Emacs scripts (the interpreter is needed to give them a
  meaning), the Windows and embedded variants of the C code, failing allocations, the Unix domain and
  serial objects of \<open>luasocket\<close>, the registration of its modules with Lua,
  \<open>ccronexpr_misc_utils.c\<close> (two calls of \<open>printf\<close>), and the rest of LuaJIT.
\<close>

end
